(* ===== verification/SM_Prelude.thy ===== *)
theory SM_Prelude
  imports "HOL-Library.Word"
begin

unbundle bit_operations_syntax

text \<open>
  Shared ground of the development: the fixed-width integer types of the C sources, the
  shifts as the RV64 target performs them, and the generic word and list lemmas the
  components use. The collections declared here are filled by the component theories:
  \<open>mem_simps\<close> holds the facts on loads after stores, \<open>sm_defs\<close> the definitions of the
  small inline helpers, \<open>call_defs\<close> the definitions of the monitor calls.
\<close>

type_synonym u8 = "8 word"
type_synonym u16 = "16 word"
type_synonym u32 = "32 word"
type_synonym u64 = "64 word"

named_theorems mem_simps
named_theorems sm_defs
named_theorems call_defs

section \<open>Shifts of the target\<close>

text \<open>
  The build (Makefile, \<open>CFLAGS\<close>) compiles for rv64g without optimisation. A shift of a
  64-bit value is the instruction \<open>sll\<close> / \<open>srl\<close>, which reads the low six bits of the
  amount; a shift of an \<open>int\<close> is \<open>sllw\<close>, which reads the low five bits and sign-extends
  its 32-bit result when the value is converted to \<open>size_t\<close>. Amounts at or above the
  width are undefined in C; the model gives them the value the target computes.
\<close>

definition sll64 :: "u64 \<Rightarrow> u64 \<Rightarrow> u64" where
  "sll64 x n = push_bit (unat (n AND 63)) x"

definition srl64 :: "u64 \<Rightarrow> u64 \<Rightarrow> u64" where
  "srl64 x n = drop_bit (unat (n AND 63)) x"

definition int_shl1 :: "u64 \<Rightarrow> u64" where
  "int_shl1 n = signed_take_bit 31 (push_bit (unat (n AND 31)) 1)"

lemma unat_of_nat64: "n < 2 ^ 64 \<Longrightarrow> unat (word_of_nat n :: u64) = n"
  by (simp add: unsigned_of_nat take_bit_nat_eq_self)

lemma unat_less64: "unat (x :: u64) < 18446744073709551616"
  using unsigned_less [of x, where ?'a = nat] by simp

lemma unat_drop_bit_1: "unat (drop_bit (Suc 0) (x :: u64)) = unat x div 2"
  by (simp add: drop_bit_eq_div unat_div)

lemma unat_pred: "0 < (x :: u64) \<Longrightarrow> unat (x - 1) = unat x - 1"
  by (rule unat_minus_one) auto

lemma word_of_nat_unat_div_64: "word_of_nat (unat (x :: u64) div 64) = x div 64"
proof -
  have "unat (x div 64) = unat x div 64" by (simp add: unat_div)
  from this [symmetric] show ?thesis by (simp only:) simp
qed

lemma mask_64: "mask 64 = (- 1 :: u64)"
  by (rule bit_word_eqI) (simp add: bit_simps)

lemma unat_exp_64: "k < 64 \<Longrightarrow> unat ((2 :: u64) ^ k) = 2 ^ k"
  using unat_of_nat64 [of "2 ^ k"] by (simp add: power_strict_increasing_iff [of 2 k 64, simplified])

lemma unat_minus1_64: "unat (- 1 :: u64) = 2 ^ 64 - 1"
  by (simp add: unsigned_minus_1_eq_mask mask_eq_exp_minus_1)

lemma unat_sub_offset:
  fixes a b k :: u64
  assumes "unat k \<le> unat (b - a)"
  shows "unat (b - (a + k)) = unat (b - a) - unat k"
proof -
  have eq: "b - (a + k) = (b - a) - k" by (simp add: algebra_simps)
  show ?thesis unfolding eq using assms unat_sub_if_size [of "b - a" k] by simp
qed

lemma unat_sub_wrap:
  fixes a b k :: u64
  assumes "unat (b - a) < unat k"
  shows "unat (b - (a + k)) = unat (b - a) + 2 ^ 64 - unat k"
proof -
  have eq: "b - (a + k) = (b - a) - k" by (simp add: algebra_simps)
  show ?thesis unfolding eq using assms unat_sub_if_size [of "b - a" k] by (simp add: word_size)
qed

lemma unat_minus_nonzero:
  fixes x :: u64
  assumes "x \<noteq> 0"
  shows "unat (- x) = 2 ^ 64 - unat x"
proof -
  have "\<not> unat x \<le> 0" using assms by (simp add: unat_eq_0)
  then have "unat (0 - x) = 2 ^ 64 - unat x"
    using unat_sub_if_size [of 0 x] by (simp add: word_size del: diff_0)
  then show ?thesis by simp
qed

lemma and_mask_small:
  fixes n :: "'a::len word"
  assumes "unat n < 2 ^ k" "k < LENGTH('a)"
  shows "n AND mask k = n"
proof -
  have "unat (take_bit k n) = unat n"
    using assms(1) by (simp add: unsigned_take_bit_eq take_bit_nat_eq_self)
  then have "take_bit k n = n" by (rule unsigned_word_eqI)
  then show ?thesis by (simp add: take_bit_eq_mask)
qed

lemma and_63_small: "unat (n :: u64) < 64 \<Longrightarrow> n AND 63 = n"
  using and_mask_small [of n 6] by (simp add: mask_eq_exp_minus_1)

lemma and_31_small: "unat (n :: u64) < 32 \<Longrightarrow> n AND 31 = n"
  using and_mask_small [of n 5] by (simp add: mask_eq_exp_minus_1)

lemma sll64_small: "unat n < 64 \<Longrightarrow> sll64 x n = push_bit (unat n) x"
  by (simp add: sll64_def and_63_small)

lemma srl64_small: "unat n < 64 \<Longrightarrow> srl64 x n = drop_bit (unat n) x"
  by (simp add: srl64_def and_63_small)

lemma bit_int_shl1:
  assumes "unat n < 31"
  shows "bit (int_shl1 n) k \<longleftrightarrow> k = unat n"
  using assms by (auto simp: int_shl1_def and_31_small bit_simps bit_signed_take_bit_iff)

lemma int_shl1_small: "unat n < 31 \<Longrightarrow> int_shl1 n = push_bit (unat n) 1"
  by (rule bit_word_eqI) (auto simp: bit_int_shl1 bit_simps)

section \<open>Keyed stores\<close>

text \<open>
  The contract of a table of independent cells: what is read after a write. The region
  table, the region bitmaps and the metadata words are such tables; the loops of the
  monitor that write one value to a list of keys are treated once, here.
\<close>

locale keyed_store =
  fixes get :: "'s \<Rightarrow> 'k \<Rightarrow> 'v"
    and put :: "'k \<Rightarrow> 'v \<Rightarrow> 's \<Rightarrow> 's"
    and valid :: "'s \<Rightarrow> 'k \<Rightarrow> bool"
  assumes get_put_same: "valid s k \<Longrightarrow> get (put k v s) k = v"
    and get_put_other: "valid s k \<Longrightarrow> valid s j \<Longrightarrow> j \<noteq> k \<Longrightarrow> get (put k v s) j = get s j"
    and valid_put: "valid s k \<Longrightarrow> valid (put k v s) j \<longleftrightarrow> valid s j"
begin

lemma get_put:
  "valid s k \<Longrightarrow> valid s j \<Longrightarrow> get (put k v s) j = (if j = k then v else get s j)"
  by (simp add: get_put_same get_put_other)

lemma valid_fold:
  "\<forall>k\<in>set ks. valid s k \<Longrightarrow> valid (fold (\<lambda>k. put k v) ks s) j \<longleftrightarrow> valid s j"
  by (induction ks arbitrary: s) (simp_all add: valid_put)

lemma get_fold:
  "\<forall>k\<in>set ks. valid s k \<Longrightarrow> valid s j \<Longrightarrow>
   get (fold (\<lambda>k. put k v) ks s) j = (if j \<in> set ks then v else get s j)"
proof (induction ks arbitrary: s)
  case (Cons k ks)
  then show ?case by (simp add: valid_put get_put)
qed simp

end

section \<open>Machines that refine a transition relation\<close>

text \<open>
  A sequence of calls on a machine; a call that does not return ends the run without a state.
\<close>

fun run_calls :: "('c \<Rightarrow> 's \<Rightarrow> ('r \<times> 's) option) \<Rightarrow> 'c list \<Rightarrow> 's \<Rightarrow> 's option" where
  "run_calls step [] s = Some s"
| "run_calls step (c # cs) s =
     (case step c s of None \<Rightarrow> None | Some (r, t) \<Rightarrow> run_calls step cs t)"

lemma run_calls_append:
  "run_calls step (cs @ ds) s = Option.bind (run_calls step cs s) (run_calls step ds)"
  by (induction cs arbitrary: s) (auto split: option.splits prod.splits)

text \<open>
  The contract between a machine and an abstract transition relation: from a state of the
  invariant, every call that returns keeps the invariant and makes an abstract step.
\<close>

locale simulation =
  fixes step :: "'c \<Rightarrow> 's \<Rightarrow> ('r \<times> 's) option"
    and inv :: "'s \<Rightarrow> bool"
    and abs :: "'s \<Rightarrow> 'a"
    and astep :: "'a \<Rightarrow> 'c \<Rightarrow> 'a \<Rightarrow> bool"
  assumes step_sim: "inv s \<Longrightarrow> step c s = Some (r, t) \<Longrightarrow> inv t \<and> astep (abs s) c (abs t)"
begin

lemma run_inv: "inv s \<Longrightarrow> run_calls step cs s = Some t \<Longrightarrow> inv t"
proof (induction cs arbitrary: s)
  case (Cons c cs)
  from Cons.prems(2) obtain r u where "step c s = Some (r, u)" "run_calls step cs u = Some t"
    by (auto split: option.splits)
  with Cons step_sim show ?case by blast
qed simp

text \<open>What every abstract step keeps, every run keeps.\<close>

lemma run_keeps:
  assumes keep: "\<And>a c b. astep a c b \<Longrightarrow> P a \<Longrightarrow> P b"
  shows "inv s \<Longrightarrow> P (abs s) \<Longrightarrow> run_calls step cs s = Some t \<Longrightarrow> P (abs t)"
proof (induction cs arbitrary: s)
  case (Cons c cs)
  from Cons.prems(3) obtain r u where u: "step c s = Some (r, u)" "run_calls step cs u = Some t"
    by (auto split: option.splits)
  with step_sim [OF Cons.prems(1) u(1)] keep Cons.prems(2) Cons.IH [of u] show ?case by blast
qed simp

text \<open>If a property of the abstract state turns from true to false along a run, some call of the
  run made an abstract step that turned it.\<close>

lemma run_crossing:
  "inv s \<Longrightarrow> P (abs s) \<Longrightarrow> \<not> P (abs t) \<Longrightarrow> run_calls step cs s = Some t \<Longrightarrow>
   \<exists>c\<in>set cs. \<exists>a b. astep a c b \<and> P a \<and> \<not> P b"
proof (induction cs arbitrary: s)
  case (Cons c cs)
  from Cons.prems(4) obtain r u where u: "step c s = Some (r, u)" "run_calls step cs u = Some t"
    by (auto split: option.splits)
  note sim = step_sim [OF Cons.prems(1) u(1)]
  show ?case
  proof (cases "P (abs u)")
    case True
    with Cons.IH [of u] sim u Cons.prems show ?thesis by auto
  next
    case False
    with sim Cons.prems show ?thesis by auto
  qed
qed simp

end

end
