(* ===== verification/Aes.thy ===== *)
theory Aes
  imports SM_Prelude
begin

text \<open>
  The AES-128 implementation of \<open>common/aes/aes.c\<close> (\<open>aes.h\<close> selects \<open>Nk = 4\<close>, \<open>Nr = 10\<close>). The state
  is the 16 bytes of the block in memory order: \<open>(*state)[i][j]\<close> is byte \<open>4 * i + j\<close>. The buffers
  are byte lists; the caller's context and buffer do not overlap.
\<close>

section \<open>Tables\<close>

definition sbox :: "u8 list" where
  "sbox =
   [0x63, 0x7c, 0x77, 0x7b, 0xf2, 0x6b, 0x6f, 0xc5, 0x30, 0x01, 0x67, 0x2b, 0xfe, 0xd7, 0xab, 0x76,
    0xca, 0x82, 0xc9, 0x7d, 0xfa, 0x59, 0x47, 0xf0, 0xad, 0xd4, 0xa2, 0xaf, 0x9c, 0xa4, 0x72, 0xc0,
    0xb7, 0xfd, 0x93, 0x26, 0x36, 0x3f, 0xf7, 0xcc, 0x34, 0xa5, 0xe5, 0xf1, 0x71, 0xd8, 0x31, 0x15,
    0x04, 0xc7, 0x23, 0xc3, 0x18, 0x96, 0x05, 0x9a, 0x07, 0x12, 0x80, 0xe2, 0xeb, 0x27, 0xb2, 0x75,
    0x09, 0x83, 0x2c, 0x1a, 0x1b, 0x6e, 0x5a, 0xa0, 0x52, 0x3b, 0xd6, 0xb3, 0x29, 0xe3, 0x2f, 0x84,
    0x53, 0xd1, 0x00, 0xed, 0x20, 0xfc, 0xb1, 0x5b, 0x6a, 0xcb, 0xbe, 0x39, 0x4a, 0x4c, 0x58, 0xcf,
    0xd0, 0xef, 0xaa, 0xfb, 0x43, 0x4d, 0x33, 0x85, 0x45, 0xf9, 0x02, 0x7f, 0x50, 0x3c, 0x9f, 0xa8,
    0x51, 0xa3, 0x40, 0x8f, 0x92, 0x9d, 0x38, 0xf5, 0xbc, 0xb6, 0xda, 0x21, 0x10, 0xff, 0xf3, 0xd2,
    0xcd, 0x0c, 0x13, 0xec, 0x5f, 0x97, 0x44, 0x17, 0xc4, 0xa7, 0x7e, 0x3d, 0x64, 0x5d, 0x19, 0x73,
    0x60, 0x81, 0x4f, 0xdc, 0x22, 0x2a, 0x90, 0x88, 0x46, 0xee, 0xb8, 0x14, 0xde, 0x5e, 0x0b, 0xdb,
    0xe0, 0x32, 0x3a, 0x0a, 0x49, 0x06, 0x24, 0x5c, 0xc2, 0xd3, 0xac, 0x62, 0x91, 0x95, 0xe4, 0x79,
    0xe7, 0xc8, 0x37, 0x6d, 0x8d, 0xd5, 0x4e, 0xa9, 0x6c, 0x56, 0xf4, 0xea, 0x65, 0x7a, 0xae, 0x08,
    0xba, 0x78, 0x25, 0x2e, 0x1c, 0xa6, 0xb4, 0xc6, 0xe8, 0xdd, 0x74, 0x1f, 0x4b, 0xbd, 0x8b, 0x8a,
    0x70, 0x3e, 0xb5, 0x66, 0x48, 0x03, 0xf6, 0x0e, 0x61, 0x35, 0x57, 0xb9, 0x86, 0xc1, 0x1d, 0x9e,
    0xe1, 0xf8, 0x98, 0x11, 0x69, 0xd9, 0x8e, 0x94, 0x9b, 0x1e, 0x87, 0xe9, 0xce, 0x55, 0x28, 0xdf,
    0x8c, 0xa1, 0x89, 0x0d, 0xbf, 0xe6, 0x42, 0x68, 0x41, 0x99, 0x2d, 0x0f, 0xb0, 0x54, 0xbb, 0x16]"

definition rsbox :: "u8 list" where
  "rsbox =
   [0x52, 0x09, 0x6a, 0xd5, 0x30, 0x36, 0xa5, 0x38, 0xbf, 0x40, 0xa3, 0x9e, 0x81, 0xf3, 0xd7, 0xfb,
    0x7c, 0xe3, 0x39, 0x82, 0x9b, 0x2f, 0xff, 0x87, 0x34, 0x8e, 0x43, 0x44, 0xc4, 0xde, 0xe9, 0xcb,
    0x54, 0x7b, 0x94, 0x32, 0xa6, 0xc2, 0x23, 0x3d, 0xee, 0x4c, 0x95, 0x0b, 0x42, 0xfa, 0xc3, 0x4e,
    0x08, 0x2e, 0xa1, 0x66, 0x28, 0xd9, 0x24, 0xb2, 0x76, 0x5b, 0xa2, 0x49, 0x6d, 0x8b, 0xd1, 0x25,
    0x72, 0xf8, 0xf6, 0x64, 0x86, 0x68, 0x98, 0x16, 0xd4, 0xa4, 0x5c, 0xcc, 0x5d, 0x65, 0xb6, 0x92,
    0x6c, 0x70, 0x48, 0x50, 0xfd, 0xed, 0xb9, 0xda, 0x5e, 0x15, 0x46, 0x57, 0xa7, 0x8d, 0x9d, 0x84,
    0x90, 0xd8, 0xab, 0x00, 0x8c, 0xbc, 0xd3, 0x0a, 0xf7, 0xe4, 0x58, 0x05, 0xb8, 0xb3, 0x45, 0x06,
    0xd0, 0x2c, 0x1e, 0x8f, 0xca, 0x3f, 0x0f, 0x02, 0xc1, 0xaf, 0xbd, 0x03, 0x01, 0x13, 0x8a, 0x6b,
    0x3a, 0x91, 0x11, 0x41, 0x4f, 0x67, 0xdc, 0xea, 0x97, 0xf2, 0xcf, 0xce, 0xf0, 0xb4, 0xe6, 0x73,
    0x96, 0xac, 0x74, 0x22, 0xe7, 0xad, 0x35, 0x85, 0xe2, 0xf9, 0x37, 0xe8, 0x1c, 0x75, 0xdf, 0x6e,
    0x47, 0xf1, 0x1a, 0x71, 0x1d, 0x29, 0xc5, 0x89, 0x6f, 0xb7, 0x62, 0x0e, 0xaa, 0x18, 0xbe, 0x1b,
    0xfc, 0x56, 0x3e, 0x4b, 0xc6, 0xd2, 0x79, 0x20, 0x9a, 0xdb, 0xc0, 0xfe, 0x78, 0xcd, 0x5a, 0xf4,
    0x1f, 0xdd, 0xa8, 0x33, 0x88, 0x07, 0xc7, 0x31, 0xb1, 0x12, 0x10, 0x59, 0x27, 0x80, 0xec, 0x5f,
    0x60, 0x51, 0x7f, 0xa9, 0x19, 0xb5, 0x4a, 0x0d, 0x2d, 0xe5, 0x7a, 0x9f, 0x93, 0xc9, 0x9c, 0xef,
    0xa0, 0xe0, 0x3b, 0x4d, 0xae, 0x2a, 0xf5, 0xb0, 0xc8, 0xeb, 0xbb, 0x3c, 0x83, 0x53, 0x99, 0x61,
    0x17, 0x2b, 0x04, 0x7e, 0xba, 0x77, 0xd6, 0x26, 0xe1, 0x69, 0x14, 0x63, 0x55, 0x21, 0x0c, 0x7d]"

definition Rcon :: "u8 list" where
  "Rcon = [0x8d, 0x01, 0x02, 0x04, 0x08, 0x10, 0x20, 0x40, 0x80, 0x1b, 0x36]"

definition getSBoxValue :: "u8 \<Rightarrow> u8" where
  "getSBoxValue num = sbox ! unat num"

definition getSBoxInvert :: "u8 \<Rightarrow> u8" where
  "getSBoxInvert num = rsbox ! unat num"

section \<open>Key schedule\<close>

text \<open>One word of the schedule: \<open>i\<close> runs from 4 to 43, \<open>t0\<close> to \<open>t3\<close> are \<open>tempa\<close>.\<close>

definition key_word :: "nat \<Rightarrow> u8 list \<Rightarrow> u8 list" where
  "key_word i RoundKey =
     (let k = (i - 1) * 4;
          t0 = RoundKey ! (k + 0); t1 = RoundKey ! (k + 1);
          t2 = RoundKey ! (k + 2); t3 = RoundKey ! (k + 3);
          (t0, t1, t2, t3) =
            (if i mod 4 = 0 then
               (let (t0, t1, t2, t3) = (t1, t2, t3, t0);
                    t0 = getSBoxValue t0; t1 = getSBoxValue t1;
                    t2 = getSBoxValue t2; t3 = getSBoxValue t3;
                    t0 = t0 XOR Rcon ! (i div 4)
                in (t0, t1, t2, t3))
             else (t0, t1, t2, t3));
          j = i * 4; k = (i - 4) * 4;
          RoundKey = RoundKey[j + 0 := RoundKey ! (k + 0) XOR t0];
          RoundKey = RoundKey[j + 1 := RoundKey ! (k + 1) XOR t1];
          RoundKey = RoundKey[j + 2 := RoundKey ! (k + 2) XOR t2]
      in RoundKey[j + 3 := RoundKey ! (k + 3) XOR t3])"

definition copy_key_word :: "u8 list \<Rightarrow> nat \<Rightarrow> u8 list \<Rightarrow> u8 list" where
  "copy_key_word Key i RoundKey =
     RoundKey[i * 4 + 0 := Key ! (i * 4 + 0), i * 4 + 1 := Key ! (i * 4 + 1),
              i * 4 + 2 := Key ! (i * 4 + 2), i * 4 + 3 := Key ! (i * 4 + 3)]"

definition KeyExpansion :: "u8 list \<Rightarrow> u8 list \<Rightarrow> u8 list" where
  "KeyExpansion RoundKey Key =
     fold key_word [4..<4 * (10 + 1)] (fold (copy_key_word Key) [0..<4] RoundKey)"

section \<open>The rounds\<close>

definition AddRoundKey :: "nat \<Rightarrow> u8 list \<Rightarrow> u8 list \<Rightarrow> u8 list" where
  "AddRoundKey round rk state =
     fold (\<lambda>i. fold (\<lambda>j state.
       state[4 * i + j := state ! (4 * i + j) XOR rk ! (round * 4 * 4 + i * 4 + j)]) [0..<4])
       [0..<4] state"

definition SubBytes :: "u8 list \<Rightarrow> u8 list" where
  "SubBytes state =
     fold (\<lambda>i. fold (\<lambda>j state. state[4 * j + i := getSBoxValue (state ! (4 * j + i))]) [0..<4])
       [0..<4] state"

definition ShiftRows :: "u8 list \<Rightarrow> u8 list" where
  "ShiftRows state =
     (let temp = state ! 1;
          state = state[1 := state ! 5];
          state = state[5 := state ! 9];
          state = state[9 := state ! 13];
          state = state[13 := temp];
          temp = state ! 2;
          state = state[2 := state ! 10];
          state = state[10 := temp];
          temp = state ! 6;
          state = state[6 := state ! 14];
          state = state[14 := temp];
          temp = state ! 3;
          state = state[3 := state ! 15];
          state = state[15 := state ! 11];
          state = state[11 := state ! 7]
      in state[7 := temp])"

definition xtime :: "u8 \<Rightarrow> u8" where
  "xtime x = push_bit 1 x XOR ((drop_bit 7 x AND 1) * 0x1b)"

definition mix_column :: "nat \<Rightarrow> u8 list \<Rightarrow> u8 list" where
  "mix_column i state =
     (let t = state ! (4 * i);
          Tmp = state ! (4 * i) XOR state ! (4 * i + 1) XOR state ! (4 * i + 2) XOR state ! (4 * i + 3);
          Tm = xtime (state ! (4 * i) XOR state ! (4 * i + 1));
          state = state[4 * i := state ! (4 * i) XOR (Tm XOR Tmp)];
          Tm = xtime (state ! (4 * i + 1) XOR state ! (4 * i + 2));
          state = state[4 * i + 1 := state ! (4 * i + 1) XOR (Tm XOR Tmp)];
          Tm = xtime (state ! (4 * i + 2) XOR state ! (4 * i + 3));
          state = state[4 * i + 2 := state ! (4 * i + 2) XOR (Tm XOR Tmp)];
          Tm = xtime (state ! (4 * i + 3) XOR t)
      in state[4 * i + 3 := state ! (4 * i + 3) XOR (Tm XOR Tmp)])"

definition MixColumns :: "u8 list \<Rightarrow> u8 list" where
  "MixColumns state = fold mix_column [0..<4] state"

definition Multiply :: "u8 \<Rightarrow> u8 \<Rightarrow> u8" where
  "Multiply x y =
     ((y AND 1) * x) XOR
     ((drop_bit 1 y AND 1) * xtime x) XOR
     ((drop_bit 2 y AND 1) * xtime (xtime x)) XOR
     ((drop_bit 3 y AND 1) * xtime (xtime (xtime x))) XOR
     ((drop_bit 4 y AND 1) * xtime (xtime (xtime (xtime x))))"

definition inv_mix_column :: "nat \<Rightarrow> u8 list \<Rightarrow> u8 list" where
  "inv_mix_column i state =
     (let a = state ! (4 * i); b = state ! (4 * i + 1); c = state ! (4 * i + 2); d = state ! (4 * i + 3)
      in state
        [4 * i := Multiply a 0x0e XOR Multiply b 0x0b XOR Multiply c 0x0d XOR Multiply d 0x09,
         4 * i + 1 := Multiply a 0x09 XOR Multiply b 0x0e XOR Multiply c 0x0b XOR Multiply d 0x0d,
         4 * i + 2 := Multiply a 0x0d XOR Multiply b 0x09 XOR Multiply c 0x0e XOR Multiply d 0x0b,
         4 * i + 3 := Multiply a 0x0b XOR Multiply b 0x0d XOR Multiply c 0x09 XOR Multiply d 0x0e])"

definition InvMixColumns :: "u8 list \<Rightarrow> u8 list" where
  "InvMixColumns state = fold inv_mix_column [0..<4] state"

definition InvSubBytes :: "u8 list \<Rightarrow> u8 list" where
  "InvSubBytes state =
     fold (\<lambda>i. fold (\<lambda>j state. state[4 * j + i := getSBoxInvert (state ! (4 * j + i))]) [0..<4])
       [0..<4] state"

definition InvShiftRows :: "u8 list \<Rightarrow> u8 list" where
  "InvShiftRows state =
     (let temp = state ! 13;
          state = state[13 := state ! 9];
          state = state[9 := state ! 5];
          state = state[5 := state ! 1];
          state = state[1 := temp];
          temp = state ! 2;
          state = state[2 := state ! 10];
          state = state[10 := temp];
          temp = state ! 6;
          state = state[6 := state ! 14];
          state = state[14 := temp];
          temp = state ! 3;
          state = state[3 := state ! 7];
          state = state[7 := state ! 11];
          state = state[11 := state ! 15]
      in state[15 := temp])"

definition Cipher :: "u8 list \<Rightarrow> u8 list \<Rightarrow> u8 list" where
  "Cipher rk state =
     (let state = AddRoundKey 0 rk state;
          state = fold (\<lambda>round state. AddRoundKey round rk (MixColumns (ShiftRows (SubBytes state))))
                    [1..<10] state;
          state = SubBytes state;
          state = ShiftRows state
      in AddRoundKey 10 rk state)"

definition InvCipher :: "u8 list \<Rightarrow> u8 list \<Rightarrow> u8 list" where
  "InvCipher rk state =
     (let state = AddRoundKey 10 rk state;
          state = fold (\<lambda>round state. InvMixColumns (AddRoundKey round rk (InvSubBytes (InvShiftRows state))))
                    (rev [1..<10]) state;
          state = InvShiftRows state;
          state = InvSubBytes state
      in AddRoundKey 0 rk state)"

section \<open>Contexts and modes\<close>

record AES_ctx =
  RoundKey :: "u8 list"
  Iv :: "u8 list"

definition AES_init_ctx :: "AES_ctx \<Rightarrow> u8 list \<Rightarrow> AES_ctx" where
  "AES_init_ctx ctx key = ctx\<lparr>RoundKey := KeyExpansion (RoundKey ctx) key\<rparr>"

definition AES_ctx_set_iv :: "AES_ctx \<Rightarrow> u8 list \<Rightarrow> AES_ctx" where
  "AES_ctx_set_iv ctx iv = ctx\<lparr>Iv := take 16 iv\<rparr>"

definition AES_init_ctx_iv :: "AES_ctx \<Rightarrow> u8 list \<Rightarrow> u8 list \<Rightarrow> AES_ctx" where
  "AES_init_ctx_iv ctx key iv = ctx\<lparr>RoundKey := KeyExpansion (RoundKey ctx) key, Iv := take 16 iv\<rparr>"

definition AES_ECB_encrypt :: "AES_ctx \<Rightarrow> u8 list \<Rightarrow> u8 list" where
  "AES_ECB_encrypt ctx buf = Cipher (RoundKey ctx) (take 16 buf) @ drop 16 buf"

definition AES_ECB_decrypt :: "AES_ctx \<Rightarrow> u8 list \<Rightarrow> u8 list" where
  "AES_ECB_decrypt ctx buf = InvCipher (RoundKey ctx) (take 16 buf) @ drop 16 buf"

definition XorWithIv :: "u8 list \<Rightarrow> u8 list \<Rightarrow> u8 list" where
  "XorWithIv buf iv = fold (\<lambda>i buf. buf[i := buf ! i XOR iv ! i]) [0..<16] buf"

text \<open>
  The CBC loops: \<open>buf\<close> is the rest of the buffer from the running pointer on, \<open>i\<close> the offset
  reached. In the encryption \<open>Iv\<close> is a pointer to the block just written.
\<close>

function cbc_encrypt_loop :: "u8 list \<Rightarrow> nat \<Rightarrow> nat \<Rightarrow> u8 list \<Rightarrow> u8 list \<Rightarrow> u8 list \<times> u8 list" where
  "cbc_encrypt_loop rk len i iv buf =
     (if i < len then
       (let block = XorWithIv (take 16 buf) iv;
            block = Cipher rk block;
            (rest, iv) = cbc_encrypt_loop rk len (i + 16) block (drop 16 buf)
        in (block @ rest, iv))
      else (buf, iv))"
  by pat_completeness auto

termination
  by (relation "measure (\<lambda>(rk, len, i, iv, buf). len - i)") auto

definition AES_CBC_encrypt_buffer :: "AES_ctx \<Rightarrow> u8 list \<Rightarrow> u32 \<Rightarrow> u8 list \<times> AES_ctx" where
  "AES_CBC_encrypt_buffer ctx buf len =
     (let (buf, iv) = cbc_encrypt_loop (RoundKey ctx) (unat len) 0 (Iv ctx) buf
      in (buf, ctx\<lparr>Iv := iv\<rparr>))"

function cbc_decrypt_loop :: "u8 list \<Rightarrow> nat \<Rightarrow> nat \<Rightarrow> u8 list \<Rightarrow> u8 list \<Rightarrow> u8 list \<times> u8 list" where
  "cbc_decrypt_loop rk len i iv buf =
     (if i < len then
       (let storeNextIv = take 16 buf;
            block = InvCipher rk (take 16 buf);
            block = XorWithIv block iv;
            (rest, iv) = cbc_decrypt_loop rk len (i + 16) storeNextIv (drop 16 buf)
        in (block @ rest, iv))
      else (buf, iv))"
  by pat_completeness auto

termination
  by (relation "measure (\<lambda>(rk, len, i, iv, buf). len - i)") auto

definition AES_CBC_decrypt_buffer :: "AES_ctx \<Rightarrow> u8 list \<Rightarrow> u32 \<Rightarrow> u8 list \<times> AES_ctx" where
  "AES_CBC_decrypt_buffer ctx buf len =
     (let (buf, iv) = cbc_decrypt_loop (RoundKey ctx) (unat len) 0 (Iv ctx) buf
      in (buf, ctx\<lparr>Iv := iv\<rparr>))"

text \<open>The increment of the counter: from byte \<open>bi - 1\<close> down, until a byte does not overflow.\<close>

fun ctr_increment :: "nat \<Rightarrow> u8 list \<Rightarrow> u8 list" where
  "ctr_increment 0 iv = iv"
| "ctr_increment (Suc bi) iv =
     (if iv ! bi = 255 then ctr_increment bi (iv[bi := 0]) else iv[bi := iv ! bi + 1])"

text \<open>One turn of the CTR loop on the counter, the key stream block, its index and the buffer.\<close>

definition ctr_step ::
    "u8 list \<Rightarrow> nat \<Rightarrow> u8 list \<times> u8 list \<times> nat \<times> u8 list \<Rightarrow> u8 list \<times> u8 list \<times> nat \<times> u8 list" where
  "ctr_step rk i st =
     (let (iv, buffer, bi, buf) = st;
          (iv, buffer, bi) =
            (if bi = 16 then (ctr_increment 16 iv, Cipher rk iv, 0) else (iv, buffer, bi));
          buf = buf[i := buf ! i XOR buffer ! bi]
      in (iv, buffer, bi + 1, buf))"

definition AES_CTR_xcrypt_buffer :: "AES_ctx \<Rightarrow> u8 list \<Rightarrow> u8 list \<Rightarrow> u32 \<Rightarrow> u8 list \<times> AES_ctx" where
  "AES_CTR_xcrypt_buffer ctx buffer buf len =
     (let (iv, buffer, bi, buf) = fold (ctr_step (RoundKey ctx)) [0..<unat len] (Iv ctx, buffer, 16, buf)
      in (buf, ctx\<lparr>Iv := iv\<rparr>))"

section \<open>Every round operation is undone by its inverse\<close>

lemma upt_4: "[0..<4] = [0, 1, 2, 3 :: nat]"
  by (simp add: upt_rec)

lemma upt_16: "[0..<16] = [0, 1, 2, 3, 4, 5, 6, 7, 8, 9, 10, 11, 12, 13, 14, 15 :: nat]"
  by (simp add: upt_rec)

lemma block_cases:
  assumes "length s = 16"
  obtains a b c d e f g h i j k l m n p q where "s = [a, b, c, d, e, f, g, h, i, j, k, l, m, n, p, q]"
  using assms by (auto simp: length_Suc_conv eval_nat_numeral)

lemma AddRoundKey_eq:
  assumes "length s = 16"
  shows "AddRoundKey r rk s = map (\<lambda>k. s ! k XOR rk ! (16 * r + k)) [0..<16]"
  using assms by (elim block_cases) (simp add: AddRoundKey_def upt_4 upt_16 mult.commute add.commute)

lemma SubBytes_eq:
  assumes "length s = 16"
  shows "SubBytes s = map getSBoxValue s"
  using assms by (elim block_cases) (simp add: SubBytes_def upt_4)

lemma InvSubBytes_eq:
  assumes "length s = 16"
  shows "InvSubBytes s = map getSBoxInvert s"
  using assms by (elim block_cases) (simp add: InvSubBytes_def upt_4)

lemma length_rounds [simp]:
  assumes "length s = 16"
  shows "length (AddRoundKey r rk s) = 16" "length (SubBytes s) = 16" "length (InvSubBytes s) = 16"
    "length (ShiftRows s) = 16" "length (InvShiftRows s) = 16"
    "length (MixColumns s) = 16" "length (InvMixColumns s) = 16"
  using assms
  by (simp_all add: AddRoundKey_eq SubBytes_eq InvSubBytes_eq ShiftRows_def InvShiftRows_def Let_def
      MixColumns_def InvMixColumns_def mix_column_def inv_mix_column_def upt_4)

lemma AddRoundKey_twice [simp]:
  "length s = 16 \<Longrightarrow> AddRoundKey r rk (AddRoundKey r rk s) = s"
  by (simp add: AddRoundKey_eq) (rule nth_equalityI; simp add: xor.assoc)

text \<open>The two tables are inverse permutations: checked entry by entry.\<close>

lemma rsbox_sbox_table: "map (\<lambda>x. rsbox ! unat x) sbox = map word_of_nat [0..<256]"
  by (simp add: sbox_def rsbox_def upt_rec)

lemma getSBoxInvert_Value [simp]: "getSBoxInvert (getSBoxValue x) = x"
proof -
  have u: "unat x < 256" using unsigned_less [of x] by simp
  have len: "length sbox = 256" by (simp add: sbox_def)
  have "map (\<lambda>x. rsbox ! unat x) sbox ! unat x = map word_of_nat [0..<256] ! unat x"
    by (simp only: rsbox_sbox_table)
  then show ?thesis using u len by (simp add: getSBoxInvert_def getSBoxValue_def)
qed

lemma InvSubBytes_SubBytes [simp]: "length s = 16 \<Longrightarrow> InvSubBytes (SubBytes s) = s"
  by (simp add: InvSubBytes_eq SubBytes_eq comp_def)

lemma InvShiftRows_ShiftRows [simp]: "length s = 16 \<Longrightarrow> InvShiftRows (ShiftRows s) = s"
  by (elim block_cases) (simp add: InvShiftRows_def ShiftRows_def)

text \<open>Multiplication by \<open>x\<close> in GF(2^8) is linear, which is all the inverse of the column mixing needs.\<close>

lemma xor_cancel: "x XOR (x XOR y) = y" for x y :: u8
  by (simp flip: xor.assoc)

lemma xtime_bit: "xtime x = push_bit 1 x XOR (if bit x 7 then 0x1b else 0)"
proof -
  have "drop_bit 7 x AND 1 = (if bit x 7 then 1 else 0)"
    by (simp add: and_one_eq bit_iff_odd_drop_bit mod_2_eq_odd)
  then show ?thesis by (simp add: xtime_def)
qed

lemma xtime_xor: "xtime (x XOR y) = xtime x XOR xtime y"
  by (cases "bit x 7"; cases "bit y 7")
    (simp_all add: xtime_bit bit_xor_iff push_bit_xor xor.assoc xor.commute xor.left_commute xor_cancel)

lemma Multiply_consts:
  "Multiply x 0x0e = xtime x XOR xtime (xtime x) XOR xtime (xtime (xtime x))"
  "Multiply x 0x0b = x XOR xtime x XOR xtime (xtime (xtime x))"
  "Multiply x 0x0d = x XOR xtime (xtime x) XOR xtime (xtime (xtime x))"
  "Multiply x 0x09 = x XOR xtime (xtime (xtime x))"
  by (simp_all add: Multiply_def)

definition mixed :: "u8 \<Rightarrow> u8 \<Rightarrow> u8 \<Rightarrow> u8 \<Rightarrow> u8" where
  "mixed a b c d = xtime a XOR xtime b XOR b XOR c XOR d"

lemma mixed_inverse:
  "Multiply (mixed a b c d) 0x0e XOR Multiply (mixed b c d a) 0x0b XOR
   Multiply (mixed c d a b) 0x0d XOR Multiply (mixed d a b c) 0x09 = a"
  by (simp add: mixed_def Multiply_consts xtime_xor xor_cancel xor.assoc xor.commute xor.left_commute)

lemma MixColumns_eq:
  "MixColumns [a, b, c, d, e, f, g, h, i, j, k, l, m, n, p, q] =
    [mixed a b c d, mixed b c d a, mixed c d a b, mixed d a b c,
     mixed e f g h, mixed f g h e, mixed g h e f, mixed h e f g,
     mixed i j k l, mixed j k l i, mixed k l i j, mixed l i j k,
     mixed m n p q, mixed n p q m, mixed p q m n, mixed q m n p]"
  by (simp add: MixColumns_def upt_4 mix_column_def Let_def mixed_def xtime_xor xor_cancel
      xor.assoc xor.commute xor.left_commute)

lemma InvMixColumns_eq:
  "InvMixColumns [a, b, c, d, e, f, g, h, i, j, k, l, m, n, p, q] =
    (let col = (\<lambda>a b c d. Multiply a 0x0e XOR Multiply b 0x0b XOR Multiply c 0x0d XOR Multiply d 0x09)
     in [col a b c d, col b c d a, col c d a b, col d a b c,
         col e f g h, col f g h e, col g h e f, col h e f g,
         col i j k l, col j k l i, col k l i j, col l i j k,
         col m n p q, col n p q m, col p q m n, col q m n p])"
  by (simp add: InvMixColumns_def upt_4 inv_mix_column_def Let_def
      xor.assoc xor.commute xor.left_commute)

lemma InvMixColumns_MixColumns [simp]: "length s = 16 \<Longrightarrow> InvMixColumns (MixColumns s) = s"
  by (elim block_cases) (simp add: MixColumns_eq InvMixColumns_eq Let_def mixed_inverse)

section \<open>The cipher\<close>

abbreviation cipher_round :: "u8 list \<Rightarrow> nat \<Rightarrow> u8 list \<Rightarrow> u8 list" where
  "cipher_round rk r s \<equiv> AddRoundKey r rk (MixColumns (ShiftRows (SubBytes s)))"

abbreviation inv_cipher_round :: "u8 list \<Rightarrow> nat \<Rightarrow> u8 list \<Rightarrow> u8 list" where
  "inv_cipher_round rk r s \<equiv> InvMixColumns (AddRoundKey r rk (InvSubBytes (InvShiftRows s)))"

lemma length_fold_rounds [simp]:
  "length s = 16 \<Longrightarrow> length (fold (cipher_round rk) rs s) = 16"
  by (induction rs arbitrary: s) simp_all

lemma length_fold_inv_rounds [simp]:
  "length s = 16 \<Longrightarrow> length (fold (inv_cipher_round rk) rs s) = 16"
  by (induction rs arbitrary: s) simp_all

lemma length_Cipher [simp]: "length s = 16 \<Longrightarrow> length (Cipher rk s) = 16"
  by (simp add: Cipher_def Let_def)

lemma length_InvCipher [simp]: "length s = 16 \<Longrightarrow> length (InvCipher rk s) = 16"
  by (simp add: InvCipher_def Let_def)

lemma rounds_undone:
  "length s = 16 \<Longrightarrow>
   fold (inv_cipher_round rk) (rev rs) (ShiftRows (SubBytes (fold (cipher_round rk) rs s))) =
     ShiftRows (SubBytes s)"
  by (induction rs arbitrary: s) simp_all

lemma InvCipher_Cipher: "length s = 16 \<Longrightarrow> InvCipher rk (Cipher rk s) = s"
  by (simp add: Cipher_def InvCipher_def Let_def rounds_undone)

text \<open>
  A block cipher, as the modes use it: blocks of 16 bytes and an inverse. The chaining and the
  counter mode are proved for every such cipher.
\<close>

locale block_cipher =
  fixes enc dec :: "'k \<Rightarrow> u8 list \<Rightarrow> u8 list"
  assumes length_enc: "length b = 16 \<Longrightarrow> length (enc k b) = 16"
    and dec_enc: "length b = 16 \<Longrightarrow> dec k (enc k b) = b"

abbreviation xor_bytes :: "u8 list \<Rightarrow> u8 list \<Rightarrow> u8 list" where
  "xor_bytes \<equiv> map2 (XOR)"

fun cbc_blocks :: "(u8 list \<Rightarrow> u8 list) \<Rightarrow> u8 list \<Rightarrow> u8 list list \<Rightarrow> u8 list list" where
  "cbc_blocks E iv [] = []"
| "cbc_blocks E iv (b # bs) = E (xor_bytes b iv) # cbc_blocks E (E (xor_bytes b iv)) bs"

fun cbc_unblocks :: "(u8 list \<Rightarrow> u8 list) \<Rightarrow> u8 list \<Rightarrow> u8 list list \<Rightarrow> u8 list list" where
  "cbc_unblocks D iv [] = []"
| "cbc_unblocks D iv (c # cs) = xor_bytes (D c) iv # cbc_unblocks D c cs"

definition key_stream :: "(u8 list \<Rightarrow> u8 list) \<Rightarrow> (u8 list \<Rightarrow> u8 list) \<Rightarrow> u8 list \<Rightarrow> nat \<Rightarrow> u8" where
  "key_stream E inc iv j = E ((inc ^^ (j div 16)) iv) ! (j mod 16)"

definition blocks16 :: "u8 list list \<Rightarrow> bool" where
  "blocks16 bs \<longleftrightarrow> (\<forall>b\<in>set bs. length b = 16)"

lemma blocks16_simps [simp]: "blocks16 []" "blocks16 (b # bs) \<longleftrightarrow> length b = 16 \<and> blocks16 bs"
  by (auto simp: blocks16_def)

lemma xor_bytes_twice: "length a = length b \<Longrightarrow> xor_bytes (xor_bytes a b) b = a"
  by (rule nth_equalityI) (simp_all add: xor.assoc)

context block_cipher
begin

lemma cbc_blocks16: "blocks16 bs \<Longrightarrow> length iv = 16 \<Longrightarrow> blocks16 (cbc_blocks (enc k) iv bs)"
  by (induction bs arbitrary: iv) (simp_all add: length_enc)

lemma cbc_unblocks_blocks:
  "blocks16 bs \<Longrightarrow> length iv = 16 \<Longrightarrow>
   cbc_unblocks (dec k) iv (cbc_blocks (enc k) iv bs) = bs"
  by (induction bs arbitrary: iv) (simp_all add: length_enc dec_enc xor_bytes_twice)

end

lemma length_cbc_blocks [simp]: "length (cbc_blocks E iv bs) = length bs"
  by (induction bs arbitrary: iv) simp_all

interpretation aes: block_cipher Cipher InvCipher
  by unfold_locales (simp_all add: InvCipher_Cipher)

section \<open>The chaining loops\<close>

lemma XorWithIv_eq:
  assumes "length b = 16" "length iv = 16"
  shows "XorWithIv b iv = xor_bytes b iv"
  using assms by (elim block_cases) (simp add: XorWithIv_def upt_16)

lemma cbc_encrypt_loop_eq:
  "blocks16 bs \<Longrightarrow> length iv = 16 \<Longrightarrow> len = i + 16 * length bs \<Longrightarrow>
   cbc_encrypt_loop rk len i iv (concat bs @ rest) =
     (concat (cbc_blocks (Cipher rk) iv bs) @ rest, last (iv # cbc_blocks (Cipher rk) iv bs))"
proof (induction bs arbitrary: i iv)
  case (Cons b bs)
  from Cons show ?case
    by (subst cbc_encrypt_loop.simps) (simp add: XorWithIv_eq Let_def del: cbc_encrypt_loop.simps)
qed simp

lemma cbc_decrypt_loop_eq:
  "blocks16 bs \<Longrightarrow> length iv = 16 \<Longrightarrow> len = i + 16 * length bs \<Longrightarrow>
   cbc_decrypt_loop rk len i iv (concat bs @ rest) =
     (concat (cbc_unblocks (InvCipher rk) iv bs) @ rest, last (iv # bs))"
proof (induction bs arbitrary: i iv)
  case (Cons b bs)
  from Cons show ?case
    by (subst cbc_decrypt_loop.simps) (simp add: XorWithIv_eq Let_def del: cbc_decrypt_loop.simps)
qed simp

lemma split_blocks:
  "16 * n \<le> length xs \<Longrightarrow> \<exists>bs rest. xs = concat bs @ rest \<and> blocks16 bs \<and> length bs = n"
proof (induction n arbitrary: xs)
  case (Suc n)
  then obtain bs rest where "drop 16 xs = concat bs @ rest" "blocks16 bs" "length bs = n"
    by (metis (no_types, opaque_lifting) diff_le_mono length_drop mult_Suc_right add_diff_cancel_left')
  moreover have "xs = take 16 xs @ drop 16 xs" by simp
  ultimately have "xs = concat (take 16 xs # bs) @ rest \<and> blocks16 (take 16 xs # bs) \<and> length (take 16 xs # bs) = Suc n"
    using Suc.prems by simp
  then show ?case by blast
qed simp

section \<open>The counter\<close>

text \<open>The value of the bytes of a counter, most significant first.\<close>

definition big_endian :: "u8 list \<Rightarrow> nat" where
  "big_endian = foldl (\<lambda>a b. a * 256 + unat b) 0"

lemma big_endian_snoc: "big_endian (xs @ [b]) = big_endian xs * 256 + unat b"
  by (simp add: big_endian_def)

lemma big_endian_less: "big_endian xs < 256 ^ length xs"
proof (induction xs rule: rev_induct)
  case (snoc b xs)
  have "unat b < 256" using unsigned_less [of b] by simp
  with snoc show ?case by (simp add: big_endian_snoc)
qed (simp add: big_endian_def)

lemma length_ctr_increment [simp]: "length (ctr_increment n iv) = length iv"
  by (induction n arbitrary: iv) simp_all

lemma ctr_increment_outside: "n \<le> j \<Longrightarrow> ctr_increment n iv ! j = iv ! j"
  by (induction n arbitrary: iv) simp_all

lemma ctr_increment_value:
  "n \<le> length iv \<Longrightarrow>
   big_endian (take n (ctr_increment n iv)) = (big_endian (take n iv) + 1) mod 256 ^ n"
proof (induction n arbitrary: iv)
  case (Suc n)
  have less: "big_endian (take n iv) < 256 ^ n"
    using big_endian_less [of "take n iv"] Suc.prems by simp
  have snoc: "big_endian (take (Suc n) xs) = big_endian (take n xs) * 256 + unat (xs ! n)"
    if "n < length xs" for xs
    using that by (simp add: take_Suc_conv_app_nth big_endian_snoc)
  show ?case
  proof (cases "iv ! n = 255")
    case True
    then have "big_endian (take (Suc n) (ctr_increment (Suc n) iv)) = (big_endian (take n iv) + 1) mod 256 ^ n * 256"
      using Suc.prems Suc.IH [of "iv[n := 0]"] by (simp add: snoc ctr_increment_outside)
    moreover have "unat (iv ! n) = 255" using True by simp
    ultimately show ?thesis using Suc.prems
      by (simp add: snoc mult_mod_right mult.commute add.commute del: ctr_increment.simps)
  next
    case False
    have "unat (iv ! n) < 256" using unsigned_less [of "iv ! n", where ?'a = nat] by simp
    moreover have "unat (iv ! n) \<noteq> unat (255 :: u8)" using False by (metis unsigned_word_eqI)
    ultimately have lt: "unat (iv ! n) < 255" by simp
    then have "unat (iv ! n + 1) = unat (iv ! n) + 1" by (simp add: unat_plus_if_size word_size)
    moreover from lt less have "big_endian (take n iv) * 256 + unat (iv ! n) + 1 < 256 ^ Suc n" by simp
    ultimately show ?thesis using False Suc.prems by (simp add: snoc)
  qed
qed (simp add: big_endian_def)

section \<open>The counter mode loop\<close>

definition ctr_state :: "u8 list \<Rightarrow> u8 list \<Rightarrow> u8 list \<Rightarrow> u8 list \<Rightarrow> nat \<Rightarrow> u8 list \<times> u8 list \<times> nat \<times> u8 list" where
  "ctr_state rk iv buffer buf n =
     ((ctr_increment 16 ^^ ((n + 15) div 16)) iv,
      if n = 0 then buffer else Cipher rk ((ctr_increment 16 ^^ ((n - 1) div 16)) iv),
      if n = 0 then 16 else (n - 1) mod 16 + 1,
      map (\<lambda>j. if j < n then buf ! j XOR key_stream (Cipher rk) (ctr_increment 16) iv j else buf ! j)
        [0..<length buf])"

lemma ctr_step_state:
  assumes "n < length buf"
  shows "ctr_step rk n (ctr_state rk iv buffer buf n) = ctr_state rk iv buffer buf (Suc n)"
proof -
  let ?ks = "key_stream (Cipher rk) (ctr_increment 16) iv"
  let ?b = "\<lambda>n. map (\<lambda>j. if j < n then buf ! j XOR ?ks j else buf ! j) [0..<length buf]"
  have upd: "(?b n)[n := ?b n ! n XOR ?ks n] = ?b (Suc n)"
    using assms by (intro nth_equalityI) (auto simp: nth_list_update less_Suc_eq)
  have state: "ctr_state rk iv buffer buf n =
      ((ctr_increment 16 ^^ ((n + 15) div 16)) iv,
       if n = 0 then buffer else Cipher rk ((ctr_increment 16 ^^ ((n - 1) div 16)) iv),
       if n = 0 then 16 else (n - 1) mod 16 + 1, ?b n)" for n
    by (simp only: ctr_state_def)
  show ?thesis
  proof (cases "n mod 16 = 0")
    case True
    let ?q = "n div 16"
    obtain q where q: "n = 16 * q" using True by auto
    have e: "(n + 15) div 16 = ?q" "(Suc n + 15) div 16 = Suc ?q" "(Suc n - 1) div 16 = ?q" "(Suc n - 1) mod 16 = 0"
      "(if n = 0 then 16 else (n - 1) mod 16 + 1) = 16"
      unfolding q by (cases q; simp)+
    have "?ks n = Cipher rk ((ctr_increment 16 ^^ ?q) iv) ! 0" by (simp add: key_stream_def True)
    with upd show ?thesis unfolding state e ctr_step_def Let_def by simp
  next
    case False
    let ?q = "n div 16" and ?r = "n mod 16"
    obtain q r where qr: "n = Suc (16 * q + r)" "r < 15"
    proof -
      have "n = Suc (16 * ?q + (?r - 1))" "?r - 1 < 15" using False mod_less_divisor [of 16 n] by simp_all
      then show ?thesis using that by blast
    qed
    have "Suc (16 * q + r) div 16 = q" "(16 + (16 * q + r)) div 16 = Suc q"
      using qr(2) by (auto intro!: div_nat_eqI)
    then have e: "(n + 15) div 16 = Suc ?q" "(Suc n + 15) div 16 = Suc ?q" "(Suc n - 1) div 16 = ?q" "(n - 1) div 16 = ?q"
      "(n - 1) mod 16 + 1 = ?r" "(Suc n - 1) mod 16 = ?r" "n \<noteq> 0" "?r \<noteq> 16"
      unfolding qr(1) using qr(2) by (simp_all add: mod_Suc)
    have "?ks n = Cipher rk ((ctr_increment 16 ^^ ?q) iv) ! ?r" by (simp add: key_stream_def)
    with upd e(7,8) show ?thesis unfolding state e(1-6) ctr_step_def Let_def by simp
  qed
qed

lemma ctr_fold:
  "n \<le> length buf \<Longrightarrow>
   fold (ctr_step rk) [0..<n] (iv, buffer, 16, buf) = ctr_state rk iv buffer buf n"
proof (induction n)
  case 0
  then show ?case by (simp add: ctr_state_def map_nth)
next
  case (Suc n)
  then show ?case using ctr_step_state [of n buf] by simp
qed

lemma ctr_outcome:
  assumes "unat len \<le> length buf"
  shows "AES_CTR_xcrypt_buffer ctx buffer buf len =
    (map (\<lambda>j. if j < unat len then buf ! j XOR key_stream (Cipher (RoundKey ctx)) (ctr_increment 16) (Iv ctx) j
              else buf ! j) [0..<length buf],
     ctx\<lparr>Iv := (ctr_increment 16 ^^ ((unat len + 15) div 16)) (Iv ctx)\<rparr>)"
  using ctr_fold [OF assms] by (simp add: AES_CTR_xcrypt_buffer_def ctr_state_def)

section \<open>The key schedule\<close>

text \<open>The words of the schedule as FIPS 197 defines them.\<close>

fun schedule_word :: "u8 list \<Rightarrow> nat \<Rightarrow> u8 list" where
  "schedule_word Key i =
     (if i < 4 then take 4 (drop (4 * i) Key)
      else
       (let temp = schedule_word Key (i - 1);
            temp = (if i mod 4 = 0
                    then xor_bytes (map getSBoxValue (rotate1 temp)) [Rcon ! (i div 4), 0, 0, 0]
                    else temp)
        in xor_bytes (schedule_word Key (i - 4)) temp))"

declare schedule_word.simps [simp del]

definition word_at :: "u8 list \<Rightarrow> nat \<Rightarrow> u8 list" where
  "word_at rk i = [rk ! (4 * i), rk ! (4 * i + 1), rk ! (4 * i + 2), rk ! (4 * i + 3)]"

lemma length_key_word [simp]: "length (key_word i rk) = length rk"
  by (simp add: key_word_def Let_def split: prod.splits)

lemma key_word_before: "j < 4 * i \<Longrightarrow> key_word i rk ! j = rk ! j"
  by (simp add: key_word_def Let_def split: prod.splits)

lemma word_at_key_word:
  assumes "4 \<le> i" "4 * i + 4 \<le> length rk"
  shows "word_at (key_word i rk) i =
    xor_bytes (word_at rk (i - 4))
      (if i mod 4 = 0 then xor_bytes (map getSBoxValue (rotate1 (word_at rk (i - 1)))) [Rcon ! (i div 4), 0, 0, 0]
       else word_at rk (i - 1))"
  using assms by (simp add: word_at_def key_word_def Let_def mult.commute)

lemma schedule_fold:
  assumes "length rk = 176" "\<And>i. i < 4 \<Longrightarrow> word_at rk i = schedule_word Key i" "4 \<le> n" "n \<le> 44"
  shows "length (fold key_word [4..<n] rk) = 176 \<and>
    (\<forall>i<n. word_at (fold key_word [4..<n] rk) i = schedule_word Key i)"
  using assms(3,4)
proof (induction n rule: dec_induct)
  case base
  then show ?case using assms(1,2) by simp
next
  case (step n)
  let ?r = "fold key_word [4..<n] rk"
  have ih: "length ?r = 176" "i < n \<Longrightarrow> word_at ?r i = schedule_word Key i" for i using step by auto
  have "word_at (key_word n ?r) i = schedule_word Key i" if "i < Suc n" for i
  proof (cases "i = n")
    case True
    then show ?thesis using word_at_key_word [of n ?r] ih step
      by (subst schedule_word.simps) (simp add: Let_def)
  next
    case False
    with that have "i < n" by simp
    then show ?thesis using ih(2) [of i] by (simp add: word_at_def key_word_before)
  qed
  then show ?case using step.hyps ih(1) by simp
qed

lemma key_expansion_eq:
  assumes "length rk = 176" "length Key = 16"
  shows "KeyExpansion rk Key = concat (map (schedule_word Key) [0..<44])"
proof -
  let ?r0 = "fold (copy_key_word Key) [0..<4] rk"
  have len0: "length ?r0 = 176" using assms(1) by (simp add: upt_4 copy_key_word_def)
  have "word_at ?r0 i = schedule_word Key i" if "i < 4" for i
  proof -
    consider "i = 0" | "i = 1" | "i = 2" | "i = 3" using \<open>i < 4\<close> by linarith
    then show ?thesis
      using assms by cases (elim block_cases; simp add: schedule_word.simps word_at_def upt_4 copy_key_word_def)+
  qed
  from schedule_fold [of ?r0 Key 44, OF len0 this]
  have r: "length (KeyExpansion rk Key) = 176" "i < 44 \<Longrightarrow> word_at (KeyExpansion rk Key) i = schedule_word Key i" for i
    by (simp_all add: KeyExpansion_def)
  have words: "xs = concat (map (word_at xs) [0..<n])" if "length xs = 4 * n" for xs n
    using that
  proof (induction n arbitrary: xs rule: nat.induct)
    case (Suc n)
    have "take (4 * n) xs = concat (map (word_at (take (4 * n) xs)) [0..<n])" using Suc by simp
    also have "map (word_at (take (4 * n) xs)) [0..<n] = map (word_at xs) [0..<n]" by (simp add: word_at_def)
    finally have t: "take (4 * n) xs = concat (map (word_at xs) [0..<n])" .
    have "drop (4 * n) xs = word_at xs n"
      using Suc.prems by (intro nth_equalityI) (auto simp: word_at_def nth_Cons' numeral_eq_Suc less_Suc_eq)
    then show ?case using t append_take_drop_id [of "4 * n" xs] by simp
  qed simp
  have "map (word_at (KeyExpansion rk Key)) [0..<44] = map (schedule_word Key) [0..<44]"
    using r(2) by simp
  with words [of "KeyExpansion rk Key" 44] r(1) show ?thesis by simp
qed

section \<open>The test vector of the file's header\<close>

definition fips_key :: "u8 list" where
  "fips_key = [0x2b, 0x7e, 0x15, 0x16, 0x28, 0xae, 0xd2, 0xa6, 0xab, 0xf7, 0x15, 0x88, 0x09, 0xcf, 0x4f, 0x3c]"

definition fips_plain :: "u8 list" where
  "fips_plain = [0x6b, 0xc1, 0xbe, 0xe2, 0x2e, 0x40, 0x9f, 0x96, 0xe9, 0x3d, 0x7e, 0x11, 0x73, 0x93, 0x17, 0x2a]"

definition fips_cipher :: "u8 list" where
  "fips_cipher = [0x3a, 0xd7, 0x7b, 0xb4, 0x0d, 0x7a, 0x36, 0x60, 0xa8, 0x9e, 0xca, 0xf3, 0x24, 0x66, 0xef, 0x97]"

definition fips_schedule :: "u8 list" where
  "fips_schedule =
   [0x2b, 0x7e, 0x15, 0x16, 0x28, 0xae, 0xd2, 0xa6, 0xab, 0xf7, 0x15, 0x88, 0x09, 0xcf, 0x4f, 0x3c,
    0xa0, 0xfa, 0xfe, 0x17, 0x88, 0x54, 0x2c, 0xb1, 0x23, 0xa3, 0x39, 0x39, 0x2a, 0x6c, 0x76, 0x05,
    0xf2, 0xc2, 0x95, 0xf2, 0x7a, 0x96, 0xb9, 0x43, 0x59, 0x35, 0x80, 0x7a, 0x73, 0x59, 0xf6, 0x7f,
    0x3d, 0x80, 0x47, 0x7d, 0x47, 0x16, 0xfe, 0x3e, 0x1e, 0x23, 0x7e, 0x44, 0x6d, 0x7a, 0x88, 0x3b,
    0xef, 0x44, 0xa5, 0x41, 0xa8, 0x52, 0x5b, 0x7f, 0xb6, 0x71, 0x25, 0x3b, 0xdb, 0x0b, 0xad, 0x00,
    0xd4, 0xd1, 0xc6, 0xf8, 0x7c, 0x83, 0x9d, 0x87, 0xca, 0xf2, 0xb8, 0xbc, 0x11, 0xf9, 0x15, 0xbc,
    0x6d, 0x88, 0xa3, 0x7a, 0x11, 0x0b, 0x3e, 0xfd, 0xdb, 0xf9, 0x86, 0x41, 0xca, 0x00, 0x93, 0xfd,
    0x4e, 0x54, 0xf7, 0x0e, 0x5f, 0x5f, 0xc9, 0xf3, 0x84, 0xa6, 0x4f, 0xb2, 0x4e, 0xa6, 0xdc, 0x4f,
    0xea, 0xd2, 0x73, 0x21, 0xb5, 0x8d, 0xba, 0xd2, 0x31, 0x2b, 0xf5, 0x60, 0x7f, 0x8d, 0x29, 0x2f,
    0xac, 0x77, 0x66, 0xf3, 0x19, 0xfa, 0xdc, 0x21, 0x28, 0xd1, 0x29, 0x41, 0x57, 0x5c, 0x00, 0x6e,
    0xd0, 0x14, 0xf9, 0xa8, 0xc9, 0xee, 0x25, 0x89, 0xe1, 0x3f, 0x0c, 0xc8, 0xb6, 0x63, 0x0c, 0xa6]"

text \<open>The operations on a block given byte by byte.\<close>

lemma AddRoundKey_bytes:
  "AddRoundKey r rk [a, b, c, d, e, f, g, h, i, j, k, l, m, n, p, q] =
    [a XOR rk ! (16 * r), b XOR rk ! (16 * r + 1), c XOR rk ! (16 * r + 2), d XOR rk ! (16 * r + 3),
     e XOR rk ! (16 * r + 4), f XOR rk ! (16 * r + 5), g XOR rk ! (16 * r + 6), h XOR rk ! (16 * r + 7),
     i XOR rk ! (16 * r + 8), j XOR rk ! (16 * r + 9), k XOR rk ! (16 * r + 10), l XOR rk ! (16 * r + 11),
     m XOR rk ! (16 * r + 12), n XOR rk ! (16 * r + 13), p XOR rk ! (16 * r + 14), q XOR rk ! (16 * r + 15)]"
  by (simp add: AddRoundKey_eq upt_16)

lemma ShiftRows_bytes:
  "ShiftRows [a, b, c, d, e, f, g, h, i, j, k, l, m, n, p, q] =
    [a, f, k, q, e, j, p, d, i, n, c, h, m, b, g, l]"
  by (simp add: ShiftRows_def)

lemma SubBytes_bytes:
  "SubBytes [a, b, c, d, e, f, g, h, i, j, k, l, m, n, p, q] =
    map getSBoxValue [a, b, c, d, e, f, g, h, i, j, k, l, m, n, p, q]"
  by (simp add: SubBytes_eq)

lemmas block_bytes_simps =
  SubBytes_bytes ShiftRows_bytes MixColumns_eq AddRoundKey_bytes mixed_def xtime_bit getSBoxValue_def sbox_def

text \<open>The schedule computed with each word at hand, the last one first.\<close>

definition next_word :: "nat \<Rightarrow> u8 list list \<Rightarrow> u8 list list" where
  "next_word i ws =
     xor_bytes (ws ! 3)
       (if i mod 4 = 0 then xor_bytes (map getSBoxValue (rotate1 (ws ! 0))) [Rcon ! (i div 4), 0, 0, 0]
        else ws ! 0) # ws"

lemma fold_next_word:
  "4 \<le> n \<Longrightarrow> fold next_word [4..<n] (rev (map (schedule_word Key) [0..<4])) = rev (map (schedule_word Key) [0..<n])"
proof (induction n rule: dec_induct)
  case (step n)
  have "schedule_word Key n = xor_bytes (schedule_word Key (n - 4))
      (if n mod 4 = 0 then xor_bytes (map getSBoxValue (rotate1 (schedule_word Key (n - 1)))) [Rcon ! (n div 4), 0, 0, 0]
       else schedule_word Key (n - 1))"
    using step.hyps by (subst schedule_word.simps) (simp add: Let_def)
  then show ?case using step by (simp add: next_word_def rev_nth)
qed simp

lemma fips_schedule_eq:
  assumes "length rk = 176"
  shows "KeyExpansion rk fips_key = fips_schedule"
proof -
  have "rev (map (schedule_word fips_key) [0..<44]) =
      fold next_word [4..<44] (rev (map (schedule_word fips_key) [0..<4]))"
    by (rule fold_next_word [symmetric]) simp
  also have "rev (map (schedule_word fips_key) [0..<4]) =
      [[0x09, 0xcf, 0x4f, 0x3c], [0xab, 0xf7, 0x15, 0x88], [0x28, 0xae, 0xd2, 0xa6], [0x2b, 0x7e, 0x15, 0x16]]"
    by (simp add: upt_4 schedule_word.simps fips_key_def)
  finally have "map (schedule_word fips_key) [0..<44] =
      rev (fold next_word [4..<44] [[0x09, 0xcf, 0x4f, 0x3c], [0xab, 0xf7, 0x15, 0x88], [0x28, 0xae, 0xd2, 0xa6],
        [0x2b, 0x7e, 0x15, 0x16]])"
    by (metis rev_rev_ident)
  moreover have "concat (rev (fold next_word [4..<44] [[0x09, 0xcf, 0x4f, 0x3c], [0xab, 0xf7, 0x15, 0x88],
      [0x28, 0xae, 0xd2, 0xa6], [0x2b, 0x7e, 0x15, 0x16]])) = fips_schedule"
    by (simp add: next_word_def upt_rec getSBoxValue_def sbox_def Rcon_def fips_schedule_def)
  ultimately show ?thesis using key_expansion_eq [OF assms, of fips_key] by (simp add: fips_key_def)
qed

lemma fips_cipher_eq: "Cipher fips_schedule fips_plain = fips_cipher"
  by (simp add: Cipher_def fips_plain_def fips_cipher_def fips_schedule_def upt_rec block_bytes_simps)

section \<open>Properties\<close>

text \<open>Decryption with the implementation's tables, row shifts, column mixing and round order inverts
  encryption on every block, whatever the 176 bytes of the expanded key are.\<close>

theorem aes_decrypt_encrypt:
  assumes "length buf = 16"
  shows "AES_ECB_decrypt ctx (AES_ECB_encrypt ctx buf) = buf"
  using assms by (simp add: AES_ECB_decrypt_def AES_ECB_encrypt_def InvCipher_Cipher)

theorem aes_decrypt_encrypt_witness:
  "AES_ECB_decrypt \<lparr>RoundKey = replicate 176 7, Iv = []\<rparr>
     (AES_ECB_encrypt \<lparr>RoundKey = replicate 176 7, Iv = []\<rparr> (replicate 16 0x6b)) = replicate 16 0x6b"
  by (rule aes_decrypt_encrypt) simp

text \<open>C12: \<open>KeyExpansion\<close> overwrites all 176 bytes with the key schedule of FIPS 197: the first four words
  are the key, and every later word is the exclusive or of the word four before it with the
  previous word, rotated, substituted and combined with the round constant at every fourth.\<close>

theorem key_expansion_schedule:
  assumes "length rk = 176" "length Key = 16"
  shows "KeyExpansion rk Key = concat (map (schedule_word Key) [0..<44])"
  using assms by (rule key_expansion_eq)

theorem key_expansion_schedule_witness:
  "KeyExpansion (replicate 176 0) (replicate 16 1) = concat (map (schedule_word (replicate 16 1)) [0..<44])"
  by (rule key_expansion_schedule) simp_all

text \<open>C11: Decrypting what CBC encryption wrote returns the buffer and leaves the context with the same
  initialisation vector, so that both directions can go on with the next buffer; bytes beyond the
  length stay.\<close>

theorem cbc_roundtrip:
  assumes "16 dvd unat len" "unat len \<le> length buf" "length (Iv ctx) = 16"
    and "AES_CBC_encrypt_buffer ctx buf len = (out, ctx')"
  shows "AES_CBC_decrypt_buffer ctx out len = (buf, ctx') \<and> drop (unat len) out = drop (unat len) buf"
proof -
  obtain n where n: "unat len = 16 * n" using assms(1) by blast
  then obtain bs rest where bs: "buf = concat bs @ rest" "blocks16 bs" "length bs = n"
    using split_blocks [of n buf] assms(2) by auto
  let ?E = "Cipher (RoundKey ctx)"
  let ?cs = "cbc_blocks ?E (Iv ctx) bs"
  have cs: "blocks16 ?cs" using aes.cbc_blocks16 [OF bs(2) assms(3)] .
  have enc: "out = concat ?cs @ rest" "ctx' = ctx\<lparr>Iv := last (Iv ctx # ?cs)\<rparr>"
    using assms(4) cbc_encrypt_loop_eq [OF bs(2) assms(3), of "unat len" 0] n bs(1,3)
    by (simp_all add: AES_CBC_encrypt_buffer_def)
  have "AES_CBC_decrypt_buffer ctx out len = (buf, ctx')"
    using cbc_decrypt_loop_eq [OF cs assms(3), of "unat len" 0 "RoundKey ctx" rest] n bs
      aes.cbc_unblocks_blocks [OF bs(2) assms(3)]
    by (simp add: AES_CBC_decrypt_buffer_def enc)
  moreover have "length (concat xs) = 16 * length xs" if "blocks16 xs" for xs
    using that by (induction xs) simp_all
  ultimately show ?thesis using cs bs n by (simp add: enc)
qed

theorem cbc_roundtrip_witness:
  "\<exists>out ctx'. AES_CBC_encrypt_buffer \<lparr>RoundKey = replicate 176 7, Iv = replicate 16 9\<rparr> (replicate 40 1) 32 = (out, ctx') \<and>
    AES_CBC_decrypt_buffer \<lparr>RoundKey = replicate 176 7, Iv = replicate 16 9\<rparr> out 32 = (replicate 40 1, ctx')"
proof -
  let ?ctx = "\<lparr>RoundKey = replicate 176 7, Iv = replicate 16 9\<rparr>"
  obtain out ctx' where e: "AES_CBC_encrypt_buffer ?ctx (replicate 40 1) 32 = (out, ctx')" by fastforce
  have "16 dvd unat (32 :: u32)" "unat (32 :: u32) \<le> length (replicate 40 (1 :: u8))" by simp_all
  from cbc_roundtrip [OF this _ e] e show ?thesis by auto
qed

text \<open>Counter mode encrypts byte \<open>j\<close> with byte \<open>j mod 16\<close> of the encryption of the counter advanced
  \<open>j div 16\<close> times; running it again with the same initialisation vector restores the buffer, the
  counter has advanced once for each block begun, and each advance adds one modulo \<open>2^128\<close> to the
  counter read as a big-endian number.\<close>

theorem ctr_roundtrip:
  assumes "unat len \<le> length buf" "length (Iv ctx) = 16"
    and "AES_CTR_xcrypt_buffer ctx garbage buf len = (out, ctx')"
  shows "fst (AES_CTR_xcrypt_buffer ctx garbage' out len) = buf \<and>
    (\<forall>j<unat len. out ! j = buf ! j XOR key_stream (Cipher (RoundKey ctx)) (ctr_increment 16) (Iv ctx) j) \<and>
    big_endian (Iv ctx') = (big_endian (Iv ctx) + (unat len + 15) div 16) mod 2 ^ 128"
proof -
  have out: "length out = length buf"
    "j < length buf \<Longrightarrow> out ! j = (if j < unat len then buf ! j XOR key_stream (Cipher (RoundKey ctx)) (ctr_increment 16) (Iv ctx) j
              else buf ! j)"
    and ctx': "ctx' = ctx\<lparr>Iv := (ctr_increment 16 ^^ ((unat len + 15) div 16)) (Iv ctx)\<rparr>" for j
    using assms(3) ctr_outcome [OF assms(1), of ctx garbage] by auto
  have "fst (AES_CTR_xcrypt_buffer ctx garbage' out len) = buf"
    using ctr_outcome [of len out ctx garbage'] assms(1) out
    by (intro nth_equalityI) (simp_all add: xor.assoc)
  moreover have "length ((ctr_increment 16 ^^ k) iv) = length iv" for k iv by (induction k) simp_all
  then have "big_endian ((ctr_increment 16 ^^ k) iv) = (big_endian iv + k) mod 2 ^ 128" if "length iv = 16" for k iv
  proof (induction k)
    case 0
    then show ?case using big_endian_less [of iv] that by simp
  next
    case (Suc k)
    then have "big_endian ((ctr_increment 16 ^^ Suc k) iv) = (big_endian ((ctr_increment 16 ^^ k) iv) + 1) mod 256 ^ 16"
      using ctr_increment_value [of 16 "(ctr_increment 16 ^^ k) iv"] that by simp
    then show ?case using Suc that by (simp add: mod_simps)
  qed
  ultimately show ?thesis using out assms(1,2) ctx' by simp
qed

theorem ctr_roundtrip_witness:
  "\<exists>out ctx'. AES_CTR_xcrypt_buffer \<lparr>RoundKey = replicate 176 7, Iv = replicate 16 255\<rparr> [] (replicate 20 1) 18 = (out, ctx') \<and>
    fst (AES_CTR_xcrypt_buffer \<lparr>RoundKey = replicate 176 7, Iv = replicate 16 255\<rparr> [] out 18) = replicate 20 1"
proof -
  let ?ctx = "\<lparr>RoundKey = replicate 176 7, Iv = replicate 16 255\<rparr>"
  obtain out ctx' where e: "AES_CTR_xcrypt_buffer ?ctx [] (replicate 20 1) 18 = (out, ctx')" by fastforce
  have "unat (18 :: u32) \<le> length (replicate 20 (1 :: u8))" by simp
  from ctr_roundtrip [OF this _ e] e show ?thesis by auto
qed

text \<open>The test vector of the file's header: with the key 2b7e15..., whatever the context held before,
  the first block 6bc1be... is encrypted to 3ad77b... and decrypted back.\<close>

theorem aes_test_vector:
  assumes "length (RoundKey ctx) = 176"
  shows "AES_ECB_encrypt (AES_init_ctx ctx fips_key) fips_plain = fips_cipher \<and>
    AES_ECB_decrypt (AES_init_ctx ctx fips_key) fips_cipher = fips_plain"
proof -
  have "length fips_key = 16" "length fips_plain = 16" "length fips_cipher = 16"
    by (simp_all add: fips_key_def fips_plain_def fips_cipher_def)
  moreover from this have "KeyExpansion (RoundKey ctx) fips_key = fips_schedule"
    using fips_schedule_eq [OF assms] by simp
  ultimately show ?thesis
    using fips_cipher_eq InvCipher_Cipher [of fips_plain fips_schedule]
    by (simp add: AES_init_ctx_def AES_ECB_encrypt_def AES_ECB_decrypt_def)
qed

theorem aes_test_vector_witness:
  "AES_ECB_encrypt (AES_init_ctx \<lparr>RoundKey = replicate 176 5, Iv = []\<rparr> fips_key) fips_plain = fips_cipher"
  using aes_test_vector [of "\<lparr>RoundKey = replicate 176 5, Iv = []\<rparr>"] by simp

end
