(* ===== verification/SM_Memory.thy ===== *)
theory SM_Memory
  imports SM_Prelude
begin

text \<open>
  Physical memory: a function from 64-bit addresses to bytes, read and written
  little-endian, with addresses that wrap around as the target's do. Every object the C
  code reaches through an address (region table, bitmaps, enclave and thread metadata,
  page tables, C strings) lives in this one store, so aliasing is the program's own.
\<close>

type_synonym mem = "u64 \<Rightarrow> u8"

section \<open>Loads and stores of n bytes\<close>

fun ldn :: "nat \<Rightarrow> mem \<Rightarrow> u64 \<Rightarrow> nat" where
  "ldn 0 m a = 0"
| "ldn (Suc n) m a = unat (m a) + 256 * ldn n m (a + 1)"

fun stn :: "nat \<Rightarrow> mem \<Rightarrow> u64 \<Rightarrow> nat \<Rightarrow> mem" where
  "stn 0 m a v = m"
| "stn (Suc n) m a v = (stn n m (a + 1) (v div 256))(a := word_of_nat v)"

definition ld32 :: "mem \<Rightarrow> u64 \<Rightarrow> u32" where
  "ld32 m a = word_of_nat (ldn 4 m a)"

definition ld64 :: "mem \<Rightarrow> u64 \<Rightarrow> u64" where
  "ld64 m a = word_of_nat (ldn 8 m a)"

definition st32 :: "mem \<Rightarrow> u64 \<Rightarrow> u32 \<Rightarrow> mem" where
  "st32 m a v = stn 4 m a (unat v)"

definition st64 :: "mem \<Rightarrow> u64 \<Rightarrow> u64 \<Rightarrow> mem" where
  "st64 m a v = stn 8 m a (unat v)"

text \<open>The n bytes from an address, in order; and a list of bytes written from an address.\<close>

fun ld_bytes :: "mem \<Rightarrow> u64 \<Rightarrow> nat \<Rightarrow> u8 list" where
  "ld_bytes m a 0 = []"
| "ld_bytes m a (Suc n) = m a # ld_bytes m (a + 1) n"

fun st_bytes :: "mem \<Rightarrow> u64 \<Rightarrow> u8 list \<Rightarrow> mem" where
  "st_bytes m a [] = m"
| "st_bytes m a (b # bs) = st_bytes (m(a := b)) (a + 1) bs"

section \<open>Separation of address ranges\<close>

text \<open>
  \<open>sep a n b k\<close>: the n bytes from \<open>a\<close> and the k bytes from \<open>b\<close> share no address, both
  ranges read modulo \<open>2 ^ 64\<close>.
\<close>

definition sep :: "u64 \<Rightarrow> nat \<Rightarrow> u64 \<Rightarrow> nat \<Rightarrow> bool" where
  "sep a n b k \<longleftrightarrow> n \<le> unat (b - a) \<and> k \<le> unat (a - b)"

lemma sep_sym: "sep a n b k \<longleftrightarrow> sep b k a n"
  by (auto simp: sep_def)

lemma sep_weaken: "sep a n b k \<Longrightarrow> n' \<le> n \<Longrightarrow> k' \<le> k \<Longrightarrow> sep a n' b k'"
  by (auto simp: sep_def)

lemma sep_below:
  assumes "unat a + n \<le> unat b" "unat b + k \<le> 2 ^ 64" "0 < n" "0 < k"
  shows "sep a n b k"
  using assms by (auto simp: sep_def unat_sub_if')

lemma sep_above:
  assumes "unat b + k \<le> unat a" "unat a + n \<le> 2 ^ 64" "0 < n" "0 < k"
  shows "sep a n b k"
  using sep_below [of b k a n] assms by (simp add: sep_sym)

lemma sep_offsets:
  assumes "x + n \<le> y" "y + k \<le> 2 ^ 64 + x" "0 < n" "0 < k"
  shows "sep (b + word_of_nat x) n (b + word_of_nat y) k"
proof -
  have d: "(b + word_of_nat y) - (b + word_of_nat x) = (word_of_nat (y - x) :: u64)"
    using assms by simp
  have u: "unat (word_of_nat (y - x) :: u64) = y - x"
    using assms by (intro unat_of_nat64) simp
  then have "0 < unat (word_of_nat (y - x) :: u64)" using assms by linarith
  then have "(word_of_nat (y - x) :: u64) \<noteq> 0" by auto
  then have "unat (- (word_of_nat (y - x) :: u64)) = 2 ^ 64 - (y - x)"
    by (simp add: unat_minus_nonzero u)
  moreover have "(b + word_of_nat x) - (b + word_of_nat y) = - (word_of_nat (y - x) :: u64)"
    using d by (metis minus_diff_eq)
  ultimately show ?thesis using assms d u unfolding sep_def by (simp only:) linarith
qed

lemma unat_diff_Suc:
  fixes a b :: u64
  assumes "unat (b - a) = Suc d"
  shows "unat (b - (a + 1)) = d"
proof -
  have "b - a \<noteq> 0" using assms by auto
  then have "unat (b - a - 1) = unat (b - a) - 1"
    by (simp add: unat_minus_one)
  then show ?thesis using assms by (simp add: algebra_simps)
qed

lemma unat_add_offset: "i < 2 ^ 64 \<Longrightarrow> unat (a + word_of_nat i - (a :: u64)) = i"
  by (simp add: unsigned_of_nat take_bit_nat_eq_self)

section \<open>Laws of loads and stores\<close>

lemma ldn_less: "ldn n m a < 256 ^ n"
proof (induction n arbitrary: a)
  case (Suc n)
  have "unat (m a) < 256" using unsigned_less [of "m a"] by simp
  with Suc [of "a + 1"] show ?case by simp
qed simp

lemma stn_outside: "n \<le> unat (b - a) \<Longrightarrow> stn n m a v b = m b"
proof (induction n arbitrary: a v)
  case (Suc n)
  then obtain d where d: "unat (b - a) = Suc d" by (cases "unat (b - a)") auto
  then have "n \<le> unat (b - (a + 1))" using Suc.prems unat_diff_Suc [OF d] by simp
  moreover have "b \<noteq> a" using d by auto
  ultimately show ?case using Suc.IH by simp
qed simp

lemma ldn_cong:
  "(\<And>i. i < n \<Longrightarrow> m (a + word_of_nat i) = m' (a + word_of_nat i)) \<Longrightarrow> ldn n m a = ldn n m' a"
proof (induction n arbitrary: a)
  case (Suc n)
  have "ldn n m (a + 1) = ldn n m' (a + 1)"
    using Suc.prems [of "Suc _"] by (intro Suc.IH) (simp add: algebra_simps)
  then show ?case using Suc.prems [of 0] by simp
qed simp

lemma ldn_stn_sep: "sep a n b k \<Longrightarrow> k < 2 ^ 64 \<Longrightarrow> ldn k (stn n m a v) b = ldn k m b"
proof (rule ldn_cong)
  fix i assume s: "sep a n b k" "k < 2 ^ 64" and i: "i < k"
  have "n \<le> unat (b + word_of_nat i - a)"
  proof (cases "b = a")
    case True
    with s i show ?thesis by (simp add: sep_def)
  next
    case False
    have "b - a \<noteq> 0" using False by simp
    then have "unat (a - b) = 2 ^ 64 - unat (b - a)"
      using unat_minus_nonzero [of "b - a"] by simp
    moreover have "unat (b + word_of_nat i - a) = (unat (b - a) + i) mod 2 ^ 64"
    proof -
      have "b + word_of_nat i - a = (b - a) + word_of_nat i" by simp
      then show ?thesis using s i by (simp only: unat_word_ariths) (simp add: unat_of_nat64)
    qed
    moreover have "unat (b - a) < 2 ^ 64" using unat_less64 [of "b - a"] by simp
    moreover from calculation have "unat (b - a) + i < 2 ^ 64"
      using s i unfolding sep_def by linarith
    ultimately show ?thesis using s i by (simp only: mod_less) (simp add: sep_def)
  qed
  then show "stn n m a v (b + word_of_nat i) = m (b + word_of_nat i)"
    by (rule stn_outside)
qed

lemma ldn_upd_before:
  assumes "n < 2 ^ 64"
  shows "ldn n (m(a := x)) (a + 1) = ldn n m (a + 1)"
proof (rule ldn_cong)
  fix i assume i: "i < n"
  have "a + 1 + word_of_nat i - a = word_of_nat (Suc i)" by simp
  moreover have "unat (word_of_nat (Suc i) :: u64) = Suc i"
    using i assms by (intro unat_of_nat64) simp
  ultimately have "a + 1 + word_of_nat i \<noteq> a" by (metis diff_self nat.simps(3) unsigned_0)
  then show "(m(a := x)) (a + 1 + word_of_nat i) = m (a + 1 + word_of_nat i)" by simp
qed

lemma ldn_stn_same: "n \<le> 2 ^ 64 \<Longrightarrow> ldn n (stn n m a v) a = v mod 256 ^ n"
proof (induction n arbitrary: a v)
  case (Suc n)
  then have "ldn n (stn n m (a + 1) (v div 256)) (a + 1) = (v div 256) mod 256 ^ n" by simp
  then have "ldn n (stn (Suc n) m a v) (a + 1) = (v div 256) mod 256 ^ n"
    using Suc.prems by (simp only: stn.simps) (subst ldn_upd_before, simp_all)
  moreover have "unat (stn (Suc n) m a v a) = v mod 256"
    by (simp add: unsigned_of_nat take_bit_eq_mod)
  ultimately show ?case by (simp only: ldn.simps) (simp add: mod_mult2_eq)
qed simp

lemma unat_word_of_nat_ldn32: "unat (ld32 m a) = ldn 4 m a"
  using ldn_less [of 4 m a] by (simp add: ld32_def unsigned_of_nat take_bit_nat_eq_self)

lemma unat_ld64: "unat (ld64 m a) = ldn 8 m a"
  using ldn_less [of 8 m a] by (simp add: ld64_def unsigned_of_nat take_bit_nat_eq_self)

lemma ld64_st64_same [simp, mem_simps]: "ld64 (st64 m a v) a = v"
proof -
  have "unat v < 2 ^ 64" using unsigned_less [of v, where ?'a = nat] by simp
  then show ?thesis by (simp add: ld64_def st64_def ldn_stn_same)
qed

lemma ld32_st32_same [simp, mem_simps]: "ld32 (st32 m a v) a = v"
proof -
  have "unat v < 2 ^ 32" using unsigned_less [of v, where ?'a = nat] by simp
  then show ?thesis by (simp add: ld32_def st32_def ldn_stn_same)
qed

lemma ld64_st64_sep [mem_simps]: "sep a 8 b 8 \<Longrightarrow> ld64 (st64 m a v) b = ld64 m b"
  by (simp add: ld64_def st64_def ldn_stn_sep)

lemma ld32_st64_sep [mem_simps]: "sep a 8 b 4 \<Longrightarrow> ld32 (st64 m a v) b = ld32 m b"
  by (simp add: ld32_def st64_def ldn_stn_sep)

lemma ld64_st32_sep [mem_simps]: "sep a 4 b 8 \<Longrightarrow> ld64 (st32 m a v) b = ld64 m b"
  by (simp add: ld64_def st32_def ldn_stn_sep)

lemma ld32_st32_sep [mem_simps]: "sep a 4 b 4 \<Longrightarrow> ld32 (st32 m a v) b = ld32 m b"
  by (simp add: ld32_def st32_def ldn_stn_sep)

lemma st64_outside: "8 \<le> unat (b - a) \<Longrightarrow> st64 m a v b = m b"
  by (simp add: st64_def stn_outside)

lemma st32_outside: "4 \<le> unat (b - a) \<Longrightarrow> st32 m a v b = m b"
  by (simp add: st32_def stn_outside)

text \<open>A load whose bytes are untouched reads the same value.\<close>

lemma ld64_cong:
  assumes "\<And>b. unat (b - a) < 8 \<Longrightarrow> m b = m' b"
  shows "ld64 m a = ld64 m' a"
proof -
  have "ldn 8 m a = ldn 8 m' a"
    by (rule ldn_cong, rule assms) (simp add: unat_of_nat64)
  then show ?thesis by (simp add: ld64_def)
qed

lemma ld32_cong:
  assumes "\<And>b. unat (b - a) < 4 \<Longrightarrow> m b = m' b"
  shows "ld32 m a = ld32 m' a"
proof -
  have "ldn 4 m a = ldn 4 m' a"
    by (rule ldn_cong, rule assms) (simp add: unat_of_nat64)
  then show ?thesis by (simp add: ld32_def)
qed

section \<open>Byte runs\<close>

lemma length_ld_bytes [simp]: "length (ld_bytes m a n) = n"
  by (induction n arbitrary: a) auto

lemma nth_ld_bytes [simp]: "i < n \<Longrightarrow> ld_bytes m a n ! i = m (a + word_of_nat i)"
  by (induction n arbitrary: a i) (auto simp: nth_Cons algebra_simps split: nat.splits)

lemma ld_bytes_cong:
  "(\<And>i. i < n \<Longrightarrow> m (a + word_of_nat i) = m' (a + word_of_nat i)) \<Longrightarrow> ld_bytes m a n = ld_bytes m' a n"
  by (rule nth_equalityI) auto

lemma ld_bytes_append:
  "ld_bytes m a (n + k) = ld_bytes m a n @ ld_bytes m (a + word_of_nat n) k"
  by (induction n arbitrary: a) (auto simp: algebra_simps)

lemma st_bytes_outside: "length bs \<le> unat (b - a) \<Longrightarrow> st_bytes m a bs b = m b"
proof (induction bs arbitrary: m a)
  case (Cons x bs)
  then obtain d where d: "unat (b - a) = Suc d" by (cases "unat (b - a)") auto
  then have "length bs \<le> unat (b - (a + 1))" using Cons.prems unat_diff_Suc [OF d] by simp
  moreover have "b \<noteq> a" using d by auto
  ultimately show ?case using Cons.IH by simp
qed simp

lemma st_bytes_inside:
  "length bs \<le> 2 ^ 64 \<Longrightarrow> i < length bs \<Longrightarrow> st_bytes m a bs (a + word_of_nat i) = bs ! i"
proof (induction bs arbitrary: m a i)
  case (Cons x bs)
  show ?case
  proof (cases i)
    case 0
    have "unat (a - (a + 1)) = 2 ^ 64 - 1" by (simp add: unat_minus1_64)
    then have "st_bytes (m(a := x)) (a + 1) bs a = (m(a := x)) a"
      using Cons.prems by (intro st_bytes_outside) simp
    with 0 show ?thesis by simp
  next
    case (Suc j)
    with Cons.prems Cons.IH [of j "m(a := x)" "a + 1"] show ?thesis
      by (simp add: ac_simps del: fun_upd_apply)
  qed
qed simp

lemma ld_bytes_st_bytes: "length bs \<le> 2 ^ 64 \<Longrightarrow> ld_bytes (st_bytes m a bs) a (length bs) = bs"
  by (rule nth_equalityI) (auto simp: st_bytes_inside)


lemma addr_split: "b = a + word_of_nat (unat (b - a :: u64))"
  by simp

lemma st_bytes_apply:
  assumes "length bs \<le> 2 ^ 64"
  shows "st_bytes m a bs b = (if unat (b - a) < length bs then bs ! unat (b - a) else m b)"
proof (cases "unat (b - a) < length bs")
  case True
  have "st_bytes m a bs (a + word_of_nat (unat (b - a))) = bs ! unat (b - a)"
    by (rule st_bytes_inside [OF assms True])
  with True show ?thesis by simp
next
  case False
  then show ?thesis by (simp add: st_bytes_outside)
qed

lemma stn_inside:
  "n \<le> 2 ^ 64 \<Longrightarrow> i < n \<Longrightarrow> stn n m a v (a + word_of_nat i) = word_of_nat (v div 256 ^ i)"
proof (induction n arbitrary: a v i)
  case (Suc n)
  show ?case
  proof (cases i)
    case (Suc j)
    have "unat (word_of_nat i :: u64) = i" using Suc.prems by (intro unat_of_nat64) simp
    then have "a + word_of_nat i \<noteq> a" using Suc by auto
    moreover have "stn n m (a + 1) (v div 256) ((a + 1) + word_of_nat j) = word_of_nat (v div 256 div 256 ^ j)"
      using Suc.IH Suc.prems Suc by simp
    ultimately show ?thesis using Suc by (simp add: div_mult2_eq ac_simps)
  qed simp
qed simp

lemma stn_apply:
  assumes "n \<le> 2 ^ 64"
  shows "stn n m a v b = (if unat (b - a) < n then word_of_nat (v div 256 ^ unat (b - a)) else m b)"
proof (cases "unat (b - a) < n")
  case True
  have "stn n m a v (a + word_of_nat (unat (b - a))) = word_of_nat (v div 256 ^ unat (b - a))"
    by (rule stn_inside [OF assms True])
  with True show ?thesis by simp
next
  case False
  then show ?thesis by (simp add: stn_outside)
qed

text \<open>The bytes of a word, least significant first.\<close>

definition word_bytes :: "u64 \<Rightarrow> u8 list" where
  "word_bytes w = map (\<lambda>i. ucast (drop_bit (8 * i) w)) [0..<8]"

lemma length_word_bytes [simp]: "length (word_bytes w) = 8"
  by (simp add: word_bytes_def)

lemma word_of_nat_div_exp: "word_of_nat (unat (w :: u64) div 256 ^ i) = (ucast (drop_bit (8 * i) w) :: u8)"
proof -
  have "unat w div 256 ^ i = unat (drop_bit (8 * i) w)"
    by (simp only: unsigned_drop_bit_eq)
      (simp add: drop_bit_eq_div power_mult take_bit_nat_eq_self unat_less64)
  then show ?thesis by simp
qed

lemma st64_eq_st_bytes: "st64 m a w = st_bytes m a (word_bytes w)"
proof
  fix b
  show "st64 m a w b = st_bytes m a (word_bytes w) b"
    by (simp add: st64_def stn_apply st_bytes_apply) (simp add: word_bytes_def word_of_nat_div_exp)
qed

lemma st_bytes_append:
  "st_bytes m a (xs @ ys) = st_bytes (st_bytes m a xs) (a + word_of_nat (length xs)) ys"
  by (induction xs arbitrary: m a) (simp_all add: ac_simps)

text \<open>A word read and written back is its eight bytes.\<close>

lemma ld64_eq_of_bytes:
  assumes "\<And>i. i < 8 \<Longrightarrow> m (a + word_of_nat i) = m' (a' + word_of_nat i)"
  shows "ld64 m a = ld64 m' a'"
proof -
  have "ldn n m b = ldn n m' b'" if "\<And>i. i < n \<Longrightarrow> m (b + word_of_nat i) = m' (b' + word_of_nat i)" for n b b'
    using that
  proof (induction n arbitrary: b b')
    case (Suc n)
    have "ldn n m (b + 1) = ldn n m' (b' + 1)"
      using Suc.prems [of "Suc _"] by (intro Suc.IH) (simp add: algebra_simps)
    then show ?case using Suc.prems [of 0] by simp
  qed simp
  with assms show ?thesis by (simp add: ld64_def)
qed

lemma ldn_byte: "k < n \<Longrightarrow> ldn n m b div 256 ^ k mod 256 = unat (m (b + word_of_nat k))"
proof (induction n arbitrary: b k)
  case (Suc n)
  have lt: "unat (m b) < 256" using unsigned_less [of "m b", where ?'a = nat] by simp
  show ?case
  proof (cases k)
    case 0
    with lt show ?thesis by simp
  next
    case (Suc j)
    have "ldn (Suc n) m b div 256 ^ k = (unat (m b) + 256 * ldn n m (b + 1)) div 256 div 256 ^ j"
      by (simp add: Suc div_mult2_eq)
    also have "\<dots> = ldn n m (b + 1) div 256 ^ j" using lt by simp
    finally show ?thesis using Suc.IH [of j "b + 1"] Suc.prems Suc by (simp add: ac_simps)
  qed
qed simp

lemma word_bytes_ld64: "word_bytes (ld64 m a) = ld_bytes m a 8"
proof (rule nth_equalityI)
  fix i assume i: "i < length (word_bytes (ld64 m a))"
  have "word_bytes (ld64 m a) ! i = word_of_nat (unat (ld64 m a) div 256 ^ i)"
    using i by (simp add: word_bytes_def word_of_nat_div_exp)
  also have "\<dots> = word_of_nat (ldn 8 m a div 256 ^ i mod 256)"
    by (simp add: unat_ld64 word_of_nat_eq_iff take_bit_eq_mod)
  also have "\<dots> = ld_bytes m a 8 ! i" using i ldn_byte [of i 8 m a] by simp
  finally show "word_bytes (ld64 m a) ! i = ld_bytes m a 8 ! i" .
qed simp

lemma ld32_byte:
  assumes "i < 4"
  shows "ucast (drop_bit (8 * i) (ld32 m a)) = m (a + word_of_nat i)"
proof -
  have "ldn 4 m a < 2 ^ 32" using ldn_less [of 4 m a] by simp
  then have "take_bit 32 (ldn 4 m a) = ldn 4 m a" "ldn 4 m a div 256 ^ i < 2 ^ 32"
    by (simp add: take_bit_nat_eq_self, meson div_le_dividend order_le_less_trans)
  then have "unat (drop_bit (8 * i) (ld32 m a)) mod 256 = ldn 4 m a div 256 ^ i mod 256"
    by (simp only: unsigned_drop_bit_eq unat_word_of_nat_ldn32) (simp add: drop_bit_eq_div power_mult take_bit_nat_eq_self)
  also have "\<dots> = unat (m (a + word_of_nat i))" by (rule ldn_byte [OF assms])
  finally show ?thesis
    by (simp add: word_unat_eq_iff unsigned_ucast_eq take_bit_eq_mod)
qed

text \<open>The offset of an address in a range that starts \<open>k\<close> bytes into another one.\<close>

lemma offset_iff:
  fixes a b :: u64
  assumes "k + n \<le> 2 ^ 64"
  shows "unat (b - (a + word_of_nat k)) < n \<longleftrightarrow> k \<le> unat (b - a) \<and> unat (b - a) < k + n"
proof (cases "n = 0")
  case False
  then have u: "unat (word_of_nat k :: u64) = k" using assms by (intro unat_of_nat64) simp
  show ?thesis
  proof (cases "k \<le> unat (b - a)")
    case True
    then show ?thesis using unat_sub_offset [of "word_of_nat k" b a] u by auto
  next
    case False
    then show ?thesis using unat_sub_wrap [of b a "word_of_nat k"] u assms by auto
  qed
qed simp

end
