(* ===== verification/Randomart.thy ===== *)
theory Randomart
  imports SM_Prelude
begin

text \<open>
  The picture of a public key (\<open>common/randomart.c\<close>): a walk on a board of 17 by 9 cells, two bits
  of the input to a step, and the drawing of the visit counts. An input is the list of its
  bytes, fewer than \<open>2^32\<close> of them. A drawing that reads outside \<open>symbols\<close> is \<open>None\<close>.
\<close>

definition XLIM :: int where "XLIM = 17"
definition YLIM :: int where "YLIM = 9"

definition symbols :: string where
  "symbols = '' .o+=*BOX@%&#/^SE''"

text \<open>The clamping of a coordinate.\<close>

definition limit :: "int \<Rightarrow> int \<Rightarrow> int" where
  "limit lim c = (if c < 0 then 0 else if c \<ge> lim then lim - 1 else c)"

definition new_position :: "u8 \<Rightarrow> u8 \<Rightarrow> bool \<times> u8" where
  "new_position pos direction =
     (let x0 = uint pos mod XLIM;
          y0 = uint pos div XLIM;
          (x1, y1) =
            (if direction = 0 then (x0 - 1, y0 - 1)
             else if direction = 1 then (x0 + 1, y0 - 1)
             else if direction = 2 then (x0 - 1, y0 + 1)
             else if direction = 3 then (x0 + 1, y0 + 1)
             else (x0, y0));
          x1 = limit XLIM x1;
          y1 = limit YLIM y1;
          newpos = word_of_int (y1 * XLIM + x1)
      in if newpos = pos then (False, pos) else (True, newpos))"

definition walk_step :: "u8 \<times> u8 \<times> u16 list \<Rightarrow> u8 \<times> u8 \<times> u16 list" where
  "walk_step s =
     (let (temp, pos, array) = s;
          (upd, pos) = new_position pos (temp AND 3);
          array = (if upd then array[unat pos := array ! unat pos + 1] else array);
          temp = drop_bit 2 temp
      in (temp, pos, array))"

definition walk_byte :: "u8 \<Rightarrow> u8 \<times> u16 list \<Rightarrow> u8 \<times> u16 list" where
  "walk_byte b s =
     (let (pos, array) = s; (temp, pos, array) = (walk_step ^^ 4) (b, pos, array) in (pos, array))"

definition drunken_walk :: "u8 list \<Rightarrow> u16 list \<Rightarrow> u16 list" where
  "drunken_walk input array =
     (let (pos, array) = fold walk_byte input (76, array);
          array = array[unat pos := 16]
      in array[76 := 15])"

definition symbol_at :: "u16 list \<Rightarrow> nat \<Rightarrow> char option" where
  "symbol_at array k =
     (if unat (array ! k) < length symbols then Some (symbols ! unat (array ! k)) else None)"

fun draw_cells :: "u16 list \<Rightarrow> nat list \<Rightarrow> string option" where
  "draw_cells array [] = Some []"
| "draw_cells array (k # ks) =
     (case symbol_at array k of
        None \<Rightarrow> None
      | Some c \<Rightarrow> map_option (Cons c) (draw_cells array ks))"

fun draw_rows :: "u16 list \<Rightarrow> nat list \<Rightarrow> string option" where
  "draw_rows array [] = Some []"
| "draw_rows array (i # is) =
     (case draw_cells array (map (\<lambda>j. j + 17 * i) [0..<17]) of
        None \<Rightarrow> None
      | Some row \<Rightarrow> map_option (\<lambda>rows. CHR ''|'' # row @ [CHR ''|'', CHR 0x0A] @ rows) (draw_rows array is))"

definition randomart :: "u8 list \<Rightarrow> string option" where
  "randomart input =
     (let array = drunken_walk input (replicate (17 * 9) 0)
      in map_option (\<lambda>rows. rows @ ''+-----------------+'' @ [CHR 0x0A] @ [CHR 0x00])
           (draw_rows array [0..<9]))"

section \<open>The walk stays on the board\<close>

lemma limit_bounds: "0 < lim \<Longrightarrow> 0 \<le> limit lim c \<and> limit lim c < lim"
  by (auto simp: limit_def)

lemma new_position_coordinates:
  fixes x y :: int
  assumes "0 \<le> x" "x < 17" "0 \<le> y" "y < 9"
  shows "unat (word_of_int (y * 17 + x) :: u8) = nat (y * 17 + x)"
proof -
  have "0 \<le> y * 17 + x" "y * 17 + x < 256" using assms by auto
  then show ?thesis
    by (simp only: unat_eq_nat_uint uint_word_of_int_eq take_bit_int_eq_self_iff) (simp add: take_bit_int_eq_self)
qed

lemma new_position_bound:
  assumes "unat pos < 153"
  shows "unat (snd (new_position pos d)) < 153"
proof -
  let ?f = "\<lambda>x y. word_of_int (limit YLIM y * XLIM + limit XLIM x) :: u8"
  have "unat (?f x y) < 153" for x y
  proof -
    have b: "0 \<le> limit 17 x" "limit 17 x < 17" "0 \<le> limit 9 y" "limit 9 y < 9"
      using limit_bounds [of 17 x] limit_bounds [of 9 y] by simp_all
    then have "limit 9 y * 17 + limit 17 x < 153" by linarith
    then show ?thesis unfolding XLIM_def YLIM_def new_position_coordinates [OF b] by simp
  qed
  then show ?thesis using assms by (auto simp: new_position_def Let_def split: prod.splits if_splits)
qed

definition on_board :: "u8 \<Rightarrow> u16 list \<Rightarrow> nat \<Rightarrow> bool" where
  "on_board pos array n \<longleftrightarrow> unat pos < 153 \<and> length array = 153 \<and> (\<forall>k<153. unat (array ! k) \<le> n)"

lemma unat_inc_le: "unat (w + 1 :: u16) \<le> Suc (unat w)"
  using unat_plus_if_size [of w 1] by (simp split: if_splits)

lemma walk_step_board:
  assumes "walk_step (t, p, a) = (t', p', a')" "on_board p a n"
  shows "on_board p' a' (Suc n)"
proof -
  obtain u q where q: "new_position p (t AND 3) = (u, q)" by fastforce
  have "unat q < 153" using new_position_bound [of p "t AND 3"] assms(2) q by (simp add: on_board_def)
  moreover have "unat (a[unat q := a ! unat q + 1] ! k) \<le> Suc n" if "k < 153" for k
    using that assms(2) unat_inc_le [of "a ! k"]
    by (cases "k = unat q") (auto simp: on_board_def intro: le_trans le_SucI)
  ultimately show ?thesis using assms q
    by (auto simp: walk_step_def on_board_def intro: le_SucI split: if_splits)
qed

lemma walk_steps_board:
  "(walk_step ^^ k) (t, p, a) = (t', p', a') \<Longrightarrow> on_board p a n \<Longrightarrow> on_board p' a' (n + k)"
proof (induction k arbitrary: t' p' a')
  case (Suc k)
  obtain t1 p1 a1 where s: "(walk_step ^^ k) (t, p, a) = (t1, p1, a1)" by (metis prod_cases3)
  with Suc walk_step_board [of t1 p1 a1 t' p' a' "n + k"] show ?case by simp
qed simp

lemma walk_bytes_board:
  "fold walk_byte input (p, a) = (p', a') \<Longrightarrow> on_board p a n \<Longrightarrow> on_board p' a' (n + 4 * length input)"
proof (induction input arbitrary: p a n)
  case (Cons b bs)
  obtain t1 p1 a1 where s: "(walk_step ^^ 4) (b, p, a) = (t1, p1, a1)" by (metis prod_cases3)
  then have "on_board p1 a1 (n + 4)" using walk_steps_board Cons.prems(2) by blast
  moreover have "walk_byte b (p, a) = (p1, a1)" by (simp add: walk_byte_def s)
  then have "fold walk_byte bs (p1, a1) = (p', a')" using Cons.prems(1) by simp
  ultimately have "on_board p' a' (n + 4 + 4 * length bs)" by (intro Cons.IH)
  then show ?case by (simp add: add.assoc)
qed simp

lemma drunken_walk_board:
  "length (drunken_walk input (replicate 153 0)) = 153 \<and>
   (\<forall>k<153. unat (drunken_walk input (replicate 153 0) ! k) \<le> max 16 (4 * length input))"
proof -
  obtain p a where w: "fold walk_byte input (76, replicate 153 0) = (p, a)" by fastforce
  have "on_board 76 (replicate 153 0) 0" by (simp add: on_board_def)
  from walk_bytes_board [OF w this] show ?thesis
    by (auto simp: drunken_walk_def w on_board_def nth_list_update)
qed

section \<open>The drawing\<close>

lemma draw_cells_Some:
  "\<forall>k\<in>set ks. unat (array ! k) \<le> 16 \<Longrightarrow> \<exists>row. draw_cells array ks = Some row \<and> length row = length ks"
  by (induction ks) (auto simp: symbol_at_def symbols_def)

lemma draw_rows_Some:
  "\<forall>k<17 * 9. unat (array ! k) \<le> 16 \<Longrightarrow> \<forall>i\<in>set is. i < 9 \<Longrightarrow>
   \<exists>rows. draw_rows array is = Some rows \<and> length rows = 20 * length is"
proof (induction "is")
  case (Cons i "is")
  obtain row where "draw_cells array (map (\<lambda>j. j + 17 * i) [0..<17]) = Some row" "length row = 17"
    using draw_cells_Some [of "map (\<lambda>j. j + 17 * i) [0..<17]" array] Cons.prems by auto
  with Cons show ?case by auto
qed simp

lemma draw_cells_None: "k \<in> set ks \<Longrightarrow> 17 \<le> unat (array ! k) \<Longrightarrow> draw_cells array ks = None"
  by (induction ks) (auto simp: symbol_at_def symbols_def split: option.splits)

lemma draw_rows_None:
  "i \<in> set is \<Longrightarrow> j < 17 \<Longrightarrow> 17 \<le> unat (array ! (j + 17 * i)) \<Longrightarrow> draw_rows array is = None"
proof (induction "is")
  case (Cons m "is")
  show ?case
  proof (cases "i = m")
    case True
    then have "draw_cells array (map (\<lambda>j. j + 17 * m) [0..<17]) = None"
      using Cons.prems by (intro draw_cells_None [of "j + 17 * i"]) auto
    then show ?thesis by simp
  qed (use Cons in \<open>auto split: option.splits\<close>)
qed simp

section \<open>Properties\<close>

text \<open>Four bytes of input are always safe to draw: the walk never leaves the board, no count exceeds
  the last symbol, and the string, with its terminator, has 201 characters, which fit the 256 the
  bootloader reserves.\<close>

theorem randomart_safe:
  assumes "length input \<le> 4"
  shows "\<exists>out. randomart input = Some out \<and> length out = 201"
proof -
  let ?a = "drunken_walk input (replicate 153 0)"
  have m: "max 16 (4 * length input) = 16" using assms by (intro max_absorb1) simp
  have "unat (?a ! k) \<le> 16" if "k < 17 * 9" for k
    using drunken_walk_board [of input] that unfolding m by simp
  with draw_rows_Some [of ?a "[0..<9]"] show ?thesis by (auto simp: randomart_def)
qed

theorem randomart_safe_witness: "\<exists>out. randomart [0xCC, 1, 2, 3] = Some out \<and> length out = 201"
  by (rule randomart_safe) simp

text \<open>The byte 0xCC moves one cell up and left and back, twice.\<close>

lemma list_update_twice:
  "i \<noteq> j \<Longrightarrow> xs[i := a, j := b, i := c, j := d] = xs[i := c, j := d]"
  by (metis list_update_overwrite list_update_swap)

lemma funpow_4: "(f ^^ 4) x = f (f (f (f x)))"
  by (simp add: numeral_eq_Suc)

lemma walk_byte_CC:
  assumes "length a = 153"
  shows "walk_byte 0xCC (76, a) = (76, a[58 := a ! 58 + 2, 76 := a ! 76 + 2])"
proof -
  have p: "new_position 76 0 = (True, 58)" "new_position 58 3 = (True, 76)"
    by (simp_all add: new_position_def XLIM_def YLIM_def limit_def)
  have "(walk_step ^^ 4) (0xCC, 76, a) =
      (0, 76, a[58 := a ! 58 + 1, 76 := a ! 76 + 1, 58 := a ! 58 + 1 + 1, 76 := a ! 76 + 1 + 1])"
    using assms by (simp add: funpow_4 walk_step_def p)
  then show ?thesis by (simp add: walk_byte_def list_update_twice add.commute)
qed

lemma walk_bytes_CC:
  "length a = 153 \<Longrightarrow> fold walk_byte (replicate n 0xCC) (76, a) =
     (76, a[58 := a ! 58 + 2 * word_of_nat n, 76 := a ! 76 + 2 * word_of_nat n])"
proof (induction n arbitrary: a)
  case (Suc n)
  then show ?case using walk_byte_CC [of a]
    by (simp add: list_update_twice algebra_simps)
qed simp

text \<open>The walk can visit a cell more often than there are symbols: nine or more bytes 0xCC, and so a
  public key of 32 of them, make the drawing read past the end of \<open>symbols\<close>.\<close>

theorem randomart_overruns_symbols:
  assumes "9 \<le> n" "n < 2 ^ 15"
  shows "randomart (replicate n 0xCC) = None"
proof -
  let ?a = "drunken_walk (replicate n 0xCC) (replicate 153 0)"
  have "unat (word_of_nat (2 * n) :: u16) = 2 * n"
    using assms(2) by (simp only: unsigned_of_nat) (simp add: take_bit_nat_eq_self)
  moreover have "?a ! (7 + 17 * 3) = word_of_nat (2 * n)"
    by (simp add: drunken_walk_def walk_bytes_CC del: fold_replicate)
  ultimately have "17 \<le> unat (?a ! (7 + 17 * 3))" using assms(1) by simp
  then have "draw_rows ?a [0..<9] = None" by (intro draw_rows_None [of 3 _ 7]) auto
  then show ?thesis by (simp add: randomart_def)
qed

theorem randomart_overruns_symbols_witness: "randomart (replicate 32 0xCC) = None"
  by (rule randomart_overruns_symbols) simp_all

end
