(* ===== verification/Field25519_Mul.thy ===== *)
theory Field25519_Mul
  imports Field25519
begin

text \<open>
  Products and powers in the field. A carry step splits a limb into a rounded quotient and a small
  remainder; the two carry chains keep the represented integer up to a multiple of the prime and
  leave small limbs. The schoolbook product is the convolution \<open>conv\<close> of the limbs with the weights 2
  (two odd positions) and 19 (wrap-around past \<open>2^255\<close>); \<open>fe_mul\<close>, \<open>fe_sq\<close> and \<open>fe_sq2\<close> are its
  carried forms, none of whose 32-bit or 64-bit intermediate values overflows within the bounds
  of the source comments. The addition chains of \<open>fe_invert\<close> and \<open>fe_pow22523\<close> are followed by \<open>fe_power\<close>.
\<close>

section \<open>Carry steps\<close>

lemma div_round:
  assumes "k = (x + c) div (2 * c)" "0 < (c :: int)"
  shows "- c \<le> x - 2 * c * k" "x - 2 * c * k < c"
  using pos_mod_sign [of "2 * c" "x + c"] pos_mod_bound [of "2 * c" "x + c"] assms(2)
    mult_div_mod_eq [of "2 * c" "x + c"] unfolding assms(1) by linarith+

lemma carry64:
  assumes "- (2 ^ 62 + 2 ^ 61) \<le> sint (h :: i64)" "sint h \<le> 2 ^ 62 + 2 ^ 61" "0 < n" "n \<le> 26"
  obtains k r where "signed_drop_bit n (h + push_bit (n - 1) 1) = k" "h - push_bit n k = r"
    "sint h = 2 ^ n * sint k + sint r" "- (2 ^ (n - 1)) \<le> sint r" "sint r < 2 ^ (n - 1)"
proof -
  define c :: int where "c = 2 ^ (n - 1)"
  have n: "2 * c = 2 ^ n" using assms(3) unfolding c_def by (simp flip: power_Suc)
  have c: "0 < c" "c \<le> 2 ^ 25"
    using assms(4) power_increasing [of "n - 1" 25 "2 :: int"] by (simp_all add: c_def)
  define k where "k = signed_drop_bit n (h + push_bit (n - 1) 1)"
  have "word_of_int c = (push_bit (n - 1) 1 :: i64)" by (simp add: c_def push_bit_eq_mult)
  then have one: "sint (push_bit (n - 1) 1 :: i64) = c" using sint64 [of c] c by simp
  have "sint (h + push_bit (n - 1) 1) = sint h + c"
    by (rule sint_add64 [of h "push_bit (n - 1) 1", unfolded one]) (use assms(1,2) c in simp_all)
  then have k: "sint k = (sint h + c) div (2 * c)"
    by (simp add: k_def sint_signed_drop_bit_eq drop_bit_eq_div n)
  define r where "r = h - push_bit n k"
  note b = div_round [OF k c(1)]
  have "sint (push_bit n k) = 2 * c * sint k"
    using assms(1,2) c b by (subst sint_push64) (simp_all flip: n)
  then have "sint r = sint h - 2 * c * sint k"
    using assms(1,2) b c unfolding r_def by (subst sint_sub64) simp_all
  with b that [of k r] show thesis unfolding n [symmetric] c_def [symmetric] by (simp add: k_def r_def)
qed

lemma carry26:
  assumes "- (2 ^ 62 + 2 ^ 61) \<le> sint (h :: i64)" "sint h \<le> 2 ^ 62 + 2 ^ 61"
  obtains k r where "signed_drop_bit 26 (h + push_bit 25 1) = k" "h - push_bit 26 k = r"
    "sint h = 2 ^ 26 * sint k + sint r" "- (2 ^ 25) \<le> sint r" "sint r < 2 ^ 25"
    "- (2 ^ 38) \<le> sint k" "sint k \<le> 2 ^ 38"
proof -
  obtain k r where *: "signed_drop_bit 26 (h + push_bit 25 1) = k" "h - push_bit 26 k = r"
    "sint h = 2 ^ 26 * sint k + sint r" "- (2 ^ 25) \<le> sint r" "sint r < 2 ^ 25"
    using carry64 [OF assms, of 26] by auto
  with assms have "- (2 ^ 38) \<le> sint k" "sint k \<le> 2 ^ 38" by simp_all
  with * that show thesis by blast
qed

lemma carry25:
  assumes "- (2 ^ 62 + 2 ^ 61) \<le> sint (h :: i64)" "sint h \<le> 2 ^ 62 + 2 ^ 61"
  obtains k r where "signed_drop_bit 25 (h + push_bit 24 1) = k" "h - push_bit 25 k = r"
    "sint h = 2 ^ 25 * sint k + sint r" "- (2 ^ 24) \<le> sint r" "sint r < 2 ^ 24"
    "- (2 ^ 38) \<le> sint k" "sint k \<le> 2 ^ 38"
proof -
  obtain k r where *: "signed_drop_bit 25 (h + push_bit 24 1) = k" "h - push_bit 25 k = r"
    "sint h = 2 ^ 25 * sint k + sint r" "- (2 ^ 24) \<le> sint r" "sint r < 2 ^ 24"
    using carry64 [OF assms, of 25] by auto
  with assms have "- (2 ^ 38) \<le> sint k" "sint k \<le> 2 ^ 38" by simp_all
  with * that show thesis by blast
qed

lemma Let_eq: "t = v \<Longrightarrow> Let t f = f v" by simp

lemma plus64:
  assumes "- (2 ^ 63) \<le> sint a + sint b" "sint a + sint b < 2 ^ 63"
  obtains c where "a + b = (c :: i64)" "sint c = sint a + sint b"
  using sint_add64 [OF assms] by blast

lemma plus64_19:
  assumes "- (2 ^ 50) \<le> sint a" "sint a \<le> 2 ^ 50" "- (2 ^ 50) \<le> sint b" "sint b \<le> 2 ^ 50"
  obtains c where "a + b * 19 = (c :: i64)" "sint c = sint a + 19 * sint b"
proof -
  have "sint (b * 19) = 19 * sint b" using sint64 [of "19 * sint b"] assms by (simp add: mult.commute)
  moreover from this have "sint (a + b * 19) = sint a + 19 * sint b"
    using assms sint_add64 [of a "b * 19"] by simp
  ultimately show thesis using that by blast
qed

lemma to_i32:
  assumes "- (2 ^ 31) \<le> sint (h :: i64)" "sint h < 2 ^ 31"
  shows "sint (i32 h) = sint h"
  unfolding i32_def scast_eq by (rule sint32 [OF assms])

section \<open>Carry chains\<close>

lemma mul_carries_ok:
  assumes b0: "- (2 ^ 62 + 2 ^ 60) \<le> sint h0" "sint h0 \<le> 2 ^ 62 + 2 ^ 60"
    and b1: "- (2 ^ 62 + 2 ^ 60) \<le> sint h1" "sint h1 \<le> 2 ^ 62 + 2 ^ 60"
    and b2: "- (2 ^ 62 + 2 ^ 60) \<le> sint h2" "sint h2 \<le> 2 ^ 62 + 2 ^ 60"
    and b3: "- (2 ^ 62 + 2 ^ 60) \<le> sint h3" "sint h3 \<le> 2 ^ 62 + 2 ^ 60"
    and b4: "- (2 ^ 62 + 2 ^ 60) \<le> sint h4" "sint h4 \<le> 2 ^ 62 + 2 ^ 60"
    and b5: "- (2 ^ 62 + 2 ^ 60) \<le> sint h5" "sint h5 \<le> 2 ^ 62 + 2 ^ 60"
    and b6: "- (2 ^ 62 + 2 ^ 60) \<le> sint h6" "sint h6 \<le> 2 ^ 62 + 2 ^ 60"
    and b7: "- (2 ^ 62 + 2 ^ 60) \<le> sint h7" "sint h7 \<le> 2 ^ 62 + 2 ^ 60"
    and b8: "- (2 ^ 62 + 2 ^ 60) \<le> sint h8" "sint h8 \<le> 2 ^ 62 + 2 ^ 60"
    and b9: "- (2 ^ 62 + 2 ^ 60) \<le> sint h9" "sint h9 \<le> 2 ^ 62 + 2 ^ 60"
  obtains k where
    "fe_val (mul_carries h0 h1 h2 h3 h4 h5 h6 h7 h8 h9) =
       sint h0 + 2 ^ 26 * sint h1 + 2 ^ 51 * sint h2 + 2 ^ 77 * sint h3 + 2 ^ 102 * sint h4 +
       2 ^ 128 * sint h5 + 2 ^ 153 * sint h6 + 2 ^ 179 * sint h7 + 2 ^ 204 * sint h8 + 2 ^ 230 * sint h9
       - (2 ^ 255 - 19) * k"
    "fe_bound 16945020 (mul_carries h0 h1 h2 h3 h4 h5 h6 h7 h8 h9)"
proof -
  obtain c0 r0 where c0: "signed_drop_bit 26 (h0 + push_bit 25 1) = c0" "h0 - push_bit 26 c0 = r0"
      "sint h0 = 2 ^ 26 * sint c0 + sint r0" "- (2 ^ 25) \<le> sint r0" "sint r0 < 2 ^ 25"
      "- (2 ^ 38) \<le> sint c0" "sint c0 \<le> 2 ^ 38"
    by (rule carry26 [of h0]) (use b0 in simp_all)
  obtain h1a where h1a: "h1 + c0 = h1a" "sint h1a = sint h1 + sint c0"
    by (rule plus64 [of h1 c0]) (use b1 c0(6,7) in simp_all)
  obtain c4 r4 where c4: "signed_drop_bit 26 (h4 + push_bit 25 1) = c4" "h4 - push_bit 26 c4 = r4"
      "sint h4 = 2 ^ 26 * sint c4 + sint r4" "- (2 ^ 25) \<le> sint r4" "sint r4 < 2 ^ 25"
      "- (2 ^ 38) \<le> sint c4" "sint c4 \<le> 2 ^ 38"
    by (rule carry26 [of h4]) (use b4 in simp_all)
  obtain h5a where h5a: "h5 + c4 = h5a" "sint h5a = sint h5 + sint c4"
    by (rule plus64 [of h5 c4]) (use b5 c4(6,7) in simp_all)
  obtain c1 r1 where c1: "signed_drop_bit 25 (h1a + push_bit 24 1) = c1" "h1a - push_bit 25 c1 = r1"
      "sint h1a = 2 ^ 25 * sint c1 + sint r1" "- (2 ^ 24) \<le> sint r1" "sint r1 < 2 ^ 24"
      "- (2 ^ 38) \<le> sint c1" "sint c1 \<le> 2 ^ 38"
    by (rule carry25 [of h1a]) (use h1a(2) b1 c0(6,7) in simp_all)
  obtain h2a where h2a: "h2 + c1 = h2a" "sint h2a = sint h2 + sint c1"
    by (rule plus64 [of h2 c1]) (use b2 c1(6,7) in simp_all)
  obtain c5 r5 where c5: "signed_drop_bit 25 (h5a + push_bit 24 1) = c5" "h5a - push_bit 25 c5 = r5"
      "sint h5a = 2 ^ 25 * sint c5 + sint r5" "- (2 ^ 24) \<le> sint r5" "sint r5 < 2 ^ 24"
      "- (2 ^ 38) \<le> sint c5" "sint c5 \<le> 2 ^ 38"
    by (rule carry25 [of h5a]) (use h5a(2) b5 c4(6,7) in simp_all)
  obtain h6a where h6a: "h6 + c5 = h6a" "sint h6a = sint h6 + sint c5"
    by (rule plus64 [of h6 c5]) (use b6 c5(6,7) in simp_all)
  obtain c2 r2 where c2: "signed_drop_bit 26 (h2a + push_bit 25 1) = c2" "h2a - push_bit 26 c2 = r2"
      "sint h2a = 2 ^ 26 * sint c2 + sint r2" "- (2 ^ 25) \<le> sint r2" "sint r2 < 2 ^ 25"
      "- (2 ^ 38) \<le> sint c2" "sint c2 \<le> 2 ^ 38"
    by (rule carry26 [of h2a]) (use h2a(2) b2 c1(6,7) in simp_all)
  obtain h3a where h3a: "h3 + c2 = h3a" "sint h3a = sint h3 + sint c2"
    by (rule plus64 [of h3 c2]) (use b3 c2(6,7) in simp_all)
  obtain c6 r6 where c6: "signed_drop_bit 26 (h6a + push_bit 25 1) = c6" "h6a - push_bit 26 c6 = r6"
      "sint h6a = 2 ^ 26 * sint c6 + sint r6" "- (2 ^ 25) \<le> sint r6" "sint r6 < 2 ^ 25"
      "- (2 ^ 38) \<le> sint c6" "sint c6 \<le> 2 ^ 38"
    by (rule carry26 [of h6a]) (use h6a(2) b6 c5(6,7) in simp_all)
  obtain h7a where h7a: "h7 + c6 = h7a" "sint h7a = sint h7 + sint c6"
    by (rule plus64 [of h7 c6]) (use b7 c6(6,7) in simp_all)
  obtain c3 r3 where c3: "signed_drop_bit 25 (h3a + push_bit 24 1) = c3" "h3a - push_bit 25 c3 = r3"
      "sint h3a = 2 ^ 25 * sint c3 + sint r3" "- (2 ^ 24) \<le> sint r3" "sint r3 < 2 ^ 24"
      "- (2 ^ 38) \<le> sint c3" "sint c3 \<le> 2 ^ 38"
    by (rule carry25 [of h3a]) (use h3a(2) b3 c2(6,7) in simp_all)
  obtain h4b where h4b: "r4 + c3 = h4b" "sint h4b = sint r4 + sint c3"
    by (rule plus64 [of r4 c3]) (use c4(4,5) c3(6,7) in simp_all)
  obtain c7 r7 where c7: "signed_drop_bit 25 (h7a + push_bit 24 1) = c7" "h7a - push_bit 25 c7 = r7"
      "sint h7a = 2 ^ 25 * sint c7 + sint r7" "- (2 ^ 24) \<le> sint r7" "sint r7 < 2 ^ 24"
      "- (2 ^ 38) \<le> sint c7" "sint c7 \<le> 2 ^ 38"
    by (rule carry25 [of h7a]) (use h7a(2) b7 c6(6,7) in simp_all)
  obtain h8a where h8a: "h8 + c7 = h8a" "sint h8a = sint h8 + sint c7"
    by (rule plus64 [of h8 c7]) (use b8 c7(6,7) in simp_all)
  obtain c4b r4b where c4b: "signed_drop_bit 26 (h4b + push_bit 25 1) = c4b" "h4b - push_bit 26 c4b = r4b"
      "sint h4b = 2 ^ 26 * sint c4b + sint r4b" "- (2 ^ 25) \<le> sint r4b" "sint r4b < 2 ^ 25"
      "- (2 ^ 38) \<le> sint c4b" "sint c4b \<le> 2 ^ 38"
    by (rule carry26 [of h4b]) (use h4b(2) c4(4,5) c3(6,7) in simp_all)
  obtain h5b where h5b: "r5 + c4b = h5b" "sint h5b = sint r5 + sint c4b"
    by (rule plus64 [of r5 c4b]) (use c5(4,5) c4b(6,7) in simp_all)
  obtain c8 r8 where c8: "signed_drop_bit 26 (h8a + push_bit 25 1) = c8" "h8a - push_bit 26 c8 = r8"
      "sint h8a = 2 ^ 26 * sint c8 + sint r8" "- (2 ^ 25) \<le> sint r8" "sint r8 < 2 ^ 25"
      "- (2 ^ 38) \<le> sint c8" "sint c8 \<le> 2 ^ 38"
    by (rule carry26 [of h8a]) (use h8a(2) b8 c7(6,7) in simp_all)
  obtain h9a where h9a: "h9 + c8 = h9a" "sint h9a = sint h9 + sint c8"
    by (rule plus64 [of h9 c8]) (use b9 c8(6,7) in simp_all)
  obtain c9 r9 where c9: "signed_drop_bit 25 (h9a + push_bit 24 1) = c9" "h9a - push_bit 25 c9 = r9"
      "sint h9a = 2 ^ 25 * sint c9 + sint r9" "- (2 ^ 24) \<le> sint r9" "sint r9 < 2 ^ 24"
      "- (2 ^ 38) \<le> sint c9" "sint c9 \<le> 2 ^ 38"
    by (rule carry25 [of h9a]) (use h9a(2) b9 c8(6,7) in simp_all)
  obtain h0b where h0b: "r0 + c9 * 19 = h0b" "sint h0b = sint r0 + 19 * sint c9"
    by (rule plus64_19 [of r0 c9]) (use c0(4,5) c9(6,7) in simp_all)
  obtain c0b r0b where c0b: "signed_drop_bit 26 (h0b + push_bit 25 1) = c0b" "h0b - push_bit 26 c0b = r0b"
      "sint h0b = 2 ^ 26 * sint c0b + sint r0b" "- (2 ^ 25) \<le> sint r0b" "sint r0b < 2 ^ 25"
      "- (2 ^ 38) \<le> sint c0b" "sint c0b \<le> 2 ^ 38"
    by (rule carry26 [of h0b]) (use h0b(2) c0(4,5) c9(6,7) in simp_all)
  obtain h1b where h1b: "r1 + c0b = h1b" "sint h1b = sint r1 + sint c0b"
    by (rule plus64 [of r1 c0b]) (use c1(4,5) c0b(6,7) in simp_all)
  have eq: "mul_carries h0 h1 h2 h3 h4 h5 h6 h7 h8 h9 =
      Fe (i32 r0b) (i32 h1b) (i32 r2) (i32 r3) (i32 r4b) (i32 h5b) (i32 r6) (i32 r7) (i32 r8) (i32 r9)"
    unfolding mul_carries_def by (simp only: Let_eq [OF c0(1)] Let_eq [OF c0(2)] Let_eq [OF h1a(1)] Let_eq [OF c4(1)] Let_eq [OF c4(2)] Let_eq [OF h5a(1)] Let_eq [OF c1(1)] Let_eq [OF c1(2)] Let_eq [OF h2a(1)] Let_eq [OF c5(1)] Let_eq [OF c5(2)] Let_eq [OF h6a(1)] Let_eq [OF c2(1)] Let_eq [OF c2(2)] Let_eq [OF h3a(1)] Let_eq [OF c6(1)] Let_eq [OF c6(2)] Let_eq [OF h7a(1)] Let_eq [OF c3(1)] Let_eq [OF c3(2)] Let_eq [OF h4b(1)] Let_eq [OF c7(1)] Let_eq [OF c7(2)] Let_eq [OF h8a(1)] Let_eq [OF c4b(1)] Let_eq [OF c4b(2)] Let_eq [OF h5b(1)] Let_eq [OF c8(1)] Let_eq [OF c8(2)] Let_eq [OF h9a(1)] Let_eq [OF c9(1)] Let_eq [OF c9(2)] Let_eq [OF h0b(1)] Let_eq [OF c0b(1)] Let_eq [OF c0b(2)] Let_eq [OF h1b(1)])
  have h5b5: "- (2 ^ 24 + 2 ^ 13) \<le> sint h5b" "sint h5b \<le> 2 ^ 24 + 2 ^ 13"
    using h5b(2) c5(4,5) c4b(3,4,5) h4b(2) c4(4,5) c3(6,7) by simp_all
  have h1b1: "- 16945020 \<le> sint h1b" "sint h1b \<le> 16945020"
    using h1b(2) c1(4,5) c0b(3,4,5) h0b(2) c0(4,5) c9(6,7) by simp_all
  have s: "sint (i32 r0b) = sint r0b" "sint (i32 h1b) = sint h1b" "sint (i32 r2) = sint r2"
      "sint (i32 r3) = sint r3" "sint (i32 r4b) = sint r4b" "sint (i32 h5b) = sint h5b"
      "sint (i32 r6) = sint r6" "sint (i32 r7) = sint r7" "sint (i32 r8) = sint r8" "sint (i32 r9) = sint r9"
    using c0b(4,5) h1b1 c2(4,5) c3(4,5) c4b(4,5) h5b5 c6(4,5) c7(4,5) c8(4,5) c9(4,5)
    by (simp_all add: to_i32)
  show thesis
  proof (rule that [of "sint c9"])
    show "fe_bound 16945020 (mul_carries h0 h1 h2 h3 h4 h5 h6 h7 h8 h9)"
      using c0b(4,5) h1b1 c2(4,5) c3(4,5) c4b(4,5) h5b5 c6(4,5) c7(4,5) c8(4,5) c9(4,5)
      by (simp add: eq s abs_le_iff fe_bound_Fe)
    show "fe_val (mul_carries h0 h1 h2 h3 h4 h5 h6 h7 h8 h9) =
       sint h0 + 2 ^ 26 * sint h1 + 2 ^ 51 * sint h2 + 2 ^ 77 * sint h3 + 2 ^ 102 * sint h4 +
       2 ^ 128 * sint h5 + 2 ^ 153 * sint h6 + 2 ^ 179 * sint h7 + 2 ^ 204 * sint h8 + 2 ^ 230 * sint h9
       - (2 ^ 255 - 19) * sint c9"
      using c0(3) c1(3) c2(3) c3(3) c4(3) c5(3) c6(3) c7(3) c8(3) c9(3) c4b(3) c0b(3)
        h1a(2) h2a(2) h3a(2) h4b(2) h5a(2) h5b(2) h6a(2) h7a(2) h8a(2) h9a(2) h0b(2) h1b(2)
      by (simp add: eq s fe_val_Fe algebra_simps)
  qed
qed

lemma small_carry26:
  assumes "- (2 ^ 44 + 2 ^ 43) \<le> sint (h :: i64)" "sint h \<le> 2 ^ 44 + 2 ^ 43"
  obtains k r where "signed_drop_bit 26 (h + push_bit 25 1) = k" "h - push_bit 26 k = r"
    "sint h = 2 ^ 26 * sint k + sint r" "- (2 ^ 25) \<le> sint r" "sint r < 2 ^ 25"
    "- (2 ^ 20) \<le> sint k" "sint k \<le> 2 ^ 20"
proof -
  obtain k r where *: "signed_drop_bit 26 (h + push_bit 25 1) = k" "h - push_bit 26 k = r"
    "sint h = 2 ^ 26 * sint k + sint r" "- (2 ^ 25) \<le> sint r" "sint r < 2 ^ 25"
    using carry64 [of h 26] assms by auto
  with assms have "- (2 ^ 20) \<le> sint k" "sint k \<le> 2 ^ 20" by simp_all
  with * that show thesis by blast
qed

lemma small_carry25:
  assumes "- (2 ^ 44 + 2 ^ 43) \<le> sint (h :: i64)" "sint h \<le> 2 ^ 44 + 2 ^ 43"
  obtains k r where "signed_drop_bit 25 (h + push_bit 24 1) = k" "h - push_bit 25 k = r"
    "sint h = 2 ^ 25 * sint k + sint r" "- (2 ^ 24) \<le> sint r" "sint r < 2 ^ 24"
    "- (2 ^ 20) \<le> sint k" "sint k \<le> 2 ^ 20"
proof -
  obtain k r where *: "signed_drop_bit 25 (h + push_bit 24 1) = k" "h - push_bit 25 k = r"
    "sint h = 2 ^ 25 * sint k + sint r" "- (2 ^ 24) \<le> sint r" "sint r < 2 ^ 24"
    using carry64 [of h 25] assms by auto
  with assms have "- (2 ^ 20) \<le> sint k" "sint k \<le> 2 ^ 20" by simp_all
  with * that show thesis by blast
qed

lemma par_carries_ok:
  assumes b0: "- (2 ^ 44) \<le> sint h0" "sint h0 \<le> 2 ^ 44"
    and b1: "- (2 ^ 44) \<le> sint h1" "sint h1 \<le> 2 ^ 44"
    and b2: "- (2 ^ 44) \<le> sint h2" "sint h2 \<le> 2 ^ 44"
    and b3: "- (2 ^ 44) \<le> sint h3" "sint h3 \<le> 2 ^ 44"
    and b4: "- (2 ^ 44) \<le> sint h4" "sint h4 \<le> 2 ^ 44"
    and b5: "- (2 ^ 44) \<le> sint h5" "sint h5 \<le> 2 ^ 44"
    and b6: "- (2 ^ 44) \<le> sint h6" "sint h6 \<le> 2 ^ 44"
    and b7: "- (2 ^ 44) \<le> sint h7" "sint h7 \<le> 2 ^ 44"
    and b8: "- (2 ^ 44) \<le> sint h8" "sint h8 \<le> 2 ^ 44"
    and b9: "- (2 ^ 44) \<le> sint h9" "sint h9 \<le> 2 ^ 44"
  obtains k where
    "fe_val (par_carries h0 h1 h2 h3 h4 h5 h6 h7 h8 h9) =
       sint h0 + 2 ^ 26 * sint h1 + 2 ^ 51 * sint h2 + 2 ^ 77 * sint h3 + 2 ^ 102 * sint h4 +
       2 ^ 128 * sint h5 + 2 ^ 153 * sint h6 + 2 ^ 179 * sint h7 + 2 ^ 204 * sint h8 + 2 ^ 230 * sint h9
       - (2 ^ 255 - 19) * k"
    "fe_bound 17825792 (par_carries h0 h1 h2 h3 h4 h5 h6 h7 h8 h9)"
proof -
  obtain c9 r9 where c9: "signed_drop_bit 25 (h9 + push_bit 24 1) = c9" "h9 - push_bit 25 c9 = r9"
      "sint h9 = 2 ^ 25 * sint c9 + sint r9" "- (2 ^ 24) \<le> sint r9" "sint r9 < 2 ^ 24"
      "- (2 ^ 20) \<le> sint c9" "sint c9 \<le> 2 ^ 20"
    by (rule small_carry25 [of h9]) (use b9 in simp_all)
  obtain h0a where h0a: "h0 + c9 * 19 = h0a" "sint h0a = sint h0 + 19 * sint c9"
    by (rule plus64_19 [of h0 c9]) (use b0 c9(6,7) in simp_all)
  obtain c1 r1 where c1: "signed_drop_bit 25 (h1 + push_bit 24 1) = c1" "h1 - push_bit 25 c1 = r1"
      "sint h1 = 2 ^ 25 * sint c1 + sint r1" "- (2 ^ 24) \<le> sint r1" "sint r1 < 2 ^ 24"
      "- (2 ^ 20) \<le> sint c1" "sint c1 \<le> 2 ^ 20"
    by (rule small_carry25 [of h1]) (use b1 in simp_all)
  obtain h2a where h2a: "h2 + c1 = h2a" "sint h2a = sint h2 + sint c1"
    by (rule plus64 [of h2 c1]) (use b2 c1(6,7) in simp_all)
  obtain c3 r3 where c3: "signed_drop_bit 25 (h3 + push_bit 24 1) = c3" "h3 - push_bit 25 c3 = r3"
      "sint h3 = 2 ^ 25 * sint c3 + sint r3" "- (2 ^ 24) \<le> sint r3" "sint r3 < 2 ^ 24"
      "- (2 ^ 20) \<le> sint c3" "sint c3 \<le> 2 ^ 20"
    by (rule small_carry25 [of h3]) (use b3 in simp_all)
  obtain h4a where h4a: "h4 + c3 = h4a" "sint h4a = sint h4 + sint c3"
    by (rule plus64 [of h4 c3]) (use b4 c3(6,7) in simp_all)
  obtain c5 r5 where c5: "signed_drop_bit 25 (h5 + push_bit 24 1) = c5" "h5 - push_bit 25 c5 = r5"
      "sint h5 = 2 ^ 25 * sint c5 + sint r5" "- (2 ^ 24) \<le> sint r5" "sint r5 < 2 ^ 24"
      "- (2 ^ 20) \<le> sint c5" "sint c5 \<le> 2 ^ 20"
    by (rule small_carry25 [of h5]) (use b5 in simp_all)
  obtain h6a where h6a: "h6 + c5 = h6a" "sint h6a = sint h6 + sint c5"
    by (rule plus64 [of h6 c5]) (use b6 c5(6,7) in simp_all)
  obtain c7 r7 where c7: "signed_drop_bit 25 (h7 + push_bit 24 1) = c7" "h7 - push_bit 25 c7 = r7"
      "sint h7 = 2 ^ 25 * sint c7 + sint r7" "- (2 ^ 24) \<le> sint r7" "sint r7 < 2 ^ 24"
      "- (2 ^ 20) \<le> sint c7" "sint c7 \<le> 2 ^ 20"
    by (rule small_carry25 [of h7]) (use b7 in simp_all)
  obtain h8a where h8a: "h8 + c7 = h8a" "sint h8a = sint h8 + sint c7"
    by (rule plus64 [of h8 c7]) (use b8 c7(6,7) in simp_all)
  obtain c0 r0 where c0: "signed_drop_bit 26 (h0a + push_bit 25 1) = c0" "h0a - push_bit 26 c0 = r0"
      "sint h0a = 2 ^ 26 * sint c0 + sint r0" "- (2 ^ 25) \<le> sint r0" "sint r0 < 2 ^ 25"
      "- (2 ^ 20) \<le> sint c0" "sint c0 \<le> 2 ^ 20"
    by (rule small_carry26 [of h0a]) (use h0a(2) b0 c9(6,7) in simp_all)
  obtain h1b where h1b: "r1 + c0 = h1b" "sint h1b = sint r1 + sint c0"
    by (rule plus64 [of r1 c0]) (use c1(4,5) c0(6,7) in simp_all)
  obtain c2 r2 where c2: "signed_drop_bit 26 (h2a + push_bit 25 1) = c2" "h2a - push_bit 26 c2 = r2"
      "sint h2a = 2 ^ 26 * sint c2 + sint r2" "- (2 ^ 25) \<le> sint r2" "sint r2 < 2 ^ 25"
      "- (2 ^ 20) \<le> sint c2" "sint c2 \<le> 2 ^ 20"
    by (rule small_carry26 [of h2a]) (use h2a(2) b2 c1(6,7) in simp_all)
  obtain h3b where h3b: "r3 + c2 = h3b" "sint h3b = sint r3 + sint c2"
    by (rule plus64 [of r3 c2]) (use c3(4,5) c2(6,7) in simp_all)
  obtain c4 r4 where c4: "signed_drop_bit 26 (h4a + push_bit 25 1) = c4" "h4a - push_bit 26 c4 = r4"
      "sint h4a = 2 ^ 26 * sint c4 + sint r4" "- (2 ^ 25) \<le> sint r4" "sint r4 < 2 ^ 25"
      "- (2 ^ 20) \<le> sint c4" "sint c4 \<le> 2 ^ 20"
    by (rule small_carry26 [of h4a]) (use h4a(2) b4 c3(6,7) in simp_all)
  obtain h5b where h5b: "r5 + c4 = h5b" "sint h5b = sint r5 + sint c4"
    by (rule plus64 [of r5 c4]) (use c5(4,5) c4(6,7) in simp_all)
  obtain c6 r6 where c6: "signed_drop_bit 26 (h6a + push_bit 25 1) = c6" "h6a - push_bit 26 c6 = r6"
      "sint h6a = 2 ^ 26 * sint c6 + sint r6" "- (2 ^ 25) \<le> sint r6" "sint r6 < 2 ^ 25"
      "- (2 ^ 20) \<le> sint c6" "sint c6 \<le> 2 ^ 20"
    by (rule small_carry26 [of h6a]) (use h6a(2) b6 c5(6,7) in simp_all)
  obtain h7b where h7b: "r7 + c6 = h7b" "sint h7b = sint r7 + sint c6"
    by (rule plus64 [of r7 c6]) (use c7(4,5) c6(6,7) in simp_all)
  obtain c8 r8 where c8: "signed_drop_bit 26 (h8a + push_bit 25 1) = c8" "h8a - push_bit 26 c8 = r8"
      "sint h8a = 2 ^ 26 * sint c8 + sint r8" "- (2 ^ 25) \<le> sint r8" "sint r8 < 2 ^ 25"
      "- (2 ^ 20) \<le> sint c8" "sint c8 \<le> 2 ^ 20"
    by (rule small_carry26 [of h8a]) (use h8a(2) b8 c7(6,7) in simp_all)
  obtain h9b where h9b: "r9 + c8 = h9b" "sint h9b = sint r9 + sint c8"
    by (rule plus64 [of r9 c8]) (use c9(4,5) c8(6,7) in simp_all)
  have eq: "par_carries h0 h1 h2 h3 h4 h5 h6 h7 h8 h9 =
      Fe (i32 r0) (i32 h1b) (i32 r2) (i32 h3b) (i32 r4) (i32 h5b) (i32 r6) (i32 h7b) (i32 r8) (i32 h9b)"
    unfolding par_carries_def
    by (simp only:
      c9(1)[THEN Let_eq] c9(2)[THEN Let_eq] h0a(1)[THEN Let_eq] c1(1)[THEN Let_eq] c1(2)[THEN Let_eq]
        h2a(1)[THEN Let_eq] c3(1)[THEN Let_eq] c3(2)[THEN Let_eq] h4a(1)[THEN Let_eq]
        c5(1)[THEN Let_eq] c5(2)[THEN Let_eq] h6a(1)[THEN Let_eq] c7(1)[THEN Let_eq]
        c7(2)[THEN Let_eq] h8a(1)[THEN Let_eq] c0(1)[THEN Let_eq] c0(2)[THEN Let_eq]
        h1b(1)[THEN Let_eq] c2(1)[THEN Let_eq] c2(2)[THEN Let_eq] h3b(1)[THEN Let_eq]
        c4(1)[THEN Let_eq] c4(2)[THEN Let_eq] h5b(1)[THEN Let_eq] c6(1)[THEN Let_eq]
        c6(2)[THEN Let_eq] h7b(1)[THEN Let_eq] c8(1)[THEN Let_eq] c8(2)[THEN Let_eq]
        h9b(1)[THEN Let_eq])
  have b: "- 17825792 \<le> sint h1b \<and> sint h1b \<le> 17825792" "- 17825792 \<le> sint h3b \<and> sint h3b \<le> 17825792"
      "- 17825792 \<le> sint h5b \<and> sint h5b \<le> 17825792" "- 17825792 \<le> sint h7b \<and> sint h7b \<le> 17825792"
      "- 17825792 \<le> sint h9b \<and> sint h9b \<le> 17825792"
    using h1b(2) h3b(2) h5b(2) h7b(2) h9b(2) c1(4,5) c3(4,5) c5(4,5) c7(4,5) c9(4,5)
      c0(6,7) c2(6,7) c4(6,7) c6(6,7) c8(6,7) by simp_all
  have s: "sint (i32 r0) = sint r0" "sint (i32 h1b) = sint h1b" "sint (i32 r2) = sint r2"
      "sint (i32 h3b) = sint h3b" "sint (i32 r4) = sint r4" "sint (i32 h5b) = sint h5b"
      "sint (i32 r6) = sint r6" "sint (i32 h7b) = sint h7b" "sint (i32 r8) = sint r8" "sint (i32 h9b) = sint h9b"
    using b c0(4,5) c2(4,5) c4(4,5) c6(4,5) c8(4,5) by (simp_all add: to_i32)
  show thesis
  proof (rule that [of "sint c9"])
    show "fe_bound 17825792 (par_carries h0 h1 h2 h3 h4 h5 h6 h7 h8 h9)"
      using b c0(4,5) c2(4,5) c4(4,5) c6(4,5) c8(4,5) by (simp add: eq s abs_le_iff fe_bound_Fe)
    show "fe_val (par_carries h0 h1 h2 h3 h4 h5 h6 h7 h8 h9) =
       sint h0 + 2 ^ 26 * sint h1 + 2 ^ 51 * sint h2 + 2 ^ 77 * sint h3 + 2 ^ 102 * sint h4 +
       2 ^ 128 * sint h5 + 2 ^ 153 * sint h6 + 2 ^ 179 * sint h7 + 2 ^ 204 * sint h8 + 2 ^ 230 * sint h9
       - (2 ^ 255 - 19) * sint c9"
      using c0(3) c1(3) c2(3) c3(3) c4(3) c5(3) c6(3) c7(3) c8(3) c9(3)
        h0a(2) h2a(2) h4a(2) h6a(2) h8a(2) h1b(2) h3b(2) h5b(2) h7b(2) h9b(2)
      by (simp add: eq s fe_val_Fe algebra_simps)
  qed
qed

section \<open>Products\<close>

definition weight :: "nat \<Rightarrow> nat \<Rightarrow> int" where
  "weight i j = (if odd i \<and> odd j then 2 else 1) * (if 10 \<le> i + j then 19 else 1)"

definition conv :: "(nat \<Rightarrow> int) \<Rightarrow> (nat \<Rightarrow> int) \<Rightarrow> nat \<Rightarrow> int" where
  "conv F G k = (\<Sum>i<10. weight i ((k + 10 - i) mod 10) * (F i * G ((k + 10 - i) mod 10)))"

lemma weight_radix:
  assumes "i < 10" "j < 10"
  shows "(2 ^ radix ((i + j) mod 10) * weight i j) mod p25519 = 2 ^ (radix i + radix j) mod p25519"
proof -
  have "\<forall>i\<in>set [0..<10]. \<forall>j\<in>set [0..<10].
      (2 ^ radix ((i + j) mod 10) * weight i j) mod p25519 = 2 ^ (radix i + radix j) mod p25519"
    by code_simp
  then show ?thesis using assms by auto
qed

lemma mod_sum_cong:
  fixes m :: int
  assumes "\<And>i. i \<in> A \<Longrightarrow> f i mod m = g i mod m"
  shows "sum f A mod m = sum g A mod m"
  by (subst (1 2) mod_sum_eq [symmetric]) (simp add: assms)

lemma shift_back_10:
  assumes "i < 10" "j < (10 :: nat)"
  shows "((i + j) mod 10 + 10 - i) mod 10 = j"
  using assms by (cases "i + j < 10") (simp_all add: le_mod_geq)

lemma conv_value:
  "(\<Sum>k<10. 2 ^ radix k * conv F G k) mod p25519 =
   ((\<Sum>i<10. 2 ^ radix i * F i) * (\<Sum>j<10. 2 ^ radix j * G j)) mod p25519"
proof -
  let ?t = "\<lambda>i j. (2 ^ radix ((i + j) mod 10) * weight i j) * (F i * G j)"
  have re: "(\<Sum>k<10. 2 ^ radix k * (weight i ((k + 10 - i) mod 10) * (F i * G ((k + 10 - i) mod 10)))) =
      (\<Sum>j<10. ?t i j)" if "i < 10" for i
    by (rule sum.reindex_bij_witness [where i = "\<lambda>j. (i + j) mod 10" and j = "\<lambda>k. (k + 10 - i) mod 10"])
      (use that in \<open>simp_all add: mod_simps shift_back_10\<close>)
  have "(\<Sum>k<10. 2 ^ radix k * conv F G k) = (\<Sum>i<10. \<Sum>j<10. ?t i j)"
    unfolding conv_def sum_distrib_left by (subst sum.swap) (simp add: re)
  moreover have "(\<Sum>i<10. \<Sum>j<10. ?t i j) mod p25519 =
      (\<Sum>i<10. \<Sum>j<10. 2 ^ (radix i + radix j) * (F i * G j)) mod p25519"
    by (intro mod_sum_cong mod_mult_cong weight_radix) auto
  ultimately show ?thesis
    by (simp add: sum_product power_add ac_simps)
qed

lemma conv_bound:
  assumes "\<And>i. i < 10 \<Longrightarrow> \<bar>F i\<bar> \<le> (if even i then 2 * B else B)"
    and "\<And>i. i < 10 \<Longrightarrow> \<bar>G i\<bar> \<le> (if even i then 2 * C else C)"
    and "0 \<le> B" "0 \<le> C"
  shows "\<bar>conv F G k\<bar> \<le> 760 * (B * C)"
proof -
  have "\<bar>weight i j * (F i * G j)\<bar> \<le> 76 * (B * C)" if "i < 10" "j < 10" for i j
  proof -
    have "\<bar>F i\<bar> * \<bar>G j\<bar> \<le> (if even i then 2 * B else B) * (if even j then 2 * C else C)"
      using assms that by (intro mult_mono) auto
    moreover have "0 \<le> B * C" using assms by simp
    ultimately show ?thesis
      by (auto simp: weight_def abs_mult split: if_splits)
  qed
  then have "\<bar>conv F G k\<bar> \<le> (\<Sum>i<(10::nat). 76 * (B * C))"
    unfolding conv_def by (intro order.trans [OF sum_abs] sum_mono) simp
  then show ?thesis by simp
qed

lemma scale32:
  assumes "\<bar>c * sint x\<bar> < 2 ^ 31"
  shows "sint (of_int c * x :: i32) = c * sint x"
  using sint32 [of "c * sint x"] assms by simp

lemma i64_of_int: "i64 x = of_int (sint x)"
  unfolding i64_def scast_eq by (rule refl)

lemma scast_i64: "scast x = i64 x"
  by (simp add: i64_def)

lemma i64_scale:
  assumes "\<bar>c * sint x\<bar> < 2 ^ 31"
  shows "i64 (of_int c * x) = of_int c * i64 x"
  unfolding i64_of_int scale32 [OF assms] by simp

lemma pull_factors:
  fixes a b :: i64
  shows "a * (19 * b) = 19 * (a * b)" "2 * a * b = 2 * (a * b)" "2 * (19 * a) = 38 * a"
proof -
  show "a * (19 * b) = 19 * (a * b)" by (rule mult.left_commute)
  show "2 * a * b = 2 * (a * b)" by (rule mult.assoc)
  show "2 * (19 * a) = 38 * a" unfolding mult.assoc [symmetric] by simp
qed

definition carries_of :: "(nat \<Rightarrow> int) \<Rightarrow> fe" where
  "carries_of h = mul_carries (of_int (h 0)) (of_int (h 1)) (of_int (h 2)) (of_int (h 3)) (of_int (h 4))
     (of_int (h 5)) (of_int (h 6)) (of_int (h 7)) (of_int (h 8)) (of_int (h 9))"

lemma fe_mul_conv:
  assumes "fe_bound B f" "fe_bound C g" "19 * (2 * C) < 2 ^ 31" "2 * B < 2 ^ 31"
  shows "fe_mul f g = carries_of (conv (limb f) (limb g))"
proof -
  obtain f0 f1 f2 f3 f4 f5 f6 f7 f8 f9 where f: "f = Fe f0 f1 f2 f3 f4 f5 f6 f7 f8 f9" by (cases f)
  obtain g0 g1 g2 g3 g4 g5 g6 g7 g8 g9 where g: "g = Fe g0 g1 g2 g3 g4 g5 g6 g7 g8 g9" by (cases g)
  have s19: "i64 (19 * x) = 19 * i64 x" if "\<bar>sint x\<bar> \<le> 2 * C" for x :: i32
    using i64_scale [of 19 x] that assms(3) by simp
  have s2: "i64 (2 * x) = 2 * i64 x" if "\<bar>sint x\<bar> \<le> B" for x :: i32
    using i64_scale [of 2 x] that assms(4) by simp
  have "0 \<le> C" using assms fe_bound_nonneg by blast
  then have l19: "i64 (19 * g1) = 19 * i64 g1" "i64 (19 * g2) = 19 * i64 g2" "i64 (19 * g3) = 19 * i64 g3"
      "i64 (19 * g4) = 19 * i64 g4" "i64 (19 * g5) = 19 * i64 g5" "i64 (19 * g6) = 19 * i64 g6"
      "i64 (19 * g7) = 19 * i64 g7" "i64 (19 * g8) = 19 * i64 g8" "i64 (19 * g9) = 19 * i64 g9"
    using assms(2) by (simp_all add: g fe_bound_Fe s19)
  have l2: "i64 (2 * f1) = 2 * i64 f1" "i64 (2 * f3) = 2 * i64 f3" "i64 (2 * f5) = 2 * i64 f5"
      "i64 (2 * f7) = 2 * i64 f7" "i64 (2 * f9) = 2 * i64 f9"
    using assms(1) by (simp_all add: f fe_bound_Fe s2)
  show ?thesis unfolding f g
    by (simp only: fe_mul_def fe.case Let_def l19 l2 pull_factors)
      (simp add: carries_of_def conv_def lessThan_10 weight_def limb_def scast_i64 add.assoc)
qed

definition fe_max :: int where "fe_max = 55364812"
definition fe_tight :: int where "fe_tight = 16945020"

lemma conv_mul_bound:
  assumes "fe_bound B f" "fe_bound C g" "B \<le> fe_max" "C \<le> fe_max"
  shows "\<bar>conv (limb f) (limb g) k\<bar> \<le> 2 ^ 61 + 2 ^ 59"
proof -
  have "0 \<le> B" "0 \<le> C" using assms fe_bound_nonneg by blast+
  then have "B * C \<le> fe_max * fe_max" using assms by (intro mult_mono) (auto simp: fe_max_def)
  then show ?thesis
    using conv_bound [of "limb f" B "limb g" C k] fe_boundD [OF assms(1)] fe_boundD [OF assms(2)] \<open>0 \<le> B\<close> \<open>0 \<le> C\<close>
    by (simp add: fe_max_def)
qed

lemma mod_minus_mult: "(a - m * k) mod m = a mod (m :: int)"
  using mod_mult_self2 [of a m "- k"] by simp

lemma conv_carries:
  assumes "\<And>k. \<bar>h k\<bar> \<le> 2 ^ 62 + 2 ^ 60"
  shows "fe_val (carries_of h) mod p25519 = (\<Sum>k<10. 2 ^ radix k * h k) mod p25519"
    and "fe_bound fe_tight (carries_of h)"
proof -
  have a: "- (2 ^ 62 + 2 ^ 60) \<le> h k \<and> h k \<le> 2 ^ 62 + 2 ^ 60" for k
    using assms [of k] by (simp add: abs_le_iff)
  have s: "sint (of_int (h k) :: i64) = h k" for k
    using a [of k] by (intro sint64) simp_all
  obtain k where k: "fe_val (carries_of h) = (\<Sum>k<10. 2 ^ radix k * h k) - p25519 * k" "fe_bound fe_tight (carries_of h)"
    by (rule mul_carries_ok [of "of_int (h 0)" "of_int (h 1)" "of_int (h 2)" "of_int (h 3)" "of_int (h 4)"
          "of_int (h 5)" "of_int (h 6)" "of_int (h 7)" "of_int (h 8)" "of_int (h 9)", unfolded s])
      (use a in \<open>simp_all add: carries_of_def lessThan_10 radix_def p25519_def fe_tight_def\<close>)
  then show "fe_val (carries_of h) mod p25519 = (\<Sum>k<10. 2 ^ radix k * h k) mod p25519" "fe_bound fe_tight (carries_of h)"
    by (simp_all add: mod_minus_mult)
qed

lemma fe_mul_ok:
  assumes "fe_bound B f" "fe_bound C g" "B \<le> fe_max" "C \<le> fe_max"
  shows "fe_val (fe_mul f g) mod p25519 = fe_val f * fe_val g mod p25519" "fe_bound fe_tight (fe_mul f g)"
proof -
  have "\<bar>conv (limb f) (limb g) k\<bar> \<le> 2 ^ 62 + 2 ^ 60" for k
    using conv_mul_bound [OF assms, of k] by simp
  note c = conv_carries [OF this]
  have m: "fe_mul f g = carries_of (conv (limb f) (limb g))"
    using assms by (intro fe_mul_conv) (auto simp: fe_max_def)
  show "fe_val (fe_mul f g) mod p25519 = fe_val f * fe_val g mod p25519" "fe_bound fe_tight (fe_mul f g)"
    using c conv_value [of "limb f" "limb g"] by (simp_all add: m fe_val_def)
qed

lemma sq_terms:
  assumes "fe_bound B (Fe f0 f1 f2 f3 f4 f5 f6 f7 f8 f9)" "B \<le> fe_max"
  shows "i64 (2 * f0) = 2 * i64 f0" "i64 (2 * f1) = 2 * i64 f1" "i64 (2 * f2) = 2 * i64 f2"
    "i64 (2 * f3) = 2 * i64 f3" "i64 (2 * f4) = 2 * i64 f4" "i64 (2 * f5) = 2 * i64 f5"
    "i64 (2 * f6) = 2 * i64 f6" "i64 (2 * f7) = 2 * i64 f7" "i64 (38 * f5) = 38 * i64 f5"
    "i64 (19 * f6) = 19 * i64 f6" "i64 (38 * f7) = 38 * i64 f7" "i64 (19 * f8) = 19 * i64 f8"
    "i64 (38 * f9) = 38 * i64 f9"
proof -
  have s: "i64 (of_int c * x) = of_int c * i64 x" if "\<bar>sint x\<bar> \<le> 2 * fe_max" "0 \<le> c" "c \<le> 19" for c x
  proof (rule i64_scale)
    have "\<bar>c * sint x\<bar> \<le> 19 * (2 * fe_max)" using that unfolding abs_mult by (intro mult_mono) simp_all
    then show "\<bar>c * sint x\<bar> < 2 ^ 31" by (simp add: fe_max_def)
  qed
  have s': "i64 (of_int c * x) = of_int c * i64 x" if "\<bar>sint x\<bar> \<le> fe_max" "0 \<le> c" "c \<le> 38" for c x
  proof (rule i64_scale)
    have "\<bar>c * sint x\<bar> \<le> 38 * fe_max" using that unfolding abs_mult by (intro mult_mono) simp_all
    then show "\<bar>c * sint x\<bar> < 2 ^ 31" by (simp add: fe_max_def)
  qed
  note b = assms [unfolded fe_bound_Fe]
  show "i64 (2 * f0) = 2 * i64 f0" "i64 (2 * f2) = 2 * i64 f2" "i64 (2 * f4) = 2 * i64 f4"
    "i64 (2 * f6) = 2 * i64 f6" "i64 (19 * f6) = 19 * i64 f6" "i64 (19 * f8) = 19 * i64 f8"
    using b s [of f0 2] s [of f2 2] s [of f4 2] s [of f6 2] s [of f6 19] s [of f8 19] by simp_all
  show "i64 (2 * f1) = 2 * i64 f1" "i64 (2 * f3) = 2 * i64 f3" "i64 (2 * f5) = 2 * i64 f5"
    "i64 (2 * f7) = 2 * i64 f7" "i64 (38 * f5) = 38 * i64 f5" "i64 (38 * f7) = 38 * i64 f7" "i64 (38 * f9) = 38 * i64 f9"
    using b s' [of f1 2] s' [of f3 2] s' [of f5 2] s' [of f7 2] s' [of f5 38] s' [of f7 38] s' [of f9 38] by simp_all
qed

lemma fe_sq_conv:
  assumes "fe_bound B f" "B \<le> fe_max"
  shows "fe_sq f = carries_of (conv (limb f) (limb f))"
proof -
  obtain f0 f1 f2 f3 f4 f5 f6 f7 f8 f9 where f: "f = Fe f0 f1 f2 f3 f4 f5 f6 f7 f8 f9" by (cases f)
  note t = sq_terms [OF assms [unfolded f]]
  show ?thesis unfolding f
    by (simp only: fe_sq_def fe.case Let_def t)
      (simp add: carries_of_def conv_def lessThan_10 weight_def limb_def scast_i64 algebra_simps)
qed

lemma fe_sq_is_mul: "fe_bound B f \<Longrightarrow> B \<le> fe_max \<Longrightarrow> fe_sq f = fe_mul f f"
  by (subst fe_mul_conv [where B = B and C = B]) (simp_all add: fe_sq_conv fe_max_def)

lemma fe_sq2_conv:
  assumes "fe_bound B f" "B \<le> fe_max"
  shows "fe_sq2 f = carries_of (\<lambda>k. 2 * conv (limb f) (limb f) k)"
proof -
  obtain f0 f1 f2 f3 f4 f5 f6 f7 f8 f9 where f: "f = Fe f0 f1 f2 f3 f4 f5 f6 f7 f8 f9" by (cases f)
  note t = sq_terms [OF assms [unfolded f]]
  show ?thesis unfolding f
    by (simp only: fe_sq2_def fe.case Let_def t)
      (simp add: carries_of_def conv_def lessThan_10 weight_def limb_def scast_i64 algebra_simps)
qed

lemma fe_sq2_ok:
  assumes "fe_bound B f" "B \<le> fe_max"
  shows "fe_val (fe_sq2 f) mod p25519 = 2 * (fe_val f * fe_val f) mod p25519" "fe_bound fe_tight (fe_sq2 f)"
proof -
  have "\<bar>2 * conv (limb f) (limb f) k\<bar> \<le> 2 ^ 62 + 2 ^ 60" for k
    using conv_mul_bound [OF assms(1,1) assms(2,2), of k] by simp
  note c = conv_carries [OF this]
  have "(\<Sum>k<10. 2 ^ radix k * (2 * conv (limb f) (limb f) k)) = 2 * (\<Sum>k<10. 2 ^ radix k * conv (limb f) (limb f) k)"
    by (simp add: sum_distrib_left mult.left_commute)
  then show "fe_val (fe_sq2 f) mod p25519 = 2 * (fe_val f * fe_val f) mod p25519" "fe_bound fe_tight (fe_sq2 f)"
    using c mod_mult_cong [OF refl conv_value, of 2 "limb f" "limb f"]
    by (simp_all add: fe_sq2_conv [OF assms] fe_val_def)
qed

lemma fe_mul121666_ok:
  assumes "fe_bound B f" "B \<le> 36909875"
  shows "fe_val (fe_mul121666 f) mod p25519 = 121666 * fe_val f mod p25519" "fe_bound 17825792 (fe_mul121666 f)"
proof -
  obtain f0 f1 f2 f3 f4 f5 f6 f7 f8 f9 where f: "f = Fe f0 f1 f2 f3 f4 f5 f6 f7 f8 f9" by (cases f)
  note b = assms(1) [unfolded f fe_bound_Fe]
  have s: "sint (i64 x * 121666) = 121666 * sint x \<and> - (2 ^ 44) \<le> 121666 * sint x \<and> 121666 * sint x \<le> 2 ^ 44"
    if "\<bar>sint x\<bar> \<le> 2 * B" for x
    using that assms(2) sint64 [of "sint x * 121666"] by (simp add: i64_of_int abs_le_iff)
  have "0 \<le> B" by (rule fe_bound_nonneg [OF assms(1)])
  then have l: "\<bar>sint f0\<bar> \<le> 2 * B" "\<bar>sint f1\<bar> \<le> 2 * B" "\<bar>sint f2\<bar> \<le> 2 * B" "\<bar>sint f3\<bar> \<le> 2 * B"
      "\<bar>sint f4\<bar> \<le> 2 * B" "\<bar>sint f5\<bar> \<le> 2 * B" "\<bar>sint f6\<bar> \<le> 2 * B" "\<bar>sint f7\<bar> \<le> 2 * B"
      "\<bar>sint f8\<bar> \<le> 2 * B" "\<bar>sint f9\<bar> \<le> 2 * B"
    using b by auto
  have m: "fe_mul121666 f = par_carries (i64 f0 * 121666) (i64 f1 * 121666) (i64 f2 * 121666) (i64 f3 * 121666)
     (i64 f4 * 121666) (i64 f5 * 121666) (i64 f6 * 121666) (i64 f7 * 121666) (i64 f8 * 121666) (i64 f9 * 121666)"
    by (simp only: f fe_mul121666_def fe.case Let_def)
  obtain k where "fe_val (fe_mul121666 f) = 121666 * fe_val f - p25519 * k" "fe_bound 17825792 (fe_mul121666 f)"
    unfolding m
    by (rule par_carries_ok [of "i64 f0 * 121666" "i64 f1 * 121666" "i64 f2 * 121666" "i64 f3 * 121666"
          "i64 f4 * 121666" "i64 f5 * 121666" "i64 f6 * 121666" "i64 f7 * 121666" "i64 f8 * 121666" "i64 f9 * 121666"])
      (use s [OF l(1)] s [OF l(2)] s [OF l(3)] s [OF l(4)] s [OF l(5)] s [OF l(6)] s [OF l(7)] s [OF l(8)] s [OF l(9)]
        s [OF l(10)] in \<open>simp_all add: f fe_val_Fe p25519_def algebra_simps\<close>)
  then show "fe_val (fe_mul121666 f) mod p25519 = 121666 * fe_val f mod p25519" "fe_bound 17825792 (fe_mul121666 f)"
    by (simp_all add: mod_minus_mult)
qed

section \<open>Powers\<close>

definition fe_power :: "nat \<Rightarrow> fe \<Rightarrow> fe \<Rightarrow> bool" where
  "fe_power e z h \<longleftrightarrow> fe_bound fe_max h \<and> fe_val h mod p25519 = fe_val z ^ e mod p25519"

lemma fe_power_self: "fe_bound fe_max z \<Longrightarrow> fe_power 1 z z"
  by (simp add: fe_power_def)

lemma fe_power_mul:
  assumes "fe_power a z f" "fe_power b z g"
  shows "fe_power (a + b) z (fe_mul f g)"
proof -
  note b = assms [unfolded fe_power_def]
  note m = fe_mul_ok [OF conjunct1 [OF b(1)] conjunct1 [OF b(2)] order_refl order_refl]
  have "fe_val f * fe_val g mod p25519 = fe_val z ^ a * fe_val z ^ b mod p25519"
    using b by (intro mod_mult_cong) blast+
  moreover have "fe_bound fe_max (fe_mul f g)"
    by (rule fe_bound_mono [OF m(2)]) (simp add: fe_tight_def fe_max_def)
  ultimately show ?thesis by (simp only: fe_power_def m(1) power_add simp_thms)
qed

lemma fe_power_sq: "fe_power a z f \<Longrightarrow> fe_power (a + a) z (fe_sq f)"
  using fe_power_mul [of a z f a f] by (simp add: fe_sq_is_mul [where B = fe_max] fe_power_def)

lemma fe_power_sqs: "fe_power a z f \<Longrightarrow> fe_power (2 ^ n * a) z ((fe_sq ^^ n) f)"
proof (induction n)
  case (Suc n)
  then show ?case using fe_power_sq [of "2 ^ n * a" z "(fe_sq ^^ n) f"] by (simp add: mult_2 add_mult_distrib)
qed simp

lemma fe_power_let:
  "fe_power a z t \<Longrightarrow> (\<And>x. fe_power a z x \<Longrightarrow> fe_power e z (f x)) \<Longrightarrow> fe_power e z (Let t f)"
  by simp

lemma fe_power_eq: "fe_power a z h \<Longrightarrow> a = e \<Longrightarrow> fe_power e z h"
  by simp

lemma fe_invert_power:
  assumes "fe_bound fe_max z"
  shows "fe_power (2 ^ 255 - 21) z (fe_invert z)"
  unfolding fe_invert_def
  apply (rule fe_power_eq)
   apply (assumption | rule fe_power_self [OF assms] fe_power_let fe_power_mul fe_power_sqs fe_power_sq)+
  apply simp
  done

lemma fe_pow22523_power:
  assumes "fe_bound fe_max z"
  shows "fe_power (2 ^ 252 - 3) z (fe_pow22523 z)"
  unfolding fe_pow22523_def
  apply (rule fe_power_eq)
   apply (assumption | rule fe_power_self [OF assms] fe_power_let fe_power_mul fe_power_sqs fe_power_sq)+
  apply simp
  done

section \<open>Properties\<close>

text \<open>C13: Multiplication. For limbs within the documented bound (1.65 times \<open>2^26\<close> and \<open>2^25\<close>) no
  intermediate 32-bit or 64-bit value of \<open>fe_mul\<close> wraps: the result represents the product modulo
  \<open>2^255 - 19\<close>, and its limbs are within the documented postcondition (1.01 times \<open>2^25\<close> and \<open>2^24\<close>).\<close>

theorem fe_mul_correct:
  assumes "fe_bound B f" "fe_bound C g" "B \<le> fe_max" "C \<le> fe_max"
  shows "fe_val (fe_mul f g) mod p25519 = fe_val f * fe_val g mod p25519 \<and> fe_bound fe_tight (fe_mul f g)"
  using fe_mul_ok [OF assms] by simp

theorem fe_mul_correct_witness:
  "let f = Fe 1 2 3 4 5 6 7 8 9 10; g = Fe (- 1) 20000000 3 4 5 6 7 8 9 (- 30000000)
   in fe_val (fe_mul f g) mod p25519 = fe_val f * fe_val g mod p25519 \<and> fe_bound fe_tight (fe_mul f g)"
  unfolding Let_def
  by (rule fe_mul_correct [where B = 10 and C = 30000000]) (simp_all add: fe_bound_Fe fe_max_def)

text \<open>Squaring. The specialised squaring, which merges the symmetric products, returns exactly the
  limbs that the general multiplication returns.\<close>

theorem fe_sq_equals_mul:
  assumes "fe_bound B f" "B \<le> fe_max"
  shows "fe_sq f = fe_mul f f"
  using assms by (rule fe_sq_is_mul)

theorem fe_sq_equals_mul_witness:
  "fe_sq (Fe 1 2 3 4 5 6 7 8 9 (- 10)) = fe_mul (Fe 1 2 3 4 5 6 7 8 9 (- 10)) (Fe 1 2 3 4 5 6 7 8 9 (- 10))"
  by (rule fe_sq_equals_mul [where B = 10]) (simp_all add: fe_bound_Fe fe_max_def)

text \<open>Inversion and square root. The addition chain of \<open>fe_invert\<close> raises its argument to the power
  \<open>p - 2\<close>, that of \<open>fe_pow22523\<close> to \<open>(p - 5) / 8\<close>, and both leave limbs that further operations accept.\<close>

theorem fe_addition_chains:
  assumes "fe_bound fe_max z"
  shows "fe_val (fe_invert z) mod p25519 = fe_val z ^ nat (p25519 - 2) mod p25519 \<and>
    fe_val (fe_pow22523 z) mod p25519 = fe_val z ^ nat ((p25519 - 5) div 8) mod p25519 \<and>
    fe_bound fe_max (fe_invert z) \<and> fe_bound fe_max (fe_pow22523 z)"
proof -
  have "nat (p25519 - 2) = 2 ^ 255 - 21" "nat ((p25519 - 5) div 8) = 2 ^ 252 - 3" by (simp_all add: p25519_def)
  then show ?thesis
    using fe_invert_power [OF assms] fe_pow22523_power [OF assms] by (simp only: fe_power_def)
qed

theorem fe_addition_chains_witness:
  "let z = Fe 2 0 0 0 0 0 0 0 0 0
   in fe_val (fe_invert z) mod p25519 = fe_val z ^ nat (p25519 - 2) mod p25519 \<and>
    fe_val (fe_pow22523 z) mod p25519 = fe_val z ^ nat ((p25519 - 5) div 8) mod p25519 \<and>
    fe_bound fe_max (fe_invert z) \<and> fe_bound fe_max (fe_pow22523 z)"
  unfolding Let_def by (rule fe_addition_chains) (simp add: fe_bound_Fe fe_max_def)

end
