(* ===== verification/Field25519_Bytes.thy ===== *)
theory Field25519_Bytes
  imports Field25519_Mul
begin

text \<open>
  The encoding of field elements. \<open>le_val\<close> reads bytes as a little-endian integer. \<open>fe_frombytes\<close> spreads
  255 bits over the limbs; \<open>fe_tobytes\<close> estimates the quotient by the prime from the top limb, subtracts
  it, carries with floors and packs the digits into bytes.
\<close>

section \<open>Little-endian values\<close>

fun le_val :: "u8 list \<Rightarrow> int" where
  "le_val [] = 0"
| "le_val (b # bs) = uint b + 256 * le_val bs"

lemma uint8: "0 \<le> uint (b :: u8) \<and> uint b < 256"
  using unsigned_less [of b, where ?'a = int] by simp

lemma le_val_bounds: "0 \<le> le_val bs \<and> le_val bs < 256 ^ length bs"
proof (induction bs)
  case (Cons b bs)
  then have "256 * le_val bs + 256 \<le> 256 * 256 ^ length bs" by simp
  then show ?case using Cons uint8 [of b] by (auto simp: algebra_simps)
qed simp

lemma le_val_inject: "length xs = length ys \<Longrightarrow> le_val xs = le_val ys \<Longrightarrow> xs = ys"
proof (induction xs ys rule: list_induct2)
  case (Cons x xs y ys)
  have "uint x mod 256 = uint y mod 256"
    using arg_cong [OF Cons.prems, of "\<lambda>n. n mod 256"] by simp
  then have "x = y" using uint8 [of x] uint8 [of y] by (simp add: word_uint_eq_iff)
  with Cons show ?case by simp
qed simp

section \<open>Decoding\<close>

lemma or_shift_add:
  fixes a b :: "'a :: len word"
  assumes "uint a < 2 ^ k"
  shows "a OR push_bit k b = a + push_bit k b"
proof -
  have "take_bit k a = a"
    using assms by (simp add: word_uint_eq_iff unsigned_take_bit_eq take_bit_int_eq_self)
  then have "a AND push_bit k b = 0"
    by (intro bit_word_eqI) (metis bit_0_eq bit_and_iff bit_push_bit_iff bit_take_bit_iff bot_apply bot_bool_def leD)
  then show ?thesis by (simp add: disjunctive_add_eq_or)
qed

lemma uint64: "0 \<le> x \<Longrightarrow> x < 2 ^ 64 \<Longrightarrow> uint (word_of_int x :: u64) = x"
  by (simp add: uint_word_of_int_eq take_bit_int_eq_self)

lemma load_step:
  assumes "uint (r :: u64) < 2 ^ k" "k + 8 \<le> 62"
  shows "uint (r OR push_bit k (ucast (b :: u8))) = uint r + 2 ^ k * uint b"
    and "uint (r OR push_bit k (ucast b)) < 2 ^ (k + 8)"
proof -
  have "2 ^ k * uint b \<le> 2 ^ k * 255" using uint8 [of b] by (intro mult_left_mono) auto
  then have "uint r + 2 ^ k * uint b < 2 ^ k + 2 ^ k * 255" using assms(1) by linarith
  then have l: "uint r + 2 ^ k * uint b < 2 ^ (k + 8)" by (simp add: power_add)
  also have "\<dots> \<le> 2 ^ 62" using assms(2) by (intro power_increasing) simp_all
  finally have "uint r + 2 ^ k * uint b < 2 ^ 64" by simp
  moreover have "0 \<le> uint r + 2 ^ k * uint b" using uint8 [of b] by simp
  moreover have eq: "r + push_bit k (ucast b) = word_of_int (uint r + 2 ^ k * uint b)"
    by (simp add: push_bit_eq_mult mult.commute)
  ultimately have "uint (r + push_bit k (ucast b)) = uint r + 2 ^ k * uint b"
    unfolding eq by (intro uint64)
  then show "uint (r OR push_bit k (ucast (b :: u8))) = uint r + 2 ^ k * uint b"
    "uint (r OR push_bit k (ucast b)) < 2 ^ (k + 8)"
    using l by (simp_all add: or_shift_add [OF assms(1)])
qed

lemma load_start: "uint (ucast (b :: u8) :: u64) = uint b" "uint (ucast (b :: u8) :: u64) < 2 ^ 8"
  using uint64 [of "uint b"] uint8 [of b] by simp_all

lemma load_3_val: "uint (load_3 (a # b # c # s)) = uint a + 2 ^ 8 * uint b + 2 ^ 16 * uint c"
  using load_step [OF load_start(2) [of a], of b] load_start [of a]
    load_step(1) [of "ucast a OR push_bit 8 (ucast b)" 16 c]
  by (simp add: load_3_def Let_def)

lemma load_4_val: "uint (load_4 (a # b # c # d # s)) = uint a + 2 ^ 8 * uint b + 2 ^ 16 * uint c + 2 ^ 24 * uint d"
  using load_step [OF load_start(2) [of a], of b] load_start [of a]
    load_step [of "ucast a OR push_bit 8 (ucast b)" 16 c]
    load_step(1) [of "(ucast a OR push_bit 8 (ucast b)) OR push_bit 16 (ucast c)" 24 d]
  by (simp add: load_4_def Let_def)

lemma list_32:
  assumes "length s = 32"
  obtains s0 s1 s2 s3 s4 s5 s6 s7 s8 s9 s10 s11 s12 s13 s14 s15 s16 s17 s18 s19 s20 s21 s22 s23 s24 s25 s26 s27 s28 s29 s30 s31 where
    "s = [s0, s1, s2, s3, s4, s5, s6, s7, s8, s9, s10, s11, s12, s13, s14, s15, s16, s17, s18, s19, s20, s21, s22, s23, s24, s25, s26, s27, s28, s29, s30, s31]"
proof -
  have "s = map ((!) s) [0..<32]" using map_nth [of s] assms by simp
  then show thesis by (rule that [OF trans]) (simp add: upt_rec)
qed

lemma sint_of_uint: "uint (x :: i64) < 2 ^ 62 \<Longrightarrow> sint x = uint x"
  using sint64 [of "uint x"] by (simp add: order.trans [of _ 0])

lemma sint_shifted:
  assumes "uint (x :: i64) < 2 ^ 32" "n \<le> 8"
  shows "sint (push_bit n x) = 2 ^ n * uint x \<and> 0 \<le> 2 ^ n * uint x \<and> 2 ^ n * uint x \<le> 2 ^ 40"
proof -
  have "2 ^ n * uint x \<le> 2 ^ 8 * 2 ^ 32" using assms by (intro mult_mono power_increasing) simp_all
  moreover have "sint x = uint x" using assms by (intro sint_of_uint) simp
  ultimately show ?thesis using sint_push64 [of n x] by (simp add: order.trans [of _ 0])
qed

lemma low_23: "uint (x AND 8388607 :: u64) = uint x mod 2 ^ 23"
proof -
  have "x AND 8388607 = take_bit 23 x" by (simp add: take_bit_eq_mask mask_eq_exp_minus_1)
  then show ?thesis by (simp only: unsigned_take_bit_eq) (simp only: take_bit_eq_mod)
qed

lemma mod_intro: "0 \<le> x - m * k \<Longrightarrow> x - m * k < m \<Longrightarrow> x mod m = x - m * (k :: int)"
  using mod_minus_mult [of x m k] mod_pos_pos_trivial [of "x - m * k" m] by simp

lemma le_val_append: "le_val (xs @ ys) = le_val xs + 256 ^ length xs * le_val ys"
  by (induction xs) (simp_all add: algebra_simps)

lemma fe_frombytes_ok:
  assumes "length s = 32"
  shows "fe_val (fe_frombytes s) mod p25519 = le_val s mod 2 ^ 255 mod p25519" "fe_bound 17825792 (fe_frombytes s)"
proof -
  obtain s0 s1 s2 s3 s4 s5 s6 s7 s8 s9 s10 s11 s12 s13 s14 s15 s16 s17 s18 s19 s20 s21 s22 s23 s24 s25 s26 s27
    s28 s29 s30 s31 where s: "s = [s0, s1, s2, s3, s4, s5, s6, s7, s8, s9, s10, s11, s12, s13, s14, s15,
      s16, s17, s18, s19, s20, s21, s22, s23, s24, s25, s26, s27, s28, s29, s30, s31]"
    by (rule list_32 [OF assms])
  have b3: "uint (load_3 (a # b # c # r)) < 2 ^ 32" for a b c r
    using uint8 [of a] uint8 [of b] uint8 [of c] by (simp add: load_3_val)
  have b4: "uint (load_4 (a # b # c # d # r)) < 2 ^ 32" for a b c d r
    using uint8 [of a] uint8 [of b] uint8 [of c] uint8 [of d] by (simp add: load_4_val)
  have h9: "uint (load_3 (s29 # s30 # s31 # []) AND 8388607) < 2 ^ 32"
    unfolding low_23 by (rule less_le_trans [OF pos_mod_bound]) simp_all
  define t where "t = uint s31 div 2 ^ 7"
  have t: "0 \<le> uint s31 - 128 * t" "uint s31 - 128 * t < 128"
    using minus_mult_div_eq_mod [of "uint s31" "2 ^ 7"] by (simp_all add: t_def)
  have l9: "uint (load_3 (s29 # s30 # s31 # [])) mod 2 ^ 23 = uint (load_3 (s29 # s30 # s31 # [])) - 2 ^ 23 * t"
    by (intro mod_intro; simp add: load_3_val; use t uint8 [of s29] uint8 [of s30] in linarith)
  let ?l = "take 31 s"
  have sl: "le_val s = le_val ?l + 256 ^ 31 * uint s31"
    using le_val_append [of ?l "[s31]"] by (simp add: s)
  have m: "le_val s mod 2 ^ 255 = le_val s - 2 ^ 255 * t"
    using t le_val_bounds [of ?l] by (intro mod_intro) (simp_all add: sl assms)
  define h0 where "h0 = load_4 s"
  define h1 where "h1 = push_bit 6 (load_3 (drop 4 s))"
  define h2 where "h2 = push_bit 5 (load_3 (drop 7 s))"
  define h3 where "h3 = push_bit 3 (load_3 (drop 10 s))"
  define h4 where "h4 = push_bit 2 (load_3 (drop 13 s))"
  define h5 where "h5 = load_4 (drop 16 s)"
  define h6 where "h6 = push_bit 7 (load_3 (drop 20 s))"
  define h7 where "h7 = push_bit 5 (load_3 (drop 23 s))"
  define h8 where "h8 = push_bit 4 (load_3 (drop 26 s))"
  define h9 where "h9 = push_bit 2 (load_3 (drop 29 s) AND 8388607)"
  note h = h0_def h1_def h2_def h3_def h4_def h5_def h6_def h7_def h8_def h9_def
  have l0: "sint h0 = 2 ^ 0 * (uint s0 + 2 ^ 8 * uint s1 + 2 ^ 16 * uint s2 + 2 ^ 24 * uint s3) \<and> 0 \<le> sint h0 \<and> sint h0 \<le> 2 ^ 40"
    using sint_shifted [where n = 0, OF b4 [of s0 s1 s2 s3 "drop 4 s"]] by (simp add: h0_def s load_4_val)
  have l1: "sint h1 = 2 ^ 6 * (uint s4 + 2 ^ 8 * uint s5 + 2 ^ 16 * uint s6) \<and> 0 \<le> sint h1 \<and> sint h1 \<le> 2 ^ 40"
    using sint_shifted [where n = 6, OF b3 [of s4 s5 s6 "drop 7 s"]] by (simp add: h1_def s load_3_val)
  have l2: "sint h2 = 2 ^ 5 * (uint s7 + 2 ^ 8 * uint s8 + 2 ^ 16 * uint s9) \<and> 0 \<le> sint h2 \<and> sint h2 \<le> 2 ^ 40"
    using sint_shifted [where n = 5, OF b3 [of s7 s8 s9 "drop 10 s"]] by (simp add: h2_def s load_3_val)
  have l3: "sint h3 = 2 ^ 3 * (uint s10 + 2 ^ 8 * uint s11 + 2 ^ 16 * uint s12) \<and> 0 \<le> sint h3 \<and> sint h3 \<le> 2 ^ 40"
    using sint_shifted [where n = 3, OF b3 [of s10 s11 s12 "drop 13 s"]] by (simp add: h3_def s load_3_val)
  have l4: "sint h4 = 2 ^ 2 * (uint s13 + 2 ^ 8 * uint s14 + 2 ^ 16 * uint s15) \<and> 0 \<le> sint h4 \<and> sint h4 \<le> 2 ^ 40"
    using sint_shifted [where n = 2, OF b3 [of s13 s14 s15 "drop 16 s"]] by (simp add: h4_def s load_3_val)
  have l5: "sint h5 = 2 ^ 0 * (uint s16 + 2 ^ 8 * uint s17 + 2 ^ 16 * uint s18 + 2 ^ 24 * uint s19) \<and> 0 \<le> sint h5 \<and> sint h5 \<le> 2 ^ 40"
    using sint_shifted [where n = 0, OF b4 [of s16 s17 s18 s19 "drop 20 s"]] by (simp add: h5_def s load_4_val)
  have l6: "sint h6 = 2 ^ 7 * (uint s20 + 2 ^ 8 * uint s21 + 2 ^ 16 * uint s22) \<and> 0 \<le> sint h6 \<and> sint h6 \<le> 2 ^ 40"
    using sint_shifted [where n = 7, OF b3 [of s20 s21 s22 "drop 23 s"]] by (simp add: h6_def s load_3_val)
  have l7: "sint h7 = 2 ^ 5 * (uint s23 + 2 ^ 8 * uint s24 + 2 ^ 16 * uint s25) \<and> 0 \<le> sint h7 \<and> sint h7 \<le> 2 ^ 40"
    using sint_shifted [where n = 5, OF b3 [of s23 s24 s25 "drop 26 s"]] by (simp add: h7_def s load_3_val)
  have l8: "sint h8 = 2 ^ 4 * (uint s26 + 2 ^ 8 * uint s27 + 2 ^ 16 * uint s28) \<and> 0 \<le> sint h8 \<and> sint h8 \<le> 2 ^ 40"
    using sint_shifted [where n = 4, OF b3 [of s26 s27 s28 "drop 29 s"]] by (simp add: h8_def s load_3_val)
  have m9: "sint h9 = 2 ^ 2 * (uint s29 + 2 ^ 8 * uint s30 + 2 ^ 16 * uint s31 - 2 ^ 23 * t) \<and> 0 \<le> sint h9 \<and> sint h9 \<le> 2 ^ 40"
    using sint_shifted [where n = 2, OF h9] unfolding low_23 l9 by (simp add: h9_def s load_3_val del: push_bit_and)
  have eq: "fe_frombytes s = par_carries h0 h1 h2 h3 h4 h5 h6 h7 h8 h9"
    by (simp only: fe_frombytes_def Let_def h)
  obtain k where "fe_val (fe_frombytes s) = le_val s - 2 ^ 255 * t - p25519 * k" "fe_bound 17825792 (fe_frombytes s)"
    unfolding eq
    by (rule par_carries_ok [of h0 h1 h2 h3 h4 h5 h6 h7 h8 h9])
      (use l0 l1 l2 l3 l4 l5 l6 l7 l8 m9 in \<open>simp_all add: s p25519_def algebra_simps\<close>)
  then show "fe_val (fe_frombytes s) mod p25519 = le_val s mod 2 ^ 255 mod p25519" "fe_bound 17825792 (fe_frombytes s)"
    by (simp_all only: mod_minus_mult m)
qed

section \<open>Encoding\<close>

lemma floor_carry:
  fixes h :: i32
  assumes "n < 31" "- (2 ^ 30) \<le> sint h" "sint h < 2 ^ 30"
  obtains k r where "signed_drop_bit n h = k" "h - push_bit n k = r"
    "sint h = 2 ^ n * sint k + sint r" "0 \<le> sint r" "sint r < 2 ^ n"
proof -
  define k where "k = signed_drop_bit n h"
  define r where "r = h - push_bit n k"
  have k: "sint k = sint h div 2 ^ n"
    by (simp add: k_def sint_signed_drop_bit_eq drop_bit_eq_div)
  define m where "m = sint h mod 2 ^ n"
  have h: "sint h = 2 ^ n * sint k + m" unfolding k m_def by simp
  have m: "0 \<le> m" "m < 2 ^ n" by (simp_all add: m_def)
  have le: "(2 :: int) ^ n \<le> 2 ^ 30" using assms(1) by (intro power_increasing) simp_all
  have "r = word_of_int (sint h - 2 ^ n * sint k)" by (simp add: r_def push_bit_eq_mult mult.commute)
  then have "r = word_of_int m" using h by simp
  then have "sint r = m" using m le sint32 [of m] by simp
  then show thesis using that [of k r] h m by (simp add: k_def r_def)
qed

lemma floor_shift:
  fixes x :: i32
  assumes "signed_drop_bit n x = q"
  obtains m where "sint x = 2 ^ n * sint q + m" "0 \<le> m" "m < 2 ^ n"
  by (rule that [of "sint x mod 2 ^ n"])
    (simp_all add: sint_signed_drop_bit_eq drop_bit_eq_div flip: assms)

text \<open>The estimate of the quotient by the prime.\<close>

lemma quotient_estimate:
  fixes H :: int
  assumes "H = 2 ^ 230 * h9 + L" "\<bar>L\<bar> \<le> 2 ^ 231"
    and "19 * h9 + 2 ^ 24 = 2 ^ 25 * q0 + s" "0 \<le> s" "s < 2 ^ 25"
    and "H + q0 = 2 ^ 255 * q + m" "0 \<le> m" "m < 2 ^ 255" "\<bar>q\<bar> \<le> 4"
  shows "0 \<le> H - p25519 * q" "H - p25519 * q < p25519"
  using assms by (simp_all add: p25519_def abs_le_iff)

lemma uint_of_sint: "0 \<le> sint (x :: 'a :: len word) \<Longrightarrow> uint x = sint x"
proof -
  assume "0 \<le> sint x"
  moreover have "sint x < 2 ^ LENGTH('a)"
    by (rule less_le_trans [OF sint_lt power_increasing]) simp_all
  ultimately show ?thesis by (simp add: uint_sint take_bit_int_eq_self)
qed

lemma uint_low_byte: "uint (ucast (x :: 'a :: len word) :: u8) = uint x mod 256"
  by (simp add: unsigned_ucast_eq take_bit_eq_mod)

lemma sint_floor: "sint (signed_drop_bit n (a :: 'a :: len word)) = sint a div 2 ^ n"
  by (simp add: sint_signed_drop_bit_eq drop_bit_eq_div)

lemma uint_floor: "0 \<le> sint (a :: 'a :: len word) \<Longrightarrow> uint (signed_drop_bit n a) = sint a div 2 ^ n"
  using uint_of_sint [of "signed_drop_bit n a"] by (simp add: sint_floor pos_imp_zdiv_nonneg_iff)

lemma byte_mid:
  assumes "0 \<le> sint (a :: 'a :: len word)"
  shows "uint (ucast (signed_drop_bit n a) :: u8) = (sint a div 2 ^ n) mod 256"
  by (simp only: uint_low_byte uint_floor [OF assms])

lemma int_div_less:
  fixes x :: int
  assumes "0 < m" "x < k * m"
  shows "x div m < k"
proof (rule ccontr)
  assume "\<not> x div m < k"
  then have "m * k \<le> m * (x div m)" using assms(1) by simp
  also have "\<dots> \<le> x" using mult_div_mod_eq [of m x] pos_mod_sign [of m x] assms(1) by linarith
  finally show False using assms(2) by (simp add: mult.commute)
qed

lemma byte_join:
  fixes a b :: "'a :: len word"
  assumes len: "8 \<le> LENGTH('a)"
    and "0 \<le> sint a" "sint a < 2 ^ (n + k)" "0 \<le> sint b" "k \<le> 8"
  shows "uint (ucast (signed_drop_bit n a OR push_bit k b) :: u8) = sint a div 2 ^ n + 2 ^ k * (sint b mod 2 ^ (8 - k))"
proof -
  define x where "x = sint a div 2 ^ n"
  define y where "y = sint b mod 2 ^ (8 - k)"
  define z where "z = sint b div 2 ^ (8 - k)"
  have "sint a < 2 ^ k * 2 ^ n" using assms(3) by (simp add: power_add mult.commute)
  then have x: "0 \<le> x" "x < 2 ^ k"
    using assms(2) pos_mod_bound [of "2 ^ n" "sint a"] int_div_less [of "2 ^ n" "sint a" "2 ^ k"]
    by (simp_all add: x_def pos_imp_zdiv_nonneg_iff)
  have p: "2 ^ k * 2 ^ (8 - k) = (256 :: int)" using assms(5) by (simp flip: power_add)
  have b: "sint b = y + 2 ^ (8 - k) * z" by (simp add: y_def z_def)
  have y: "0 \<le> y" "y < 2 ^ (8 - k)" by (simp_all add: y_def)
  have u: "uint (signed_drop_bit n a) = x" using uint_floor [OF assms(2)] by (simp add: x_def)
  then have "signed_drop_bit n a OR push_bit k b = signed_drop_bit n a + push_bit k b"
    using x by (intro or_shift_add) simp
  also have "\<dots> = word_of_int (uint (signed_drop_bit n a) + 2 ^ k * sint b)"
    by (simp add: push_bit_eq_mult mult.commute)
  finally have "uint (ucast (signed_drop_bit n a OR push_bit k b) :: u8) =
      uint (word_of_int (x + 2 ^ k * sint b) :: 'a word) mod 256"
    by (simp only: uint_low_byte u)
  also have "\<dots> = take_bit LENGTH('a) (x + 2 ^ k * sint b) mod 256"
    by (simp only: uint_word_of_int_eq)
  also have "\<dots> = (x + 2 ^ k * sint b) mod 256"
    using le_imp_power_dvd [OF len, of "2 :: int"] by (simp add: take_bit_eq_mod mod_mod_cancel)
  also have "x + 2 ^ k * sint b = x + 2 ^ k * y + 256 * z" unfolding b p [symmetric] by (simp add: algebra_simps)
  also have "(x + 2 ^ k * y + 256 * z) mod 256 = x + 2 ^ k * y"
  proof -
    have "2 ^ k * y \<le> 2 ^ k * (2 ^ (8 - k) - 1)" using y by (intro mult_left_mono) simp_all
    then have "x + 2 ^ k * y < 256" using x p by (simp add: right_diff_distrib)
    then show ?thesis using x y by simp
  qed
  finally show ?thesis by (simp add: x_def y_def)
qed

lemma split_bytes:
  fixes x :: int
  shows "x = x mod 2 ^ a + 2 ^ a * (x div 2 ^ a mod 256) + 2 ^ (a + 8) * (x div 2 ^ (a + 8) mod 256) +
    2 ^ (a + 16) * (x div 2 ^ (a + 16))"
proof -
  have "x = x mod 2 ^ a + 2 ^ a * (x div 2 ^ a)" by simp
  moreover have "x div 2 ^ a = x div 2 ^ a mod 256 + 256 * (x div 2 ^ (a + 8))"
    by (simp add: power_add zdiv_zmult2_eq)
  moreover have "x div 2 ^ (a + 16) = x div 2 ^ (a + 8) div 2 ^ 8"
  proof -
    have p: "(2 :: int) ^ (a + 16) = 2 ^ (a + 8) * 2 ^ 8" unfolding power_add [symmetric] by simp
    show ?thesis unfolding p by (rule zdiv_zmult2_eq) simp
  qed
  then have "x div 2 ^ (a + 8) = x div 2 ^ (a + 8) mod 256 + 256 * (x div 2 ^ (a + 16))" by simp
  ultimately have "x = x mod 2 ^ a + 2 ^ a * (x div 2 ^ a mod 256 + 256 *
      (x div 2 ^ (a + 8) mod 256 + 256 * (x div 2 ^ (a + 16))))"
    by presburger
  then show ?thesis by (simp add: power_add distrib_left ac_simps)
qed

lemma split_bytesE:
  fixes x :: int
  obtains y0 y1 y2 y3 where "x mod 2 ^ a = y0" "x div 2 ^ a mod 256 = y1" "x div 2 ^ (a + 8) mod 256 = y2"
    "x div 2 ^ (a + 16) = y3" "x = y0 + 2 ^ a * y1 + 2 ^ (a + 8) * y2 + 2 ^ (a + 16) * y3"
  using split_bytes [of x a] by blast

lemma pack_bytes:
  assumes b0: "0 \<le> sint h0" "sint h0 < 2 ^ 26"
    and b1: "0 \<le> sint h1" "sint h1 < 2 ^ 25"
    and b2: "0 \<le> sint h2" "sint h2 < 2 ^ 26"
    and b3: "0 \<le> sint h3" "sint h3 < 2 ^ 25"
    and b4: "0 \<le> sint h4" "sint h4 < 2 ^ 26"
    and b5: "0 \<le> sint h5" "sint h5 < 2 ^ 25"
    and b6: "0 \<le> sint h6" "sint h6 < 2 ^ 26"
    and b7: "0 \<le> sint h7" "sint h7 < 2 ^ 25"
    and b8: "0 \<le> sint h8" "sint h8 < 2 ^ 26"
    and b9: "0 \<le> sint h9" "sint h9 < 2 ^ 25"
  shows "le_val [ucast (signed_drop_bit 0 h0), ucast (signed_drop_bit 8 h0), ucast (signed_drop_bit 16 h0),
     ucast (signed_drop_bit 24 h0 OR push_bit 2 h1), ucast (signed_drop_bit 6 h1),
     ucast (signed_drop_bit 14 h1), ucast (signed_drop_bit 22 h1 OR push_bit 3 h2),
     ucast (signed_drop_bit 5 h2), ucast (signed_drop_bit 13 h2),
     ucast (signed_drop_bit 21 h2 OR push_bit 5 h3), ucast (signed_drop_bit 3 h3),
     ucast (signed_drop_bit 11 h3), ucast (signed_drop_bit 19 h3 OR push_bit 6 h4),
     ucast (signed_drop_bit 2 h4), ucast (signed_drop_bit 10 h4), ucast (signed_drop_bit 18 h4),
     ucast (signed_drop_bit 0 h5), ucast (signed_drop_bit 8 h5), ucast (signed_drop_bit 16 h5),
     ucast (signed_drop_bit 24 h5 OR push_bit 1 h6), ucast (signed_drop_bit 7 h6),
     ucast (signed_drop_bit 15 h6), ucast (signed_drop_bit 23 h6 OR push_bit 3 h7),
     ucast (signed_drop_bit 5 h7), ucast (signed_drop_bit 13 h7),
     ucast (signed_drop_bit 21 h7 OR push_bit 4 h8), ucast (signed_drop_bit 4 h8),
     ucast (signed_drop_bit 12 h8), ucast (signed_drop_bit 20 h8 OR push_bit 6 h9),
     ucast (signed_drop_bit 2 h9), ucast (signed_drop_bit 10 h9), ucast (signed_drop_bit 18 h9)] = fe_val (Fe h0 h1 h2 h3 h4 h5 h6 h7 h8 h9)"
proof -
  obtain y00 y01 y02 y03 where y0: "sint h0 mod 2 ^ 8 = y00" "sint h0 div 2 ^ 8 mod 256 = y01"
      "sint h0 div 2 ^ (8 + 8) mod 256 = y02" "sint h0 div 2 ^ (8 + 16) = y03"
      "sint h0 = y00 + 2 ^ 8 * y01 + 2 ^ (8 + 8) * y02 + 2 ^ (8 + 16) * y03"
    by (rule split_bytesE)
  obtain y10 y11 y12 y13 where y1: "sint h1 mod 2 ^ 6 = y10" "sint h1 div 2 ^ 6 mod 256 = y11"
      "sint h1 div 2 ^ (6 + 8) mod 256 = y12" "sint h1 div 2 ^ (6 + 16) = y13"
      "sint h1 = y10 + 2 ^ 6 * y11 + 2 ^ (6 + 8) * y12 + 2 ^ (6 + 16) * y13"
    by (rule split_bytesE)
  obtain y20 y21 y22 y23 where y2: "sint h2 mod 2 ^ 5 = y20" "sint h2 div 2 ^ 5 mod 256 = y21"
      "sint h2 div 2 ^ (5 + 8) mod 256 = y22" "sint h2 div 2 ^ (5 + 16) = y23"
      "sint h2 = y20 + 2 ^ 5 * y21 + 2 ^ (5 + 8) * y22 + 2 ^ (5 + 16) * y23"
    by (rule split_bytesE)
  obtain y30 y31 y32 y33 where y3: "sint h3 mod 2 ^ 3 = y30" "sint h3 div 2 ^ 3 mod 256 = y31"
      "sint h3 div 2 ^ (3 + 8) mod 256 = y32" "sint h3 div 2 ^ (3 + 16) = y33"
      "sint h3 = y30 + 2 ^ 3 * y31 + 2 ^ (3 + 8) * y32 + 2 ^ (3 + 16) * y33"
    by (rule split_bytesE)
  obtain y40 y41 y42 y43 where y4: "sint h4 mod 2 ^ 2 = y40" "sint h4 div 2 ^ 2 mod 256 = y41"
      "sint h4 div 2 ^ (2 + 8) mod 256 = y42" "sint h4 div 2 ^ (2 + 16) = y43"
      "sint h4 = y40 + 2 ^ 2 * y41 + 2 ^ (2 + 8) * y42 + 2 ^ (2 + 16) * y43"
    by (rule split_bytesE)
  obtain y50 y51 y52 y53 where y5: "sint h5 mod 2 ^ 8 = y50" "sint h5 div 2 ^ 8 mod 256 = y51"
      "sint h5 div 2 ^ (8 + 8) mod 256 = y52" "sint h5 div 2 ^ (8 + 16) = y53"
      "sint h5 = y50 + 2 ^ 8 * y51 + 2 ^ (8 + 8) * y52 + 2 ^ (8 + 16) * y53"
    by (rule split_bytesE)
  obtain y60 y61 y62 y63 where y6: "sint h6 mod 2 ^ 7 = y60" "sint h6 div 2 ^ 7 mod 256 = y61"
      "sint h6 div 2 ^ (7 + 8) mod 256 = y62" "sint h6 div 2 ^ (7 + 16) = y63"
      "sint h6 = y60 + 2 ^ 7 * y61 + 2 ^ (7 + 8) * y62 + 2 ^ (7 + 16) * y63"
    by (rule split_bytesE)
  obtain y70 y71 y72 y73 where y7: "sint h7 mod 2 ^ 5 = y70" "sint h7 div 2 ^ 5 mod 256 = y71"
      "sint h7 div 2 ^ (5 + 8) mod 256 = y72" "sint h7 div 2 ^ (5 + 16) = y73"
      "sint h7 = y70 + 2 ^ 5 * y71 + 2 ^ (5 + 8) * y72 + 2 ^ (5 + 16) * y73"
    by (rule split_bytesE)
  obtain y80 y81 y82 y83 where y8: "sint h8 mod 2 ^ 4 = y80" "sint h8 div 2 ^ 4 mod 256 = y81"
      "sint h8 div 2 ^ (4 + 8) mod 256 = y82" "sint h8 div 2 ^ (4 + 16) = y83"
      "sint h8 = y80 + 2 ^ 4 * y81 + 2 ^ (4 + 8) * y82 + 2 ^ (4 + 16) * y83"
    by (rule split_bytesE)
  obtain y90 y91 y92 y93 where y9: "sint h9 mod 2 ^ 2 = y90" "sint h9 div 2 ^ 2 mod 256 = y91"
      "sint h9 div 2 ^ (2 + 8) mod 256 = y92" "sint h9 div 2 ^ (2 + 16) = y93"
      "sint h9 = y90 + 2 ^ 2 * y91 + 2 ^ (2 + 8) * y92 + 2 ^ (2 + 16) * y93"
    by (rule split_bytesE)
  have t: "y43 mod 256 = y43" "y93 mod 256 = y93"
    using b4 b9 int_div_less [of "2 ^ 18" "sint h4" 256] int_div_less [of "2 ^ 18" "sint h9" 256]
    by (simp_all flip: y4(4) y9(4) add: pos_imp_zdiv_nonneg_iff)
  have lo: "uint (ucast h0 :: u8) = sint h0 mod 256" "uint (ucast h5 :: u8) = sint h5 mod 256"
    using b0 b5 by (simp_all only: uint_low_byte uint_of_sint)
  note j = byte_join [OF _ b0(1) _ b1(1), of 24 2] byte_join [OF _ b1(1) _ b2(1), of 22 3] byte_join [OF _ b2(1) _ b3(1), of 21 5]
    byte_join [OF _ b3(1) _ b4(1), of 19 6] byte_join [OF _ b5(1) _ b6(1), of 24 1, simplified] byte_join [OF _ b6(1) _ b7(1), of 23 3]
    byte_join [OF _ b7(1) _ b8(1), of 21 4] byte_join [OF _ b8(1) _ b9(1), of 20 6]
  show ?thesis
    using b0 b1 b2 b3 b4 b5 b6 b7 b8 b9
    by (simp add: j byte_mid lo fe_val_Fe y0(1-4) [simplified] y1(1-4) [simplified] y2(1-4) [simplified] y3(1-4) [simplified] y4(1-4) [simplified] y5(1-4) [simplified] y6(1-4) [simplified] y7(1-4) [simplified] y8(1-4) [simplified] y9(1-4) [simplified]) (simp add: t y0(5) y1(5) y2(5) y3(5) y4(5) y5(5) y6(5) y7(5) y8(5) y9(5) algebra_simps)
qed

lemma quotient_step:
  fixes h q :: i32
  assumes "- (2 ^ 27) \<le> sint h" "sint h \<le> 2 ^ 27" "- 32 \<le> sint q" "sint q \<le> 32" "n = 25 \<or> n = 26"
  obtains q' m where "signed_drop_bit n (h + q) = q'" "sint h + sint q = 2 ^ n * sint q' + m" "0 \<le> m" "m < 2 ^ n"
    "- 32 \<le> sint q'" "sint q' \<le> 32"
proof -
  have "sint (h + q) = sint h + sint q" using assms by (intro sint_add32) simp
  then obtain m where m: "sint h + sint q = 2 ^ n * sint (signed_drop_bit n (h + q)) + m" "0 \<le> m" "m < 2 ^ n"
    using floor_shift [of n "h + q"] by metis
  moreover have "- 32 \<le> sint (signed_drop_bit n (h + q))" "sint (signed_drop_bit n (h + q)) \<le> 32"
    using m assms by auto
  ultimately show thesis using that by blast
qed

lemma digit_step:
  fixes h c :: i32
  assumes "- (2 ^ 27) \<le> sint h" "sint h \<le> 2 ^ 27" "- 1000 \<le> sint c" "sint c \<le> 1000" "n = 25 \<or> n = 26"
  obtains x k r where "h + c = x" "signed_drop_bit n x = k" "x - push_bit n k = r"
    "sint h + sint c = 2 ^ n * sint k + sint r" "0 \<le> sint r" "sint r < 2 ^ n" "- 1000 \<le> sint k" "sint k \<le> 1000"
proof -
  have "sint (h + c) = sint h + sint c" using assms by (intro sint_add32) simp
  moreover from this obtain k r where k: "signed_drop_bit n (h + c) = k" "h + c - push_bit n k = r"
    "sint (h + c) = 2 ^ n * sint k + sint r" "0 \<le> sint r" "sint r < 2 ^ n"
    using assms by (elim disjE) (rule floor_carry [of n "h + c"]; simp)+
  moreover have "- 1000 \<le> sint k" "sint k \<le> 1000" using k assms calculation(1) by auto
  ultimately show thesis using that by metis
qed

lemma fe_tobytes_ok:
  assumes "fe_bound 36909875 h"
  shows "le_val (fe_tobytes h) = fe_val h mod p25519" "length (fe_tobytes h) = 32"
proof -
  obtain h0 h1 h2 h3 h4 h5 h6 h7 h8 h9 where h: "h = Fe h0 h1 h2 h3 h4 h5 h6 h7 h8 h9" by (cases h)
  note bnd = assms [unfolded h fe_bound_Fe]
  have b0: "- 73819750 \<le> sint h0" "sint h0 \<le> 73819750" using bnd by (simp_all add: abs_le_iff)
  have b1: "- 36909875 \<le> sint h1" "sint h1 \<le> 36909875" using bnd by (simp_all add: abs_le_iff)
  have b2: "- 73819750 \<le> sint h2" "sint h2 \<le> 73819750" using bnd by (simp_all add: abs_le_iff)
  have b3: "- 36909875 \<le> sint h3" "sint h3 \<le> 36909875" using bnd by (simp_all add: abs_le_iff)
  have b4: "- 73819750 \<le> sint h4" "sint h4 \<le> 73819750" using bnd by (simp_all add: abs_le_iff)
  have b5: "- 36909875 \<le> sint h5" "sint h5 \<le> 36909875" using bnd by (simp_all add: abs_le_iff)
  have b6: "- 73819750 \<le> sint h6" "sint h6 \<le> 73819750" using bnd by (simp_all add: abs_le_iff)
  have b7: "- 36909875 \<le> sint h7" "sint h7 \<le> 36909875" using bnd by (simp_all add: abs_le_iff)
  have b8: "- 73819750 \<le> sint h8" "sint h8 \<le> 73819750" using bnd by (simp_all add: abs_le_iff)
  have b9: "- 36909875 \<le> sint h9" "sint h9 \<le> 36909875" using bnd by (simp_all add: abs_le_iff)
  have "sint (19 * h9) = 19 * sint h9" using small32 [of "19 * sint h9"] b9 by simp
  then have x: "sint (19 * h9 + push_bit 24 1) = 19 * sint h9 + 2 ^ 24"
    using b9 sint_add32 [of "19 * h9" "2 ^ 24"] by simp
  define q where "q = signed_drop_bit 25 (19 * h9 + push_bit 24 1)"
  obtain s where q: "signed_drop_bit 25 (19 * h9 + push_bit 24 1) = q"
      "19 * sint h9 + 2 ^ 24 = 2 ^ 25 * sint q + s" "0 \<le> s" "s < 2 ^ 25"
    using floor_shift [of 25 "19 * h9 + push_bit 24 1" q, OF q_def [symmetric]] q_def x by metis
  have q': "- 32 \<le> sint q" "sint q \<le> 32" using q b9 by simp_all
  obtain q0 m0 where q0: "signed_drop_bit 26 (h0 + q) = q0" "sint h0 + sint q = 2 ^ 26 * sint q0 + m0"
      "0 \<le> m0" "m0 < 2 ^ 26" "- 32 \<le> sint q0" "sint q0 \<le> 32"
    by (rule quotient_step [of h0 q 26]) (use b0 q' in simp_all)
  obtain q1 m1 where q1: "signed_drop_bit 25 (h1 + q0) = q1" "sint h1 + sint q0 = 2 ^ 25 * sint q1 + m1"
      "0 \<le> m1" "m1 < 2 ^ 25" "- 32 \<le> sint q1" "sint q1 \<le> 32"
    by (rule quotient_step [of h1 q0 25]) (use b1 q0(5,6) in simp_all)
  obtain q2 m2 where q2: "signed_drop_bit 26 (h2 + q1) = q2" "sint h2 + sint q1 = 2 ^ 26 * sint q2 + m2"
      "0 \<le> m2" "m2 < 2 ^ 26" "- 32 \<le> sint q2" "sint q2 \<le> 32"
    by (rule quotient_step [of h2 q1 26]) (use b2 q1(5,6) in simp_all)
  obtain q3 m3 where q3: "signed_drop_bit 25 (h3 + q2) = q3" "sint h3 + sint q2 = 2 ^ 25 * sint q3 + m3"
      "0 \<le> m3" "m3 < 2 ^ 25" "- 32 \<le> sint q3" "sint q3 \<le> 32"
    by (rule quotient_step [of h3 q2 25]) (use b3 q2(5,6) in simp_all)
  obtain q4 m4 where q4: "signed_drop_bit 26 (h4 + q3) = q4" "sint h4 + sint q3 = 2 ^ 26 * sint q4 + m4"
      "0 \<le> m4" "m4 < 2 ^ 26" "- 32 \<le> sint q4" "sint q4 \<le> 32"
    by (rule quotient_step [of h4 q3 26]) (use b4 q3(5,6) in simp_all)
  obtain q5 m5 where q5: "signed_drop_bit 25 (h5 + q4) = q5" "sint h5 + sint q4 = 2 ^ 25 * sint q5 + m5"
      "0 \<le> m5" "m5 < 2 ^ 25" "- 32 \<le> sint q5" "sint q5 \<le> 32"
    by (rule quotient_step [of h5 q4 25]) (use b5 q4(5,6) in simp_all)
  obtain q6 m6 where q6: "signed_drop_bit 26 (h6 + q5) = q6" "sint h6 + sint q5 = 2 ^ 26 * sint q6 + m6"
      "0 \<le> m6" "m6 < 2 ^ 26" "- 32 \<le> sint q6" "sint q6 \<le> 32"
    by (rule quotient_step [of h6 q5 26]) (use b6 q5(5,6) in simp_all)
  obtain q7 m7 where q7: "signed_drop_bit 25 (h7 + q6) = q7" "sint h7 + sint q6 = 2 ^ 25 * sint q7 + m7"
      "0 \<le> m7" "m7 < 2 ^ 25" "- 32 \<le> sint q7" "sint q7 \<le> 32"
    by (rule quotient_step [of h7 q6 25]) (use b7 q6(5,6) in simp_all)
  obtain q8 m8 where q8: "signed_drop_bit 26 (h8 + q7) = q8" "sint h8 + sint q7 = 2 ^ 26 * sint q8 + m8"
      "0 \<le> m8" "m8 < 2 ^ 26" "- 32 \<le> sint q8" "sint q8 \<le> 32"
    by (rule quotient_step [of h8 q7 26]) (use b8 q7(5,6) in simp_all)
  obtain q9 m9 where q9: "signed_drop_bit 25 (h9 + q8) = q9" "sint h9 + sint q8 = 2 ^ 25 * sint q9 + m9"
      "0 \<le> m9" "m9 < 2 ^ 25" "- 32 \<le> sint q9" "sint q9 \<le> 32"
    by (rule quotient_step [of h9 q8 25]) (use b9 q8(5,6) in simp_all)
  have c: "sint (19 * q9) = 19 * sint q9" "- 1000 \<le> 19 * sint q9" "19 * sint q9 \<le> 1000"
    using small32 [of "19 * sint q9"] q9(5,6) by simp_all
  obtain x0 c0 r0 where c0: "h0 + 19 * q9 = x0" "signed_drop_bit 26 x0 = c0" "x0 - push_bit 26 c0 = r0"
      "sint h0 + sint (19 * q9) = 2 ^ 26 * sint c0 + sint r0" "0 \<le> sint r0" "sint r0 < 2 ^ 26"
      "- 1000 \<le> sint c0" "sint c0 \<le> 1000"
    by (rule digit_step [of h0 "19 * q9" 26]) (use b0 c in simp_all)
  obtain x1 c1 r1 where c1: "h1 + c0 = x1" "signed_drop_bit 25 x1 = c1" "x1 - push_bit 25 c1 = r1"
      "sint h1 + sint (c0) = 2 ^ 25 * sint c1 + sint r1" "0 \<le> sint r1" "sint r1 < 2 ^ 25"
      "- 1000 \<le> sint c1" "sint c1 \<le> 1000"
    by (rule digit_step [of h1 "c0" 25]) (use b1 c0(7,8) in simp_all)
  obtain x2 c2 r2 where c2: "h2 + c1 = x2" "signed_drop_bit 26 x2 = c2" "x2 - push_bit 26 c2 = r2"
      "sint h2 + sint (c1) = 2 ^ 26 * sint c2 + sint r2" "0 \<le> sint r2" "sint r2 < 2 ^ 26"
      "- 1000 \<le> sint c2" "sint c2 \<le> 1000"
    by (rule digit_step [of h2 "c1" 26]) (use b2 c1(7,8) in simp_all)
  obtain x3 c3 r3 where c3: "h3 + c2 = x3" "signed_drop_bit 25 x3 = c3" "x3 - push_bit 25 c3 = r3"
      "sint h3 + sint (c2) = 2 ^ 25 * sint c3 + sint r3" "0 \<le> sint r3" "sint r3 < 2 ^ 25"
      "- 1000 \<le> sint c3" "sint c3 \<le> 1000"
    by (rule digit_step [of h3 "c2" 25]) (use b3 c2(7,8) in simp_all)
  obtain x4 c4 r4 where c4: "h4 + c3 = x4" "signed_drop_bit 26 x4 = c4" "x4 - push_bit 26 c4 = r4"
      "sint h4 + sint (c3) = 2 ^ 26 * sint c4 + sint r4" "0 \<le> sint r4" "sint r4 < 2 ^ 26"
      "- 1000 \<le> sint c4" "sint c4 \<le> 1000"
    by (rule digit_step [of h4 "c3" 26]) (use b4 c3(7,8) in simp_all)
  obtain x5 c5 r5 where c5: "h5 + c4 = x5" "signed_drop_bit 25 x5 = c5" "x5 - push_bit 25 c5 = r5"
      "sint h5 + sint (c4) = 2 ^ 25 * sint c5 + sint r5" "0 \<le> sint r5" "sint r5 < 2 ^ 25"
      "- 1000 \<le> sint c5" "sint c5 \<le> 1000"
    by (rule digit_step [of h5 "c4" 25]) (use b5 c4(7,8) in simp_all)
  obtain x6 c6 r6 where c6: "h6 + c5 = x6" "signed_drop_bit 26 x6 = c6" "x6 - push_bit 26 c6 = r6"
      "sint h6 + sint (c5) = 2 ^ 26 * sint c6 + sint r6" "0 \<le> sint r6" "sint r6 < 2 ^ 26"
      "- 1000 \<le> sint c6" "sint c6 \<le> 1000"
    by (rule digit_step [of h6 "c5" 26]) (use b6 c5(7,8) in simp_all)
  obtain x7 c7 r7 where c7: "h7 + c6 = x7" "signed_drop_bit 25 x7 = c7" "x7 - push_bit 25 c7 = r7"
      "sint h7 + sint (c6) = 2 ^ 25 * sint c7 + sint r7" "0 \<le> sint r7" "sint r7 < 2 ^ 25"
      "- 1000 \<le> sint c7" "sint c7 \<le> 1000"
    by (rule digit_step [of h7 "c6" 25]) (use b7 c6(7,8) in simp_all)
  obtain x8 c8 r8 where c8: "h8 + c7 = x8" "signed_drop_bit 26 x8 = c8" "x8 - push_bit 26 c8 = r8"
      "sint h8 + sint (c7) = 2 ^ 26 * sint c8 + sint r8" "0 \<le> sint r8" "sint r8 < 2 ^ 26"
      "- 1000 \<le> sint c8" "sint c8 \<le> 1000"
    by (rule digit_step [of h8 "c7" 26]) (use b8 c7(7,8) in simp_all)
  obtain x9 c9 r9 where c9: "h9 + c8 = x9" "signed_drop_bit 25 x9 = c9" "x9 - push_bit 25 c9 = r9"
      "sint h9 + sint (c8) = 2 ^ 25 * sint c9 + sint r9" "0 \<le> sint r9" "sint r9 < 2 ^ 25"
      "- 1000 \<le> sint c9" "sint c9 \<le> 1000"
    by (rule digit_step [of h9 "c8" 25]) (use b9 c8(7,8) in simp_all)
  have eq: "fe_tobytes h = [ucast (signed_drop_bit 0 r0), ucast (signed_drop_bit 8 r0), ucast (signed_drop_bit 16 r0),
      ucast (signed_drop_bit 24 r0 OR push_bit 2 r1), ucast (signed_drop_bit 6 r1),
      ucast (signed_drop_bit 14 r1), ucast (signed_drop_bit 22 r1 OR push_bit 3 r2),
      ucast (signed_drop_bit 5 r2), ucast (signed_drop_bit 13 r2),
      ucast (signed_drop_bit 21 r2 OR push_bit 5 r3), ucast (signed_drop_bit 3 r3),
      ucast (signed_drop_bit 11 r3), ucast (signed_drop_bit 19 r3 OR push_bit 6 r4),
      ucast (signed_drop_bit 2 r4), ucast (signed_drop_bit 10 r4),
      ucast (signed_drop_bit 18 r4), ucast (signed_drop_bit 0 r5), ucast (signed_drop_bit 8 r5),
      ucast (signed_drop_bit 16 r5), ucast (signed_drop_bit 24 r5 OR push_bit 1 r6),
      ucast (signed_drop_bit 7 r6), ucast (signed_drop_bit 15 r6),
      ucast (signed_drop_bit 23 r6 OR push_bit 3 r7), ucast (signed_drop_bit 5 r7),
      ucast (signed_drop_bit 13 r7), ucast (signed_drop_bit 21 r7 OR push_bit 4 r8),
      ucast (signed_drop_bit 4 r8), ucast (signed_drop_bit 12 r8),
      ucast (signed_drop_bit 20 r8 OR push_bit 6 r9), ucast (signed_drop_bit 2 r9),
      ucast (signed_drop_bit 10 r9), ucast (signed_drop_bit 18 r9)]"
    unfolding fe_tobytes_def h fe.case
    by (simp only:
      q(1)[THEN Let_eq] q0(1)[THEN Let_eq] q1(1)[THEN Let_eq] q2(1)[THEN Let_eq] q3(1)[THEN Let_eq]
        q4(1)[THEN Let_eq] q5(1)[THEN Let_eq] q6(1)[THEN Let_eq] q7(1)[THEN Let_eq]
        q8(1)[THEN Let_eq] q9(1)[THEN Let_eq] c0(1)[THEN Let_eq] c0(2)[THEN Let_eq]
        c0(3)[THEN Let_eq] c1(1)[THEN Let_eq] c1(2)[THEN Let_eq] c1(3)[THEN Let_eq]
        c2(1)[THEN Let_eq] c2(2)[THEN Let_eq] c2(3)[THEN Let_eq] c3(1)[THEN Let_eq]
        c3(2)[THEN Let_eq] c3(3)[THEN Let_eq] c4(1)[THEN Let_eq] c4(2)[THEN Let_eq]
        c4(3)[THEN Let_eq] c5(1)[THEN Let_eq] c5(2)[THEN Let_eq] c5(3)[THEN Let_eq]
        c6(1)[THEN Let_eq] c6(2)[THEN Let_eq] c6(3)[THEN Let_eq] c7(1)[THEN Let_eq]
        c7(2)[THEN Let_eq] c7(3)[THEN Let_eq] c8(1)[THEN Let_eq] c8(2)[THEN Let_eq]
        c8(3)[THEN Let_eq] c9(1)[THEN Let_eq] c9(2)[THEN Let_eq] c9(3)[THEN Let_eq])
  let ?H = "fe_val h"
  define L where "L = ?H - 2 ^ 230 * sint h9"
  have L: "\<bar>L\<bar> \<le> 2 ^ 231"
    using b0 b1 b2 b3 b4 b5 b6 b7 b8 by (simp add: L_def h fe_val_Fe abs_le_iff)
  define m where "m = m0 + 2 ^ 26 * m1 + 2 ^ 51 * m2 + 2 ^ 77 * m3 + 2 ^ 102 * m4 + 2 ^ 128 * m5 + 2 ^ 153 * m6 +
    2 ^ 179 * m7 + 2 ^ 204 * m8 + 2 ^ 230 * m9"
  have m: "?H + sint q = 2 ^ 255 * sint q9 + m"
    using q0(2) q1(2) q2(2) q3(2) q4(2) q5(2) q6(2) q7(2) q8(2) q9(2) by (simp add: m_def h fe_val_Fe algebra_simps)
  have m_bounds: "0 \<le> m" "m < 2 ^ 255"
    using q0(3,4) q1(3,4) q2(3,4) q3(3,4) q4(3,4) q5(3,4) q6(3,4) q7(3,4) q8(3,4) q9(3,4) by (simp_all add: m_def)
  have q9: "\<bar>sint q9\<bar> \<le> 4" using q9(2-4) b9 q8(5,6) by (simp add: abs_le_iff)
  have est: "0 \<le> ?H - p25519 * sint q9" "?H - p25519 * sint q9 < p25519"
    by (rule quotient_estimate [of _ "sint h9" L "sint q" s _ m]; use L q m m_bounds q9 in \<open>simp add: L_def\<close>)+
  let ?R = "Fe r0 r1 r2 r3 r4 r5 r6 r7 r8 r9"
  have d: "?H + 19 * sint q9 = fe_val ?R + 2 ^ 255 * sint c9"
    using c(1) c0(4) c1(4) c2(4) c3(4) c4(4) c5(4) c6(4) c7(4) c8(4) c9(4) by (simp add: h fe_val_Fe algebra_simps)
  have R: "0 \<le> fe_val ?R" "fe_val ?R < 2 ^ 255"
    using c0(5,6) c1(5,6) c2(5,6) c3(5,6) c4(5,6) c5(5,6) c6(5,6) c7(5,6) c8(5,6) c9(5,6) by (simp_all add: fe_val_Fe)
  have "sint c9 = sint q9" using d R est by (simp add: p25519_def)
  then have "fe_val ?R = ?H - p25519 * sint q9" using d by (simp add: p25519_def algebra_simps)
  moreover have "le_val (fe_tobytes h) = fe_val ?R"
    unfolding eq by (rule pack_bytes; use c0(5,6) c1(5,6) c2(5,6) c3(5,6) c4(5,6) c5(5,6) c6(5,6) c7(5,6) c8(5,6) c9(5,6) in simp)
  ultimately show "le_val (fe_tobytes h) = fe_val h mod p25519"
    using mod_intro [OF est] by simp
  show "length (fe_tobytes h) = 32" by (simp add: eq)
qed

lemma fe_isnegative_val:
  assumes "fe_bound 36909875 h"
  shows "uint (fe_isnegative h) = fe_val h mod p25519 mod 2"
proof -
  obtain b bs where s: "fe_tobytes h = b # bs"
    using fe_tobytes_ok(2) [OF assms] by (cases "fe_tobytes h") simp_all
  then have v: "fe_val h mod p25519 = uint b + 2 * (128 * le_val bs)" using fe_tobytes_ok(1) [OF assms] by simp
  have "fe_val h mod p25519 mod 2 = uint b mod 2" unfolding v by (rule mod_mult_self2)
  then show ?thesis by (simp only: fe_isnegative_def s Let_def nth_Cons_0 unsigned_and_eq) (simp add: and_one_eq)
qed

lemma fold_or_zero: "fold (\<lambda>i r. r OR s ! i) is (r :: u8) = 0 \<longleftrightarrow> r = 0 \<and> (\<forall>i\<in>set is. s ! i = 0)"
  by (induction "is" arbitrary: r) (auto simp: or_eq_0_iff)

lemma le_val_zero: "le_val s = 0 \<longleftrightarrow> (\<forall>i<length s. s ! i = 0)"
proof (induction s)
  case (Cons b s)
  have "le_val (b # s) = 0 \<longleftrightarrow> uint b = 0 \<and> le_val s = 0"
    using conjunct1 [OF uint8 [of b]] conjunct1 [OF le_val_bounds [of s]] by (simp only: le_val.simps) linarith
  also have "\<dots> \<longleftrightarrow> (\<forall>i<length (b # s). (b # s) ! i = 0)"
    using Cons by (simp add: All_less_Suc2 unsigned_eq_0_iff)
  finally show ?case .
qed simp

lemma fe_isnonzero_val:
  assumes "fe_bound 36909875 h"
  shows "fe_isnonzero h \<longleftrightarrow> fe_val h mod p25519 \<noteq> 0"
proof -
  have "(\<forall>i<32. P i) \<longleftrightarrow> P 0 \<and> (\<forall>i\<in>set [1..<32]. P i)" for P :: "nat \<Rightarrow> bool"
    by (auto simp: not_less_eq_eq)
  then show ?thesis
    using fe_tobytes_ok [OF assms] le_val_zero [of "fe_tobytes h"] by (simp add: fe_isnonzero_def Let_def fold_or_zero del: set_upt)
qed

section \<open>Properties\<close>

text \<open>C14: Encoding is canonical. Within the documented bound, the 32 bytes that \<open>fe_tobytes\<close> returns are
  the little-endian form of the least non-negative residue, so elements of the same class have
  the same bytes.\<close>

theorem fe_tobytes_canonical:
  assumes "fe_bound 36909875 f" "fe_bound 36909875 g" "fe_val f mod p25519 = fe_val g mod p25519"
  shows "length (fe_tobytes f) = 32 \<and> le_val (fe_tobytes f) = fe_val f mod p25519 \<and> fe_tobytes f = fe_tobytes g"
  using fe_tobytes_ok [OF assms(1)] fe_tobytes_ok [OF assms(2)] assms(3) by (simp add: le_val_inject)

theorem fe_tobytes_canonical_witness:
  "let f = Fe 0 0 0 0 0 0 0 0 0 0; g = Fe (- 19) 0 0 0 0 0 0 0 0 33554432
   in length (fe_tobytes f) = 32 \<and> le_val (fe_tobytes f) = fe_val f mod p25519 \<and> fe_tobytes f = fe_tobytes g"
  unfolding Let_def
  by (rule fe_tobytes_canonical) (simp_all add: fe_bound_Fe fe_val_Fe p25519_def)

text \<open>C15: Round trip. Decoding any 32 bytes and encoding the result gives the canonical bytes of the number they
  hold without the top bit: that number reduced modulo \<open>2^255 - 19\<close>. Bytes that are canonical already, with the top bit
  clear, come back as they are.\<close>

theorem fe_bytes_roundtrip:
  assumes "length s = 32"
  shows "length (fe_tobytes (fe_frombytes s)) = 32 \<and>
    le_val (fe_tobytes (fe_frombytes s)) = le_val s mod 2 ^ 255 mod p25519 \<and>
    (fe_tobytes (fe_frombytes s) = s \<longleftrightarrow> le_val s < p25519)"
proof -
  note v = fe_frombytes_ok [OF assms]
  have b: "fe_bound 36909875 (fe_frombytes s)" by (rule fe_bound_mono [OF v(2)]) simp
  have t: "le_val (fe_tobytes (fe_frombytes s)) = le_val s mod 2 ^ 255 mod p25519"
    "length (fe_tobytes (fe_frombytes s)) = 32"
    using fe_tobytes_ok [OF b] v(1) by simp_all
  have "le_val s mod 2 ^ 255 = le_val s" "le_val s mod p25519 = le_val s" if "le_val s < p25519"
    using le_val_bounds [of s] that by (simp_all add: p25519_def)
  moreover have "le_val s mod 2 ^ 255 mod p25519 < p25519" by (simp add: p25519_def)
  ultimately have "fe_tobytes (fe_frombytes s) = s \<longleftrightarrow> le_val s < p25519"
    using t le_val_inject [of "fe_tobytes (fe_frombytes s)" s] assms by metis
  with t show ?thesis by blast
qed

text \<open>The number \<open>2^255 + (2^255 - 18)\<close>: its top bit goes and the rest is reduced to 1.\<close>

theorem fe_bytes_roundtrip_witness:
  "le_val (fe_tobytes (fe_frombytes (238 # replicate 31 255))) = 1 \<and>
   fe_tobytes (fe_frombytes (1 # replicate 31 0)) = 1 # replicate 31 0"
proof -
  have "le_val (replicate n 255) = 256 ^ n - 1" "le_val (replicate n 0) = 0" for n
    by (induction n) simp_all
  then have "le_val (238 # replicate 31 255) = 2 ^ 256 - 18" "le_val (1 # replicate 31 0) = 1" by simp_all
  then show ?thesis
    using fe_bytes_roundtrip [of "238 # replicate 31 255"] fe_bytes_roundtrip [of "1 # replicate 31 0"]
    by (simp add: p25519_def)
qed

end
