(* ===== verification/Scalar25519.thy ===== *)
theory Scalar25519
  imports Field25519_Bytes
begin

text \<open>
  The scalars of Ed25519 (\<open>common/ed25519/sc.c\<close>): integers modulo the prime order \<open>L\<close> as limbs of 21
  bits. The locals \<open>s0 ... s23\<close> of the C functions are the list \<open>s\<close>; the straight-line code repeats three
  groups of statements for varying indices, which are \<open>fold_limb\<close> (seven lines that replace limb \<open>k\<close>
  by a multiple of \<open>2^252 mod L\<close>), \<open>round_carry\<close> and \<open>floor_carry\<close> (three lines each). The order of
  the indices is that of the code.

  The proof follows the limbs through an interval analysis: \<open>within I s\<close> bounds every limb, each step
  has a transfer function on intervals that fails when a 64-bit value could wrap, and the whole
  program is run once on the intervals of its inputs.
\<close>

section \<open>Operations\<close>

definition fold_limb :: "nat \<Rightarrow> i64 list \<Rightarrow> i64 list" where
  "fold_limb k s =
     (let s = s[k - 12 := s ! (k - 12) + s ! k * 666643];
          s = s[k - 11 := s ! (k - 11) + s ! k * 470296];
          s = s[k - 10 := s ! (k - 10) + s ! k * 654183];
          s = s[k - 9 := s ! (k - 9) - s ! k * 997805];
          s = s[k - 8 := s ! (k - 8) + s ! k * 136657];
          s = s[k - 7 := s ! (k - 7) - s ! k * 683901]
      in s[k := 0])"

definition round_carry :: "nat \<Rightarrow> i64 list \<Rightarrow> i64 list" where
  "round_carry k s =
     (let carry = signed_drop_bit 21 (s ! k + push_bit 20 1);
          s = s[k + 1 := s ! (k + 1) + carry]
      in s[k := s ! k - push_bit 21 carry])"

definition floor_carry :: "nat \<Rightarrow> i64 list \<Rightarrow> i64 list" where
  "floor_carry k s =
     (let carry = signed_drop_bit 21 (s ! k);
          s = s[k + 1 := s ! (k + 1) + carry]
      in s[k := s ! k - push_bit 21 carry])"

definition limbs_64 :: "u8 list \<Rightarrow> i64 list" where
  "limbs_64 s =
     [2097151 AND load_3 s, 2097151 AND drop_bit 5 (load_4 (drop 2 s)),
      2097151 AND drop_bit 2 (load_3 (drop 5 s)), 2097151 AND drop_bit 7 (load_4 (drop 7 s)),
      2097151 AND drop_bit 4 (load_4 (drop 10 s)), 2097151 AND drop_bit 1 (load_3 (drop 13 s)),
      2097151 AND drop_bit 6 (load_4 (drop 15 s)), 2097151 AND drop_bit 3 (load_3 (drop 18 s)),
      2097151 AND load_3 (drop 21 s), 2097151 AND drop_bit 5 (load_4 (drop 23 s)),
      2097151 AND drop_bit 2 (load_3 (drop 26 s)), 2097151 AND drop_bit 7 (load_4 (drop 28 s)),
      2097151 AND drop_bit 4 (load_4 (drop 31 s)), 2097151 AND drop_bit 1 (load_3 (drop 34 s)),
      2097151 AND drop_bit 6 (load_4 (drop 36 s)), 2097151 AND drop_bit 3 (load_3 (drop 39 s)),
      2097151 AND load_3 (drop 42 s), 2097151 AND drop_bit 5 (load_4 (drop 44 s)),
      2097151 AND drop_bit 2 (load_3 (drop 47 s)), 2097151 AND drop_bit 7 (load_4 (drop 49 s)),
      2097151 AND drop_bit 4 (load_4 (drop 52 s)), 2097151 AND drop_bit 1 (load_3 (drop 55 s)),
      2097151 AND drop_bit 6 (load_4 (drop 57 s)), drop_bit 3 (load_4 (drop 60 s))]"

definition reduce_high :: "i64 list \<Rightarrow> i64 list" where
  "reduce_high s =
     (let s = fold fold_limb [23, 22, 21, 20, 19, 18] s
      in fold round_carry [6, 8, 10, 12, 14, 16, 7, 9, 11, 13, 15] s)"

definition reduce_low :: "i64 list \<Rightarrow> i64 list" where
  "reduce_low s =
     (let s = fold fold_limb [17, 16, 15, 14, 13, 12] s;
          s = fold round_carry [0, 2, 4, 6, 8, 10, 1, 3, 5, 7, 9, 11] s
      in fold_limb 12 s)"

definition reduce_final :: "i64 list \<Rightarrow> i64 list" where
  "reduce_final s =
     (let s = fold floor_carry [0, 1, 2, 3, 4, 5, 6, 7, 8, 9, 10, 11] s;
          s = fold_limb 12 s
      in fold floor_carry [0, 1, 2, 3, 4, 5, 6, 7, 8, 9, 10] s)"

definition pack_limbs :: "i64 list \<Rightarrow> u8 list" where
  "pack_limbs s =
     [ucast (signed_drop_bit 0 (s ! 0)), ucast (signed_drop_bit 8 (s ! 0)),
      ucast (signed_drop_bit 16 (s ! 0) OR push_bit 5 (s ! 1)),
      ucast (signed_drop_bit 3 (s ! 1)), ucast (signed_drop_bit 11 (s ! 1)),
      ucast (signed_drop_bit 19 (s ! 1) OR push_bit 2 (s ! 2)),
      ucast (signed_drop_bit 6 (s ! 2)),
      ucast (signed_drop_bit 14 (s ! 2) OR push_bit 7 (s ! 3)),
      ucast (signed_drop_bit 1 (s ! 3)), ucast (signed_drop_bit 9 (s ! 3)),
      ucast (signed_drop_bit 17 (s ! 3) OR push_bit 4 (s ! 4)),
      ucast (signed_drop_bit 4 (s ! 4)), ucast (signed_drop_bit 12 (s ! 4)),
      ucast (signed_drop_bit 20 (s ! 4) OR push_bit 1 (s ! 5)),
      ucast (signed_drop_bit 7 (s ! 5)),
      ucast (signed_drop_bit 15 (s ! 5) OR push_bit 6 (s ! 6)),
      ucast (signed_drop_bit 2 (s ! 6)), ucast (signed_drop_bit 10 (s ! 6)),
      ucast (signed_drop_bit 18 (s ! 6) OR push_bit 3 (s ! 7)),
      ucast (signed_drop_bit 5 (s ! 7)), ucast (signed_drop_bit 13 (s ! 7)),
      ucast (signed_drop_bit 0 (s ! 8)), ucast (signed_drop_bit 8 (s ! 8)),
      ucast (signed_drop_bit 16 (s ! 8) OR push_bit 5 (s ! 9)),
      ucast (signed_drop_bit 3 (s ! 9)), ucast (signed_drop_bit 11 (s ! 9)),
      ucast (signed_drop_bit 19 (s ! 9) OR push_bit 2 (s ! 10)),
      ucast (signed_drop_bit 6 (s ! 10)),
      ucast (signed_drop_bit 14 (s ! 10) OR push_bit 7 (s ! 11)),
      ucast (signed_drop_bit 1 (s ! 11)), ucast (signed_drop_bit 9 (s ! 11)),
      ucast (signed_drop_bit 17 (s ! 11))]"

definition sc_reduce :: "u8 list \<Rightarrow> u8 list" where
  "sc_reduce s = pack_limbs (reduce_final (reduce_low (reduce_high (limbs_64 s))))"

definition limbs_32 :: "u8 list \<Rightarrow> i64 list" where
  "limbs_32 s =
     [2097151 AND load_3 s, 2097151 AND drop_bit 5 (load_4 (drop 2 s)),
      2097151 AND drop_bit 2 (load_3 (drop 5 s)), 2097151 AND drop_bit 7 (load_4 (drop 7 s)),
      2097151 AND drop_bit 4 (load_4 (drop 10 s)), 2097151 AND drop_bit 1 (load_3 (drop 13 s)),
      2097151 AND drop_bit 6 (load_4 (drop 15 s)), 2097151 AND drop_bit 3 (load_3 (drop 18 s)),
      2097151 AND load_3 (drop 21 s), 2097151 AND drop_bit 5 (load_4 (drop 23 s)),
      2097151 AND drop_bit 2 (load_3 (drop 26 s)), drop_bit 7 (load_4 (drop 28 s))]"

definition product_limb :: "i64 list \<Rightarrow> i64 list \<Rightarrow> i64 list \<Rightarrow> nat \<Rightarrow> i64" where
  "product_limb a b c k =
     (if k < 12 then c ! k else 0) + sum_list (map (\<lambda>i. a ! i * b ! (k - i)) [k - 11..<min 12 (k + 1)])"

definition product_limbs :: "i64 list \<Rightarrow> i64 list \<Rightarrow> i64 list \<Rightarrow> i64 list" where
  "product_limbs a b c = map (product_limb a b c) [0..<23] @ [0]"

definition product_carries :: "i64 list \<Rightarrow> i64 list" where
  "product_carries s =
     fold round_carry [0, 2, 4, 6, 8, 10, 12, 14, 16, 18, 20, 22, 1, 3, 5, 7, 9, 11, 13, 15, 17, 19, 21] s"

text \<open>\<open>sc_muladd\<close> has its own copy of the reduction statements.\<close>

definition muladd_high :: "i64 list \<Rightarrow> i64 list" where
  "muladd_high s =
     (let s = fold fold_limb [23, 22, 21, 20, 19, 18] s
      in fold round_carry [6, 8, 10, 12, 14, 16, 7, 9, 11, 13, 15] s)"

definition muladd_low :: "i64 list \<Rightarrow> i64 list" where
  "muladd_low s =
     (let s = fold fold_limb [17, 16, 15, 14, 13, 12] s;
          s = fold round_carry [0, 2, 4, 6, 8, 10, 1, 3, 5, 7, 9, 11] s
      in fold_limb 12 s)"

lemma muladd_reduction: "muladd_high = reduce_high" "muladd_low = reduce_low"
  by (simp_all add: muladd_high_def reduce_high_def muladd_low_def reduce_low_def fun_eq_iff)

definition sc_muladd :: "u8 list \<Rightarrow> u8 list \<Rightarrow> u8 list \<Rightarrow> u8 list" where
  "sc_muladd a b c =
     (let s = product_carries (product_limbs (limbs_32 a) (limbs_32 b) (limbs_32 c))
      in pack_limbs (reduce_final (muladd_low (muladd_high s))))"

section \<open>Intervals\<close>

definition L25519 :: int where "L25519 = 2 ^ 252 + 27742317777372353535851937790883648493"

type_synonym ivl = "int \<times> int"

definition within :: "ivl list \<Rightarrow> i64 list \<Rightarrow> bool" where
  "within I s \<longleftrightarrow> length s = length I \<and> (\<forall>k<length I. fst (I ! k) \<le> sint (s ! k) \<and> sint (s ! k) \<le> snd (I ! k))"

definition sc_val :: "i64 list \<Rightarrow> int" where
  "sc_val s = (\<Sum>k<length s. 2 ^ (21 * k) * sint (s ! k))"

definition safe :: "ivl \<Rightarrow> bool" where
  "safe i \<longleftrightarrow> - (2 ^ 62) \<le> fst i \<and> snd i \<le> 2 ^ 62"

definition iv_addmul :: "nat \<Rightarrow> int \<Rightarrow> nat \<Rightarrow> ivl list \<Rightarrow> ivl list option" where
  "iv_addmul j c k I =
     (let (a, b) = I ! k;
          (l, h) = I ! j;
          i = (if 0 \<le> c then (l + c * a, h + c * b) else (l + c * b, h + c * a))
      in if j < length I \<and> k < length I \<and> j \<noteq> k \<and> safe (a, b) \<and> safe i then Some (I[j := i]) else None)"

definition iv_fold :: "nat \<Rightarrow> ivl list \<Rightarrow> ivl list option" where
  "iv_fold k I =
     (if 12 \<le> k \<and> k < length I then
        map_option (\<lambda>I. I[k := (0, 0)])
          (Option.bind (Option.bind (Option.bind (Option.bind (Option.bind (iv_addmul (k - 12) 666643 k I)
             (iv_addmul (k - 11) 470296 k)) (iv_addmul (k - 10) 654183 k)) (iv_addmul (k - 9) (- 997805) k))
             (iv_addmul (k - 8) 136657 k)) (iv_addmul (k - 7) (- 683901) k))
      else None)"

definition iv_round :: "nat \<Rightarrow> ivl list \<Rightarrow> ivl list option" where
  "iv_round k I =
     (let (a, b) = I ! k;
          (l, h) = I ! (k + 1);
          i = (l + (a + 2 ^ 20) div 2 ^ 21, h + (b + 2 ^ 20) div 2 ^ 21)
      in if k + 1 < length I \<and> safe (a, b) \<and> safe i then Some (I[k + 1 := i, k := (- (2 ^ 20), 2 ^ 20 - 1)]) else None)"

definition iv_floor :: "nat \<Rightarrow> ivl list \<Rightarrow> ivl list option" where
  "iv_floor k I =
     (let (a, b) = I ! k;
          (l, h) = I ! (k + 1);
          i = (l + a div 2 ^ 21, h + b div 2 ^ 21)
      in if k + 1 < length I \<and> safe (a, b) \<and> safe i then Some (I[k + 1 := i, k := (0, 2 ^ 21 - 1)]) else None)"

fun iv_pass :: "(nat \<Rightarrow> ivl list \<Rightarrow> ivl list option) \<Rightarrow> nat list \<Rightarrow> ivl list \<Rightarrow> ivl list option" where
  "iv_pass iv [] I = Some I"
| "iv_pass iv (k # ks) I = Option.bind (iv k I) (iv_pass iv ks)"

text \<open>What a step on the limbs and its transfer function owe each other.\<close>

locale limb_pass =
  fixes step :: "nat \<Rightarrow> i64 list \<Rightarrow> i64 list"
    and iv :: "nat \<Rightarrow> ivl list \<Rightarrow> ivl list option"
    and m :: int
  assumes step_within: "iv k I = Some J \<Longrightarrow> within I s \<Longrightarrow> within J (step k s)"
    and step_value: "iv k I = Some J \<Longrightarrow> within I s \<Longrightarrow> sc_val (step k s) mod m = sc_val s mod m"
begin

lemma pass:
  assumes "iv_pass iv ks I = Some J" "within I s"
  shows "within J (fold step ks s)" "sc_val (fold step ks s) mod m = sc_val s mod m"
proof -
  have "within J (fold step ks s) \<and> sc_val (fold step ks s) mod m = sc_val s mod m"
    using assms
  proof (induction ks arbitrary: I s)
    case (Cons k ks)
    then obtain K where K: "iv k I = Some K" "iv_pass iv ks K = Some J" by (auto simp: bind_eq_Some_conv)
    then show ?case using Cons.IH [OF K(2) step_within [OF K(1) Cons.prems(2)]] step_value [OF K(1) Cons.prems(2)] by simp
  qed simp
  then show "within J (fold step ks s)" "sc_val (fold step ks s) mod m = sc_val s mod m" by blast+
qed

end

lemma within_length: "within I s \<Longrightarrow> length s = length I"
  by (simp add: within_def)

lemma within_nth: "within I s \<Longrightarrow> k < length I \<Longrightarrow> fst (I ! k) \<le> sint (s ! k) \<and> sint (s ! k) \<le> snd (I ! k)"
  by (simp add: within_def)

lemma within_update:
  assumes "within I s" "a \<le> sint w" "sint w \<le> b"
  shows "within (I[k := (a, b)]) (s[k := w])"
proof -
  have "fst (I[k := (a, b)] ! i) \<le> sint (s[k := w] ! i) \<and> sint (s[k := w] ! i) \<le> snd (I[k := (a, b)] ! i)"
    if "i < length I" for i
    using assms that by (cases "i = k") (auto simp: within_def)
  then show ?thesis using assms(1) by (simp add: within_def)
qed

lemma sc_val_update:
  assumes "k < length s"
  shows "sc_val (s[k := w]) = sc_val s + 2 ^ (21 * k) * (sint w - sint (s ! k))"
proof -
  have "sc_val (s[k := w]) - sc_val s = (\<Sum>i<length s. if i = k then 2 ^ (21 * i) * (sint w - sint (s ! i)) else 0)"
    unfolding sc_val_def length_list_update sum_subtractf [symmetric]
    by (rule sum.cong) (auto simp: nth_list_update right_diff_distrib)
  also have "\<dots> = 2 ^ (21 * k) * (sint w - sint (s ! k))" using assms by simp
  finally show ?thesis by simp
qed

lemma addmul_ok:
  assumes I: "iv_addmul j c k I = Some J" and s: "within I s"
  shows "within J (s[j := s ! j + of_int c * s ! k])"
    and "sc_val (s[j := s ! j + of_int c * s ! k]) = sc_val s + 2 ^ (21 * j) * (c * sint (s ! k))"
proof -
  obtain a b l h where ab: "I ! k = (a, b)" "I ! j = (l, h)" by fastforce
  define x where "x = (if 0 \<le> c then l + c * a else l + c * b)"
  define y where "y = (if 0 \<le> c then h + c * b else h + c * a)"
  have J: "J = I[j := (x, y)]" "j < length I" "k < length I" "- (2 ^ 62) \<le> x" "y \<le> 2 ^ 62"
    using I by (auto simp: iv_addmul_def ab x_def y_def safe_def Let_def split: if_splits)
  have sk: "a \<le> sint (s ! k)" "sint (s ! k) \<le> b" "l \<le> sint (s ! j)" "sint (s ! j) \<le> h"
    using within_nth [OF s] J ab by force+
  have xy: "x \<le> sint (s ! j) + c * sint (s ! k)" "sint (s ! j) + c * sint (s ! k) \<le> y"
    using sk by (cases "0 \<le> c"; auto simp: x_def y_def intro: add_mono mult_left_mono mult_left_mono_neg)+
  have "s ! j + of_int c * s ! k = word_of_int (sint (s ! j) + c * sint (s ! k))" by simp
  then have v: "sint (s ! j + of_int c * s ! k) = sint (s ! j) + c * sint (s ! k)"
    using sint64 [of "sint (s ! j) + c * sint (s ! k)"] xy J by simp
  show "within J (s[j := s ! j + of_int c * s ! k])"
    unfolding J using xy by (intro within_update s) (simp_all add: v)
  show "sc_val (s[j := s ! j + of_int c * s ! k]) = sc_val s + 2 ^ (21 * j) * (c * sint (s ! k))"
    using J(2) within_length [OF s] by (simp add: sc_val_update v)
qed

lemma addmul_keeps: "iv_addmul j c k I = Some J \<Longrightarrow> J ! k = I ! k \<and> length J = length I \<and> j \<noteq> k"
  by (auto simp: iv_addmul_def Let_def split: prod.splits if_splits)

lemma L25519_limbs:
  "2 ^ 252 - L25519 = 666643 + 470296 * 2 ^ 21 + 654183 * 2 ^ 42 - 997805 * 2 ^ 63 + 136657 * 2 ^ 84 - 683901 * 2 ^ 105"
  by (simp add: L25519_def)

lemma fold_limb_ok:
  assumes I: "iv_fold k I = Some J" and s: "within I s"
  shows "within J (fold_limb k s)"
    and "sc_val (fold_limb k s) = sc_val s - 2 ^ (21 * (k - 12)) * L25519 * sint (s ! k)"
proof -
  define am where "am j c s = s[k - j := s ! (k - j) + of_int c * s ! k]" for j c and s :: "i64 list"
  have eq: "fold_limb k s = (am 7 (- 683901) (am 8 136657 (am 9 (- 997805) (am 10 654183 (am 11 470296 (am 12 666643 s))))))[k := 0]"
    by (simp add: fold_limb_def am_def Let_def mult.commute)
  from I obtain I1 I2 I3 I4 I5 I6 where i: "iv_addmul (k - 12) 666643 k I = Some I1" "iv_addmul (k - 11) 470296 k I1 = Some I2"
    "iv_addmul (k - 10) 654183 k I2 = Some I3" "iv_addmul (k - 9) (- 997805) k I3 = Some I4"
    "iv_addmul (k - 8) 136657 k I4 = Some I5" "iv_addmul (k - 7) (- 683901) k I5 = Some I6"
    and J: "J = I6[k := (0, 0)]" and k: "12 \<le> k" "k < length I"
    by (auto simp: iv_fold_def bind_eq_Some_conv split: if_splits)
  note a1 = addmul_ok [OF i(1) s, folded am_def]
  note a2 = addmul_ok [OF i(2) a1(1), folded am_def]
  note a3 = addmul_ok [OF i(3) a2(1), folded am_def]
  note a4 = addmul_ok [OF i(4) a3(1), folded am_def]
  note a5 = addmul_ok [OF i(5) a4(1), folded am_def]
  note a6 = addmul_ok [OF i(6) a5(1), folded am_def]
  have am: "am j c t ! k = t ! k" if "0 < j" for j c t using that k by (simp add: am_def)
  have l: "length (am j c t) = length t" for j c t by (simp add: am_def)
  show "within J (fold_limb k s)"
    unfolding eq J using a6(1) by (intro within_update) (simp_all add: am_def)
  have n: "21 * (k - 11) = 21 * (k - 12) + 21" "21 * (k - 10) = 21 * (k - 12) + 42" "21 * (k - 9) = 21 * (k - 12) + 63"
    "21 * (k - 8) = 21 * (k - 12) + 84" "21 * (k - 7) = 21 * (k - 12) + 105" "21 * k = 21 * (k - 12) + 252"
    using k by simp_all
  have "sc_val (fold_limb k s) = sc_val s + 2 ^ (21 * (k - 12)) * (666643 * sint (s ! k)) +
      2 ^ (21 * (k - 11)) * (470296 * sint (s ! k)) + 2 ^ (21 * (k - 10)) * (654183 * sint (s ! k)) +
      2 ^ (21 * (k - 9)) * (- 997805 * sint (s ! k)) + 2 ^ (21 * (k - 8)) * (136657 * sint (s ! k)) +
      2 ^ (21 * (k - 7)) * (- 683901 * sint (s ! k)) - 2 ^ (21 * k) * sint (s ! k)"
    unfolding eq using k(2) within_length [OF s]
    by (simp add: sc_val_update l am am_def [symmetric] a1(2) a2(2) a3(2) a4(2) a5(2) a6(2))
  also have "\<dots> = sc_val s - 2 ^ (21 * (k - 12)) * (2 ^ 252 - (2 ^ 252 - L25519)) * sint (s ! k)"
    unfolding L25519_limbs n power_add by (simp add: algebra_simps)
  finally show "sc_val (fold_limb k s) = sc_val s - 2 ^ (21 * (k - 12)) * L25519 * sint (s ! k)" by simp
qed

lemma floor64:
  fixes h :: i64
  assumes "- (2 ^ 62) \<le> sint h" "sint h \<le> 2 ^ 62" "n < 62"
  shows "sint (signed_drop_bit n h) = sint h div 2 ^ n" "sint (h - push_bit n (signed_drop_bit n h)) = sint h mod 2 ^ n"
proof -
  show k: "sint (signed_drop_bit n h) = sint h div 2 ^ n"
    by (simp add: sint_signed_drop_bit_eq drop_bit_eq_div)
  define m where "m = sint h mod 2 ^ n"
  have "(2 :: int) ^ n \<le> 2 ^ 62" using assms(3) by (intro power_increasing) simp_all
  moreover have m: "0 \<le> m" "m < 2 ^ n" by (simp_all add: m_def)
  ultimately have "m < 2 ^ 62" by linarith
  then have "sint (word_of_int m :: i64) = m" using m(1) by (intro sint64) simp_all
  moreover have "h - push_bit n q = word_of_int (sint h - 2 ^ n * sint q)" for q
    by (simp add: push_bit_eq_mult mult.commute)
  then have "h - push_bit n (signed_drop_bit n h) = word_of_int m"
    by (simp only: k minus_mult_div_eq_mod m_def)
  ultimately show "sint (h - push_bit n (signed_drop_bit n h)) = sint h mod 2 ^ n"
    by (simp only: m_def)
qed

lemma carry_value:
  assumes "Suc k < length s" "sint (s ! k) = 2 ^ 21 * c + r" "sint (s ! Suc k + w) = sint (s ! Suc k) + c" "sint v = r"
  shows "sc_val (s[Suc k := s ! Suc k + w, k := v]) = sc_val s"
proof -
  have "2 ^ (21 * Suc k) = (2 :: int) ^ (21 * k) * 2 ^ 21" unfolding power_add [symmetric] by simp
  then show ?thesis using assms by (simp add: sc_val_update algebra_simps)
qed

lemma round_carry_ok:
  assumes I: "iv_round k I = Some J" and s: "within I s"
  shows "within J (round_carry k s)" "sc_val (round_carry k s) = sc_val s"
proof -
  obtain a b l h where ab: "I ! k = (a, b)" "I ! Suc k = (l, h)" by fastforce
  let ?x = "l + (a + 2 ^ 20) div 2 ^ 21" and ?y = "h + (b + 2 ^ 20) div 2 ^ 21"
  have J: "J = I[Suc k := (?x, ?y), k := (- (2 ^ 20), 2 ^ 20 - 1)]" "Suc k < length I"
      "- (2 ^ 62) \<le> a" "b \<le> 2 ^ 62" "- (2 ^ 62) \<le> ?x" "?y \<le> 2 ^ 62"
    using I by (auto simp: iv_round_def ab safe_def Let_def split: if_splits)
  have sk: "a \<le> sint (s ! k)" "sint (s ! k) \<le> b" "l \<le> sint (s ! Suc k)" "sint (s ! Suc k) \<le> h"
    using within_nth [OF s, of k] within_nth [OF s, of "Suc k"] J(2) ab by simp_all
  obtain c r where c: "signed_drop_bit 21 (s ! k + push_bit 20 1) = c" "s ! k - push_bit 21 c = r"
      "sint (s ! k) = 2 ^ 21 * sint c + sint r" "- (2 ^ 20) \<le> sint r" "sint r < 2 ^ 20"
    using carry64 [of "s ! k" 21] sk J by auto
  have "sint c = (sint (s ! k) + 2 ^ 20) div 2 ^ 21"
    using int_div_pos_eq [of "sint (s ! k) + 2 ^ 20" "2 ^ 21" "sint c" "sint r + 2 ^ 20"] c by simp
  then have cb: "(a + 2 ^ 20) div 2 ^ 21 \<le> sint c" "sint c \<le> (b + 2 ^ 20) div 2 ^ 21"
    using sk by (simp_all add: zdiv_mono1)
  have v: "sint (s ! Suc k + c) = sint (s ! Suc k) + sint c"
    using cb sk J by (intro sint_add64) simp_all
  have eq: "round_carry k s = s[Suc k := s ! Suc k + c, k := r]"
    using c(1,2) by (simp add: round_carry_def Let_def)
  show "within J (round_carry k s)"
    unfolding eq J(1) using cb sk c(4,5) by (intro within_update s) (simp_all add: v [simplified])
  show "sc_val (round_carry k s) = sc_val s"
    unfolding eq using within_length [OF s] J(2) c(3) v by (intro carry_value [where c = "sint c" and r = "sint r"]) simp_all
qed

lemma floor_carry_ok:
  assumes I: "iv_floor k I = Some J" and s: "within I s"
  shows "within J (floor_carry k s)" "sc_val (floor_carry k s) = sc_val s"
proof -
  obtain a b l h where ab: "I ! k = (a, b)" "I ! Suc k = (l, h)" by fastforce
  let ?x = "l + a div 2 ^ 21" and ?y = "h + b div 2 ^ 21"
  have J: "J = I[Suc k := (?x, ?y), k := (0, 2 ^ 21 - 1)]" "Suc k < length I"
      "- (2 ^ 62) \<le> a" "b \<le> 2 ^ 62" "- (2 ^ 62) \<le> ?x" "?y \<le> 2 ^ 62"
    using I by (auto simp: iv_floor_def ab safe_def Let_def split: if_splits)
  have sk: "a \<le> sint (s ! k)" "sint (s ! k) \<le> b" "l \<le> sint (s ! Suc k)" "sint (s ! Suc k) \<le> h"
    using within_nth [OF s, of k] within_nth [OF s, of "Suc k"] J(2) ab by simp_all
  define c where "c = signed_drop_bit 21 (s ! k)"
  define r where "r = s ! k - push_bit 21 c"
  have c: "sint c = sint (s ! k) div 2 ^ 21" "sint r = sint (s ! k) mod 2 ^ 21"
    using floor64 [of "s ! k" 21] sk J by (simp_all add: c_def r_def)
  have cb: "a div 2 ^ 21 \<le> sint c" "sint c \<le> b div 2 ^ 21" "0 \<le> sint r" "sint r \<le> 2 ^ 21 - 1"
    using sk by (simp_all add: c zdiv_mono1)
  have v: "sint (s ! Suc k + c) = sint (s ! Suc k) + sint c"
    using cb sk J by (intro sint_add64) simp_all
  have eq: "floor_carry k s = s[Suc k := s ! Suc k + c, k := r]"
    by (simp add: floor_carry_def Let_def c_def r_def)
  show "within J (floor_carry k s)"
    unfolding eq J(1) using cb sk by (intro within_update s) (simp_all add: v [simplified])
  show "sc_val (floor_carry k s) = sc_val s"
    unfolding eq using within_length [OF s] J(2) c v by (intro carry_value [where c = "sint c" and r = "sint r"]) simp_all
qed

interpretation folding: limb_pass fold_limb iv_fold L25519
proof
  fix k I J s
  assume I: "iv_fold k I = Some J" "within I s"
  show "within J (fold_limb k s)" using fold_limb_ok [OF I] by blast
  have "sc_val (fold_limb k s) = sc_val s - L25519 * (2 ^ (21 * (k - 12)) * sint (s ! k))"
    using fold_limb_ok [OF I] by (simp add: ac_simps)
  then show "sc_val (fold_limb k s) mod L25519 = sc_val s mod L25519" by (simp only: mod_minus_mult)
qed

interpretation rounding: limb_pass round_carry iv_round 0
  using round_carry_ok by unfold_locales auto

interpretation flooring: limb_pass floor_carry iv_floor 0
  using floor_carry_ok by unfold_locales auto

section \<open>The intervals of the two programs\<close>

definition iv_high :: "ivl list \<Rightarrow> ivl list option" where
  "iv_high I = Option.bind (iv_pass iv_fold [23, 22, 21, 20, 19, 18] I)
     (iv_pass iv_round [6, 8, 10, 12, 14, 16, 7, 9, 11, 13, 15])"

definition iv_low :: "ivl list \<Rightarrow> ivl list option" where
  "iv_low I = Option.bind (Option.bind (iv_pass iv_fold [17, 16, 15, 14, 13, 12] I)
     (iv_pass iv_round [0, 2, 4, 6, 8, 10, 1, 3, 5, 7, 9, 11])) (iv_fold 12)"

definition iv_digits :: "ivl list \<Rightarrow> ivl list option" where
  "iv_digits I = iv_pass iv_floor [0, 1, 2, 3, 4, 5, 6, 7, 8, 9, 10, 11] I"

definition input_intervals :: "ivl list" where
  "input_intervals = replicate 23 (0, 2 ^ 21 - 1) @ [(0, 2 ^ 29 - 1)]"

definition product_intervals :: "ivl list" where
  "product_intervals = replicate 23 (0, 2 ^ 54) @ [(0, 0)]"

definition digit_intervals :: "ivl list" where
  "digit_intervals = replicate 12 (0, 2 ^ 21 - 1) @ [(- 1, 0)] @ replicate 11 (0, 0)"

lemma reduce_intervals: "Option.bind (Option.bind (iv_high input_intervals) iv_low) iv_digits = Some digit_intervals"
  by code_simp

lemma muladd_intervals:
  "Option.bind (Option.bind (Option.bind
     (iv_pass iv_round [0, 2, 4, 6, 8, 10, 12, 14, 16, 18, 20, 22, 1, 3, 5, 7, 9, 11, 13, 15, 17, 19, 21] product_intervals)
     iv_high) iv_low) iv_digits = Some digit_intervals"
  by code_simp

end
