(* ===== verification/Scalar25519_Reduce.thy ===== *)
theory Scalar25519_Reduce
  imports Scalar25519
begin

text \<open>
  Correctness of the scalar routines. The limbs loaded from the bytes are the digits of their value in
  base \<open>2^21\<close>; the phases keep the value modulo the group order; the last two folds leave the
  least residue, by a case distinction on the one remaining bit above \<open>2^252\<close>; the digits are
  packed into bytes. The 23 product limbs of \<open>sc_muladd\<close> are the convolution of its factors.
\<close>

section \<open>Reduction\<close>

text \<open>The limbs before the last phase: the program up to there keeps the value modulo \<open>L\<close>.\<close>

lemma high_ok:
  assumes "iv_high I = Some J" "within I s"
  shows "within J (reduce_high s)" "sc_val (reduce_high s) mod L25519 = sc_val s mod L25519"
proof -
  obtain K where K: "iv_pass iv_fold [23, 22, 21, 20, 19, 18] I = Some K"
      "iv_pass iv_round [6, 8, 10, 12, 14, 16, 7, 9, 11, 13, 15] K = Some J"
    using assms(1) by (auto simp: iv_high_def bind_eq_Some_conv simp del: iv_pass.simps)
  note a = folding.pass [OF K(1) assms(2)]
  note b = rounding.pass [OF K(2) a(1), simplified]
  show "within J (reduce_high s)" using b(1) by (simp add: reduce_high_def)
  show "sc_val (reduce_high s) mod L25519 = sc_val s mod L25519"
    unfolding reduce_high_def Let_def using a(2) b(2) by simp
qed

lemma low_ok:
  assumes "iv_low I = Some J" "within I s"
  shows "within J (reduce_low s)" "sc_val (reduce_low s) mod L25519 = sc_val s mod L25519"
proof -
  obtain K M where K: "iv_pass iv_fold [17, 16, 15, 14, 13, 12] I = Some K"
      "iv_pass iv_round [0, 2, 4, 6, 8, 10, 1, 3, 5, 7, 9, 11] K = Some M" "iv_fold 12 M = Some J"
    using assms(1) by (auto simp: iv_low_def bind_eq_Some_conv simp del: iv_pass.simps)
  note a = folding.pass [OF K(1) assms(2)]
  note b = rounding.pass [OF K(2) a(1), simplified]
  note c = folding.step_within [OF K(3) b(1)] folding.step_value [OF K(3) b(1)]
  show "within J (reduce_low s)" using c(1) by (simp add: reduce_low_def)
  show "sc_val (reduce_low s) mod L25519 = sc_val s mod L25519"
    unfolding reduce_low_def Let_def using a(2) b(2) c(2) by simp
qed

definition low_digits :: "nat \<Rightarrow> i64 list \<Rightarrow> int" where
  "low_digits n s = (\<Sum>k<n. 2 ^ (21 * k) * sint (s ! k))"

lemma low_digits_bounds:
  assumes "\<And>k. k < n \<Longrightarrow> 0 \<le> sint (s ! k) \<and> sint (s ! k) < 2 ^ 21"
  shows "0 \<le> low_digits n s \<and> low_digits n s < 2 ^ (21 * n)"
  using assms
proof (induction n)
  case (Suc n)
  then have IH: "0 \<le> low_digits n s" "low_digits n s < 2 ^ (21 * n)" and n: "0 \<le> sint (s ! n)" "sint (s ! n) \<le> 2 ^ 21 - 1"
    by force+
  have p: "2 ^ (21 * Suc n) = (2 :: int) ^ (21 * n) * 2 ^ 21" unfolding power_add [symmetric] by simp
  have "2 ^ (21 * n) * sint (s ! n) \<le> 2 ^ (21 * n) * (2 ^ 21 - 1)" using n by (intro mult_left_mono) simp_all
  moreover have "(2 :: int) ^ (21 * n) * (2 ^ 21 - 1) = 2 ^ (21 * n) * 2 ^ 21 - 2 ^ (21 * n)" by (simp add: right_diff_distrib)
  moreover have "0 \<le> 2 ^ (21 * n) * sint (s ! n)" using n by simp
  moreover have "low_digits (Suc n) s = low_digits n s + 2 ^ (21 * n) * sint (s ! n)" by (simp add: low_digits_def)
  ultimately show ?case using IH unfolding p by linarith
qed (simp add: low_digits_def)

lemma sc_val_low:
  assumes "length s = 24" "n < 24" "\<And>k. n < k \<Longrightarrow> k < 24 \<Longrightarrow> sint (s ! k) = 0"
  shows "sc_val s = low_digits n s + 2 ^ (21 * n) * sint (s ! n)"
proof -
  have "{..<24} = {..<n} \<union> {n} \<union> {n<..<24 :: nat}" using assms(2) by auto
  then have "sc_val s = (\<Sum>k\<in>{..<n} \<union> {n} \<union> {n<..<24}. 2 ^ (21 * k) * sint (s ! k))"
    by (simp only: sc_val_def assms(1))
  also have "\<dots> = low_digits n s + 2 ^ (21 * n) * sint (s ! n) + (\<Sum>k\<in>{n<..<24}. 2 ^ (21 * k) * sint (s ! k))"
    by (subst sum.union_disjoint; (subst sum.union_disjoint)?; auto simp: low_digits_def)
  also have "(\<Sum>k\<in>{n<..<24}. 2 ^ (21 * k) * sint (s ! k)) = 0"
    using assms(3) by (intro sum.neutral) simp
  finally show ?thesis by simp
qed

lemma final_intervals:
  "Option.bind (iv_fold 12 digit_intervals) (iv_pass iv_floor [0, 1, 2, 3, 4, 5, 6, 7, 8, 9, 10]) =
   Some (replicate 11 (0, 2 ^ 21 - 1) @ [(- 1, 2 ^ 21)] @ replicate 12 (0, 0))"
  by code_simp

lemma final_ok:
  assumes "iv_digits I = Some digit_intervals" "within I s"
  defines "t \<equiv> reduce_final s"
  shows "length t = 24" "sc_val t = sc_val s mod L25519" "\<And>k. k < 11 \<Longrightarrow> 0 \<le> sint (t ! k) \<and> sint (t ! k) < 2 ^ 21"
    and "0 \<le> sint (t ! 11)" "sint (t ! 11) \<le> 2 ^ 21" "sc_val t = low_digits 11 t + 2 ^ 231 * sint (t ! 11)"
proof -
  let ?fl = "[0, 1, 2, 3, 4, 5, 6, 7, 8, 9, 10]"
  define d where "d = fold floor_carry (?fl @ [11]) s"
  have d: "within digit_intervals d" "sc_val d = sc_val s"
    using flooring.pass [OF assms(1) [unfolded iv_digits_def] assms(2)] by (simp_all add: d_def)
  obtain K where K: "iv_fold 12 digit_intervals = Some K"
      "iv_pass iv_floor ?fl K = Some (replicate 11 (0, 2 ^ 21 - 1) @ [(- 1, 2 ^ 21)] @ replicate 12 (0, 0))"
    using final_intervals by (auto simp: bind_eq_Some_conv simp del: iv_pass.simps)
  note f = fold_limb_ok [OF K(1) d(1)]
  note g = flooring.pass [OF K(2) f(1), simplified]
  have t: "t = fold floor_carry ?fl (fold_limb 12 d)" by (simp add: t_def reduce_final_def d_def)
  let ?J = "replicate 11 (0, 2 ^ 21 - 1) @ [(- 1, 2 ^ 21)] @ replicate 12 (0, 0 :: int)"
  have tw: "within ?J t" using g(1) by (simp add: t)
  have dl: "length d = 24" using within_length [OF d(1)] by (simp add: digit_intervals_def)
  have d12: "0 \<le> sint (d ! k) \<and> sint (d ! k) < 2 ^ 21" if "k < 12" for k
    using within_nth [OF d(1), of k] that by (simp add: digit_intervals_def nth_append)
  have dt: "- 1 \<le> sint (d ! 12)" "sint (d ! 12) \<le> 0"
    using within_nth [OF d(1), of 12] by (simp_all add: digit_intervals_def nth_append)
  have dz: "sint (d ! k) = 0" if "12 < k" "k < 24" for k
    using within_nth [OF d(1), of k] that by (simp add: digit_intervals_def nth_append nth_Cons')
  show len: "length t = 24" using within_length [OF tw] by simp
  show t11: "0 \<le> sint (t ! k) \<and> sint (t ! k) < 2 ^ 21" if "k < 11" for k
    using within_nth [OF tw, of k] that by (simp add: nth_append)
  have s11: "- 1 \<le> sint (t ! 11)" "sint (t ! 11) \<le> 2 ^ 21"
    using within_nth [OF tw, of 11] by (simp_all add: nth_append)
  have z: "sint (t ! k) = 0" if "11 < k" "k < 24" for k
    using within_nth [OF tw, of k] that by (simp add: nth_append)
  have low: "0 \<le> low_digits 12 d" "low_digits 12 d < 2 ^ 252"
    using low_digits_bounds [of 12 d] d12 by simp_all
  have dv: "sc_val d = low_digits 12 d + 2 ^ 252 * sint (d ! 12)"
    using sc_val_low [of d 12] dl dz by simp
  have tv: "sc_val t = sc_val s - L25519 * sint (d ! 12)"
    using f(2) g(2) d(2) by (simp add: t)
  have cases: "sint (d ! 12) = - 1 \<or> sint (d ! 12) = 0" using dt by linarith
  then have r: "0 \<le> sc_val t" "sc_val t < L25519"
    using tv dv d(2) low by (auto simp: L25519_def)
  show "sc_val t = sc_val s mod L25519"
    using mod_intro [of "sc_val s" L25519 "sint (d ! 12)"] r tv by simp
  show v: "sc_val t = low_digits 11 t + 2 ^ 231 * sint (t ! 11)"
    using sc_val_low [of t 11] len z by simp
  have "low_digits 11 t < 2 ^ 231" using low_digits_bounds [of 11 t] t11 by simp
  then show "0 \<le> sint (t ! 11)" using r(1) v by simp
  show "sint (t ! 11) \<le> 2 ^ 21" by (rule s11)
qed

section \<open>Bytes of the result\<close>

lemma split_byte:
  fixes x :: int
  obtains y0 y1 y2 where "x mod 2 ^ a = y0" "x div 2 ^ a mod 256 = y1" "x div 2 ^ (a + 8) = y2"
    "x = y0 + 2 ^ a * y1 + 2 ^ (a + 8) * y2"
proof -
  have "x div 2 ^ (a + 8) = x div 2 ^ a div 2 ^ 8"
    unfolding power_add by (rule zdiv_zmult2_eq) simp
  then have "x div 2 ^ a = x div 2 ^ a mod 256 + 2 ^ 8 * (x div 2 ^ (a + 8))" by simp
  then have "x = x mod 2 ^ a + 2 ^ a * (x div 2 ^ a mod 256 + 2 ^ 8 * (x div 2 ^ (a + 8)))"
    using mult_div_mod_eq [of "2 ^ a" x] by simp
  also have "\<dots> = x mod 2 ^ a + 2 ^ a * (x div 2 ^ a mod 256) + 2 ^ (a + 8) * (x div 2 ^ (a + 8))"
    by (simp only: power_add distrib_left mult.assoc add.assoc)
  finally show thesis by (rule that [OF refl refl refl])
qed

lemma pack_limbs_val:
  assumes b: "\<And>k. k < 11 \<Longrightarrow> 0 \<le> sint (s ! k) \<and> sint (s ! k) < 2 ^ 21"
    and b11: "0 \<le> sint (s ! 11)" "sint (s ! 11) \<le> 2 ^ 21"
  shows "le_val (pack_limbs s) = low_digits 11 s + 2 ^ 231 * sint (s ! 11)"
proof -
  have b0: "0 \<le> sint (s ! 0)" "sint (s ! 0) < 2 ^ 21" using b [of 0] by simp_all
  have b1: "0 \<le> sint (s ! Suc 0)" "sint (s ! Suc 0) < 2 ^ 21" using b [of 1] by simp_all
  have b2: "0 \<le> sint (s ! 2)" "sint (s ! 2) < 2 ^ 21" using b [of 2] by simp_all
  have b3: "0 \<le> sint (s ! 3)" "sint (s ! 3) < 2 ^ 21" using b [of 3] by simp_all
  have b4: "0 \<le> sint (s ! 4)" "sint (s ! 4) < 2 ^ 21" using b [of 4] by simp_all
  have b5: "0 \<le> sint (s ! 5)" "sint (s ! 5) < 2 ^ 21" using b [of 5] by simp_all
  have b6: "0 \<le> sint (s ! 6)" "sint (s ! 6) < 2 ^ 21" using b [of 6] by simp_all
  have b7: "0 \<le> sint (s ! 7)" "sint (s ! 7) < 2 ^ 21" using b [of 7] by simp_all
  have b8: "0 \<le> sint (s ! 8)" "sint (s ! 8) < 2 ^ 21" using b [of 8] by simp_all
  have b9: "0 \<le> sint (s ! 9)" "sint (s ! 9) < 2 ^ 21" using b [of 9] by simp_all
  have b10: "0 \<le> sint (s ! 10)" "sint (s ! 10) < 2 ^ 21" using b [of 10] by simp_all
  obtain y00 y01 y02 where y0: "sint (s ! 0) mod 2 ^ 8 = y00" "sint (s ! 0) div 2 ^ 8 mod 256 = y01"
      "sint (s ! 0) div 2 ^ (8 + 8) = y02" "sint (s ! 0) = y00 + 2 ^ 8 * y01 + 2 ^ (8 + 8) * y02"
    by (rule split_byte)
  obtain y10 y11 y12 y13 where y1: "sint (s ! Suc 0) mod 2 ^ 3 = y10" "sint (s ! Suc 0) div 2 ^ 3 mod 256 = y11"
      "sint (s ! Suc 0) div 2 ^ (3 + 8) mod 256 = y12" "sint (s ! Suc 0) div 2 ^ (3 + 16) = y13"
      "sint (s ! Suc 0) = y10 + 2 ^ 3 * y11 + 2 ^ (3 + 8) * y12 + 2 ^ (3 + 16) * y13"
    by (rule split_bytesE)
  obtain y20 y21 y22 where y2: "sint (s ! 2) mod 2 ^ 6 = y20" "sint (s ! 2) div 2 ^ 6 mod 256 = y21"
      "sint (s ! 2) div 2 ^ (6 + 8) = y22" "sint (s ! 2) = y20 + 2 ^ 6 * y21 + 2 ^ (6 + 8) * y22"
    by (rule split_byte)
  obtain y30 y31 y32 y33 where y3: "sint (s ! 3) mod 2 ^ 1 = y30" "sint (s ! 3) div 2 ^ 1 mod 256 = y31"
      "sint (s ! 3) div 2 ^ (1 + 8) mod 256 = y32" "sint (s ! 3) div 2 ^ (1 + 16) = y33"
      "sint (s ! 3) = y30 + 2 ^ 1 * y31 + 2 ^ (1 + 8) * y32 + 2 ^ (1 + 16) * y33"
    by (rule split_bytesE)
  obtain y40 y41 y42 y43 where y4: "sint (s ! 4) mod 2 ^ 4 = y40" "sint (s ! 4) div 2 ^ 4 mod 256 = y41"
      "sint (s ! 4) div 2 ^ (4 + 8) mod 256 = y42" "sint (s ! 4) div 2 ^ (4 + 16) = y43"
      "sint (s ! 4) = y40 + 2 ^ 4 * y41 + 2 ^ (4 + 8) * y42 + 2 ^ (4 + 16) * y43"
    by (rule split_bytesE)
  obtain y50 y51 y52 where y5: "sint (s ! 5) mod 2 ^ 7 = y50" "sint (s ! 5) div 2 ^ 7 mod 256 = y51"
      "sint (s ! 5) div 2 ^ (7 + 8) = y52" "sint (s ! 5) = y50 + 2 ^ 7 * y51 + 2 ^ (7 + 8) * y52"
    by (rule split_byte)
  obtain y60 y61 y62 y63 where y6: "sint (s ! 6) mod 2 ^ 2 = y60" "sint (s ! 6) div 2 ^ 2 mod 256 = y61"
      "sint (s ! 6) div 2 ^ (2 + 8) mod 256 = y62" "sint (s ! 6) div 2 ^ (2 + 16) = y63"
      "sint (s ! 6) = y60 + 2 ^ 2 * y61 + 2 ^ (2 + 8) * y62 + 2 ^ (2 + 16) * y63"
    by (rule split_bytesE)
  obtain y70 y71 y72 where y7: "sint (s ! 7) mod 2 ^ 5 = y70" "sint (s ! 7) div 2 ^ 5 mod 256 = y71"
      "sint (s ! 7) div 2 ^ (5 + 8) = y72" "sint (s ! 7) = y70 + 2 ^ 5 * y71 + 2 ^ (5 + 8) * y72"
    by (rule split_byte)
  obtain y80 y81 y82 where y8: "sint (s ! 8) mod 2 ^ 8 = y80" "sint (s ! 8) div 2 ^ 8 mod 256 = y81"
      "sint (s ! 8) div 2 ^ (8 + 8) = y82" "sint (s ! 8) = y80 + 2 ^ 8 * y81 + 2 ^ (8 + 8) * y82"
    by (rule split_byte)
  obtain y90 y91 y92 y93 where y9: "sint (s ! 9) mod 2 ^ 3 = y90" "sint (s ! 9) div 2 ^ 3 mod 256 = y91"
      "sint (s ! 9) div 2 ^ (3 + 8) mod 256 = y92" "sint (s ! 9) div 2 ^ (3 + 16) = y93"
      "sint (s ! 9) = y90 + 2 ^ 3 * y91 + 2 ^ (3 + 8) * y92 + 2 ^ (3 + 16) * y93"
    by (rule split_bytesE)
  obtain y100 y101 y102 where y10: "sint (s ! 10) mod 2 ^ 6 = y100" "sint (s ! 10) div 2 ^ 6 mod 256 = y101"
      "sint (s ! 10) div 2 ^ (6 + 8) = y102" "sint (s ! 10) = y100 + 2 ^ 6 * y101 + 2 ^ (6 + 8) * y102"
    by (rule split_byte)
  obtain y110 y111 y112 y113 where y11: "sint (s ! 11) mod 2 ^ 1 = y110" "sint (s ! 11) div 2 ^ 1 mod 256 = y111"
      "sint (s ! 11) div 2 ^ (1 + 8) mod 256 = y112" "sint (s ! 11) div 2 ^ (1 + 16) = y113"
      "sint (s ! 11) = y110 + 2 ^ 1 * y111 + 2 ^ (1 + 8) * y112 + 2 ^ (1 + 16) * y113"
    by (rule split_bytesE)
  note j = byte_join [OF _ b0(1) _ b1(1), of 16 5]
    byte_join [OF _ b1(1) _ b2(1), of 19 2]
    byte_join [OF _ b2(1) _ b3(1), of 14 7]
    byte_join [OF _ b3(1) _ b4(1), of 17 4]
    byte_join [OF _ b4(1) _ b5(1), of 20 1, simplified]
    byte_join [OF _ b5(1) _ b6(1), of 15 6]
    byte_join [OF _ b6(1) _ b7(1), of 18 3]
    byte_join [OF _ b8(1) _ b9(1), of 16 5]
    byte_join [OF _ b9(1) _ b10(1), of 19 2]
    byte_join [OF _ b10(1) _ b11(1), of 14 7]
  have t: "y72 mod 256 = y72" "y113 mod 256 = y113"
    using b7 b11 int_div_less [of "2 ^ 13" "sint (s ! 7)" 256] int_div_less [of "2 ^ 17" "sint (s ! 11)" 256]
    by (simp_all flip: y7(3) y11(4) add: pos_imp_zdiv_nonneg_iff)
  have lo: "uint (ucast (s ! 0) :: u8) = sint (s ! 0) mod 256" "uint (ucast (s ! 8) :: u8) = sint (s ! 8) mod 256"
    using b0 b8 by (simp_all only: uint_low_byte uint_of_sint)
  have l: "low_digits 11 s = sint (s ! 0) + 2 ^ 21 * sint (s ! Suc 0) + 2 ^ 42 * sint (s ! 2) + 2 ^ 63 * sint (s ! 3) + 2 ^ 84 * sint (s ! 4) + 2 ^ 105 * sint (s ! 5) + 2 ^ 126 * sint (s ! 6) + 2 ^ 147 * sint (s ! 7) + 2 ^ 168 * sint (s ! 8) + 2 ^ 189 * sint (s ! 9) + 2 ^ 210 * sint (s ! 10)"
    by (simp add: low_digits_def lessThan_nat_numeral eval_nat_numeral)
  show ?thesis
    using b0 b1 b2 b3 b4 b5 b6 b7 b8 b9 b10 b11
    by (simp add: pack_limbs_def j byte_mid lo l y0(1-3) [simplified] y1(1-4) [simplified] y2(1-3) [simplified] y3(1-4) [simplified] y4(1-4) [simplified] y5(1-3) [simplified] y6(1-4) [simplified] y7(1-3) [simplified] y8(1-3) [simplified] y9(1-4) [simplified] y10(1-3) [simplified] y11(1-4) [simplified])
      (simp add: t y0(4) y1(5) y2(4) y3(5) y4(5) y5(4) y6(5) y7(4) y8(4) y9(5) y10(4) y11(5) algebra_simps)
qed

section \<open>Limbs of the input\<close>

lemma le_val_drop: "k \<le> length s \<Longrightarrow> le_val (drop k s) = le_val s div 256 ^ k"
proof -
  assume k: "k \<le> length s"
  have "le_val s = le_val (take k s) + 256 ^ k * le_val (drop k s)"
    using le_val_append [of "take k s" "drop k s"] k by simp
  moreover have "0 \<le> le_val (take k s)" "le_val (take k s) < 256 ^ k"
    using le_val_bounds [of "take k s"] k by simp_all
  ultimately show ?thesis by (simp add: int_div_pos_eq)
qed

lemma load_slice:
  assumes "k + n \<le> length s" "n = 3 \<and> w = load_3 (drop k s) \<or> n = 4 \<and> w = load_4 (drop k s)"
  shows "uint w = take_bit (8 * n) (drop_bit (8 * k) (le_val s))"
proof -
  have d: "le_val (drop k s) = drop_bit (8 * k) (le_val s)"
    using assms(1) by (simp add: le_val_drop drop_bit_eq_div power_mult)
  have "n \<le> length (drop k s)" using assms(1) by simp
  with assms(2) obtain a b c r where abc: "drop k s = a # b # c # r" "n = 4 \<longrightarrow> r \<noteq> []"
    by (cases "drop k s"; cases "tl (drop k s)"; cases "tl (tl (drop k s))"; auto simp: Suc_le_eq)
  note u = uint8 [of a] uint8 [of b] uint8 [of c]
  show ?thesis
  proof (cases "n = 3")
    case True
    then have "uint w = le_val (drop k s) - 2 ^ 24 * le_val r"
      using assms(2) abc(1) by (simp add: load_3_val)
    moreover have "0 \<le> le_val (drop k s) - 2 ^ 24 * le_val r" "le_val (drop k s) - 2 ^ 24 * le_val r < 2 ^ 24"
      using u by (simp_all add: abc(1))
    ultimately show ?thesis using mod_intro [of "le_val (drop k s)" "2 ^ 24" "le_val r"] True
      by (simp add: take_bit_eq_mod d)
  next
    case False
    then obtain e q where r: "r = e # q" using abc(2) assms(2) by (cases r) auto
    have "uint w = le_val (drop k s) - 2 ^ 32 * le_val q"
      using False assms(2) abc(1) r by (simp add: load_4_val)
    moreover have "0 \<le> le_val (drop k s) - 2 ^ 32 * le_val q" "le_val (drop k s) - 2 ^ 32 * le_val q < 2 ^ 32"
      using u uint8 [of e] by (simp_all add: abc(1) r)
    ultimately show ?thesis using mod_intro [of "le_val (drop k s)" "2 ^ 32" "le_val q"] False assms(2)
      by (simp add: take_bit_eq_mod d)
  qed
qed

lemma sint_masked: "sint (2097151 AND w :: i64) = take_bit 21 (uint w)"
proof -
  have "2097151 AND w = take_bit 21 w" by (simp add: take_bit_eq_mask mask_eq_exp_minus_1 and.commute)
  then have "uint (2097151 AND w) = take_bit 21 (uint w)" by (simp only: unsigned_take_bit_eq)
  moreover have "take_bit 21 (uint w) < 2 ^ 21" by (rule take_bit_int_less_exp)
  ultimately show ?thesis using sint_of_uint [of "2097151 AND w"] by simp
qed

lemma take_drop_slice: "m + r \<le> n \<Longrightarrow> take_bit m (drop_bit r (take_bit n x)) = take_bit m (drop_bit r (x :: int))"
  by (rule bit_eqI) (auto simp: bit_simps)

lemma limb_slice:
  assumes "k + n \<le> length s" "n = 3 \<and> w = load_3 (drop k s) \<or> n = 4 \<and> w = load_4 (drop k s)" "21 + r \<le> 8 * n"
  shows "sint (2097151 AND drop_bit r w :: i64) = take_bit 21 (drop_bit (r + 8 * k) (le_val s))"
proof -
  have "8 * n \<le> 64" using assms(2) by auto
  then show ?thesis using assms(3)
    by (simp add: sint_masked unsigned_drop_bit_eq load_slice [OF assms(1,2)] take_drop_slice drop_bit_drop_bit)
qed

lemma digits_sum:
  fixes x :: int
  shows "(\<Sum>k<n. 2 ^ (21 * k) * take_bit 21 (drop_bit (21 * k) x)) + 2 ^ (21 * n) * drop_bit (21 * n) x = x"
proof (induction n)
  case (Suc n)
  have "drop_bit (21 * Suc n) x = drop_bit 21 (drop_bit (21 * n) x)"
    by (simp add: drop_bit_drop_bit add.commute)
  moreover have "y = take_bit 21 y + 2 ^ 21 * drop_bit 21 y" for y :: int
    by (simp add: take_bit_eq_mod drop_bit_eq_div)
  ultimately have e: "drop_bit (21 * n) x = take_bit 21 (drop_bit (21 * n) x) + 2 ^ 21 * drop_bit (21 * Suc n) x"
    by (simp only:)
  have p: "(2 :: int) ^ (21 * Suc n) = 2 ^ (21 * n) * 2 ^ 21" unfolding power_add [symmetric] by simp
  have "2 ^ (21 * n) * drop_bit (21 * n) x =
      2 ^ (21 * n) * take_bit 21 (drop_bit (21 * n) x) + 2 ^ (21 * Suc n) * drop_bit (21 * Suc n) x"
    unfolding p using arg_cong [OF e, of "\<lambda>y. 2 ^ (21 * n) * y"] by (simp only: distrib_left mult.assoc)
  with Suc show ?case by simp
qed simp

text \<open>The limbs are the digits of the integer in base \<open>2^21\<close>.\<close>

lemma top_slice:
  assumes "length s = k + 4"
  shows "sint (drop_bit r (load_4 (drop k s)) :: i64) = drop_bit (r + 8 * k) (le_val s)"
proof -
  have "le_val s < 2 ^ (8 * k + 32)" using le_val_bounds [of s] assms by (simp add: power_add power_mult)
  then have "drop_bit (8 * k) (le_val s) < 2 ^ 32"
    using int_div_less [of "2 ^ (8 * k)" "le_val s" "2 ^ 32"] by (simp add: drop_bit_eq_div power_add)
  moreover have "0 \<le> drop_bit (8 * k) (le_val s)" using le_val_bounds [of s] by simp
  ultimately have w: "uint (load_4 (drop k s)) = drop_bit (8 * k) (le_val s)" "uint (load_4 (drop k s)) < 2 ^ 32"
    using load_slice [of k 4 s "load_4 (drop k s)"] assms by (simp_all add: take_bit_int_eq_self)
  moreover have "take_bit 64 (uint (load_4 (drop k s))) = uint (load_4 (drop k s))"
    using w(2) by (intro take_bit_int_eq_self) simp_all
  ultimately have u: "uint (drop_bit r (load_4 (drop k s))) = drop_bit (r + 8 * k) (le_val s)"
    by (simp add: unsigned_drop_bit_eq drop_bit_drop_bit)
  have "drop_bit r (uint (load_4 (drop k s))) \<le> uint (load_4 (drop k s))"
    using zdiv_mono2 [of "uint (load_4 (drop k s))" 1 "2 ^ r"] by (simp add: drop_bit_eq_div)
  then have "uint (drop_bit r (load_4 (drop k s))) < 2 ^ 62"
    using w u by (simp add: drop_bit_drop_bit)
  then show ?thesis using sint_of_uint u by simp
qed

definition digits :: "nat \<Rightarrow> int \<Rightarrow> int list" where
  "digits n x = map (\<lambda>k. take_bit 21 (drop_bit (21 * k) x)) [0..<n] @ [drop_bit (21 * n) x]"

lemma limbs_64_digits: "length s = 64 \<Longrightarrow> map sint (limbs_64 s) = digits 23 (le_val s)"
  using limb_slice [of _ 3 s] limb_slice [of _ 4 s] limb_slice [of _ 3 s _ 0] limb_slice [of 0 3 s _ 0] top_slice [of s 60]
  by (simp add: limbs_64_def digits_def upt_rec)

lemma limbs_32_digits: "length s = 32 \<Longrightarrow> map sint (limbs_32 s) = digits 11 (le_val s)"
  using limb_slice [of _ 3 s] limb_slice [of _ 4 s] limb_slice [of _ 3 s _ 0] limb_slice [of 0 3 s _ 0] top_slice [of s 28]
  by (simp add: limbs_32_def digits_def upt_rec)

lemma sc_val_map: "map sint s = xs \<Longrightarrow> sc_val s = (\<Sum>k<length xs. 2 ^ (21 * k) * xs ! k)"
  by (auto simp: sc_val_def)

lemma digits_val: "(\<Sum>k<length (digits n x). 2 ^ (21 * k) * digits n x ! k) = x"
  using digits_sum [where n = n and x = x] by (simp add: digits_def nth_append)

lemma digits_bound:
  assumes "0 \<le> x" "x < 2 ^ (21 * n + m)" "k \<le> n"
  shows "0 \<le> digits n x ! k \<and> digits n x ! k < (if k < n then 2 ^ 21 else 2 ^ m)"
proof (cases "k < n")
  case True
  then show ?thesis using take_bit_int_less_exp [of 21 "drop_bit (21 * k) x"] by (simp add: digits_def nth_append)
next
  case False
  then show ?thesis
    using assms int_div_less [of "2 ^ (21 * n)" x "2 ^ m"]
    by (simp add: digits_def nth_append drop_bit_eq_div power_add pos_imp_zdiv_nonneg_iff mult.commute)
qed

lemma within_input:
  assumes "length s = 64"
  shows "within input_intervals (limbs_64 s)" "sc_val (limbs_64 s) = le_val s"
proof -
  note d = limbs_64_digits [OF assms]
  show "sc_val (limbs_64 s) = le_val s" using sc_val_map [OF d] by (simp only: digits_val)
  have l: "length (limbs_64 s) = 24" by (simp add: limbs_64_def)
  have a: "sint (limbs_64 s ! k) = digits 23 (le_val s) ! k" if "k < 24" for k
    using arg_cong [OF d, of "\<lambda>xs. xs ! k"] that l by simp
  have b: "0 \<le> digits 23 (le_val s) ! k \<and> digits 23 (le_val s) ! k < (if k < 23 then 2 ^ 21 else 2 ^ 29)" if "k < 24" for k
    using le_val_bounds [of s] that by (intro digits_bound) (simp_all add: assms)
  have "fst (input_intervals ! k) \<le> sint (limbs_64 s ! k) \<and> sint (limbs_64 s ! k) \<le> snd (input_intervals ! k)" if "k < 24" for k
    using a [OF that] b [OF that] that by (auto simp: input_intervals_def nth_append split: if_splits)
  then show "within input_intervals (limbs_64 s)"
    by (simp add: within_def l input_intervals_def)
qed

lemma sc_reduce_val:
  assumes "length s = 64"
  shows "le_val (sc_reduce s) = le_val s mod L25519" "length (sc_reduce s) = 32"
proof -
  obtain I J where I: "iv_high input_intervals = Some I" "iv_low I = Some J" "iv_digits J = Some digit_intervals"
    using reduce_intervals by (auto simp: bind_eq_Some_conv)
  note w = within_input [OF assms]
  note h = high_ok [OF I(1) w(1)]
  note l = low_ok [OF I(2) h(1)]
  note f = final_ok [OF I(3) l(1)]
  show "le_val (sc_reduce s) = le_val s mod L25519"
    using pack_limbs_val [OF f(3-5)] f(2,6) l(2) h(2) w(2) by (simp add: sc_reduce_def)
  show "length (sc_reduce s) = 32" by (simp add: sc_reduce_def pack_limbs_def)
qed

section \<open>Products\<close>

lemma product_sum:
  fixes A B :: "nat \<Rightarrow> int"
  shows "(\<Sum>k<23. 2 ^ (21 * k) * (\<Sum>i\<in>{k - 11..<min 12 (k + 1)}. A i * B (k - i))) =
    (\<Sum>i<12. 2 ^ (21 * i) * A i) * (\<Sum>j<12. 2 ^ (21 * j) * B j)"
proof -
  let ?g = "\<lambda>i j. 2 ^ (21 * i) * A i * (2 ^ (21 * j) * B j)"
  have "(\<Sum>k<23. 2 ^ (21 * k) * (\<Sum>i\<in>{k - 11..<min 12 (k + 1)}. A i * B (k - i))) =
      (\<Sum>k<23. \<Sum>i\<in>{k - 11..<min 12 (k + 1)}. ?g i (k - i))"
    unfolding sum_distrib_left
  proof (intro sum.cong refl)
    fix k i :: nat
    assume "i \<in> {k - 11..<min 12 (k + 1)}"
    then have "21 * k = 21 * i + 21 * (k - i)" by auto
    then show "2 ^ (21 * k) * (A i * B (k - i)) = ?g i (k - i)" by (simp only: power_add) simp
  qed
  also have "\<dots> = (\<Sum>(k, i)\<in>Sigma {..<23} (\<lambda>k. {k - 11..<min 12 (k + 1)}). ?g i (k - i))"
    by (rule sum.Sigma) auto
  also have "\<dots> = (\<Sum>(i, j)\<in>{..<12} \<times> {..<12}. ?g i j)"
    by (rule sum.reindex_bij_witness [where i = "\<lambda>(i, j). (i + j, i)" and j = "\<lambda>(k, i). (i, k - i)"]) auto
  also have "\<dots> = (\<Sum>i<12. 2 ^ (21 * i) * A i) * (\<Sum>j<12. 2 ^ (21 * j) * B j)"
    by (simp add: sum_product sum.cartesian_product)
  finally show ?thesis .
qed

section \<open>Multiply and add\<close>

definition product_value :: "(nat \<Rightarrow> int) \<Rightarrow> (nat \<Rightarrow> int) \<Rightarrow> (nat \<Rightarrow> int) \<Rightarrow> nat \<Rightarrow> int" where
  "product_value A B C k = (if k < 12 then C k else 0) + (\<Sum>i\<in>{k - 11..<min 12 (k + 1)}. A i * B (k - i))"

lemma product_value_bounds:
  assumes "\<And>i. i < 12 \<Longrightarrow> 0 \<le> A i \<and> A i < 2 ^ 25" "\<And>i. i < 12 \<Longrightarrow> 0 \<le> B i \<and> B i < 2 ^ 25"
    and "\<And>i. i < 12 \<Longrightarrow> 0 \<le> C i \<and> C i < 2 ^ 25" and "k < 23"
  shows "0 \<le> product_value A B C k" "product_value A B C k \<le> 2 ^ 54"
proof -
  let ?S = "{k - 11..<min 12 (k + 1)}"
  have t: "0 \<le> A i * B (k - i) \<and> A i * B (k - i) \<le> 2 ^ 50" if "i \<in> ?S" for i
  proof -
    have "i < 12" "k - i < 12" using that by auto
    then have "0 \<le> A i" "A i \<le> 2 ^ 25" "0 \<le> B (k - i)" "B (k - i) \<le> 2 ^ 25" using assms(1,2) less_imp_le by blast+
    then show ?thesis using mult_mono [of "A i" "2 ^ 25" "B (k - i)" "2 ^ 25"] by simp
  qed
  then have "0 \<le> (\<Sum>i\<in>?S. A i * B (k - i))" by (intro sum_nonneg) blast
  moreover have "(\<Sum>i\<in>?S. A i * B (k - i)) \<le> int (card ?S) * 2 ^ 50"
    using sum_bounded_above [of ?S "\<lambda>i. A i * B (k - i)" "2 ^ 50"] t by (simp only: of_int_of_nat_eq)
  moreover have "int (card ?S) * 2 ^ 50 \<le> 12 * 2 ^ 50" by (intro mult_right_mono) simp_all
  moreover have "0 \<le> (if k < 12 then C k else 0)" "(if k < 12 then C k else 0) \<le> 2 ^ 25"
    using assms(3) [of k] by auto
  ultimately show "0 \<le> product_value A B C k" "product_value A B C k \<le> 2 ^ 54"
    by (simp_all add: product_value_def)
qed

lemma product_limb_of_int:
  "product_limb a b c k =
   word_of_int (product_value (\<lambda>i. sint (a ! i)) (\<lambda>i. sint (b ! i)) (\<lambda>i. sint (c ! i)) k)"
  by (simp add: product_limb_def product_value_def interv_sum_list_conv_sum_set_nat of_int_sum)

lemma product_value_sum:
  "(\<Sum>k<23. 2 ^ (21 * k) * product_value A B C k) =
   (\<Sum>i<12. 2 ^ (21 * i) * A i) * (\<Sum>i<12. 2 ^ (21 * i) * B i) + (\<Sum>i<12. 2 ^ (21 * i) * C i)"
proof -
  have "(\<Sum>k<23. 2 ^ (21 * k) * (if k < 12 then C k else 0)) = (\<Sum>k<12. 2 ^ (21 * k) * C k)"
    by (rule sum.mono_neutral_cong_right) auto
  then show ?thesis
    by (simp only: product_value_def distrib_left sum.distrib product_sum)
qed

lemma limbs_32_limb:
  assumes "length s = 32"
  shows "i < 12 \<Longrightarrow> 0 \<le> sint (limbs_32 s ! i) \<and> sint (limbs_32 s ! i) < 2 ^ 25"
    and "(\<Sum>i<12. 2 ^ (21 * i) * sint (limbs_32 s ! i)) = le_val s"
proof -
  note d = limbs_32_digits [OF assms]
  have l: "length (limbs_32 s) = 12" by (simp add: limbs_32_def)
  show "(\<Sum>i<12. 2 ^ (21 * i) * sint (limbs_32 s ! i)) = le_val s"
    using sc_val_map [OF d] by (simp only: digits_val sc_val_def l)
  have "sint (limbs_32 s ! i) = digits 11 (le_val s) ! i" if "i < 12"
    using arg_cong [OF d, of "\<lambda>xs. xs ! i"] that l by simp
  moreover have "0 \<le> digits 11 (le_val s) ! i \<and> digits 11 (le_val s) ! i < (if i < 11 then 2 ^ 21 else 2 ^ 25)" if "i < 12"
    using le_val_bounds [of s] that by (intro digits_bound) (simp_all add: assms)
  ultimately show "i < 12 \<Longrightarrow> 0 \<le> sint (limbs_32 s ! i) \<and> sint (limbs_32 s ! i) < 2 ^ 25"
    by (auto split: if_splits)
qed

lemma sc_muladd_val:
  assumes "length a = 32" "length b = 32" "length c = 32"
  shows "le_val (sc_muladd a b c) = (le_val a * le_val b + le_val c) mod L25519" "length (sc_muladd a b c) = 32"
proof -
  let ?P = "product_value (\<lambda>i. sint (limbs_32 a ! i)) (\<lambda>i. sint (limbs_32 b ! i)) (\<lambda>i. sint (limbs_32 c ! i))"
  let ?s = "product_limbs (limbs_32 a) (limbs_32 b) (limbs_32 c)"
  have pb: "0 \<le> ?P k" "?P k \<le> 2 ^ 54" if "k < 23" for k
    using that by (intro product_value_bounds limbs_32_limb assms; simp)+
  have l: "length ?s = 24" by (simp add: product_limbs_def)
  have sk: "sint (?s ! k) = ?P k" if "k < 23" for k
  proof -
    have "?s ! k = word_of_int (?P k)"
      using that by (simp add: product_limbs_def nth_append product_limb_of_int del: of_int_add of_int_sum)
    then show ?thesis using pb [OF that] sint64 [of "?P k"] by simp
  qed
  have s23: "sint (?s ! 23) = 0" by (simp add: product_limbs_def nth_append)
  have "fst (product_intervals ! k) \<le> sint (?s ! k) \<and> sint (?s ! k) \<le> snd (product_intervals ! k)" if "k < 24" for k
    using that sk [of k] pb [of k] s23 by (cases "k = 23") (simp_all add: product_intervals_def nth_append)
  then have w: "within product_intervals ?s" by (simp add: within_def l product_intervals_def)
  have "sc_val ?s = (\<Sum>k<Suc 23. 2 ^ (21 * k) * sint (?s ! k))" by (simp add: sc_val_def l)
  also have "\<dots> = (\<Sum>k<23. 2 ^ (21 * k) * sint (?s ! k))" by (simp only: sum.lessThan_Suc s23)
  also have "\<dots> = (\<Sum>k<23. 2 ^ (21 * k) * ?P k)" by (rule sum.cong) (simp_all add: sk)
  finally have v: "sc_val ?s = le_val a * le_val b + le_val c"
    by (simp only: product_value_sum limbs_32_limb(2) assms)
  obtain I J K where I: "iv_pass iv_round [0, 2, 4, 6, 8, 10, 12, 14, 16, 18, 20, 22, 1, 3, 5, 7, 9, 11, 13, 15, 17, 19, 21]
      product_intervals = Some I" "iv_high I = Some J" "iv_low J = Some K" "iv_digits K = Some digit_intervals"
    using muladd_intervals by (auto simp: bind_eq_Some_conv simp del: iv_pass.simps)
  note p = rounding.pass [OF I(1) w, folded product_carries_def, simplified]
  note h = high_ok [OF I(2) p(1)]
  note lo = low_ok [OF I(3) h(1)]
  note f = final_ok [OF I(4) lo(1)]
  show "le_val (sc_muladd a b c) = (le_val a * le_val b + le_val c) mod L25519"
    using pack_limbs_val [OF f(3-5)] f(2,6) lo(2) h(2) p(2) v by (simp add: sc_muladd_def muladd_reduction)
  show "length (sc_muladd a b c) = 32" by (simp only: sc_muladd_def Let_def) (simp add: pack_limbs_def)
qed

section \<open>Properties\<close>

text \<open>C16: Scalar reduction. For every 64-byte string \<open>sc_reduce\<close> returns the 32 bytes of its value modulo
  the group order, fully reduced; no 64-bit intermediate value wraps.\<close>

theorem sc_reduce_correct:
  assumes "length s = 64"
  shows "length (sc_reduce s) = 32 \<and> le_val (sc_reduce s) = le_val s mod L25519"
  using sc_reduce_val [OF assms] by simp

theorem sc_reduce_correct_witness:
  "length (sc_reduce (replicate 64 255)) = 32 \<and>
   le_val (sc_reduce (replicate 64 255)) = le_val (replicate 64 255) mod L25519"
  by (rule sc_reduce_correct) simp

text \<open>C17: Multiply and add. For all 32-byte strings, reduced or not, \<open>sc_muladd\<close> returns the bytes of
  \<open>a * b + c\<close> modulo the group order.\<close>

theorem sc_muladd_correct:
  assumes "length a = 32" "length b = 32" "length c = 32"
  shows "length (sc_muladd a b c) = 32 \<and>
    le_val (sc_muladd a b c) = (le_val a * le_val b + le_val c) mod L25519"
  using sc_muladd_val [OF assms] by simp

theorem sc_muladd_correct_witness:
  "let a = replicate 32 255; b = 7 # replicate 31 9; c = replicate 32 1
   in length (sc_muladd a b c) = 32 \<and> le_val (sc_muladd a b c) = (le_val a * le_val b + le_val c) mod L25519"
  unfolding Let_def by (rule sc_muladd_correct) simp_all

end
