(* ===== verification/Sha3.thy ===== *)
theory Sha3
  imports SM_Prelude
begin

text \<open>
  SHA-3 (\<open>common/sha3/sha3.c\<close>). The state is the 25 words of the union; a byte of the union is
  eight bits of a word (the target is little-endian). The two conversions for big-endian
  targets are not compiled. The permutation is compared with the step mappings of FIPS 202 on
  the five by five array, the streaming interface with the sponge on the padded message.
\<close>

section \<open>The permutation\<close>

definition keccakf_rndc :: "u64 list" where
  "keccakf_rndc =
   [0x0000000000000001, 0x0000000000008082, 0x800000000000808a,
    0x8000000080008000, 0x000000000000808b, 0x0000000080000001,
    0x8000000080008081, 0x8000000000008009, 0x000000000000008a,
    0x0000000000000088, 0x0000000080008009, 0x000000008000000a,
    0x000000008000808b, 0x800000000000008b, 0x8000000000008089,
    0x8000000000008003, 0x8000000000008002, 0x8000000000000080,
    0x000000000000800a, 0x800000008000000a, 0x8000000080008081,
    0x8000000000008080, 0x0000000080000001, 0x8000000080008008]"

definition keccakf_rotc :: "nat list" where
  "keccakf_rotc =
   [1, 3, 6, 10, 15, 21, 28, 36, 45, 55, 2, 14,
    27, 41, 56, 8, 25, 43, 62, 18, 39, 61, 20, 44]"

definition keccakf_piln :: "nat list" where
  "keccakf_piln =
   [10, 7, 11, 17, 18, 3, 5, 16, 8, 21, 24, 4,
    15, 23, 19, 13, 12, 2, 20, 14, 22, 9, 6, 1]"

definition ROTL64 :: "u64 \<Rightarrow> nat \<Rightarrow> u64" where
  "ROTL64 x y = push_bit y x OR drop_bit (64 - y) x"

definition theta :: "u64 list \<Rightarrow> u64 list" where
  "theta st =
     (let bc = map (\<lambda>i. st ! i XOR st ! (i + 5) XOR st ! (i + 10) XOR st ! (i + 15) XOR st ! (i + 20)) [0..<5]
      in fold (\<lambda>i st.
           let t = bc ! ((i + 4) mod 5) XOR ROTL64 (bc ! ((i + 1) mod 5)) 1
           in fold (\<lambda>j st. st[j + i := st ! (j + i) XOR t]) [0, 5, 10, 15, 20] st) [0..<5] st)"

definition rho_pi :: "u64 list \<Rightarrow> u64 list" where
  "rho_pi st =
     fst (fold (\<lambda>i (st, t).
       let j = keccakf_piln ! i;
           bc0 = st ! j
       in (st[j := ROTL64 t (keccakf_rotc ! i)], bc0)) [0..<24] (st, st ! 1))"

definition chi :: "u64 list \<Rightarrow> u64 list" where
  "chi st =
     fold (\<lambda>j st.
       let bc = map (\<lambda>i. st ! (j + i)) [0..<5]
       in fold (\<lambda>i st. st[j + i := st ! (j + i) XOR (NOT (bc ! ((i + 1) mod 5)) AND bc ! ((i + 2) mod 5))])
            [0..<5] st) [0, 5, 10, 15, 20] st"

definition iota :: "nat \<Rightarrow> u64 list \<Rightarrow> u64 list" where
  "iota r st = st[0 := st ! 0 XOR keccakf_rndc ! r]"

definition sha3_keccakf :: "u64 list \<Rightarrow> u64 list" where
  "sha3_keccakf st = fold (\<lambda>r st. iota r (chi (rho_pi (theta st)))) [0..<24] st"

section \<open>The streaming interface\<close>

record sha3_ctx =
  st :: "u64 list"
  pt :: int
  rsiz :: int
  mdlen :: int

text \<open>Byte \<open>j\<close> of the union.\<close>

definition get_byte :: "u64 list \<Rightarrow> nat \<Rightarrow> u8" where
  "get_byte q j = ucast (drop_bit (8 * (j mod 8)) (q ! (j div 8)))"

definition xor_byte :: "u64 list \<Rightarrow> nat \<Rightarrow> u8 \<Rightarrow> u64 list" where
  "xor_byte q j v = q[j div 8 := q ! (j div 8) XOR push_bit (8 * (j mod 8)) (ucast v)]"

definition sha3_init :: "int \<Rightarrow> sha3_ctx" where
  "sha3_init len = \<lparr>st = replicate 25 0, pt = 0, rsiz = 200 - 2 * len, mdlen = len\<rparr>"

definition absorb_byte :: "int \<Rightarrow> u8 \<Rightarrow> u64 list \<times> int \<Rightarrow> u64 list \<times> int" where
  "absorb_byte rate b s =
     (let (q, j) = s;
          q = xor_byte q (nat j) b;
          j = j + 1
      in if j \<ge> rate then (sha3_keccakf q, 0) else (q, j))"

definition sha3_update :: "sha3_ctx \<Rightarrow> u8 list \<Rightarrow> sha3_ctx" where
  "sha3_update c data =
     (let (q, j) = fold (absorb_byte (rsiz c)) data (st c, pt c) in c\<lparr>st := q, pt := j\<rparr>)"

definition sha3_final :: "sha3_ctx \<Rightarrow> u8 list \<times> sha3_ctx" where
  "sha3_final c =
     (let q = xor_byte (st c) (nat (pt c)) 0x06;
          q = xor_byte q (nat (rsiz c - 1)) 0x80;
          q = sha3_keccakf q
      in (map (\<lambda>i. get_byte q i) [0..<nat (mdlen c)], c\<lparr>st := q\<rparr>))"

definition sha3 :: "u8 list \<Rightarrow> int \<Rightarrow> u8 list" where
  "sha3 message md_len = fst (sha3_final (sha3_update (sha3_init md_len) message))"

section \<open>The step mappings of FIPS 202\<close>

text \<open>The lane at \<open>(x, y)\<close> is word \<open>x + 5 * y\<close>.\<close>

definition lane :: "u64 list \<Rightarrow> nat \<Rightarrow> nat \<Rightarrow> u64" where
  "lane A x y = A ! (x mod 5 + 5 * (y mod 5))"

definition lanes :: "(nat \<Rightarrow> nat \<Rightarrow> u64) \<Rightarrow> u64 list" where
  "lanes f = map (\<lambda>k. f (k mod 5) (k div 5)) [0..<25]"

definition spec_theta :: "u64 list \<Rightarrow> u64 list" where
  "spec_theta A =
     (let C = (\<lambda>x. lane A x 0 XOR lane A x 1 XOR lane A x 2 XOR lane A x 3 XOR lane A x 4)
      in lanes (\<lambda>x y. lane A x y XOR (C ((x + 4) mod 5) XOR word_rotl 1 (C ((x + 1) mod 5)))))"

text \<open>
  The rotation offsets: starting from the lane (1, 0), step \<open>t\<close> rotates by the triangular number
  of \<open>t + 1\<close> and goes from \<open>(x, y)\<close> to \<open>(y, 2 * x + 3 * y)\<close>; the lane (0, 0) is not rotated.
\<close>

primrec rho_pos :: "nat \<Rightarrow> nat \<times> nat" where
  "rho_pos 0 = (1, 0)"
| "rho_pos (Suc t) = (case rho_pos t of (x, y) \<Rightarrow> (y, (2 * x + 3 * y) mod 5))"

definition rho_offset :: "nat \<Rightarrow> nat \<Rightarrow> nat" where
  "rho_offset x y =
     (case find (\<lambda>t. rho_pos t = (x, y)) [0..<24] of
        None \<Rightarrow> 0 | Some t \<Rightarrow> ((t + 1) * (t + 2) div 2) mod 64)"

definition spec_rho :: "u64 list \<Rightarrow> u64 list" where
  "spec_rho A = lanes (\<lambda>x y. word_rotl (rho_offset x y) (lane A x y))"

definition spec_pi :: "u64 list \<Rightarrow> u64 list" where
  "spec_pi A = lanes (\<lambda>x y. lane A ((x + 3 * y) mod 5) x)"

definition spec_chi :: "u64 list \<Rightarrow> u64 list" where
  "spec_chi A = lanes (\<lambda>x y. lane A x y XOR (NOT (lane A (x + 1) y) AND lane A (x + 2) y))"

text \<open>The round constants: the bits of a linear feedback shift register, seven to a round.\<close>

definition lfsr_step :: "u8 \<Rightarrow> u8" where
  "lfsr_step R = push_bit 1 R XOR (if bit R 7 then 0x71 else 0)"

primrec lfsr :: "nat \<Rightarrow> u8" where
  "lfsr 0 = 1"
| "lfsr (Suc t) = lfsr_step (lfsr t)"

definition round_constant :: "nat \<Rightarrow> u64" where
  "round_constant r =
     foldr (\<lambda>j w. (if bit (lfsr (j + 7 * r)) 0 then push_bit (2 ^ j - 1) 1 else 0) OR w) [0..<7] 0"

definition spec_round :: "nat \<Rightarrow> u64 list \<Rightarrow> u64 list" where
  "spec_round r A =
     (let A = spec_chi (spec_pi (spec_rho (spec_theta A)))
      in A[0 := A ! 0 XOR round_constant r])"

section \<open>The permutation is the one of FIPS 202\<close>

lemma list25_cases:
  assumes "length A = 25"
  obtains a0 a1 a2 a3 a4 a5 a6 a7 a8 a9 a10 a11 a12 a13 a14 a15 a16 a17 a18 a19 a20 a21 a22 a23 a24 where "A = [a0, a1, a2, a3, a4, a5, a6, a7, a8, a9, a10, a11, a12, a13, a14, a15, a16, a17, a18, a19, a20, a21, a22, a23, a24]"
  using assms by (auto simp: length_Suc_conv eval_nat_numeral)

lemma upt_5: "[0..<5] = [0, 1, 2, 3, 4 :: nat]"
  by (simp add: upt_rec)

lemma upt_24: "[0..<24] = [0, 1, 2, 3, 4, 5, 6, 7, 8, 9, 10, 11, 12, 13, 14, 15, 16, 17, 18, 19, 20, 21, 22, 23 :: nat]"
  by (simp add: upt_rec)

lemma upt_25: "[0..<25] = [0, 1, 2, 3, 4, 5, 6, 7, 8, 9, 10, 11, 12, 13, 14, 15, 16, 17, 18, 19, 20, 21, 22, 23, 24 :: nat]"
  by (simp add: upt_rec)

lemma ROTL64_rotl:
  assumes "0 < n" "n < 64"
  shows "ROTL64 x n = word_rotl n x"
proof (rule bit_word_eqI)
  fix k
  assume "k < LENGTH(64)"
  then have k: "k < 64" by simp
  have "(k + (64 - n)) mod 64 = (if n \<le> k then k - n else k + (64 - n))"
    using assms k by (simp add: mod_if)
  then have rot: "bit (word_rotl n x) k = bit x (if n \<le> k then k - n else k + (64 - n))"
    using assms k by (simp only: bit_word_rotl_iff) simp
  have "\<not> bit x (64 - n + k)" if "n \<le> k"
    using that bit_imp_le_length [of x "64 - n + k"] assms by auto
  then show "bit (ROTL64 x n) k \<longleftrightarrow> bit (word_rotl n x) k"
    unfolding rot using assms k by (auto simp: ROTL64_def bit_simps add.commute)
qed

lemma word_rotl_0: "word_rotl 0 (x :: u64) = x"
  by (rule bit_word_eqI) (simp add: bit_word_rotl_iff)

lemma theta_eq: "length A = 25 \<Longrightarrow> theta A = spec_theta A"
  by (elim list25_cases)
    (simp add: theta_def spec_theta_def lanes_def lane_def upt_5 upt_25 ROTL64_rotl Let_def)

lemma chi_eq: "length A = 25 \<Longrightarrow> chi A = spec_chi A"
  by (elim list25_cases) (simp add: chi_def spec_chi_def lanes_def lane_def upt_5 upt_25 Let_def)

lemma rho_offsets:
  "map (\<lambda>k. rho_offset (k mod 5) (k div 5)) [0..<25] =
    [0, 1, 62, 28, 27, 36, 44, 6, 55, 20, 3, 10, 43, 25, 39, 41, 45, 15, 21, 8, 18, 2, 61, 56, 14]"
  by code_simp

lemma spec_rho_eq:
  "spec_rho A = map (\<lambda>k. word_rotl ([0, 1, 62, 28, 27, 36, 44, 6, 55, 20, 3, 10, 43, 25, 39, 41, 45, 15, 21,
     8, 18, 2, 61, 56, 14] ! k) (lane A (k mod 5) (k div 5))) [0..<25]"
proof -
  have "rho_offset (k mod 5) (k div 5) = [0, 1, 62, 28, 27, 36, 44, 6, 55, 20, 3, 10, 43, 25, 39, 41, 45, 15, 21,
     8, 18, 2, 61, 56, 14] ! k" if "k < 25" for k
    using that arg_cong [OF rho_offsets, of "\<lambda>xs. xs ! k"] by simp
  then show ?thesis by (simp add: spec_rho_def lanes_def)
qed

lemma rho_pi_eq: "length A = 25 \<Longrightarrow> rho_pi A = spec_pi (spec_rho A)"
  by (elim list25_cases)
    (simp add: rho_pi_def spec_pi_def spec_rho_eq lanes_def lane_def upt_24 upt_25 Let_def
      keccakf_piln_def keccakf_rotc_def ROTL64_rotl word_rotl_0)

text \<open>The register is run once for all rounds.\<close>

primrec lfsr_run :: "nat \<Rightarrow> u8 \<Rightarrow> bool list" where
  "lfsr_run 0 R = []"
| "lfsr_run (Suc n) R = bit R 0 # lfsr_run n (lfsr_step R)"

lemma lfsr_run_bits: "lfsr_run n (lfsr t) = map (\<lambda>k. bit (lfsr (t + k)) 0) [0..<n]"
proof (induction n arbitrary: t)
  case (Suc n)
  have "map (\<lambda>k. bit (lfsr (t + k)) 0) [0..<Suc n] = bit (lfsr t) 0 # map (\<lambda>k. bit (lfsr (Suc t + k)) 0) [0..<n]"
    by (simp only: upt_conv_Cons [of 0 "Suc n"] map_Suc_upt [symmetric] list.map map_map comp_def) simp
  then show ?case using Suc.IH [of "Suc t"] by simp
qed simp

lemma lfsr_bits:
  "lfsr_run 168 1 =
     [True, False, False, False, False, False, False, False, True, False, True, True,
      False, False, False, True, True, True, True, False, True, False, False, False,
      False, True, True, True, True, True, True, True, True, False, False, True,
      False, False, False, False, True, False, True, False, False, True, True, True,
      True, True, False, True, False, True, False, True, False, True, True, True,
      False, False, False, False, False, True, True, False, False, False, True, False,
      True, False, True, True, False, False, True, True, False, False, True, False,
      True, True, True, True, True, True, False, True, True, True, True, False,
      False, True, True, False, True, True, True, False, True, True, True, False,
      False, True, False, True, False, True, False, False, True, False, True, False,
      False, False, True, False, False, True, False, True, True, False, True, False,
      False, False, True, True, False, False, True, True, True, False, False, True,
      True, True, True, False, False, False, True, True, False, True, True, False,
      False, False, False, True, False, False, False, True, False, True, True, True]"
  by code_simp

lemma lfsr_bit: "t < 168 \<Longrightarrow> bit (lfsr t) 0 = lfsr_run 168 1 ! t"
  using lfsr_run_bits [of 168 0] by simp

lemma round_constants: "map round_constant [0..<24] = keccakf_rndc"
  by (simp add: upt_24 round_constant_def upt_rec lfsr_bit lfsr_bits keccakf_rndc_def lfsr_step_def)

section \<open>The sponge\<close>

text \<open>
  What the code absorbs, block by block: the message is padded to full blocks, each block is combined with the
  first bytes of the state and followed by the permutation.
\<close>

primrec xor_bytes_at :: "nat \<Rightarrow> u8 list \<Rightarrow> u64 list \<Rightarrow> u64 list" where
  "xor_bytes_at j [] q = q"
| "xor_bytes_at j (b # bs) q = xor_bytes_at (j + 1) bs (xor_byte q j b)"

definition pad_bytes :: "nat \<Rightarrow> nat \<Rightarrow> u8 list" where
  "pad_bytes rate len =
     (let k = rate - len mod rate
      in if k = 1 then [0x86] else 0x06 # replicate (k - 2) 0 @ [0x80])"

function chunks :: "nat \<Rightarrow> u8 list \<Rightarrow> u8 list list" where
  "chunks rate bs = (if rate = 0 \<or> bs = [] then [] else take rate bs # chunks rate (drop rate bs))"
  by pat_completeness auto

termination
  by (relation "measure (\<lambda>(rate, bs). length bs)") (auto simp: length_greater_0_conv)

declare chunks.simps [simp del]

definition absorbed :: "nat \<Rightarrow> u8 list \<Rightarrow> u64 list" where
  "absorbed rate message =
     fold (\<lambda>block q. sha3_keccakf (xor_bytes_at 0 block q))
       (chunks rate (message @ pad_bytes rate (length message))) (replicate 25 0)"

lemma xor_bytes_at_append: "xor_bytes_at j (bs @ cs) q = xor_bytes_at (j + length bs) cs (xor_bytes_at j bs q)"
  by (induction bs arbitrary: j q) simp_all

lemma xor_byte_0 [simp]: "xor_byte q j 0 = q"
  by (simp add: xor_byte_def)

lemma xor_bytes_at_zeros [simp]: "xor_bytes_at j (replicate n 0) q = q"
  by (induction n arbitrary: j) simp_all

lemma xor_byte_twice: "xor_byte (xor_byte q j a) j b = xor_byte q j (a XOR b)"
proof (cases "j div 8 < length q")
  case True
  have "ucast (a XOR b) = (ucast a XOR ucast b :: u64)" by (rule bit_word_eqI) (simp add: bit_simps)
  with True show ?thesis by (simp add: xor_byte_def push_bit_xor xor.assoc)
qed (simp add: xor_byte_def not_less list_update_beyond)

text \<open>Absorbing bytes up to the end of a block, and a whole block.\<close>

lemma absorb_partial:
  "j + length bs < r \<Longrightarrow>
   fold (absorb_byte (int r)) bs (q, int j) = (xor_bytes_at j bs q, int (j + length bs))"
proof (induction bs arbitrary: j q)
  case (Cons b bs)
  have "absorb_byte (int r) b (q, int j) = (xor_byte q j b, int (j + 1))"
    using Cons.prems by (simp add: absorb_byte_def)
  then show ?case using Cons.IH [of "j + 1"] Cons.prems by simp
qed simp

lemma absorb_block:
  assumes "length bs = r" "0 < r"
  shows "fold (absorb_byte (int r)) bs (q, 0) = (sha3_keccakf (xor_bytes_at 0 bs q), 0)"
proof -
  obtain cs c where bs: "bs = cs @ [c]" using assms by (cases bs rule: rev_cases) auto
  have "fold (absorb_byte (int r)) cs (q, int 0) = (xor_bytes_at 0 cs q, int (0 + length cs))"
    using assms bs by (intro absorb_partial) simp
  then show ?thesis using assms bs by (simp add: absorb_byte_def xor_bytes_at_append)
qed

lemma chunks_block: "length bs = r \<Longrightarrow> 0 < r \<Longrightarrow> chunks r (bs @ cs) = bs # chunks r cs"
  by (subst chunks.simps) auto

lemma chunks_Nil [simp]: "chunks r [] = []"
  by (simp add: chunks.simps)

text \<open>The state of the streaming interface after a message: the full blocks are absorbed, the rest is
  combined with the state from byte 0 on.\<close>

lemma absorb_message:
  assumes "0 < r"
  shows "\<exists>rest. length rest = length msg mod r \<and>
    fold (absorb_byte (int r)) msg (q, 0) =
      (xor_bytes_at 0 rest (fold (\<lambda>b q. sha3_keccakf (xor_bytes_at 0 b q)) (chunks r (take (length msg div r * r) msg)) q),
       int (length rest)) \<and>
    msg = take (length msg div r * r) msg @ rest"
proof (induction "length msg div r" arbitrary: msg q)
  case 0
  then have "length msg < r" using assms by (metis div_eq_0_iff less_numeral_extra(3))
  then show ?case using absorb_partial [of 0 msg r q] by (intro exI [of _ msg]) simp
next
  case (Suc n)
  let ?b = "take r msg" and ?m = "drop r msg"
  have le: "r \<le> length msg"
    using Suc.hyps(2) by (metis div_less not_le_imp_less nat.distinct(1))
  have d: "length msg div r = Suc (length ?m div r)" using le assms by (simp add: le_div_geq)
  then have n: "n = length ?m div r" using Suc.hyps(2) by (metis nat.inject)
  obtain rest where rest: "length rest = length ?m mod r"
    "fold (absorb_byte (int r)) ?m (sha3_keccakf (xor_bytes_at 0 ?b q), 0) =
      (xor_bytes_at 0 rest (fold (\<lambda>b q. sha3_keccakf (xor_bytes_at 0 b q)) (chunks r (take (length ?m div r * r) ?m))
        (sha3_keccakf (xor_bytes_at 0 ?b q))), int (length rest))"
    "?m = take (length ?m div r * r) ?m @ rest"
    using Suc.hyps(1) [OF n] by blast
  have "fold (absorb_byte (int r)) msg (q, 0) = fold (absorb_byte (int r)) ?m (fold (absorb_byte (int r)) ?b (q, 0))"
    by (metis append_take_drop_id fold_append comp_apply)
  also have "fold (absorb_byte (int r)) ?b (q, 0) = (sha3_keccakf (xor_bytes_at 0 ?b q), 0)"
    using le assms by (intro absorb_block) simp_all
  finally have f: "fold (absorb_byte (int r)) msg (q, 0) =
      fold (absorb_byte (int r)) ?m (sha3_keccakf (xor_bytes_at 0 ?b q), 0)" .
  have q: "length msg div r * r = r + length ?m div r * r" unfolding d by simp
  have t: "take (length msg div r * r) msg = ?b @ take (length ?m div r * r) ?m"
    unfolding q by (rule take_add)
  have "chunks r (take (length msg div r * r) msg) = ?b # chunks r (take (length ?m div r * r) ?m)"
    unfolding t using le assms by (intro chunks_block) simp_all
  moreover have "length msg mod r = length ?m mod r" using le by (simp add: le_mod_geq)
  moreover have "msg = take (length msg div r * r) msg @ rest"
    unfolding t using rest(3) by (metis append_assoc append_take_drop_id)
  ultimately show ?case using rest(1,2) f by (intro exI [of _ rest]) simp
qed

text \<open>The padding of the last block is what \<open>sha3\_final\<close> combines with the state.\<close>

lemma xor_pad:
  assumes "length rest = n mod r" "0 < r"
  shows "xor_bytes_at 0 (rest @ pad_bytes r n) q =
    xor_byte (xor_byte (xor_bytes_at 0 rest q) (length rest) 0x06) (r - 1) 0x80"
proof -
  have lt: "n mod r < r" using assms(2) by simp
  show ?thesis
  proof (cases "r - n mod r = 1")
    case True
    then have "r - 1 = n mod r" using lt by simp
    then show ?thesis using True assms(1)
      by (simp add: pad_bytes_def xor_bytes_at_append xor_byte_twice)
  next
    case False
    then have e: "Suc (length rest + (r - n mod r - 2)) = r - 1" using lt assms(1) by simp
    have "xor_bytes_at 0 (rest @ pad_bytes r n) q =
        xor_byte (xor_byte (xor_bytes_at 0 rest q) (length rest) 0x06) (Suc (length rest + (r - n mod r - 2))) 0x80"
      using False by (simp add: pad_bytes_def xor_bytes_at_append Let_def)
    then show ?thesis unfolding e .
  qed
qed

lemma length_pad_bytes:
  assumes "0 < r"
  shows "length (pad_bytes r n) = r - n mod r"
proof -
  have "n mod r < r" using assms by simp
  then show ?thesis by (auto simp: pad_bytes_def Let_def)
qed

lemma chunks_append:
  assumes "0 < r" "length xs = k * r"
  shows "chunks r (xs @ ys) = chunks r xs @ chunks r ys"
  using assms(2)
proof (induction k arbitrary: xs)
  case (Suc k)
  have e: "xs @ ys = take r xs @ drop r xs @ ys" by (simp only: append_assoc [symmetric] append_take_drop_id)
  have "chunks r (xs @ ys) = take r xs # chunks r (drop r xs @ ys)"
    unfolding e by (rule chunks_block) (use Suc.prems assms(1) in simp_all)
  moreover have "chunks r xs = take r xs # chunks r (drop r xs)"
    using chunks_block [of "take r xs" r "drop r xs"] Suc.prems assms(1) by simp
  ultimately show ?case using Suc.IH [of "drop r xs"] Suc.prems by simp
qed simp

lemma sha3_sponge:
  assumes "0 < len" "len < 100"
  shows "sha3 message len = map (get_byte (absorbed (nat (200 - 2 * len)) message)) [0..<nat len]"
proof -
  let ?r = "nat (200 - 2 * len)"
  have r: "int ?r = 200 - 2 * len" "0 < ?r" using assms by simp_all
  let ?f = "\<lambda>b q. sha3_keccakf (xor_bytes_at 0 b q)"
  obtain rest where rest: "length rest = length message mod ?r"
    "fold (absorb_byte (int ?r)) message (replicate 25 0, 0) =
      (xor_bytes_at 0 rest (fold ?f (chunks ?r (take (length message div ?r * ?r) message)) (replicate 25 0)), int (length rest))"
    "message = take (length message div ?r * ?r) message @ rest"
    using absorb_message [OF r(2)] by blast
  let ?full = "take (length message div ?r * ?r) message"
  have len: "length ?full = length message div ?r * ?r" by simp
  have last: "length (rest @ pad_bytes ?r (length message)) = ?r"
    using rest(1) length_pad_bytes [OF r(2)] mod_less_divisor [OF r(2), of "length message"] by simp
  have "message @ pad_bytes ?r (length message) = ?full @ rest @ pad_bytes ?r (length message)"
    using rest(3) by (metis append_assoc)
  then have "chunks ?r (message @ pad_bytes ?r (length message)) = chunks ?r (?full @ rest @ pad_bytes ?r (length message))"
    by (rule arg_cong)
  also have "\<dots> = chunks ?r ?full @ [rest @ pad_bytes ?r (length message)]"
    using chunks_append [OF r(2) len, of "rest @ pad_bytes ?r (length message)"]
      chunks_block [OF last r(2), of "[]"] by simp
  finally have "chunks ?r (message @ pad_bytes ?r (length message)) =
      chunks ?r ?full @ [rest @ pad_bytes ?r (length message)]" .
  then have "fold ?f (chunks ?r (message @ pad_bytes ?r (length message))) (replicate 25 0) =
      sha3_keccakf (xor_byte (xor_byte (xor_bytes_at 0 rest (fold ?f (chunks ?r ?full) (replicate 25 0)))
        (length rest) 0x06) (?r - 1) 0x80)"
    using xor_pad [OF rest(1) r(2)] by simp
  moreover have "nat (199 - 2 * len) = ?r - 1" using assms by simp
  ultimately show ?thesis
    using rest(2) r(1)
    by (simp add: sha3_def sha3_init_def sha3_update_def sha3_final_def absorbed_def Let_def)
qed

lemma length_lanes [simp]: "length (lanes f) = 25"
  by (simp add: lanes_def)

lemma length_steps [simp]:
  "length (spec_theta A) = 25" "length (spec_rho A) = 25" "length (spec_pi A) = 25" "length (spec_chi A) = 25"
  by (simp_all add: spec_theta_def spec_rho_def spec_pi_def spec_chi_def Let_def)

lemma keccakf_spec:
  assumes "length A = 25"
  shows "sha3_keccakf A = fold spec_round [0..<24] A"
proof -
  have step: "iota r (chi (rho_pi (theta A))) = spec_round r A" if "length A = 25" "r < 24" for A r
  proof -
    have "keccakf_rndc ! r = round_constant r" using that(2) by (simp flip: round_constants)
    then show ?thesis using that by (simp add: theta_eq rho_pi_eq chi_eq iota_def spec_round_def Let_def)
  qed
  have len: "length (spec_round r A) = 25" for r A by (simp add: spec_round_def Let_def)
  have "fold (\<lambda>r st. iota r (chi (rho_pi (theta st)))) rs A = fold spec_round rs A"
    if "\<forall>r\<in>set rs. r < 24" "length A = 25" for rs A
    using that by (induction rs arbitrary: A) (simp_all add: step len)
  then show ?thesis using assms by (simp add: sha3_keccakf_def)
qed

lemma length_spec_rounds: "length A = 25 \<Longrightarrow> length (fold spec_round rs A) = 25"
  by (induction rs arbitrary: A) (simp_all add: spec_round_def Let_def)

text \<open>
  The sponge of FIPS 202. A state is a string of 200 bytes; bit \<open>z\<close> of a lane is bit \<open>z\<close> of the eight bytes at its
  place, counted from the low bit of the first byte. A block is combined with the first bytes of the state. The output is
  squeezed out a block at a time, with a permutation between two blocks.
\<close>

definition lanes_of_bytes :: "u8 list \<Rightarrow> u64 list" where
  "lanes_of_bytes S = map (\<lambda>k. horner_sum of_bool 2 (map (\<lambda>z. bit (S ! (8 * k + z div 8)) (z mod 8)) [0..<64])) [0..<25]"

definition bytes_of_lanes :: "u64 list \<Rightarrow> u8 list" where
  "bytes_of_lanes A = map (\<lambda>j. horner_sum of_bool 2 (map (\<lambda>z. bit (A ! (j div 8)) (8 * (j mod 8) + z)) [0..<8])) [0..<200]"

definition keccak_p :: "u8 list \<Rightarrow> u8 list" where
  "keccak_p S = bytes_of_lanes (fold spec_round [0..<24] (lanes_of_bytes S))"

definition combine :: "u8 list \<Rightarrow> u8 list \<Rightarrow> u8 list" where
  "combine block S = map2 (XOR) (block @ replicate (200 - length block) 0) S"

function squeeze :: "nat \<Rightarrow> nat \<Rightarrow> u8 list \<Rightarrow> u8 list" where
  "squeeze rate out S =
     (if rate = 0 \<or> out \<le> rate then take out S else take rate S @ squeeze rate (out - rate) (keccak_p S))"
  by pat_completeness auto

termination
  by (relation "measure (\<lambda>(rate, out, S). out)") auto

declare squeeze.simps [simp del]

definition fips_sponge :: "nat \<Rightarrow> nat \<Rightarrow> u8 list \<Rightarrow> u8 list" where
  "fips_sponge rate out message =
     squeeze rate out
       (fold (\<lambda>block S. keccak_p (combine block S)) (chunks rate (message @ pad_bytes rate (length message))) (replicate 200 0))"

text \<open>The words of the code hold the bytes of the standard's state.\<close>

lemma bit_get_byte: "bit (get_byte q j) z \<longleftrightarrow> z < 8 \<and> bit (q ! (j div 8)) (8 * (j mod 8) + z)"
  by (auto simp: get_byte_def bit_ucast_iff bit_drop_bit_eq dest: bit_imp_le_length)

lemma bytes_of_lanes_eq: "bytes_of_lanes q = map (get_byte q) [0..<200]"
proof -
  have "horner_sum of_bool 2 (map (\<lambda>z. bit (q ! (j div 8)) (8 * (j mod 8) + z)) [0..<8]) = get_byte q j" for j
    by (rule bit_word_eqI) (auto simp: bit_horner_sum_bit_iff bit_get_byte)
  then show ?thesis by (simp add: bytes_of_lanes_def)
qed

lemma length_bytes_of_lanes [simp]: "length (bytes_of_lanes q) = 200"
  by (simp add: bytes_of_lanes_def)

lemma lanes_of_bytes_of_lanes:
  assumes "length q = 25"
  shows "lanes_of_bytes (bytes_of_lanes q) = q"
proof (rule nth_equalityI)
  fix k assume "k < length (lanes_of_bytes (bytes_of_lanes q))"
  then have k: "k < 25" by (simp add: lanes_of_bytes_def)
  have "(horner_sum of_bool 2 (map (\<lambda>z. bit (bytes_of_lanes q ! (8 * k + z div 8)) (z mod 8)) [0..<64]) :: u64) = q ! k"
  proof (rule bit_word_eqI)
    fix z assume "z < LENGTH(64)"
    then have z: "z < 64" by simp
    then have "z div 8 < 8" by simp
    then have "8 * k + z div 8 < 200" "(8 * k + z div 8) div 8 = k" "(8 * k + z div 8) mod 8 = z div 8"
      using k by simp_all
    then show "bit (horner_sum of_bool 2 (map (\<lambda>z. bit (bytes_of_lanes q ! (8 * k + z div 8)) (z mod 8)) [0..<64]) :: u64) z \<longleftrightarrow> bit (q ! k) z"
      using z by (simp add: bit_horner_sum_bit_iff bytes_of_lanes_eq bit_get_byte)
  qed
  then show "lanes_of_bytes (bytes_of_lanes q) ! k = q ! k" using k by (simp add: lanes_of_bytes_def)
qed (simp add: lanes_of_bytes_def assms)

lemma get_byte_xor_byte:
  assumes "j < 200" "length q = 25"
  shows "get_byte (xor_byte q j v) i = (if i = j then get_byte q i XOR v else get_byte q i)"
proof (rule bit_word_eqI)
  fix z assume "z < LENGTH(8)"
  then have z: "z < 8" by simp
  have j: "j div 8 < length q" using assms by (simp add: less_mult_imp_div_less)
  have ij: "i div 8 = j div 8 \<Longrightarrow> i mod 8 = j mod 8 \<Longrightarrow> i = j" by (metis div_mod_decomp)
  have "8 * (j mod 8) \<le> 8 * (i mod 8) + z \<and> 8 * (i mod 8) + z - 8 * (j mod 8) < 8 \<longleftrightarrow> i mod 8 = j mod 8"
    using z by auto
  then have x: "bit (push_bit (8 * (j mod 8)) (ucast v :: u64)) (8 * (i mod 8) + z) \<longleftrightarrow> i mod 8 = j mod 8 \<and> bit v z"
    using z bit_imp_le_length [of v "8 * (i mod 8) + z - 8 * (j mod 8)"] mod_less_divisor [of 8 i]
    by (auto simp: bit_push_bit_iff bit_ucast_iff)
  show "bit (get_byte (xor_byte q j v) i) z \<longleftrightarrow> bit (if i = j then get_byte q i XOR v else get_byte q i) z"
  proof (cases "i div 8 = j div 8")
    case True
    then have "xor_byte q j v ! (i div 8) = q ! (i div 8) XOR push_bit (8 * (j mod 8)) (ucast v)"
      using j by (simp add: xor_byte_def)
    then show ?thesis using z x ij [OF True] by (auto simp: bit_get_byte bit_xor_iff)
  next
    case False
    then have "xor_byte q j v ! (i div 8) = q ! (i div 8)" by (simp add: xor_byte_def)
    then show ?thesis using False by (auto simp: bit_get_byte)
  qed
qed

lemma length_xor_bytes_at [simp]: "length (xor_bytes_at j bs q) = length q"
  by (induction bs arbitrary: j q) (simp_all add: xor_byte_def)

lemma get_byte_xor_bytes_at:
  assumes "j + length bs \<le> 200" "length q = 25"
  shows "get_byte (xor_bytes_at j bs q) i =
    (if j \<le> i \<and> i < j + length bs then get_byte q i XOR bs ! (i - j) else get_byte q i)"
  using assms
proof (induction bs arbitrary: j q)
  case (Cons b bs)
  have "get_byte (xor_bytes_at (j + 1) bs (xor_byte q j b)) i =
      (if j + 1 \<le> i \<and> i < j + 1 + length bs then get_byte (xor_byte q j b) i XOR bs ! (i - (j + 1))
       else get_byte (xor_byte q j b) i)"
    using Cons.prems by (intro Cons.IH) (simp_all add: xor_byte_def)
  then show ?case using Cons.prems get_byte_xor_byte [of j q b i] by (auto simp: nth_Cons' le_Suc_eq)
qed auto

lemma combine_bytes:
  assumes "length block \<le> 200" "length q = 25"
  shows "combine block (bytes_of_lanes q) = bytes_of_lanes (xor_bytes_at 0 block q)"
  using assms by (intro nth_equalityI)
    (auto simp: combine_def bytes_of_lanes_eq get_byte_xor_bytes_at nth_append xor.commute)

lemma length_chunks: "b \<in> set (chunks rate bs) \<Longrightarrow> length b \<le> rate"
  by (induction rate bs rule: chunks.induct) (subst (asm) chunks.simps, auto split: if_splits)

lemma sponge_states:
  assumes "\<forall>b\<in>set blocks. length b \<le> 200" "length q = 25"
  shows "length (fold (\<lambda>block q. sha3_keccakf (xor_bytes_at 0 block q)) blocks q) = 25 \<and>
    fold (\<lambda>block S. keccak_p (combine block S)) blocks (bytes_of_lanes q) =
    bytes_of_lanes (fold (\<lambda>block q. sha3_keccakf (xor_bytes_at 0 block q)) blocks q)"
  using assms
proof (induction blocks arbitrary: q)
  case (Cons b blocks)
  let ?q = "sha3_keccakf (xor_bytes_at 0 b q)"
  have "keccak_p (combine b (bytes_of_lanes q)) = bytes_of_lanes ?q"
    using Cons.prems by (simp add: keccak_p_def combine_bytes lanes_of_bytes_of_lanes keccakf_spec)
  moreover have "length ?q = 25" using Cons.prems by (simp add: keccakf_spec length_spec_rounds)
  ultimately show ?case using Cons.IH [of ?q] Cons.prems by simp
qed simp

lemma sha3_fips_sponge:
  assumes "0 < len" "len \<le> 66"
  shows "sha3 message len = fips_sponge (nat (200 - 2 * len)) (nat len) message"
proof -
  let ?r = "nat (200 - 2 * len)"
  define q where "q = fold (\<lambda>block q. sha3_keccakf (xor_bytes_at 0 block q))
    (chunks ?r (message @ pad_bytes ?r (length message))) (replicate 25 0)"
  have z: "bytes_of_lanes (replicate 25 0) = replicate 200 0"
    by (rule nth_equalityI) (auto simp: bytes_of_lanes_eq get_byte_def less_mult_imp_div_less)
  have "?r \<le> 200" using assms by simp
  then have "\<forall>b\<in>set (chunks ?r (message @ pad_bytes ?r (length message))). length b \<le> 200"
    by (blast intro: order_trans length_chunks)
  then have q: "fold (\<lambda>block S. keccak_p (combine block S)) (chunks ?r (message @ pad_bytes ?r (length message)))
      (replicate 200 0) = bytes_of_lanes q"
    using sponge_states [of _ "replicate 25 0"] unfolding z q_def by simp
  have "nat len \<le> ?r" "nat len \<le> 200" using assms by simp_all
  then have "fips_sponge ?r (nat len) message = map (get_byte q) [0..<nat len]"
    unfolding fips_sponge_def q by (subst squeeze.simps) (simp add: bytes_of_lanes_eq take_map min_def)
  moreover have "sha3 message len = map (get_byte q) [0..<nat len]"
    using sha3_sponge [of len message] assms by (simp add: absorbed_def q_def)
  ultimately show ?thesis by simp
qed

section \<open>Properties\<close>

text \<open>C9: The permutation, with its precomputed rotation amounts, lane order and round constants and its
  in-place updates, is the one of FIPS 202: 24 rounds of the step mappings theta, rho, pi, chi and
  iota, the offsets computed from the walk over the lanes and the constants from the shift
  register.\<close>

theorem keccakf_is_fips202:
  assumes "length A = 25"
  shows "sha3_keccakf A = fold spec_round [0..<24] A"
  using assms by (rule keccakf_spec)

theorem keccakf_is_fips202_witness:
  "sha3_keccakf (replicate 25 1) = fold spec_round [0..<24] (replicate 25 1)"
  by (rule keccakf_is_fips202) simp

text \<open>C10: For every output length up to 66 bytes, and so for the four lengths of SHA-3, \<open>sha3\<close> is the sponge of
  FIPS 202: the message with the SHA-3 suffix and pad10*1 is cut into blocks, each is combined with the first bytes of a
  state of 200 bytes and followed by the 24 rounds of the standard's step mappings, and the digest is squeezed
  out block by block. (Up to 66 bytes the output fits into the rate, and one block is enough; the code never
  squeezes a second.) The incremental absorption, which permutes as soon as a block is full, and the padding bytes
  combined in place agree with it, also when one byte takes both ends of the padding.\<close>

theorem sha3_is_sponge:
  assumes "0 < len" "len \<le> 66"
  shows "sha3 message len = fips_sponge (nat (200 - 2 * len)) (nat len) message"
  using assms by (rule sha3_fips_sponge)

theorem sha3_is_sponge_witness:
  "sha3 [1, 2, 3] 64 = fips_sponge 72 64 [1, 2, 3]"
  using sha3_is_sponge [of 64 "[1, 2, 3]"] by simp

text \<open>The digest depends on the concatenation of what was hashed only: however a message is cut into
  updates, the result is the one-call digest of the whole.\<close>

theorem sha3_streaming:
  "fst (sha3_final (fold (\<lambda>data c. sha3_update c data) parts (sha3_init len))) = sha3 (concat parts) len"
proof -
  have "sha3_update (sha3_update c xs) ys = sha3_update c (xs @ ys)" for c xs ys
    by (simp add: sha3_update_def split_beta)
  then have "fold (\<lambda>data c. sha3_update c data) parts (sha3_update c xs) = sha3_update c (xs @ concat parts)" for c xs
    by (induction parts arbitrary: xs) simp_all
  from this [of "sha3_init len" "[]"] show ?thesis by (simp add: sha3_def sha3_update_def)
qed

end
