(* ===== verification/Group25519.thy ===== *)
theory Group25519
  imports Group25519_Tables Field25519_Bytes
begin

text \<open>
  The group operations of Ed25519 (\<open>common/ed25519/ge.c\<close>), statement by statement: one record per
  coordinate system, one definition per function. The operations write their result only after they
  have read the operand it could overlap, and no caller passes overlapping points, so each is a function
  of its inputs. A \<open>signed char\<close> is an \<open>s8\<close>; in an expression it is promoted to \<open>int\<close>, whose value is
  \<open>sint\<close> (no sum or shift of the code leaves 16 bits), and storing converts back to 8 bits.
\<close>

section \<open>Points\<close>

record ge_p2 =
  p2_X :: fe
  p2_Y :: fe
  p2_Z :: fe

record ge_p3 =
  p3_X :: fe
  p3_Y :: fe
  p3_Z :: fe
  p3_T :: fe

record ge_p1p1 =
  p1_X :: fe
  p1_Y :: fe
  p1_Z :: fe
  p1_T :: fe

record ge_cached =
  YplusX :: fe
  YminusX :: fe
  cached_Z :: fe
  T2d :: fe

definition ed_d :: fe where
  "ed_d = Fe (- 10913610) 13857413 (- 15372611) 6949391 114729 (- 8787816) (- 6275908) (- 3247719)
     (- 18696448) (- 12055116)"

definition ed_d2 :: fe where
  "ed_d2 = Fe (- 21827239) (- 5839606) (- 30745221) 13898782 229458 15978800 (- 12551817) (- 6495438)
     29715968 9444199"

definition sqrtm1 :: fe where
  "sqrtm1 = Fe (- 32595792) (- 7943725) 9377950 3500415 12389472 (- 272473) (- 25146209) (- 2005654)
     326686 11406482"

section \<open>Addition and doubling\<close>

definition ge_add :: "ge_p3 \<Rightarrow> ge_cached \<Rightarrow> ge_p1p1" where
  "ge_add p q =
     (let rX = fe_add (p3_Y p) (p3_X p);
          rY = fe_sub (p3_Y p) (p3_X p);
          rZ = fe_mul rX (YplusX q);
          rY = fe_mul rY (YminusX q);
          rT = fe_mul (T2d q) (p3_T p);
          rX = fe_mul (p3_Z p) (cached_Z q);
          t0 = fe_add rX rX;
          rX = fe_sub rZ rY;
          rY = fe_add rZ rY;
          rZ = fe_add t0 rT;
          rT = fe_sub t0 rT
      in \<lparr>p1_X = rX, p1_Y = rY, p1_Z = rZ, p1_T = rT\<rparr>)"

definition ge_sub :: "ge_p3 \<Rightarrow> ge_cached \<Rightarrow> ge_p1p1" where
  "ge_sub p q =
     (let rX = fe_add (p3_Y p) (p3_X p);
          rY = fe_sub (p3_Y p) (p3_X p);
          rZ = fe_mul rX (YminusX q);
          rY = fe_mul rY (YplusX q);
          rT = fe_mul (T2d q) (p3_T p);
          rX = fe_mul (p3_Z p) (cached_Z q);
          t0 = fe_add rX rX;
          rX = fe_sub rZ rY;
          rY = fe_add rZ rY;
          rZ = fe_sub t0 rT;
          rT = fe_add t0 rT
      in \<lparr>p1_X = rX, p1_Y = rY, p1_Z = rZ, p1_T = rT\<rparr>)"

definition ge_madd :: "ge_p3 \<Rightarrow> ge_precomp \<Rightarrow> ge_p1p1" where
  "ge_madd p q =
     (let rX = fe_add (p3_Y p) (p3_X p);
          rY = fe_sub (p3_Y p) (p3_X p);
          rZ = fe_mul rX (yplusx q);
          rY = fe_mul rY (yminusx q);
          rT = fe_mul (xy2d q) (p3_T p);
          t0 = fe_add (p3_Z p) (p3_Z p);
          rX = fe_sub rZ rY;
          rY = fe_add rZ rY;
          rZ = fe_add t0 rT;
          rT = fe_sub t0 rT
      in \<lparr>p1_X = rX, p1_Y = rY, p1_Z = rZ, p1_T = rT\<rparr>)"

definition ge_msub :: "ge_p3 \<Rightarrow> ge_precomp \<Rightarrow> ge_p1p1" where
  "ge_msub p q =
     (let rX = fe_add (p3_Y p) (p3_X p);
          rY = fe_sub (p3_Y p) (p3_X p);
          rZ = fe_mul rX (yminusx q);
          rY = fe_mul rY (yplusx q);
          rT = fe_mul (xy2d q) (p3_T p);
          t0 = fe_add (p3_Z p) (p3_Z p);
          rX = fe_sub rZ rY;
          rY = fe_add rZ rY;
          rZ = fe_sub t0 rT;
          rT = fe_add t0 rT
      in \<lparr>p1_X = rX, p1_Y = rY, p1_Z = rZ, p1_T = rT\<rparr>)"

definition ge_p1p1_to_p2 :: "ge_p1p1 \<Rightarrow> ge_p2" where
  "ge_p1p1_to_p2 p =
     \<lparr>p2_X = fe_mul (p1_X p) (p1_T p), p2_Y = fe_mul (p1_Y p) (p1_Z p), p2_Z = fe_mul (p1_Z p) (p1_T p)\<rparr>"

definition ge_p1p1_to_p3 :: "ge_p1p1 \<Rightarrow> ge_p3" where
  "ge_p1p1_to_p3 p =
     \<lparr>p3_X = fe_mul (p1_X p) (p1_T p), p3_Y = fe_mul (p1_Y p) (p1_Z p), p3_Z = fe_mul (p1_Z p) (p1_T p),
      p3_T = fe_mul (p1_X p) (p1_Y p)\<rparr>"

definition ge_p2_0 :: ge_p2 where
  "ge_p2_0 = \<lparr>p2_X = fe_0, p2_Y = fe_1, p2_Z = fe_1\<rparr>"

definition ge_p3_0 :: ge_p3 where
  "ge_p3_0 = \<lparr>p3_X = fe_0, p3_Y = fe_1, p3_Z = fe_1, p3_T = fe_0\<rparr>"

definition ge_p2_dbl :: "ge_p2 \<Rightarrow> ge_p1p1" where
  "ge_p2_dbl p =
     (let rX = fe_sq (p2_X p);
          rZ = fe_sq (p2_Y p);
          rT = fe_sq2 (p2_Z p);
          rY = fe_add (p2_X p) (p2_Y p);
          t0 = fe_sq rY;
          rY = fe_add rZ rX;
          rZ = fe_sub rZ rX;
          rX = fe_sub t0 rY;
          rT = fe_sub rT rZ
      in \<lparr>p1_X = rX, p1_Y = rY, p1_Z = rZ, p1_T = rT\<rparr>)"

definition ge_p3_to_p2 :: "ge_p3 \<Rightarrow> ge_p2" where
  "ge_p3_to_p2 p = \<lparr>p2_X = fe_copy (p3_X p), p2_Y = fe_copy (p3_Y p), p2_Z = fe_copy (p3_Z p)\<rparr>"

definition ge_p3_dbl :: "ge_p3 \<Rightarrow> ge_p1p1" where
  "ge_p3_dbl p = (let q = ge_p3_to_p2 p in ge_p2_dbl q)"

definition ge_p3_to_cached :: "ge_p3 \<Rightarrow> ge_cached" where
  "ge_p3_to_cached p =
     \<lparr>YplusX = fe_add (p3_Y p) (p3_X p), YminusX = fe_sub (p3_Y p) (p3_X p), cached_Z = fe_copy (p3_Z p),
      T2d = fe_mul (p3_T p) ed_d2\<rparr>"

section \<open>Points and bytes\<close>

definition point_tobytes :: "fe \<Rightarrow> fe \<Rightarrow> fe \<Rightarrow> u8 list" where
  "point_tobytes hX hY hZ =
     (let recip = fe_invert hZ;
          x = fe_mul hX recip;
          y = fe_mul hY recip;
          s = fe_tobytes y
      in s[31 := s ! 31 XOR push_bit 7 (fe_isnegative x)])"

definition ge_p3_tobytes :: "ge_p3 \<Rightarrow> u8 list" where
  "ge_p3_tobytes h = point_tobytes (p3_X h) (p3_Y h) (p3_Z h)"

definition ge_tobytes :: "ge_p2 \<Rightarrow> u8 list" where
  "ge_tobytes h = point_tobytes (p2_X h) (p2_Y h) (p2_Z h)"

text \<open>Decoding: \<open>None\<close> is the return value -1.\<close>

definition ge_frombytes_negate_vartime :: "u8 list \<Rightarrow> ge_p3 option" where
  "ge_frombytes_negate_vartime s =
     (let hY = fe_frombytes s;
          hZ = fe_1;
          u = fe_sq hY;
          v = fe_mul u ed_d;
          u = fe_sub u hZ;
          v = fe_add v hZ;
          v3 = fe_sq v;
          v3 = fe_mul v3 v;
          hX = fe_sq v3;
          hX = fe_mul hX v;
          hX = fe_mul hX u;
          hX = fe_pow22523 hX;
          hX = fe_mul hX v3;
          hX = fe_mul hX u;
          vxx = fe_sq hX;
          vxx = fe_mul vxx v;
          root = (if fe_isnonzero (fe_sub vxx u)
                  then if fe_isnonzero (fe_add vxx u) then None else Some (fe_mul hX sqrtm1)
                  else Some hX)
      in case root of
           None \<Rightarrow> None
         | Some hX \<Rightarrow>
             let hX = (if fe_isnegative hX = drop_bit 7 (s ! 31) then fe_neg hX else hX)
             in Some \<lparr>p3_X = hX, p3_Y = hY, p3_Z = hZ, p3_T = fe_mul hX hY\<rparr>)"

section \<open>Selection from the table\<close>

type_synonym s8 = "8 word"

definition equal_s8 :: "s8 \<Rightarrow> s8 \<Rightarrow> u8" where
  "equal_s8 b c =
     (let x = b XOR c;
          y = ucast x :: u64;
          y = y - 1;
          y = drop_bit 63 y
      in ucast y)"

definition negative_s8 :: "s8 \<Rightarrow> u8" where
  "negative_s8 b = (let x = scast b :: u64; x = drop_bit 63 x in ucast x)"

definition cmov :: "ge_precomp \<Rightarrow> ge_precomp \<Rightarrow> u8 \<Rightarrow> ge_precomp" where
  "cmov t u b =
     \<lparr>yplusx = fe_cmov (yplusx t) (yplusx u) (ucast b), yminusx = fe_cmov (yminusx t) (yminusx u) (ucast b),
      xy2d = fe_cmov (xy2d t) (xy2d u) (ucast b)\<rparr>"

definition select :: "ge_precomp list list \<Rightarrow> nat \<Rightarrow> s8 \<Rightarrow> ge_precomp" where
  "select tab pos b =
     (let bnegative = negative_s8 b;
          babs = ucast (scast b - push_bit 1 (- ucast bnegative AND scast b) :: u32) :: u8;
          t = \<lparr>yplusx = fe_1, yminusx = fe_1, xy2d = fe_0\<rparr>;
          t = cmov t (tab ! pos ! 0) (equal_s8 babs 1);
          t = cmov t (tab ! pos ! 1) (equal_s8 babs 2);
          t = cmov t (tab ! pos ! 2) (equal_s8 babs 3);
          t = cmov t (tab ! pos ! 3) (equal_s8 babs 4);
          t = cmov t (tab ! pos ! 4) (equal_s8 babs 5);
          t = cmov t (tab ! pos ! 5) (equal_s8 babs 6);
          t = cmov t (tab ! pos ! 6) (equal_s8 babs 7);
          t = cmov t (tab ! pos ! 7) (equal_s8 babs 8);
          minust = \<lparr>yplusx = fe_copy (yminusx t), yminusx = fe_copy (yplusx t), xy2d = fe_neg (xy2d t)\<rparr>
      in cmov t minust bnegative)"

section \<open>Multiples of the base point\<close>

text \<open>The signed radix-16 digits: the loop state is the array \<open>e\<close> and the \<open>signed char\<close> carry.\<close>

definition nibbles :: "u8 list \<Rightarrow> s8 list" where
  "nibbles a = concat (map (\<lambda>i. [drop_bit 0 (a ! i) AND 15, drop_bit 4 (a ! i) AND 15]) [0..<32])"

definition recode_step :: "nat \<Rightarrow> s8 list \<times> s8 \<Rightarrow> s8 list \<times> s8" where
  "recode_step i s =
     (let (e, carry) = s;
          e = e[i := e ! i + carry];
          carry = word_of_int (sint (e ! i) + 8) :: s8;
          carry = word_of_int (sint carry div 2 ^ 4);
          e = e[i := e ! i - word_of_int (sint carry * 2 ^ 4)]
      in (e, carry))"

definition recode :: "u8 list \<Rightarrow> s8 list" where
  "recode a =
     (let (e, carry) = fold recode_step [0..<63] (nibbles a, 0) in e[63 := e ! 63 + carry])"

definition madd_digit :: "ge_precomp list list \<Rightarrow> s8 list \<Rightarrow> nat \<Rightarrow> ge_p3 \<Rightarrow> ge_p3" where
  "madd_digit tab e i h =
     (let t = select tab (i div 2) (e ! i); r = ge_madd h t in ge_p1p1_to_p3 r)"

definition scalarmult_with :: "ge_precomp list list \<Rightarrow> u8 list \<Rightarrow> ge_p3" where
  "scalarmult_with tab a =
     (let e = recode a;
          h = ge_p3_0;
          h = fold (madd_digit tab e) (map (\<lambda>k. 2 * k + 1) [0..<32]) h;
          r = ge_p3_dbl h;
          s = ge_p1p1_to_p2 r;
          r = ge_p2_dbl s;
          s = ge_p1p1_to_p2 r;
          r = ge_p2_dbl s;
          s = ge_p1p1_to_p2 r;
          r = ge_p2_dbl s;
          h = ge_p1p1_to_p3 r
      in fold (madd_digit tab e) (map (\<lambda>k. 2 * k) [0..<32]) h)"

definition ge_scalarmult_base :: "u8 list \<Rightarrow> ge_p3" where
  "ge_scalarmult_base a = scalarmult_with base a"

section \<open>Double scalar multiplication\<close>

text \<open>
  The sliding windows of \<open>slide\<close>. \<open>slide_carry\<close> is the innermost loop, from \<open>k\<close> to the first zero;
  \<open>slide_window\<close> the loop over \<open>b\<close>, with \<open>n\<close> the iterations that are left (\<open>b = 7 - n\<close>).
\<close>

definition bits_of :: "u8 list \<Rightarrow> s8 list" where
  "bits_of a = map (\<lambda>i. 1 AND drop_bit (i mod 8) (a ! (i div 8))) [0..<256]"

function slide_carry :: "nat \<Rightarrow> s8 list \<Rightarrow> s8 list" where
  "slide_carry k r =
     (if k < 256
      then if r ! k = 0 then r[k := 1] else slide_carry (k + 1) (r[k := 0])
      else r)"
  by pat_completeness auto
termination by (relation "Wellfounded.measure (\<lambda>(k, r). 256 - k)") auto

declare slide_carry.simps [simp del]

primrec slide_window :: "nat \<Rightarrow> nat \<Rightarrow> s8 list \<Rightarrow> s8 list" where
  "slide_window 0 i r = r"
| "slide_window (Suc n) i r =
     (let b = 7 - Suc n
      in if i + b < 256 then
           if r ! (i + b) \<noteq> 0 then
             let shifted = sint (r ! (i + b)) * 2 ^ b
             in if sint (r ! i) + shifted \<le> 15 then
                  slide_window n i ((r[i := word_of_int (sint (r ! i) + shifted)])[i + b := 0])
                else if sint (r ! i) - shifted \<ge> - 15 then
                  slide_window n i (slide_carry (i + b) (r[i := word_of_int (sint (r ! i) - shifted)]))
                else r
           else slide_window n i r
         else r)"

definition slide_step :: "nat \<Rightarrow> s8 list \<Rightarrow> s8 list" where
  "slide_step i r = (if r ! i \<noteq> 0 then slide_window 6 i r else r)"

definition slide :: "u8 list \<Rightarrow> s8 list" where
  "slide a = fold slide_step [0..<256] (bits_of a)"

definition odd_multiples :: "ge_p3 \<Rightarrow> ge_cached list" where
  "odd_multiples A =
     (let a0 = ge_p3_to_cached A;
          A2 = ge_p1p1_to_p3 (ge_p3_dbl A);
          next = (\<lambda>a. ge_p3_to_cached (ge_p1p1_to_p3 (ge_add A2 a)));
          a1 = next a0; a2 = next a1; a3 = next a2; a4 = next a3; a5 = next a4; a6 = next a5; a7 = next a6
      in [a0, a1, a2, a3, a4, a5, a6, a7])"

definition signed_step :: "(ge_p3 \<Rightarrow> 'q \<Rightarrow> ge_p1p1) \<Rightarrow> (ge_p3 \<Rightarrow> 'q \<Rightarrow> ge_p1p1) \<Rightarrow> 'q list \<Rightarrow> s8 \<Rightarrow> ge_p1p1 \<Rightarrow> ge_p1p1" where
  "signed_step add sub tab x t =
     (if 0 < sint x then add (ge_p1p1_to_p3 t) (tab ! nat (sint x div 2))
      else if sint x < 0 then sub (ge_p1p1_to_p3 t) (tab ! nat (- sint x div 2))
      else t)"

text \<open>The loop from the highest non-zero position down to 0; \<open>i\<close> iterations are left.\<close>

primrec double_loop :: "s8 list \<Rightarrow> ge_cached list \<Rightarrow> s8 list \<Rightarrow> ge_precomp list \<Rightarrow> nat \<Rightarrow> ge_p2 \<Rightarrow> ge_p2" where
  "double_loop aslide Ai bslide Bi' 0 r = r"
| "double_loop aslide Ai bslide Bi' (Suc i) r =
     (let t = ge_p2_dbl r;
          t = signed_step ge_add ge_sub Ai (aslide ! i) t;
          t = signed_step ge_madd ge_msub Bi' (bslide ! i) t
      in double_loop aslide Ai bslide Bi' i (ge_p1p1_to_p2 t))"

text \<open>The scan for the highest position where a digit is non-zero, as the number of positions to process.\<close>

primrec top_digit :: "s8 list \<Rightarrow> s8 list \<Rightarrow> nat \<Rightarrow> nat" where
  "top_digit aslide bslide 0 = 0"
| "top_digit aslide bslide (Suc i) =
     (if aslide ! i \<noteq> 0 \<or> bslide ! i \<noteq> 0 then Suc i else top_digit aslide bslide i)"

definition double_scalarmult_with :: "ge_precomp list \<Rightarrow> u8 list \<Rightarrow> ge_p3 \<Rightarrow> u8 list \<Rightarrow> ge_p2" where
  "double_scalarmult_with tab a A b =
     (let aslide = slide a;
          bslide = slide b;
          Ai = odd_multiples A;
          r = ge_p2_0;
          i = top_digit aslide bslide 256
      in double_loop aslide Ai bslide tab i r)"

definition ge_double_scalarmult_vartime :: "u8 list \<Rightarrow> ge_p3 \<Rightarrow> u8 list \<Rightarrow> ge_p2" where
  "ge_double_scalarmult_vartime a A b = double_scalarmult_with Bi a A b"

end
