(* ===== verification/Edwards25519.thy ===== *)
theory Edwards25519
  imports Group25519
begin

text \<open>
  What the point operations of \<open>Group25519\<close> compute. \<open>gf\<close> is the ring of integers modulo the prime of the
  curve, \<open>fe_gf\<close> the element a limb vector stands for. The specification is the
  point arithmetic of RFC 8032, section 5.1.4, over \<open>gf\<close>; a point of the code is \<open>tight\<close> when its limbs have the size that a
  multiplication or decoding leaves, which the operations need so that nothing wraps, and preserve.
\<close>

section \<open>Integers modulo the prime\<close>

typedef gf = "{0..<p25519}" by (auto intro!: exI [of _ 0] simp: p25519_def)

setup_lifting type_definition_gf

lemma p25519_pos: "0 < p25519" "1 < p25519" by (simp_all add: p25519_def)

instantiation gf :: comm_ring_1
begin

lift_definition zero_gf :: gf is 0 by (simp add: p25519_pos)
lift_definition one_gf :: gf is 1 by (simp add: p25519_pos)
lift_definition plus_gf :: "gf \<Rightarrow> gf \<Rightarrow> gf" is "\<lambda>a b. (a + b) mod p25519" by (simp add: p25519_pos)
lift_definition minus_gf :: "gf \<Rightarrow> gf \<Rightarrow> gf" is "\<lambda>a b. (a - b) mod p25519" by (simp add: p25519_pos)
lift_definition uminus_gf :: "gf \<Rightarrow> gf" is "\<lambda>a. (- a) mod p25519" by (simp add: p25519_pos)
lift_definition times_gf :: "gf \<Rightarrow> gf \<Rightarrow> gf" is "\<lambda>a b. (a * b) mod p25519" by (simp add: p25519_pos)

instance
  by standard (transfer; simp add: p25519_pos mod_simps algebra_simps)+

end

lemma rep_of_int: "Rep_gf (of_int x) = x mod p25519"
proof -
  have "Rep_gf (of_nat n) = int n mod p25519" for n
    by (induction n) (simp_all add: zero_gf.rep_eq plus_gf.rep_eq one_gf.rep_eq mod_simps)
  then show ?thesis
    by (cases x rule: int_diff_cases) (simp add: minus_gf.rep_eq mod_simps)
qed

lemma of_int_gf: "(of_int x :: gf) = of_int y \<longleftrightarrow> x mod p25519 = y mod p25519"
  by (simp add: Rep_gf_inject [symmetric] rep_of_int)

lemma numeral_gf: "(numeral m :: gf) = numeral n \<longleftrightarrow> numeral m mod p25519 = (numeral n :: int) mod p25519"
  using of_int_gf [of "numeral m" "numeral n"] by simp

definition fe_gf :: "fe \<Rightarrow> gf" where "fe_gf f = of_int (fe_val f)"

section \<open>Field operations\<close>

text \<open>\<open>fe_sum k\<close> bounds a sum of \<open>k\<close> products or decoded values, \<open>fe_ok\<close> the operands of a product; a sum of three is one.\<close>

definition fe_sum :: "int \<Rightarrow> fe \<Rightarrow> bool" where "fe_sum k = fe_bound (k * 17825792)"
definition fe_ok :: "fe \<Rightarrow> bool" where "fe_ok = fe_bound fe_max"

lemma fe_sum_mono [simp]: "fe_sum 1 f \<Longrightarrow> fe_sum 2 f" "fe_sum 2 f \<Longrightarrow> fe_ok f"
  by (auto simp: fe_sum_def fe_ok_def fe_max_def elim: fe_bound_mono)

lemma tight_sum: "fe_bound fe_tight f \<Longrightarrow> fe_sum 1 f"
  by (auto simp: fe_sum_def fe_tight_def elim: fe_bound_mono)

lemma gf_mul [simp]:
  assumes "fe_ok f" "fe_ok g"
  shows "fe_gf (fe_mul f g) = fe_gf f * fe_gf g" "fe_sum 1 (fe_mul f g)"
  using fe_mul_ok [OF assms [unfolded fe_ok_def] order_refl order_refl]
  by (simp_all add: tight_sum fe_gf_def of_int_gf flip: of_int_mult)

lemma gf_sq [simp]:
  assumes "fe_ok f"
  shows "fe_gf (fe_sq f) = fe_gf f * fe_gf f" "fe_sum 1 (fe_sq f)"
  using fe_sq_is_mul [OF assms [unfolded fe_ok_def] order_refl] gf_mul [OF assms assms] by simp_all

lemma gf_sq2 [simp]:
  assumes "fe_ok f"
  shows "fe_gf (fe_sq2 f) = 2 * (fe_gf f * fe_gf f)" "fe_sum 1 (fe_sq2 f)"
proof -
  note ok = fe_sq2_ok [OF assms [unfolded fe_ok_def] order_refl]
  then show "fe_sum 1 (fe_sq2 f)" by (simp add: tight_sum)
  have "fe_gf (fe_sq2 f) = of_int (2 * (fe_val f * fe_val f))" using ok(1) by (simp only: fe_gf_def of_int_gf)
  then show "fe_gf (fe_sq2 f) = 2 * (fe_gf f * fe_gf f)" by (simp add: fe_gf_def)
qed

lemma gf_add_sub:
  assumes "fe_bound B f" "fe_bound C g" "B + C < 2 ^ 30"
  shows "fe_gf (fe_add f g) = fe_gf f + fe_gf g" "fe_bound (B + C) (fe_add f g)"
    "fe_gf (fe_sub f g) = fe_gf f - fe_gf g" "fe_bound (B + C) (fe_sub f g)"
  using fe_add_ok [OF assms] fe_sub_ok [OF assms] by (simp_all only: fe_gf_def of_int_add of_int_diff)

lemma fe_sum_add_sub [simp]:
  "fe_sum 1 f \<Longrightarrow> fe_sum 1 g \<Longrightarrow> fe_sum 2 (fe_add f g)" "fe_sum 1 f \<Longrightarrow> fe_sum 1 g \<Longrightarrow> fe_sum 2 (fe_sub f g)"
  using gf_add_sub [of "17825792" f "17825792" g] by (simp_all add: fe_sum_def)

lemma fe_ok_add_sub [simp]:
  "fe_sum 2 f \<Longrightarrow> fe_sum 1 g \<Longrightarrow> fe_ok (fe_add f g)" "fe_sum 1 f \<Longrightarrow> fe_sum 2 g \<Longrightarrow> fe_ok (fe_add f g)"
  "fe_sum 2 f \<Longrightarrow> fe_sum 1 g \<Longrightarrow> fe_ok (fe_sub f g)" "fe_sum 1 f \<Longrightarrow> fe_sum 2 g \<Longrightarrow> fe_ok (fe_sub f g)"
  using gf_add_sub(2,4) [of "35651584" f "17825792" g] gf_add_sub(2,4) [of "17825792" f "35651584" g]
  by (auto simp: fe_sum_def fe_ok_def fe_max_def elim: fe_bound_mono)

lemma gf_sum [simp]:
  assumes "fe_ok f" "fe_ok g"
  shows "fe_gf (fe_add f g) = fe_gf f + fe_gf g" "fe_gf (fe_sub f g) = fe_gf f - fe_gf g"
  using gf_add_sub [OF assms [unfolded fe_ok_def]] by (simp_all add: fe_max_def)

lemma gf_neg [simp]:
  assumes "fe_sum 1 f"
  shows "fe_gf (fe_neg f) = - fe_gf f" "fe_sum 1 (fe_neg f)"
  using fe_neg_ok [OF assms [unfolded fe_sum_def]] by (simp_all add: fe_gf_def fe_sum_def)

lemma gf_const [simp]:
  "fe_gf fe_0 = 0" "fe_gf fe_1 = 1" "fe_sum 1 fe_0" "fe_sum 1 fe_1" "fe_copy f = f"
  by (simp_all add: fe_gf_def fe_sum_def fe_val_Fe fe_0_def fe_1_def fe_bound_Fe) (cases f; simp)

section \<open>The point arithmetic of RFC 8032\<close>

text \<open>Extended homogeneous coordinates: \<open>(X, Y, Z, T)\<close> with \<open>x = X / Z\<close>, \<open>y = Y / Z\<close>, \<open>x * y = T / Z\<close>.\<close>

record ed_point =
  ed_X :: gf
  ed_Y :: gf
  ed_Z :: gf
  ed_T :: gf

definition curve_d :: gf where
  "curve_d = 37095705934669439343138083508754565189542113879843219016388785533085940283555"

definition ed_zero :: ed_point where
  "ed_zero = \<lparr>ed_X = 0, ed_Y = 1, ed_Z = 1, ed_T = 0\<rparr>"

definition ed_neg :: "ed_point \<Rightarrow> ed_point" where
  "ed_neg P = P\<lparr>ed_X := - ed_X P, ed_T := - ed_T P\<rparr>"

definition ed_add :: "ed_point \<Rightarrow> ed_point \<Rightarrow> ed_point" where
  "ed_add P Q =
     (let A = (ed_Y P - ed_X P) * (ed_Y Q - ed_X Q);
          B = (ed_Y P + ed_X P) * (ed_Y Q + ed_X Q);
          C = ed_T P * 2 * curve_d * ed_T Q;
          D = ed_Z P * 2 * ed_Z Q;
          E = B - A; F = D - C; G = D + C; H = B + A
      in \<lparr>ed_X = E * F, ed_Y = G * H, ed_Z = F * G, ed_T = E * H\<rparr>)"

definition ed_double :: "ed_point \<Rightarrow> ed_point" where
  "ed_double P =
     (let A = ed_X P * ed_X P;
          B = ed_Y P * ed_Y P;
          C = 2 * (ed_Z P * ed_Z P);
          H = A + B;
          E = H - (ed_X P + ed_Y P) * (ed_X P + ed_Y P);
          G = A - B;
          F = C + G
      in \<lparr>ed_X = E * F, ed_Y = G * H, ed_Z = F * G, ed_T = E * H\<rparr>)"

text \<open>The curve \<open>- x^2 + y^2 = 1 + d x^2 y^2\<close>.\<close>

definition on_curve :: "ed_point \<Rightarrow> bool" where
  "on_curve P \<longleftrightarrow> ed_X P * ed_Y P = ed_Z P * ed_T P \<and>
     ed_Y P * ed_Y P - ed_X P * ed_X P = ed_Z P * ed_Z P + curve_d * (ed_T P * ed_T P)"

text \<open>The same point with all coordinates negated.\<close>

definition ed_flip :: "ed_point \<Rightarrow> ed_point" where
  "ed_flip P = \<lparr>ed_X = - ed_X P, ed_Y = - ed_Y P, ed_Z = - ed_Z P, ed_T = - ed_T P\<rparr>"

lemma flip_simps:
  "ed_flip (ed_flip P) = P" "ed_add (ed_flip P) Q = ed_add P Q" "ed_add P (ed_flip Q) = ed_add P Q"
  "ed_double (ed_flip P) = ed_double P" "on_curve (ed_flip P) = on_curve P" "ed_neg (ed_flip P) = ed_flip (ed_neg P)"
  by (simp_all add: ed_flip_def ed_add_def ed_double_def ed_neg_def on_curve_def Let_def algebra_simps)

text \<open>The addition law keeps the curve; \<open>z\<close>, \<open>t\<close>, \<open>e\<close>, \<open>h\<close> are \<open>D / 2\<close>, \<open>C / (2 * d)\<close>, \<open>E / 2\<close>, \<open>H / 2\<close> of the RFC.\<close>

lemma curve_sum:
  fixes x1 y1 z1 t1 x2 y2 z2 t2 d :: "'a :: comm_ring_1"
  assumes p: "x1 * y1 = z1 * t1" "y1 * y1 - x1 * x1 = z1 * z1 + d * (t1 * t1)"
    and q: "x2 * y2 = z2 * t2" "y2 * y2 - x2 * x2 = z2 * z2 + d * (t2 * t2)"
  defines "e \<equiv> x1 * y2 + y1 * x2" and "h \<equiv> y1 * y2 + x1 * x2"
    and "z \<equiv> z1 * z2" and "t \<equiv> t1 * t2"
  shows "(z + d * t) * (z + d * t) * (h * h) - (z - d * t) * (z - d * t) * (e * e) =
    (z * z - d * d * (t * t)) * (z * z - d * d * (t * t)) + d * ((e * e) * (h * h))"
proof -
  define S1 D1 where "S1 = y1 * y1 + x1 * x1" and "D1 = z1 * z1 + d * (t1 * t1)"
  define S2 D2 where "S2 = y2 * y2 + x2 * x2" and "D2 = z2 * z2 + d * (t2 * t2)"
  have sub: "h * h - e * e = D1 * D2"
    unfolding D1_def D2_def p(2) [symmetric] q(2) [symmetric] by (simp add: e_def h_def algebra_simps)
  have "h * h + e * e = S1 * S2 + 4 * ((x1 * y1) * (x2 * y2))"
    by (simp add: e_def h_def S1_def S2_def algebra_simps)
  then have add: "h * h + e * e = S1 * S2 + 4 * (z * t)" by (simp add: p(1) q(1) z_def t_def mult_ac)
  have "e * h = (x1 * y1) * S2 + (x2 * y2) * S1" by (simp add: e_def h_def S1_def S2_def algebra_simps)
  then have eh: "e * h = z1 * t1 * S2 + z2 * t2 * S1" by (simp add: p(1) q(1))
  have "S1 * S1 = (y1 * y1 - x1 * x1) * (y1 * y1 - x1 * x1) + 4 * ((x1 * y1) * (x1 * y1))"
    by (simp add: S1_def algebra_simps)
  then have S1: "S1 * S1 = D1 * D1 + 4 * (z1 * t1 * (z1 * t1))" by (simp only: p D1_def)
  have "S2 * S2 = (y2 * y2 - x2 * x2) * (y2 * y2 - x2 * x2) + 4 * ((x2 * y2) * (x2 * y2))"
    by (simp add: S2_def algebra_simps)
  then have S2: "S2 * S2 = D2 * D2 + 4 * (z2 * t2 * (z2 * t2))" by (simp only: q D2_def)
  have "(e * e) * (h * h) = (e * h) * (e * h)" by (simp add: mult_ac)
  also have "\<dots> = (z1 * t1) * (z1 * t1) * (S2 * S2) + (z2 * t2) * (z2 * t2) * (S1 * S1) + 2 * (z * t) * (S1 * S2)"
    unfolding eh by (simp add: z_def t_def algebra_simps)
  finally have prod: "(e * e) * (h * h) =
      (z1 * t1) * (z1 * t1) * (D2 * D2 + 4 * (z2 * t2 * (z2 * t2))) +
      (z2 * t2) * (z2 * t2) * (D1 * D1 + 4 * (z1 * t1 * (z1 * t1))) + 2 * (z * t) * (S1 * S2)"
    by (simp only: S1 S2)
  have "(z + d * t) * (z + d * t) * (h * h) - (z - d * t) * (z - d * t) * (e * e) =
      (z * z + d * d * (t * t)) * (h * h - e * e) + 2 * d * (z * t) * (h * h + e * e)"
    by (simp add: algebra_simps)
  also have "\<dots> = (z * z + d * d * (t * t)) * (D1 * D2) + 2 * d * (z * t) * (S1 * S2 + 4 * (z * t))"
    by (simp only: sub add)
  also have "\<dots> = (z * z - d * d * (t * t)) * (z * z - d * d * (t * t)) + d * ((e * e) * (h * h))"
    unfolding prod by (simp add: D1_def D2_def z_def t_def algebra_simps)
  finally show ?thesis .
qed
lemma on_curve_efgh:
  assumes "(g * g) * (h * h) - (f * f) * (e * e) = (f * g) * (f * g) + curve_d * ((e * e) * (h * h))"
  shows "on_curve \<lparr>ed_X = e * f, ed_Y = g * h, ed_Z = f * g, ed_T = e * h\<rparr>"
    "on_curve \<lparr>ed_X = (2 * e) * (2 * f), ed_Y = (2 * g) * (2 * h), ed_Z = (2 * f) * (2 * g), ed_T = (2 * e) * (2 * h)\<rparr>"
proof -
  have "g * h * (g * h) - e * f * (e * f) = f * g * (f * g) + curve_d * (e * h * (e * h))"
    using assms by (simp add: mult_ac)
  then have a: "e * f * (g * h) = f * g * (e * h)"
      "g * h * (g * h) - e * f * (e * f) = f * g * (f * g) + curve_d * (e * h * (e * h))"
    by (simp_all add: mult_ac)
  then show "on_curve \<lparr>ed_X = e * f, ed_Y = g * h, ed_Z = f * g, ed_T = e * h\<rparr>" by (simp add: on_curve_def)
  have four: "(2 * a) * (2 * b) = 4 * (a * b)" "(4 * a) * (4 * b) = 16 * (a * b)" for a b :: gf
    by (simp_all add: mult_ac)
  have "16 * (g * h * (g * h)) - 16 * (e * f * (e * f)) = 16 * (f * g * (f * g)) + curve_d * (16 * (e * h * (e * h)))"
    using arg_cong [OF a(2), of "\<lambda>x. 16 * x"] by (simp only: right_diff_distrib distrib_left mult.left_commute [of _ curve_d])
  then show "on_curve \<lparr>ed_X = (2 * e) * (2 * f), ed_Y = (2 * g) * (2 * h), ed_Z = (2 * f) * (2 * g), ed_T = (2 * e) * (2 * h)\<rparr>"
    using a(1) by (simp only: on_curve_def ed_point.simps four)
qed

lemma ed_add_on_curve:
  assumes "on_curve P" "on_curve Q"
  shows "on_curve (ed_add P Q)"
proof -
  let ?e = "ed_X P * ed_Y Q + ed_Y P * ed_X Q" and ?h = "ed_Y P * ed_Y Q + ed_X P * ed_X Q"
  let ?z = "ed_Z P * ed_Z Q" and ?t = "ed_T P * ed_T Q"
  let ?u = "?z - curve_d * ?t" and ?v = "?z + curve_d * ?t"
  have sum: "ed_add P Q = \<lparr>ed_X = (2 * ?e) * (2 * ?u), ed_Y = (2 * ?v) * (2 * ?h), ed_Z = (2 * ?u) * (2 * ?v), ed_T = (2 * ?e) * (2 * ?h)\<rparr>"
    by (simp add: ed_add_def Let_def algebra_simps)
  have "?v * ?v * (?h * ?h) - ?u * ?u * (?e * ?e) =
      (?z * ?z - curve_d * curve_d * (?t * ?t)) * (?z * ?z - curve_d * curve_d * (?t * ?t)) + curve_d * ((?e * ?e) * (?h * ?h))"
    by (rule curve_sum) (use assms in \<open>simp_all add: on_curve_def\<close>)
  also have "?z * ?z - curve_d * curve_d * (?t * ?t) = ?u * ?v" by (simp add: algebra_simps)
  finally show ?thesis unfolding sum by (rule on_curve_efgh(2))
qed

lemma ed_double_on_curve:
  assumes "on_curve P"
  shows "on_curve (ed_double P)"
proof -
  let ?x = "ed_X P" and ?y = "ed_Y P" and ?z = "ed_Z P" and ?t = "ed_T P"
  let ?H = "?x * ?x + ?y * ?y" and ?E = "- (2 * (?x * ?y))" and ?G = "?x * ?x - ?y * ?y" and ?F = "?z * ?z - curve_d * (?t * ?t)"
  have p: "?x * ?y = ?z * ?t" "?G = - (?z * ?z + curve_d * (?t * ?t))"
    using assms by (simp_all add: on_curve_def algebra_simps)
  have "2 * (?z * ?z) + ?G = ?F" unfolding p by (simp add: algebra_simps)
  then have dbl: "ed_double P = \<lparr>ed_X = ?E * ?F, ed_Y = ?G * ?H, ed_Z = ?F * ?G, ed_T = ?E * ?H\<rparr>"
    unfolding ed_double_def Let_def by (simp only:) (simp add: algebra_simps)
  have H: "?H * ?H = ?G * ?G + ?E * ?E" by (simp add: algebra_simps)
  have G: "?G * ?G = ?F * ?F + curve_d * (?E * ?E)" unfolding p by (simp add: algebra_simps)
  have alg: "g * h - f * e = f * g + d * (e * h)" if "h = g + e" "g = f + d * e" for d e f g h :: gf
    using that by (simp add: algebra_simps)
  have "(?G * ?G) * (?H * ?H) - (?F * ?F) * (?E * ?E) = (?F * ?F) * (?G * ?G) + curve_d * ((?E * ?E) * (?H * ?H))"
    using H G by (rule alg)
  also have "(?F * ?F) * (?G * ?G) = (?F * ?G) * (?F * ?G)" by (simp only: mult_ac)
  finally show ?thesis unfolding dbl by (rule on_curve_efgh(1))
qed

section \<open>The operations of the code\<close>

definition tight :: "ge_p3 \<Rightarrow> bool" where
  "tight p \<longleftrightarrow> fe_sum 1 (p3_X p) \<and> fe_sum 1 (p3_Y p) \<and> fe_sum 1 (p3_Z p) \<and> fe_sum 1 (p3_T p)"

definition point_of :: "ge_p3 \<Rightarrow> ed_point" where
  "point_of p = \<lparr>ed_X = fe_gf (p3_X p), ed_Y = fe_gf (p3_Y p), ed_Z = fe_gf (p3_Z p), ed_T = fe_gf (p3_T p)\<rparr>"

text \<open>Table entries: \<open>(y + x, y - x, 2 d x y)\<close>. \<open>ed_madd\<close> adds one to a point.\<close>

record niels =
  n_plus :: gf
  n_minus :: gf
  n_xy2d :: gf

definition niels_of :: "ge_precomp \<Rightarrow> niels" where
  "niels_of q = \<lparr>n_plus = fe_gf (yplusx q), n_minus = fe_gf (yminusx q), n_xy2d = fe_gf (xy2d q)\<rparr>"

definition tight_precomp :: "ge_precomp \<Rightarrow> bool" where
  "tight_precomp q \<longleftrightarrow> fe_sum 1 (yplusx q) \<and> fe_sum 1 (yminusx q) \<and> fe_sum 1 (xy2d q)"

definition ed_madd :: "ed_point \<Rightarrow> niels \<Rightarrow> ed_point" where
  "ed_madd P q =
     (let A = (ed_Y P - ed_X P) * n_minus q;
          B = (ed_Y P + ed_X P) * n_plus q;
          C = ed_T P * n_xy2d q;
          D = ed_Z P * 2;
          E = B - A; F = D - C; G = D + C; H = B + A
      in \<lparr>ed_X = E * F, ed_Y = G * H, ed_Z = F * G, ed_T = E * H\<rparr>)"

definition niels_affine :: "gf \<Rightarrow> gf \<Rightarrow> niels" where
  "niels_affine x y = \<lparr>n_plus = y + x, n_minus = y - x, n_xy2d = 2 * curve_d * (x * y)\<rparr>"

lemma ed_madd_affine: "ed_madd P (niels_affine x y) = ed_add P \<lparr>ed_X = x, ed_Y = y, ed_Z = 1, ed_T = x * y\<rparr>"
  by (simp add: ed_madd_def ed_add_def niels_affine_def Let_def mult_ac)

lemma ed_d_gf [simp]: "fe_gf ed_d = curve_d" "fe_gf ed_d2 = 2 * curve_d" "fe_sum 1 ed_d" "fe_sum 1 ed_d2"
proof -
  have "(of_int (fe_val ed_d) :: gf) = of_int 37095705934669439343138083508754565189542113879843219016388785533085940283555"
    unfolding of_int_gf by (simp add: ed_d_def fe_val_Fe p25519_def)
  then show "fe_gf ed_d = curve_d" by (simp add: fe_gf_def curve_d_def)
  have "(of_int (fe_val ed_d2) :: gf) = of_int (2 * 37095705934669439343138083508754565189542113879843219016388785533085940283555)"
    unfolding of_int_gf by (simp add: ed_d2_def fe_val_Fe p25519_def)
  then have "fe_gf ed_d2 = of_int 2 * of_int 37095705934669439343138083508754565189542113879843219016388785533085940283555"
    unfolding fe_gf_def by (simp only: of_int_mult)
  then show "fe_gf ed_d2 = 2 * curve_d" by (simp add: curve_d_def)
qed (simp_all add: ed_d_def ed_d2_def fe_bound_Fe fe_sum_def)

definition p1p1_ok :: "ge_p1p1 \<Rightarrow> bool" where
  "p1p1_ok r \<longleftrightarrow> fe_ok (p1_X r) \<and> fe_ok (p1_Y r) \<and> fe_ok (p1_Z r) \<and> fe_ok (p1_T r)"

lemma to_p3:
  assumes "p1p1_ok r"
  shows "tight (ge_p1p1_to_p3 r)"
    "point_of (ge_p1p1_to_p3 r) =
      \<lparr>ed_X = fe_gf (p1_X r) * fe_gf (p1_T r), ed_Y = fe_gf (p1_Y r) * fe_gf (p1_Z r),
       ed_Z = fe_gf (p1_Z r) * fe_gf (p1_T r), ed_T = fe_gf (p1_X r) * fe_gf (p1_Y r)\<rparr>"
  using assms by (simp_all add: p1p1_ok_def tight_def point_of_def ge_p1p1_to_p3_def)

text \<open>The operands of \<open>ge_add\<close> and \<open>ge_sub\<close> are points prepared by \<open>ge_p3_to_cached\<close>.\<close>

lemma ge_add_ok:
  assumes "tight p" "tight q"
  defines "r \<equiv> ge_p1p1_to_p3 (ge_add p (ge_p3_to_cached q))"
  shows "tight r" "point_of r = ed_add (point_of p) (point_of q)"
proof -
  have "p1p1_ok (ge_add p (ge_p3_to_cached q))"
    using assms(1,2) by (simp add: p1p1_ok_def ge_add_def ge_p3_to_cached_def tight_def Let_def)
  from to_p3 [OF this] show "tight r" "point_of r = ed_add (point_of p) (point_of q)"
    using assms(1,2) by (simp_all add: r_def ge_add_def ge_p3_to_cached_def tight_def point_of_def ed_add_def Let_def mult_ac)
qed

lemma ge_sub_ok:
  assumes "tight p" "tight q"
  defines "r \<equiv> ge_p1p1_to_p3 (ge_sub p (ge_p3_to_cached q))"
  shows "tight r" "point_of r = ed_add (point_of p) (ed_neg (point_of q))"
proof -
  have "p1p1_ok (ge_sub p (ge_p3_to_cached q))"
    using assms(1,2) by (simp add: p1p1_ok_def ge_sub_def ge_p3_to_cached_def tight_def Let_def)
  from to_p3 [OF this] show "tight r" "point_of r = ed_add (point_of p) (ed_neg (point_of q))"
    using assms(1,2)
    by (simp_all add: r_def ge_sub_def ge_p3_to_cached_def tight_def point_of_def ed_add_def ed_neg_def Let_def mult_ac)
qed

lemma ge_madd_ok:
  assumes "tight p" "tight_precomp q"
  defines "r \<equiv> ge_p1p1_to_p3 (ge_madd p q)"
  shows "tight r" "point_of r = ed_madd (point_of p) (niels_of q)"
proof -
  have "p1p1_ok (ge_madd p q)"
    using assms(1,2) by (simp add: p1p1_ok_def ge_madd_def tight_def tight_precomp_def Let_def)
  from to_p3 [OF this] show "tight r" "point_of r = ed_madd (point_of p) (niels_of q)"
    using assms(1,2)
    by (simp_all add: r_def ge_madd_def tight_def tight_precomp_def point_of_def niels_of_def ed_madd_def Let_def mult_ac)
qed

text \<open>Doubling reads three coordinates; \<open>proj q P\<close> says that \<open>q\<close> has those of \<open>P\<close>. The code computes the
  coordinates of the RFC negated.\<close>

definition proj :: "ge_p2 \<Rightarrow> ed_point \<Rightarrow> bool" where
  "proj q P \<longleftrightarrow> fe_sum 1 (p2_X q) \<and> fe_sum 1 (p2_Y q) \<and> fe_sum 1 (p2_Z q) \<and>
     fe_gf (p2_X q) = ed_X P \<and> fe_gf (p2_Y q) = ed_Y P \<and> fe_gf (p2_Z q) = ed_Z P"

lemma ge_p2_dbl_ok:
  assumes "proj q P"
  shows "p1p1_ok (ge_p2_dbl q)" "point_of (ge_p1p1_to_p3 (ge_p2_dbl q)) = ed_flip (ed_double P)"
proof -
  show ok: "p1p1_ok (ge_p2_dbl q)" using assms by (simp add: p1p1_ok_def ge_p2_dbl_def proj_def Let_def)
  show "point_of (ge_p1p1_to_p3 (ge_p2_dbl q)) = ed_flip (ed_double P)"
    unfolding to_p3(2) [OF ok] using assms
    by (simp add: ge_p2_dbl_def proj_def ed_double_def ed_flip_def Let_def) (simp add: algebra_simps)
qed

lemma to_p2:
  assumes "p1p1_ok r" "point_of (ge_p1p1_to_p3 r) = P"
  shows "proj (ge_p1p1_to_p2 r) P"
  using assms to_p3 [OF assms(1)]
  by (auto simp: proj_def ge_p1p1_to_p2_def ge_p1p1_to_p3_def p1p1_ok_def tight_def point_of_def)

lemma ge_p3_to_p2_ok: "tight p \<Longrightarrow> proj (ge_p3_to_p2 p) (point_of p)"
  by (simp add: proj_def ge_p3_to_p2_def tight_def point_of_def)

lemma ge_p3_dbl_ok:
  assumes "tight p"
  shows "p1p1_ok (ge_p3_dbl p)" "point_of (ge_p1p1_to_p3 (ge_p3_dbl p)) = ed_flip (ed_double (point_of p))"
  using ge_p2_dbl_ok [OF ge_p3_to_p2_ok [OF assms]] by (simp_all add: ge_p3_dbl_def)

text \<open>Four doublings in a row, as between the two halves of \<open>ge_scalarmult_base\<close>.\<close>

lemma four_doublings:
  assumes "tight h"
  defines "r \<equiv> ge_p1p1_to_p3 (ge_p2_dbl (ge_p1p1_to_p2 (ge_p2_dbl (ge_p1p1_to_p2 (ge_p2_dbl (ge_p1p1_to_p2 (ge_p3_dbl h)))))))"
  shows "tight r" "point_of r = ed_flip ((ed_double ^^ 4) (point_of h))"
proof -
  note 1 = ge_p3_dbl_ok [OF assms(1)]
  note 2 = ge_p2_dbl_ok [OF to_p2 [OF 1]]
  note 3 = ge_p2_dbl_ok [OF to_p2 [OF 2]]
  note 4 = ge_p2_dbl_ok [OF to_p2 [OF 3]]
  show "tight r" unfolding r_def using 4(1) by (rule to_p3(1))
  show "point_of r = ed_flip ((ed_double ^^ 4) (point_of h))"
    unfolding r_def 4(2) by (simp add: flip_simps eval_nat_numeral)
qed

section \<open>Properties\<close>

text \<open>The base point of the curve.\<close>

definition base_point :: ge_p3 where
  "base_point =
     \<lparr>p3_X = Fe (- 14297830) (- 7645148) 16144683 (- 16471763) 27570974 (- 2696100) (- 26142465) 8378389 20764389 8758491,
      p3_Y = Fe (- 26843541) (- 6710886) 13421773 (- 13421773) 26843546 6710886 (- 13421773) 13421773 (- 26843546) (- 6710886),
      p3_Z = fe_1,
      p3_T = Fe 28827062 (- 6116119) (- 27349572) 244363 8635006 11264893 19351346 13413597 16611511 (- 6414980)\<rparr>"

lemma base_point_ok: "tight base_point" "on_curve (point_of base_point)"
proof -
  show "tight base_point"
    by (simp add: tight_def base_point_def fe_sum_def fe_bound_Fe fe_1_def)
  let ?x = "fe_val (p3_X base_point)" and ?y = "fe_val (p3_Y base_point)" and ?t = "fe_val (p3_T base_point)"
  let ?d = "37095705934669439343138083508754565189542113879843219016388785533085940283555 :: int"
  have xyt: "?x = (15112221349535400772501151409588531511454012693041857206046113283949847762202)"
    "?y = (- 11579208923731619542357098500868790785326998466564056403945758400791312963989)"
    "?t = (- 11068640767834918466713275874066756361490786778694627043054626174422747718218)"
    by (simp_all add: base_point_def fe_val_Fe)
  have same: "(of_int a :: gf) = of_int b" if "a = b + k * p25519" for a b k
    unfolding of_int_gf that by simp
  have "(of_int (?x * ?y) :: gf) = of_int ?t"
    by (rule same [where k = "(- 3022444269907080154500230281917706302290802538608371441209222656789969552440)"]) (simp add: xyt p25519_def)
  moreover have "(of_int (?t * ?t) :: gf) = of_int 30655112042971184558329056706696549839726511367961720624960021019854854290862"
    by (rule same [where k = "(2116117072493315965441734697525754744171263260782912251500330643560917183438)"]) (simp add: xyt p25519_def)
  moreover have "(of_int (?y * ?y - ?x * ?x) :: gf) = of_int (1 + ?d * 30655112042971184558329056706696549839726511367961720624960021019854854290862)"
    by (rule same [where k = "(- 21270437120007753978728036529436204263573756182464973701929790746597560518606)"]) (simp add: xyt p25519_def)
  moreover have "fe_gf (p3_Z base_point) = 1" by (simp add: base_point_def)
  moreover have "curve_d = of_int ?d" by (simp add: curve_d_def)
  ultimately show "on_curve (point_of base_point)"
    by (simp only: on_curve_def point_of_def ed_point.simps fe_gf_def of_int_mult of_int_diff of_int_add of_int_1 mult_1_left simp_thms)
qed

text \<open>C20: The point operations compute those of RFC 8032. Addition and subtraction of a point prepared by
  \<open>ge_p3_to_cached\<close>, and doubling, return after conversion the coordinates of the RFC's formulas (for a
  doubling all four negated, which is the same point), and no limb grows beyond what the next operation accepts.\<close>

theorem point_ops_are_rfc8032:
  assumes "tight p" "tight q"
  shows "point_of (ge_p1p1_to_p3 (ge_add p (ge_p3_to_cached q))) = ed_add (point_of p) (point_of q) \<and>
    point_of (ge_p1p1_to_p3 (ge_sub p (ge_p3_to_cached q))) = ed_add (point_of p) (ed_neg (point_of q)) \<and>
    point_of (ge_p1p1_to_p3 (ge_p3_dbl p)) = ed_flip (ed_double (point_of p)) \<and>
    tight (ge_p1p1_to_p3 (ge_add p (ge_p3_to_cached q))) \<and> tight (ge_p1p1_to_p3 (ge_sub p (ge_p3_to_cached q))) \<and>
    tight (ge_p1p1_to_p3 (ge_p3_dbl p))"
  using ge_add_ok [OF assms] ge_sub_ok [OF assms] ge_p3_dbl_ok [OF assms(1)] to_p3(1) by simp

lemma point_ops_are_rfc8032_witness:
  "point_of (ge_p1p1_to_p3 (ge_add base_point (ge_p3_to_cached base_point))) =
     ed_add (point_of base_point) (point_of base_point) \<and> tight (ge_p1p1_to_p3 (ge_p3_dbl base_point))"
  using point_ops_are_rfc8032 [OF base_point_ok(1) base_point_ok(1)] by blast

text \<open>C22: The point operations stay on the curve: sums, differences and doubles of points on
  \<open>- x^2 + y^2 = 1 + d x^2 y^2\<close> with \<open>x y = t\<close> are on it.\<close>

theorem point_ops_stay_on_curve:
  assumes "tight p" "tight q" "on_curve (point_of p)" "on_curve (point_of q)"
  shows "on_curve (point_of (ge_p1p1_to_p3 (ge_add p (ge_p3_to_cached q)))) \<and>
    on_curve (point_of (ge_p1p1_to_p3 (ge_sub p (ge_p3_to_cached q)))) \<and>
    on_curve (point_of (ge_p1p1_to_p3 (ge_p3_dbl p)))"
proof -
  have "on_curve (ed_neg (point_of q))" using assms(4) by (simp add: on_curve_def ed_neg_def)
  then show ?thesis
    using assms ge_add_ok(2) [OF assms(1,2)] ge_sub_ok(2) [OF assms(1,2)] ge_p3_dbl_ok(2) [OF assms(1)]
    by (simp add: ed_add_on_curve ed_double_on_curve flip_simps)
qed

lemma point_ops_stay_on_curve_witness:
  "on_curve (point_of (ge_p1p1_to_p3 (ge_p3_dbl base_point)))"
  using point_ops_stay_on_curve [OF base_point_ok(1) base_point_ok(1) base_point_ok(2) base_point_ok(2)] by blast

end
