(* ===== verification/Scalarmult25519.thy ===== *)
theory Scalarmult25519
  imports Edwards25519
begin

text \<open>
  What \<open>ge_scalarmult_base\<close> of \<open>Group25519\<close> computes, in the terms of \<open>Edwards25519\<close>. The selection from the table without
  branches is a lookup of a signed multiple; the recoding of the scalar yields 64 digits between -8 and 8 with
  the scalar as their value in radix 16; the rest is additions and doublings on points.
\<close>

section \<open>Selection from the table\<close>

lemma equal_s8_eq: "equal_s8 b c = of_bool (b = c)"
proof (cases "b = c")
  case True
  have "drop_bit 63 (- 1 :: u64) = 1" by (rule bit_word_eqI) (auto simp: bit_drop_bit_eq bit_1_iff)
  then show ?thesis using True by (simp add: equal_s8_def)
next
  case False
  let ?y = "ucast (b XOR c) :: u64"
  have "b XOR c \<noteq> 0"
  proof
    assume "b XOR c = 0"
    then show False using False xor_cancel_left [of b c] by simp
  qed
  then have "0 < unat (b XOR c)" using unat_gt_0 by blast
  moreover have y: "unat ?y = unat (b XOR c)" using unsigned_less [of "b XOR c", where 'a = nat] by (simp add: unsigned_ucast_eq take_bit_nat_eq_self)
  moreover have "unat (b XOR c) < 256" using unsigned_less [of "b XOR c", where 'a = nat] by simp
  ultimately have "0 < unat ?y" "unat ?y < 256" by simp_all
  then have "?y \<noteq> 0" using unat_gt_0 by blast
  then have "unat (?y - 1) < 2 ^ 63" using \<open>unat ?y < 256\<close> unat_minus_one [of ?y] by simp
  then have "unat (drop_bit 63 (?y - 1)) = 0" by (simp only: unsigned_drop_bit_eq) (simp add: drop_bit_eq_div take_bit_nat_eq_self)
  then have "drop_bit 63 (?y - 1) = 0" by (simp only: unsigned_eq_0_iff)
  then show ?thesis using False by (simp only: equal_s8_def Let_def) simp
qed

lemma cmov_select: "cmov t u (of_bool c) = (if c then u else t)"
  by (cases t; cases u; cases c) (simp_all add: cmov_def fe_cmov_select [where b = True, simplified] fe_cmov_select [where b = False, simplified])

text \<open>The digits the recoding produces.\<close>

definition small_s8 :: "s8 \<Rightarrow> bool" where "small_s8 b \<longleftrightarrow> sint b \<in> {- 8..8}"

lemma small_s8_cases:
  assumes "small_s8 b"
  obtains k where "b = word_of_int k" "k \<in> {-8, -7, -6, -5, -4, -3, -2, -1, 0, 1, 2, 3, 4, 5, 6, 7, 8}"
proof -
  have "b = word_of_int (sint b)" by simp
  moreover have "sint b \<in> {-8, -7, -6, -5, -4, -3, -2, -1, 0, 1, 2, 3, 4, 5, 6, 7, 8}"
    using assms by (simp add: small_s8_def) presburger
  ultimately show thesis by (rule that)
qed

lemma negative_abs:
  assumes "small_s8 b"
  shows "negative_s8 b = of_bool (sint b < 0)"
    "(ucast (scast b - push_bit 1 (- ucast (negative_s8 b) AND scast b) :: u32) :: u8) = word_of_int \<bar>sint b\<bar>"
  by (rule small_s8_cases [OF assms]; auto simp: negative_s8_def)+

definition niels_neg :: "niels \<Rightarrow> niels" where
  "niels_neg q = \<lparr>n_plus = n_minus q, n_minus = n_plus q, n_xy2d = - n_xy2d q\<rparr>"

definition niels_zero :: niels where
  "niels_zero = \<lparr>n_plus = 1, n_minus = 1, n_xy2d = 0\<rparr>"

text \<open>The multiple \<open>k\<close> of a point whose multiples 1 to 8 are the row.\<close>

definition multiple :: "niels list \<Rightarrow> int \<Rightarrow> niels" where
  "multiple row k =
     (if k = 0 then niels_zero else if 0 < k then row ! nat (k - 1) else niels_neg (row ! nat (- k - 1)))"

lemma select_row:
  fixes t1 :: ge_precomp
  assumes "n \<in> {0..8 :: int}"
  shows "(let t = t0;
          t = cmov t t1 (equal_s8 (word_of_int n) 1);
          t = cmov t t2 (equal_s8 (word_of_int n) 2);
          t = cmov t t3 (equal_s8 (word_of_int n) 3);
          t = cmov t t4 (equal_s8 (word_of_int n) 4);
          t = cmov t t5 (equal_s8 (word_of_int n) 5);
          t = cmov t t6 (equal_s8 (word_of_int n) 6);
          t = cmov t t7 (equal_s8 (word_of_int n) 7)
      in cmov t t8 (equal_s8 (word_of_int n) 8)) = [t0, t1, t2, t3, t4, t5, t6, t7, t8] ! nat n"
proof -
  have "n = 0 \<or> n = 1 \<or> n = 2 \<or> n = 3 \<or> n = 4 \<or> n = 5 \<or> n = 6 \<or> n = 7 \<or> n = 8" using assms by auto
  then show ?thesis unfolding Let_def equal_s8_eq cmov_select by (elim disjE) simp_all
qed

lemma select_value:
  assumes "small_s8 b" "length (tab ! pos) = 8"
  defines "t \<equiv> (\<lparr>yplusx = fe_1, yminusx = fe_1, xy2d = fe_0\<rparr> # tab ! pos) ! nat \<bar>sint b\<bar>"
  shows "select tab pos b = (if sint b < 0 then \<lparr>yplusx = yminusx t, yminusx = yplusx t, xy2d = fe_neg (xy2d t)\<rparr> else t)"
proof -
  obtain t1 t2 t3 t4 t5 t6 t7 t8 where row: "tab ! pos = [t1, t2, t3, t4, t5, t6, t7, t8]"
    using assms(2) by (auto simp: eval_nat_numeral length_Suc_conv)
  have n: "\<bar>sint b\<bar> \<in> {0..8}" using assms(1) by (auto simp: small_s8_def)
  note chain = select_row [OF n, of "\<lparr>yplusx = fe_1, yminusx = fe_1, xy2d = fe_0\<rparr>" t1 t2 t3 t4 t5 t6 t7 t8,
      unfolded Let_def]
  have nth: "[t1, t2, t3, t4, t5, t6, t7, t8] ! 0 = t1" "[t1, t2, t3, t4, t5, t6, t7, t8] ! 1 = t2"
    "[t1, t2, t3, t4, t5, t6, t7, t8] ! 2 = t3" "[t1, t2, t3, t4, t5, t6, t7, t8] ! 3 = t4"
    "[t1, t2, t3, t4, t5, t6, t7, t8] ! 4 = t5" "[t1, t2, t3, t4, t5, t6, t7, t8] ! 5 = t6"
    "[t1, t2, t3, t4, t5, t6, t7, t8] ! 6 = t7" "[t1, t2, t3, t4, t5, t6, t7, t8] ! 7 = t8"
    by simp_all
  show ?thesis
    unfolding select_def Let_def negative_abs(2) [OF assms(1)] row nth chain t_def
    unfolding negative_abs(1) [OF assms(1)] cmov_select by (simp only: gf_const)
qed

lemma select_ok:
  assumes "small_s8 b" "length (tab ! pos) = 8" "list_all tight_precomp (tab ! pos)"
  shows "tight_precomp (select tab pos b)" "niels_of (select tab pos b) = multiple (map niels_of (tab ! pos)) (sint b)"
proof -
  define t where "t = (\<lparr>yplusx = fe_1, yminusx = fe_1, xy2d = fe_0\<rparr> # tab ! pos) ! nat \<bar>sint b\<bar>"
  note sel = select_value [OF assms(1,2), folded t_def]
  have n: "nat \<bar>sint b\<bar> < length (\<lparr>yplusx = fe_1, yminusx = fe_1, xy2d = fe_0\<rparr> # tab ! pos)"
    using assms(1,2) by (auto simp: small_s8_def)
  have "list_all tight_precomp (\<lparr>yplusx = fe_1, yminusx = fe_1, xy2d = fe_0\<rparr> # tab ! pos)"
    using assms(3) by (simp add: tight_precomp_def)
  then have t: "tight_precomp t" unfolding t_def using n by (simp only: list_all_length)
  then show "tight_precomp (select tab pos b)" by (auto simp: sel tight_precomp_def)
  have "niels_of t = (if sint b = 0 then niels_zero else map niels_of (tab ! pos) ! nat (\<bar>sint b\<bar> - 1))"
    using n by (auto simp: t_def niels_of_def niels_zero_def nth_Cons' nat_diff_distrib)
  moreover have "niels_of \<lparr>yplusx = yminusx t, yminusx = yplusx t, xy2d = fe_neg (xy2d t)\<rparr> = niels_neg (niels_of t)"
    using t by (simp add: niels_of_def niels_neg_def tight_precomp_def)
  ultimately show "niels_of (select tab pos b) = multiple (map niels_of (tab ! pos)) (sint b)"
    by (auto simp: sel multiple_def split: if_splits)
qed

section \<open>The signed digits of the scalar\<close>

definition digits_val :: "s8 list \<Rightarrow> int" where
  "digits_val e = (\<Sum>i<length e. sint (e ! i) * 16 ^ i)"

lemma digits_val_Cons: "digits_val (d # e) = sint d + 16 * digits_val e"
  by (simp add: digits_val_def sum.lessThan_Suc_shift sum_distrib_left mult_ac del: sum.lessThan_Suc)

lemma digits_val_update:
  assumes "k < length e"
  shows "digits_val (e[k := x]) = digits_val e + (sint x - sint (e ! k)) * 16 ^ k"
proof -
  have "(\<Sum>i<length e. sint (e[k := x] ! i) * 16 ^ i) =
      (\<Sum>i<length e. sint (e ! i) * 16 ^ i + (if i = k then (sint x - sint (e ! k)) * 16 ^ k else 0))"
    by (rule sum.cong) (auto simp: nth_list_update algebra_simps)
  then show ?thesis using assms by (simp add: digits_val_def sum.distrib)
qed

lemma sint8: "- 128 \<le> x \<Longrightarrow> x < 128 \<Longrightarrow> sint (word_of_int x :: s8) = x"
  by (simp add: signed_of_int) (subst signed_take_bit_int_eq_self; simp)

lemma sint8_small: "uint (b :: u8) < 128 \<Longrightarrow> sint b = uint b"
  using sint8 [of "uint b"] uint8 [of b] by simp

lemma nibble:
  fixes b :: u8
  shows "sint (b AND 15) = uint b mod 16" "sint (drop_bit 4 b AND 15) = uint b div 16"
proof -
  have and15: "uint (x AND 15) = uint x mod 16" for x :: u8
  proof -
    have "x AND 15 = take_bit 4 x" by (simp add: take_bit_eq_mask mask_eq_exp_minus_1)
    then show ?thesis by (simp only: unsigned_take_bit_eq) (simp add: take_bit_eq_mod)
  qed
  have "uint b mod 16 < 16" "uint b div 16 < 16" "0 \<le> uint b div 16"
    using uint8 [of b] by (simp_all add: pos_imp_zdiv_nonneg_iff)
  moreover have "uint (drop_bit 4 b) = uint b div 16"
    using uint8 [of b] by (simp only: unsigned_drop_bit_eq) (simp add: drop_bit_eq_div take_bit_int_eq_self)
  ultimately show "sint (b AND 15) = uint b mod 16" "sint (drop_bit 4 b AND 15) = uint b div 16"
    by (simp_all add: sint8_small and15)
qed

lemma nibbles_map:
  assumes "length a = 32"
  shows "nibbles a = concat (map (\<lambda>b. [b AND 15, drop_bit 4 b AND 15]) a)"
proof -
  have "map (\<lambda>i. [a ! i AND 15, drop_bit 4 (a ! i) AND 15]) [0..<32] = map (\<lambda>b. [b AND 15, drop_bit 4 b AND 15]) (map ((!) a) [0..<length a])"
    using assms by simp
  then show ?thesis unfolding nibbles_def map_nth by simp
qed

lemma nibbles_val: "digits_val (concat (map (\<lambda>b. [b AND 15, drop_bit 4 b AND 15]) a)) = le_val a"
proof (induction a)
  case (Cons b a)
  have "uint b mod 16 + 16 * (uint b div 16) = uint b" by simp
  then show ?case using Cons by (simp add: digits_val_Cons nibble(1) [of b] nibble(2) [of b])
qed (simp add: digits_val_def)

lemma nibbles_range: "list_all (\<lambda>d. sint d \<in> {0..15}) (concat (map (\<lambda>b. [b AND 15, drop_bit 4 b AND 15]) (a :: u8 list)))"
proof (induction a)
  case (Cons b a)
  then show ?case
    using uint8 [of b] by (auto simp: nibble(1) [of b] nibble(2) [of b] pos_imp_zdiv_nonneg_iff intro: zless_imp_add1_zle)
qed simp

lemma nibbles_top: "length (nibbles a) = 64" "nibbles a ! 63 = drop_bit 4 (a ! 31) AND 15"
  by (simp_all add: nibbles_def upt_conv_Cons numeral_eq_Suc)

lemma recode_invariant:
  assumes "length e0 = 64" "list_all (\<lambda>d. sint d \<in> {0..15}) e0" "k \<le> 63"
  shows "case fold recode_step [0..<k] (e0, 0) of (e, carry) \<Rightarrow>
    length e = 64 \<and> sint carry \<in> {0, 1} \<and> digits_val e + sint carry * 16 ^ k = digits_val e0 \<and>
    (\<forall>i<k. sint (e ! i) \<in> {- 8..7}) \<and> (\<forall>i. k \<le> i \<longrightarrow> e ! i = e0 ! i)"
  using assms(3)
proof (induction k)
  case 0
  then show ?case using assms(1) by simp
next
  case (Suc k)
  obtain e c where ec: "fold recode_step [0..<k] (e0, 0) = (e, c)" by fastforce
  have ih: "length e = 64" "sint c \<in> {0, 1}" "digits_val e + sint c * 16 ^ k = digits_val e0"
    "\<And>i. i < k \<Longrightarrow> sint (e ! i) \<in> {- 8..7}" "\<And>i. k \<le> i \<Longrightarrow> e ! i = e0 ! i"
    using Suc ec by auto
  have k: "k < 64" "e ! k = e0 ! k" using Suc.prems ih(5) by simp_all
  have d: "sint (e0 ! k) \<in> {0..15}" using assms(1,2) k(1) by (simp add: list_all_length)
  define x where "x = sint (e0 ! k) + sint c"
  define q where "q = (x + 8) div 16"
  define y where "y = (word_of_int (x - q * 16) :: s8)"
  have x: "0 \<le> x" "x \<le> 16" using d ih(2) by (auto simp: x_def)
  have ex: "e0 ! k + c = word_of_int x" by (simp add: x_def)
  then have s: "sint (e0 ! k + c) = x" using x by (simp only: sint8)
  have q: "q \<in> {0, 1}" "x - q * 16 \<in> {- 8..7}" using x by (auto simp: q_def)
  have y: "sint y = x - q * 16" unfolding y_def using q(2) by (intro sint8) simp_all
  have c1: "sint (word_of_int (x + 8) :: s8) = x + 8" using x by (intro sint8) simp_all
  have cq: "sint (word_of_int q :: s8) = q" using q(1) by (intro sint8) auto
  have "recode_step k (e, c) = (e[k := y], word_of_int q)"
    using k(1) ih(1) unfolding recode_step_def Let_def prod.case k(2) 
    by (simp only: nth_list_update_eq s c1 power_numeral cq) (simp add: ex y_def q_def cq)
  then have step: "fold recode_step [0..<Suc k] (e0, 0) = (e[k := y], word_of_int q)"
    using ec by simp
  have "digits_val (e[k := y]) + q * 16 ^ Suc k = digits_val e0"
    using k ih(1,3) by (simp add: digits_val_update y x_def algebra_simps)
  then show ?case
    unfolding step using ih k q y cq by (auto simp: nth_list_update less_Suc_eq)
qed

lemma recode_digits:
  assumes "length a = 32" "uint (a ! 31) < 128"
  shows "length (recode a) = 64" "digits_val (recode a) = le_val a" "i < 64 \<Longrightarrow> small_s8 (recode a ! i)"
proof -
  let ?e0 = "nibbles a"
  have e0: "length ?e0 = 64" "digits_val ?e0 = le_val a" "list_all (\<lambda>d. sint d \<in> {0..15}) ?e0"
    using assms(1) nibbles_top(1) [of a] nibbles_range [of a] by (simp_all add: nibbles_map nibbles_val)
  obtain e c where ec: "fold recode_step [0..<63] (?e0, 0) = (e, c)" by fastforce
  have inv: "length e = 64" "sint c \<in> {0, 1}" "digits_val e + sint c * 16 ^ 63 = digits_val ?e0"
    "\<And>i. i < 63 \<Longrightarrow> sint (e ! i) \<in> {- 8..7}" "e ! 63 = ?e0 ! 63"
    using recode_invariant [OF e0(1,3), of 63] ec by auto
  have "sint (e ! 63) = uint (a ! 31) div 16" unfolding inv(5) nibbles_top(2) by (rule nibble(2))
  then have top: "0 \<le> sint (e ! 63)" "sint (e ! 63) \<le> 7"
    using assms(2) by (simp_all add: pos_imp_zdiv_nonneg_iff)
  then have s: "sint (e ! 63 + c) = sint (e ! 63) + sint c"
    using sint8 [of "sint (e ! 63) + sint c"] inv(2) by auto
  have r: "recode a = e[63 := e ! 63 + c]" by (simp add: recode_def ec)
  show "length (recode a) = 64" using inv(1) by (simp add: r)
  show "digits_val (recode a) = le_val a" using inv(1,3) e0(2) by (simp add: r digits_val_update s)
  show "i < 64 \<Longrightarrow> small_s8 (recode a ! i)"
    using inv(4) [of i] inv(1,2) top s by (cases "i = 63") (auto simp: r small_s8_def)
qed

section \<open>Multiples of the base point\<close>

definition add_digits :: "niels list list \<Rightarrow> (nat \<Rightarrow> int) \<Rightarrow> nat list \<Rightarrow> ed_point \<Rightarrow> ed_point" where
  "add_digits rows e is P = fold (\<lambda>i P. ed_madd P (multiple (rows ! (i div 2)) (e i))) is P"

definition window_mult :: "niels list list \<Rightarrow> (nat \<Rightarrow> int) \<Rightarrow> ed_point" where
  "window_mult rows e =
     add_digits rows e (map (\<lambda>k. 2 * k) [0..<32])
       ((ed_double ^^ 4) (add_digits rows e (map (\<lambda>k. 2 * k + 1) [0..<32]) ed_zero))"

definition table_ok :: "ge_precomp list list \<Rightarrow> bool" where
  "table_ok tab \<longleftrightarrow> length tab = 32 \<and> list_all (\<lambda>row. length row = 8 \<and> list_all tight_precomp row) tab"

lemma madd_digit_ok:
  assumes "table_ok tab" "i < 64" "small_s8 (e ! i)" "tight h"
  shows "tight (madd_digit tab e i h)"
    "point_of (madd_digit tab e i h) = ed_madd (point_of h) (multiple (map (map niels_of) tab ! (i div 2)) (sint (e ! i)))"
proof -
  have i: "i div 2 < length tab" using assms(1,2) by (simp add: table_ok_def less_mult_imp_div_less)
  then have row: "length (tab ! (i div 2)) = 8" "list_all tight_precomp (tab ! (i div 2))"
    using assms(1) by (simp_all add: table_ok_def list_all_length)
  note sel = select_ok [OF assms(3) row]
  show "tight (madd_digit tab e i h)"
    "point_of (madd_digit tab e i h) = ed_madd (point_of h) (multiple (map (map niels_of) tab ! (i div 2)) (sint (e ! i)))"
    using ge_madd_ok [OF assms(4) sel(1)] sel(2) i by (simp_all add: madd_digit_def Let_def)
qed

lemma madd_digits_ok:
  assumes "table_ok tab" "\<And>i. i < 64 \<Longrightarrow> small_s8 (e ! i)" "set is \<subseteq> {..<64}" "tight h"
  shows "tight (fold (madd_digit tab e) is h) \<and> point_of (fold (madd_digit tab e) is h) =
    add_digits (map (map niels_of) tab) (\<lambda>i. sint (e ! i)) is (point_of h)"
  using assms(3,4)
proof (induction "is" arbitrary: h)
  case (Cons i js)
  then show ?case using madd_digit_ok [OF assms(1) _ assms(2)] by (simp add: add_digits_def)
qed (simp add: add_digits_def)

lemma ed_madd_flip: "ed_madd (ed_flip P) q = ed_madd P q"
  by (simp add: ed_madd_def ed_flip_def Let_def algebra_simps)

lemma add_digits_flip: "is \<noteq> [] \<Longrightarrow> add_digits rows e is (ed_flip P) = add_digits rows e is P"
  by (cases "is") (simp_all add: add_digits_def ed_madd_flip)

lemma scalarmult_ok:
  assumes "table_ok tab" "length a = 32" "uint (a ! 31) < 128"
  shows "tight (scalarmult_with tab a)"
    "point_of (scalarmult_with tab a) = window_mult (map (map niels_of) tab) (\<lambda>i. sint (recode a ! i))"
proof -
  note dig = madd_digits_ok [where e = "recode a", OF assms(1) recode_digits(3) [OF assms(2,3)]]
  let ?odd = "map (\<lambda>k. 2 * k + 1) [0..<32]" and ?even = "map (\<lambda>k. 2 * k) [0..<32]"
  let ?rows = "map (map niels_of) tab" and ?e = "\<lambda>i. sint (recode a ! i)"
  define h where "h = fold (madd_digit tab (recode a)) ?odd ge_p3_0"
  define h' where "h' = ge_p1p1_to_p3 (ge_p2_dbl (ge_p1p1_to_p2 (ge_p2_dbl (ge_p1p1_to_p2 (ge_p2_dbl (ge_p1p1_to_p2 (ge_p3_dbl h)))))))"
  have zero: "tight ge_p3_0" "point_of ge_p3_0 = ed_zero"
    by (simp_all add: tight_def ge_p3_0_def point_of_def ed_zero_def)
  have odd: "set ?odd \<subseteq> {..<64}" by auto
  have h: "tight h" "point_of h = add_digits ?rows ?e ?odd ed_zero"
    using dig [of ?odd, OF _ odd zero(1)] unfolding zero(2) h_def by simp_all
  note h' = four_doublings [OF h(1), folded h'_def]
  have "scalarmult_with tab a = fold (madd_digit tab (recode a)) ?even h'"
    by (simp only: scalarmult_with_def Let_def h'_def h_def)
  moreover have "tight (fold (madd_digit tab (recode a)) ?even h') \<and>
      point_of (fold (madd_digit tab (recode a)) ?even h') = add_digits ?rows ?e ?even (point_of h')"
    by (rule dig [OF _ _ h'(1)]) auto
  ultimately show "tight (scalarmult_with tab a)" "point_of (scalarmult_with tab a) = window_mult ?rows ?e"
    by (simp_all add: h'(2) h(2) add_digits_flip window_mult_def)
qed

section \<open>The table of the code\<close>

lemma base_rows_0:
  "list_all (\<lambda>row. length row = 8 \<and> list_all tight_precomp row)
     [base_0, base_1, base_2, base_3, base_4, base_5, base_6, base_7]"
  by (simp add: base_0_def base_1_def base_2_def base_3_def base_4_def base_5_def base_6_def base_7_def
      tight_precomp_def fe_sum_def fe_bound_Fe)

lemma base_rows_1:
  "list_all (\<lambda>row. length row = 8 \<and> list_all tight_precomp row)
     [base_8, base_9, base_10, base_11, base_12, base_13, base_14, base_15]"
  by (simp add: base_8_def base_9_def base_10_def base_11_def base_12_def base_13_def base_14_def base_15_def
      tight_precomp_def fe_sum_def fe_bound_Fe)

lemma base_rows_2:
  "list_all (\<lambda>row. length row = 8 \<and> list_all tight_precomp row)
     [base_16, base_17, base_18, base_19, base_20, base_21, base_22, base_23]"
  by (simp add: base_16_def base_17_def base_18_def base_19_def base_20_def base_21_def base_22_def base_23_def
      tight_precomp_def fe_sum_def fe_bound_Fe)

lemma base_rows_3:
  "list_all (\<lambda>row. length row = 8 \<and> list_all tight_precomp row)
     [base_24, base_25, base_26, base_27, base_28, base_29, base_30, base_31]"
  by (simp add: base_24_def base_25_def base_26_def base_27_def base_28_def base_29_def base_30_def base_31_def
      tight_precomp_def fe_sum_def fe_bound_Fe)

lemma base_ok: "table_ok base"
  using base_rows_0 base_rows_1 base_rows_2 base_rows_3 by (simp only: table_ok_def base_def list.pred_inject) simp

definition base_rows :: "niels list list" where
  "base_rows = map (map niels_of) base"

text \<open>The point that results from digits for \<open>a\<close> and the table, whichever digits; with rows that hold the
  multiples 1 to 8 of \<open>256^i * B\<close> it is \<open>a * B\<close>.\<close>

definition base_multiple :: "int \<Rightarrow> ed_point \<Rightarrow> bool" where
  "base_multiple a P \<longleftrightarrow>
     (\<exists>e. (\<forall>i. i < 64 \<longrightarrow> e i \<in> {- 8..8}) \<and> (\<Sum>i<64. e i * 16 ^ i) = a \<and> P = window_mult base_rows e)"

lemma base_multiple_ok:
  assumes "length a = 32" "uint (a ! 31) < 128"
  shows "base_multiple (le_val a) (point_of (ge_scalarmult_base a))" "tight (ge_scalarmult_base a)"
proof -
  note dig = recode_digits [OF assms]
  show "base_multiple (le_val a) (point_of (ge_scalarmult_base a))"
    unfolding base_multiple_def ge_scalarmult_base_def scalarmult_ok(2) [OF base_ok assms] base_rows_def
    using dig by (intro exI [of _ "\<lambda>i. sint (recode a ! i)"]) (simp add: digits_val_def small_s8_def)
  show "tight (ge_scalarmult_base a)"
    unfolding ge_scalarmult_base_def by (rule scalarmult_ok(1) [OF base_ok assms])
qed

section \<open>Properties\<close>

text \<open>C19: Multiplication of the base point. For every scalar below \<open>2^255\<close> the result is, coordinate for coordinate,
  what the RFC's point arithmetic makes of the table and of 64 digits between -8 and 8 whose
  value in radix 16 is the scalar: the odd digits added up, four doublings, the even digits added up. No limb
  overflows on the way.\<close>

theorem scalarmult_base_is_window:
  assumes "length a = 32" "uint (a ! 31) < 128"
  shows "(\<forall>i. i < 64 \<longrightarrow> sint (recode a ! i) \<in> {- 8..8}) \<and> (\<Sum>i<64. sint (recode a ! i) * 16 ^ i) = le_val a \<and>
    point_of (ge_scalarmult_base a) = window_mult base_rows (\<lambda>i. sint (recode a ! i)) \<and> tight (ge_scalarmult_base a)"
  using recode_digits [OF assms] scalarmult_ok [OF base_ok assms]
  by (simp add: digits_val_def small_s8_def ge_scalarmult_base_def base_rows_def)

lemma scalarmult_base_is_window_witness:
  "let a = replicate 31 0xFF @ [0x7F :: u8]
   in point_of (ge_scalarmult_base a) = window_mult base_rows (\<lambda>i. sint (recode a ! i)) \<and> sint (recode a ! 63) \<in> {- 8..8}"
proof -
  have "length (replicate 31 0xFF @ [0x7F :: u8]) = 32" "uint ((replicate 31 0xFF @ [0x7F :: u8]) ! 31) < 128"
    by (simp_all add: nth_append)
  from scalarmult_base_is_window [OF this] show ?thesis unfolding Let_def by simp
qed

end
