(* ===== verification/Point_Bytes25519.thy ===== *)
theory Point_Bytes25519
  imports Edwards25519
begin

text \<open>
  Encoding and decoding of points (\<open>ge_p3_tobytes\<close>, \<open>ge_tobytes\<close>, \<open>ge_frombytes_negate_vartime\<close> of \<open>Group25519\<close>), in the
  terms of \<open>Edwards25519\<close>. Where RFC 8032 divides, the code multiplies with the power \<open>p - 2\<close>, and so does \<open>ed_encode\<close>.
\<close>

section \<open>Encoding and decoding of points\<close>

lemma gf_power: "fe_power e z h \<Longrightarrow> fe_gf h = fe_gf z ^ e \<and> fe_ok h"
  by (simp add: fe_power_def fe_gf_def fe_ok_def of_int_gf flip: of_int_power)

lemma gf_invert: "fe_ok z \<Longrightarrow> fe_gf (fe_invert z) = fe_gf z ^ (2 ^ 255 - 21) \<and> fe_ok (fe_invert z)"
  using gf_power [OF fe_invert_power] by (simp add: fe_ok_def)

lemma gf_pow22523: "fe_ok z \<Longrightarrow> fe_gf (fe_pow22523 z) = fe_gf z ^ (2 ^ 252 - 3) \<and> fe_ok (fe_pow22523 z)"
  using gf_power [OF fe_pow22523_power] by (simp add: fe_ok_def)

lemma rep_fe_gf: "Rep_gf (fe_gf f) = fe_val f mod p25519"
  by (simp add: fe_gf_def rep_of_int)

lemma fe_sum_tobytes: "fe_sum 2 f \<Longrightarrow> fe_bound 36909875 f"
  by (auto simp: fe_sum_def elim: fe_bound_mono)

text \<open>The encoding of RFC 8032: \<open>y\<close> in 255 bits and the lowest bit of \<open>x\<close>; the code's inverse is a power.\<close>

definition ed_encode :: "ed_point \<Rightarrow> int" where
  "ed_encode P =
     (let r = ed_Z P ^ (2 ^ 255 - 21); x = ed_X P * r; y = ed_Y P * r
      in Rep_gf y + 2 ^ 255 * (Rep_gf x mod 2))"

lemma le_val_snoc_xor:
  fixes s :: "u8 list"
  assumes "length s = 32" "le_val s < 2 ^ 255" "uint b < 2"
  shows "le_val (s[31 := s ! 31 XOR push_bit 7 b]) = le_val s + 2 ^ 255 * uint b"
proof -
  define c where "c = s ! 31"
  have s: "s = take 31 s @ [c]" using id_take_nth_drop [of 31 s] assms(1) by (simp add: c_def)
  have len: "length (take 31 s) = 31" using assms(1) by simp
  have v: "le_val s = le_val (take 31 s) + 256 ^ 31 * uint c"
    using arg_cong [OF s, of le_val] len by (simp add: le_val_append)
  then have c: "uint c < 128" using assms(2) le_val_bounds [of "take 31 s"] by simp
  have "uint c AND 2 ^ 7 = 0" using c uint8 [of c] by (simp only: and_exp_eq_0_iff_not_bit bit_iff_odd) simp
  then have x: "uint c XOR 2 ^ 7 = uint c + 2 ^ 7" by (simp only: disjunctive_add_eq_xor)
  have "uint b = 0 \<or> uint b = 1" using assms(3) uint8 [of b] by linarith
  then have "b = 0 \<or> b = 1" by (metis unsigned_0 unsigned_1 unsigned_word_eqI)
  then have "uint (c XOR push_bit 7 b) = uint c + 128 * uint b"
    using x by (auto simp: unsigned_xor_eq)
  moreover have "s[31 := s ! 31 XOR push_bit 7 b] = take 31 s @ [c XOR push_bit 7 b]"
    using assms(1) upd_conv_take_nth_drop [of 31 s "s ! 31 XOR push_bit 7 b"] by (simp add: c_def)
  ultimately show ?thesis using v len by (simp add: le_val_append)
qed

lemma point_tobytes_ok:
  assumes "fe_sum 1 X" "fe_sum 1 Y" "fe_sum 1 Z" "ed_X P = fe_gf X" "ed_Y P = fe_gf Y" "ed_Z P = fe_gf Z"
  shows "le_val (point_tobytes X Y Z) = ed_encode P" "length (point_tobytes X Y Z) = 32"
proof -
  let ?r = "fe_invert Z"
  have r: "fe_gf ?r = ed_Z P ^ (2 ^ 255 - 21)" "fe_ok ?r" using gf_invert [of Z] assms by simp_all
  have x: "fe_gf (fe_mul X ?r) = ed_X P * ed_Z P ^ (2 ^ 255 - 21)" "fe_sum 2 (fe_mul X ?r)"
    and y: "fe_gf (fe_mul Y ?r) = ed_Y P * ed_Z P ^ (2 ^ 255 - 21)" "fe_sum 2 (fe_mul Y ?r)"
    using r assms by simp_all
  note tob = fe_tobytes_ok [OF fe_sum_tobytes [OF y(2)], folded rep_fe_gf]
  note neg = fe_isnegative_val [OF fe_sum_tobytes [OF x(2)], folded rep_fe_gf]
  have "Rep_gf (fe_gf (fe_mul Y ?r)) < 2 ^ 255" using Rep_gf [of "fe_gf (fe_mul Y ?r)"] by (simp add: p25519_def)
  then show "le_val (point_tobytes X Y Z) = ed_encode P"
    using le_val_snoc_xor [of "fe_tobytes (fe_mul Y ?r)" "fe_isnegative (fe_mul X ?r)"] tob neg
    unfolding point_tobytes_def ed_encode_def Let_def x(1) y(1) by simp
  show "length (point_tobytes X Y Z) = 32" using tob by (simp add: point_tobytes_def Let_def)
qed

lemma ge_p3_tobytes_ok:
  assumes "tight h"
  shows "le_val (ge_p3_tobytes h) = ed_encode (point_of h)" "length (ge_p3_tobytes h) = 32"
  using point_tobytes_ok [of "p3_X h" "p3_Y h" "p3_Z h" "point_of h"] assms
  by (simp_all add: ge_p3_tobytes_def tight_def point_of_def)

text \<open>Decoding. The candidate root of \<open>u / v\<close> is \<open>u v^3 (u v^7)^((p - 5) / 8)\<close>.\<close>

definition ed_candidate :: "gf \<Rightarrow> gf \<Rightarrow> gf" where
  "ed_candidate u v = u * (v * v * v) * (u * (v * v * v * v * v * v * v)) ^ (2 ^ 252 - 3)"

lemma sqrtm1_gf [simp]: "fe_gf sqrtm1 * fe_gf sqrtm1 = - 1" "fe_sum 1 sqrtm1"
proof -
  have "(of_int (fe_val sqrtm1 * fe_val sqrtm1) :: gf) = of_int (- 1)"
    unfolding of_int_gf by (simp add: sqrtm1_def fe_val_Fe p25519_def)
  then show "fe_gf sqrtm1 * fe_gf sqrtm1 = - 1" by (simp add: fe_gf_def)
qed (simp add: sqrtm1_def fe_bound_Fe fe_sum_def)

lemma fe_isnonzero_diff:
  assumes "fe_bound fe_tight f" "fe_bound (fe_tight + 1) g"
  shows "fe_isnonzero (fe_sub f g) \<longleftrightarrow> fe_gf f \<noteq> fe_gf g" "fe_isnonzero (fe_add f g) \<longleftrightarrow> fe_gf f \<noteq> - fe_gf g"
proof -
  note s = gf_add_sub [OF assms]
  have z: "fe_val h mod p25519 = 0 \<longleftrightarrow> fe_gf h = 0" for h using of_int_gf [of "fe_val h" 0] by (simp add: fe_gf_def)
  have "fe_bound (fe_tight + (fe_tight + 1)) h \<Longrightarrow> fe_bound 36909875 h" for h
    using fe_bound_mono [of "fe_tight + (fe_tight + 1)" h "36909875"] by (simp add: fe_tight_def)
  then show "fe_isnonzero (fe_sub f g) \<longleftrightarrow> fe_gf f \<noteq> fe_gf g" "fe_isnonzero (fe_add f g) \<longleftrightarrow> fe_gf f \<noteq> - fe_gf g"
    using s by (simp_all add: fe_isnonzero_val fe_tight_def z eq_neg_iff_add_eq_0)
qed

lemma fe_mul_tight: "fe_ok f \<Longrightarrow> fe_ok g \<Longrightarrow> fe_bound fe_tight (fe_mul f g)"
  using fe_mul_ok [of fe_max f fe_max g] by (simp add: fe_ok_def)

lemma fe_sq_tight: "fe_ok f \<Longrightarrow> fe_bound fe_tight (fe_sq f)"
  using fe_mul_tight [of f f] by (simp add: fe_sq_is_mul [where B = fe_max] fe_ok_def)

definition ed_u :: "gf \<Rightarrow> gf" where "ed_u y = y * y - 1"
definition ed_v :: "gf \<Rightarrow> gf" where "ed_v y = y * y * curve_d + 1"

lemma top_bit:
  fixes s :: "u8 list"
  assumes "length s = 32"
  shows "uint (drop_bit 7 (s ! 31)) = le_val s div 2 ^ 255"
proof -
  have s: "s = take 31 s @ [s ! 31]" using id_take_nth_drop [of 31 s] assms by simp
  have "length (take 31 s) = 31" using assms by simp
  then have "le_val s = le_val (take 31 s) + uint (s ! 31) * 2 ^ 248" "0 \<le> le_val (take 31 s)" "le_val (take 31 s) < 2 ^ 248"
    using arg_cong [OF s, of le_val] le_val_bounds [of "take 31 s"] by (simp_all add: le_val_append)
  then have "le_val s div 2 ^ 248 = uint (s ! 31)" by (simp only: div_mult_self1) simp
  then have "le_val s div 2 ^ 248 div 2 ^ 7 = uint (s ! 31) div 2 ^ 7" by simp
  moreover have "le_val s div 2 ^ 255 = le_val s div 2 ^ 248 div 2 ^ 7"
    by (subst zdiv_zmult2_eq [symmetric]) simp_all
  moreover have "uint (drop_bit 7 (s ! 31)) = uint (s ! 31) div 2 ^ 7"
    using uint8 [of "s ! 31"] by (simp only: unsigned_drop_bit_eq) (simp add: drop_bit_eq_div take_bit_int_eq_self)
  ultimately show ?thesis by simp
qed

lemma neg_parity:
  assumes "x \<noteq> 0"
  shows "Rep_gf (- x) mod 2 \<noteq> Rep_gf x mod 2"
proof -
  have "Rep_gf x \<noteq> 0" using assms by (metis Rep_gf_inject zero_gf.rep_eq)
  then have "0 < Rep_gf x" "Rep_gf x < p25519" using Rep_gf [of x] by auto
  then have "Rep_gf (- x) = p25519 - Rep_gf x" by (simp add: uminus_gf.rep_eq zmod_zminus1_eq_if)
  moreover have "p25519 mod 2 = 1" by (simp add: p25519_def)
  ultimately show ?thesis by presburger
qed

lemma decode_ok:
  assumes "length s = 32"
  defines "y \<equiv> of_int (le_val s mod 2 ^ 255) :: gf"
  defines "c \<equiv> ed_candidate (ed_u y) (ed_v y)"
  shows "ge_frombytes_negate_vartime s = None \<longleftrightarrow> c * c * ed_v y \<noteq> ed_u y \<and> c * c * ed_v y \<noteq> - ed_u y"
    "ge_frombytes_negate_vartime s = Some h \<Longrightarrow> tight h \<and> on_curve (point_of h) \<and>
       ed_Y (point_of h) = y \<and> ed_Z (point_of h) = 1 \<and>
       (Rep_gf (ed_X (point_of h)) mod 2 \<noteq> le_val s div 2 ^ 255 \<or> ed_X (point_of h) = 0)"
proof -
  define hY where "hY = fe_frombytes s"
  define u0 where "u0 = fe_sq hY"
  define v where "v = fe_add (fe_mul u0 ed_d) fe_1"
  define u where "u = fe_sub u0 fe_1"
  define v3 where "v3 = fe_mul (fe_sq v) v"
  define X where "X = fe_mul (fe_mul (fe_pow22523 (fe_mul (fe_mul (fe_sq v3) v) u)) v3) u"
  define vxx where "vxx = fe_mul (fe_sq X) v"
  have hY: "fe_gf hY = y" "fe_sum 1 hY"
    using fe_frombytes_ok [OF assms(1)] by (simp_all add: hY_def y_def fe_gf_def of_int_gf fe_sum_def)
  have u0: "fe_gf u0 = y * y" "fe_sum 1 u0" using hY by (simp_all add: u0_def)
  have v: "fe_gf v = ed_v y" "fe_sum 2 v" using u0 by (simp_all add: v_def ed_v_def)
  have u: "fe_gf u = ed_u y" "fe_sum 2 u" using u0 by (simp_all add: u_def ed_u_def)
  have v3: "fe_gf v3 = ed_v y * ed_v y * ed_v y" "fe_sum 1 v3" using v by (simp_all add: v3_def)
  have base: "fe_gf (fe_mul (fe_mul (fe_sq v3) v) u) =
      ed_u y * (ed_v y * ed_v y * ed_v y * ed_v y * ed_v y * ed_v y * ed_v y)" "fe_ok (fe_mul (fe_mul (fe_sq v3) v) u)"
    using v u v3 by (simp_all add: mult_ac)
  have X: "fe_gf X = c" "fe_sum 1 X" using gf_pow22523 [OF base(2)] v3 u
    by (simp_all add: X_def base(1) c_def ed_candidate_def mult_ac)
  have vxx: "fe_gf vxx = c * c * ed_v y" "fe_bound fe_tight vxx" using X v by (simp_all add: vxx_def fe_mul_tight)
  have ub: "fe_bound (fe_tight + 1) u"
    unfolding u_def u0_def using hY
    by (intro gf_add_sub(4) fe_sq_tight) (simp_all add: fe_1_def fe_bound_Fe fe_tight_def)
  note nz = fe_isnonzero_diff [OF vxx(2) ub, unfolded vxx(1) u(1)]
  define root where "root = (if c * c * ed_v y \<noteq> ed_u y
      then if c * c * ed_v y \<noteq> - ed_u y then None else Some (fe_mul X sqrtm1) else Some X)"
  have code: "ge_frombytes_negate_vartime s = (case root of None \<Rightarrow> None
    | Some hX \<Rightarrow> let hX = (if fe_isnegative hX = drop_bit 7 (s ! 31) then fe_neg hX else hX)
        in Some \<lparr>p3_X = hX, p3_Y = hY, p3_Z = fe_1, p3_T = fe_mul hX hY\<rparr>)"
    unfolding ge_frombytes_negate_vartime_def Let_def hY_def [symmetric] u0_def [symmetric]
    unfolding u_def [symmetric] v_def [symmetric] unfolding v3_def [symmetric] unfolding X_def [symmetric] unfolding vxx_def [symmetric]
    unfolding nz root_def by simp
  then show "ge_frombytes_negate_vartime s = None \<longleftrightarrow> c * c * ed_v y \<noteq> ed_u y \<and> c * c * ed_v y \<noteq> - ed_u y"
    by (auto simp: root_def Let_def)
  assume "ge_frombytes_negate_vartime s = Some h"
  then obtain hX where hX: "root = Some hX"
    and h: "h = (let hX = (if fe_isnegative hX = drop_bit 7 (s ! 31) then fe_neg hX else hX)
        in \<lparr>p3_X = hX, p3_Y = hY, p3_Z = fe_1, p3_T = fe_mul hX hY\<rparr>)"
    unfolding code by (cases root) (auto simp: Let_def)
  have sq: "fe_gf hX * fe_gf hX * ed_v y = ed_u y" "fe_sum 1 hX"
  proof -
    have "c * i * (c * i) * w = (c * c * w) * (i * i)" for i w :: gf by (simp add: mult_ac)
    moreover have "fe_gf (fe_mul X sqrtm1) = c * fe_gf sqrtm1" using X by simp
    ultimately have "fe_gf (fe_mul X sqrtm1) * fe_gf (fe_mul X sqrtm1) * ed_v y = - (c * c * ed_v y)"
      by (simp only: sqrtm1_gf(1)) simp
    then show "fe_gf hX * fe_gf hX * ed_v y = ed_u y" "fe_sum 1 hX"
      using hX X by (auto simp: root_def split: if_splits)
  qed
  define n where "n = (if fe_isnegative hX = drop_bit 7 (s ! 31) then fe_neg hX else hX)"
  have n: "fe_sum 1 n" "fe_gf n * fe_gf n * ed_v y = ed_u y" using sq by (simp_all add: n_def)
  have h: "h = \<lparr>p3_X = n, p3_Y = hY, p3_Z = fe_1, p3_T = fe_mul n hY\<rparr>" by (simp add: h n_def Let_def)
  have "tight h" using n(1) hY by (simp add: h tight_def)
  moreover have pt: "point_of h = \<lparr>ed_X = fe_gf n, ed_Y = y, ed_Z = 1, ed_T = fe_gf n * y\<rparr>"
    using n(1) hY by (simp add: h point_of_def)
  moreover have "on_curve (point_of h)"
    unfolding pt using n(2) by (simp add: on_curve_def ed_u_def ed_v_def algebra_simps)
  moreover have "Rep_gf (fe_gf n) mod 2 \<noteq> le_val s div 2 ^ 255 \<or> fe_gf n = 0"
  proof (cases "fe_isnegative hX = drop_bit 7 (s ! 31)")
    case True
    have "uint (fe_isnegative hX) = Rep_gf (fe_gf hX) mod 2"
      using fe_isnegative_val [OF fe_sum_tobytes] sq(2) by (simp add: rep_fe_gf)
    moreover have "fe_gf n = - fe_gf hX" using True sq(2) by (simp add: n_def)
    ultimately show ?thesis using neg_parity [of "fe_gf hX"] top_bit [OF assms(1)] True by (cases "fe_gf hX = 0") auto
  next
    case False
    have "uint (fe_isnegative hX) = Rep_gf (fe_gf hX) mod 2"
      using fe_isnegative_val [OF fe_sum_tobytes] sq(2) by (simp add: rep_fe_gf)
    moreover have "uint (fe_isnegative hX) \<noteq> uint (drop_bit 7 (s ! 31))" using False by (metis unsigned_word_eqI)
    ultimately show ?thesis using False top_bit [OF assms(1)] by (simp add: n_def)
  qed
  ultimately show "tight h \<and> on_curve (point_of h) \<and> ed_Y (point_of h) = y \<and> ed_Z (point_of h) = 1 \<and>
       (Rep_gf (ed_X (point_of h)) mod 2 \<noteq> le_val s div 2 ^ 255 \<or> ed_X (point_of h) = 0)" by simp
qed
section \<open>Properties\<close>

text \<open>C21: Decoding accepts points of the curve only. When it succeeds, the point has the \<open>y\<close> of the bytes, lies on the
  curve, and its \<open>x\<close> has the sign opposite to the bytes (or is 0); it fails exactly when neither the candidate
  root \<open>u v^3 (u v^7)^((p - 5) / 8)\<close> nor its product with a root of -1 solves \<open>v x^2 = u\<close>.\<close>

theorem decode_stays_on_curve:
  assumes "length s = 32"
  shows "let y = of_int (le_val s mod 2 ^ 255); c = ed_candidate (ed_u y) (ed_v y) in
    case ge_frombytes_negate_vartime s of
      None \<Rightarrow> c * c * ed_v y \<noteq> ed_u y \<and> c * c * ed_v y \<noteq> - ed_u y
    | Some h \<Rightarrow> tight h \<and> on_curve (point_of h) \<and> ed_Y (point_of h) = y \<and> ed_Z (point_of h) = 1 \<and>
        (Rep_gf (ed_X (point_of h)) mod 2 \<noteq> le_val s div 2 ^ 255 \<or> ed_X (point_of h) = 0)"
proof (cases "ge_frombytes_negate_vartime s")
  case None
  show ?thesis using decode_ok(1) [OF assms, THEN iffD1, OF None] by (simp only: Let_def None option.case simp_thms)
next
  case (Some h)
  show ?thesis using decode_ok(2) [OF assms Some] by (simp only: Let_def Some option.case simp_thms)
qed

lemma decode_stays_on_curve_witness:
  "\<exists>h. ge_frombytes_negate_vartime (1 # replicate 31 0) = Some h \<and> on_curve (point_of h) \<and> ed_Y (point_of h) = 1"
proof -
  let ?s = "1 # replicate 31 0 :: u8 list"
  have "le_val (replicate 31 0) = 0" by (simp add: le_val_zero)
  then have y: "(of_int (le_val ?s mod 2 ^ 255) :: gf) = 1" by simp
  have u: "ed_u 1 = 0" "ed_candidate 0 v = 0" for v by (simp_all add: ed_u_def ed_candidate_def)
  have "length ?s = 32" by simp
  from decode_stays_on_curve [OF this, unfolded Let_def y u] show ?thesis
    by (cases "ge_frombytes_negate_vartime ?s") auto
qed

end
