(* ===== verification/Ed25519.thy ===== *)
theory Ed25519
  imports Scalar25519_Reduce Sha3 Scalarmult25519 Point_Bytes25519
begin

text \<open>
  Key generation and signing (\<open>common/ed25519/keypair.c\<close>, \<open>common/ed25519/sign.c\<close>): Ed25519 with SHA-3
  in the place of SHA-512. Buffers are byte lists; a function that fills a buffer returns it, and the
  buffers of one call are separate objects. A 64-byte private key is the clamped scalar followed by the
  prefix that the nonce is derived from.
\<close>

section \<open>Key generation\<close>

definition clamp :: "u8 list \<Rightarrow> u8 list" where
  "clamp private_key =
     (let k = private_key[0 := private_key ! 0 AND 248];
          k = k[31 := k ! 31 AND 63];
          k = k[31 := k ! 31 OR 64]
      in k)"

definition ed25519_create_keypair :: "u8 list \<Rightarrow> u8 list \<times> u8 list" where
  "ed25519_create_keypair seed =
     (let private_key = sha3 (take 32 seed) 64;
          private_key = clamp private_key;
          A = ge_scalarmult_base (take 32 private_key);
          public_key = ge_p3_tobytes A
      in (public_key, private_key))"

section \<open>Signing\<close>

definition ed25519_sign :: "u8 list \<Rightarrow> u8 list \<Rightarrow> u8 list \<Rightarrow> u8 list" where
  "ed25519_sign message public_key private_key =
     (let hash = sha3_init 64;
          hash = sha3_update hash (take 32 (drop 32 private_key));
          hash = sha3_update hash message;
          r = fst (sha3_final hash);
          r = sc_reduce r;
          R = ge_scalarmult_base (take 32 r);
          signature_R = ge_p3_tobytes R;
          hash = sha3_init 64;
          hash = sha3_update hash signature_R;
          hash = sha3_update hash (take 32 public_key);
          hash = sha3_update hash message;
          hram = fst (sha3_final hash);
          hram = sc_reduce hram;
          signature_S = sc_muladd hram (take 32 private_key) r
      in signature_R @ signature_S)"

section \<open>Keys and signatures\<close>

lemma sha3_update_append: "sha3_update (sha3_update c xs) ys = sha3_update c (xs @ ys)"
  by (simp add: sha3_update_def split_beta)

lemma sha3_streamed: "fst (sha3_final (sha3_update (sha3_init n) xs)) = sha3 xs n"
  by (simp add: sha3_def)

lemma length_sha3 [simp]: "length (sha3 xs n) = nat n"
  by (simp add: sha3_def sha3_final_def sha3_update_def split_beta Let_def sha3_init_def)

lemma le_val_top: "length s = 32 \<Longrightarrow> le_val s = le_val (take 31 s) + 2 ^ 248 * uint (s ! 31)"
  using arg_cong [OF id_take_nth_drop [of 31 s], of le_val] by (simp add: le_val_append)

lemma clamp_bytes:
  fixes x :: u8
  shows "8 dvd uint (x AND 248)" "64 \<le> uint (x AND 63 OR 64)" "uint (x AND 63 OR 64) < 128"
proof -
  have "take_bit 3 (uint (x AND 248)) = 0" by (simp add: unsigned_and_eq take_bit_and)
  then show "8 dvd uint (x AND 248)" by (simp add: take_bit_eq_mod mod_eq_0_iff_dvd)
  have low: "uint x AND 63 = uint x mod 64"
    using take_bit_eq_mask [of 6 "uint x"] by (simp add: mask_eq_exp_minus_1 take_bit_eq_mod)
  have "\<not> bit (uint x mod 64) 6" by (simp add: bit_iff_odd)
  then have "(uint x mod 64) AND 2 ^ 6 = 0" by (simp only: and_exp_eq_0_iff_not_bit not_False_eq_True)
  then have "(uint x mod 64) OR 2 ^ 6 = uint x mod 64 + 2 ^ 6" by (simp only: disjunctive_add_eq_or)
  then have "uint (x AND 63 OR 64) = uint x mod 64 + 64" by (simp add: unsigned_or_eq unsigned_and_eq low)
  then show "64 \<le> uint (x AND 63 OR 64)" "uint (x AND 63 OR 64) < 128" by simp_all
qed

lemma clamp_value:
  assumes "length k = 64"
  defines "s \<equiv> take 32 (clamp k)"
  shows "8 dvd le_val s" "2 ^ 254 \<le> le_val s" "le_val s < 2 ^ 255" "length s = 32" "uint (s ! 31) < 128"
    "drop 32 (clamp k) = drop 32 k" "length (clamp k) = 64"
proof -
  show len: "length s = 32" using assms(1) by (simp add: s_def clamp_def)
  have "s ! 0 = k ! 0 AND 248" "s ! 31 = k ! 31 AND 63 OR 64"
    using assms(1) by (simp_all add: s_def clamp_def)
  then have b: "8 dvd uint (s ! 0)" "64 \<le> uint (s ! 31)" "uint (s ! 31) < 128" by (simp_all only: clamp_bytes)
  then show "uint (s ! 31) < 128" by simp
  obtain x xs where "s = x # xs" using len by (cases s) simp_all
  then show "8 dvd le_val s" using b(1) by simp
  have "0 \<le> le_val (take 31 s)" "le_val (take 31 s) < 2 ^ 248"
    using le_val_bounds [of "take 31 s"] len by simp_all
  then show "2 ^ 254 \<le> le_val s" "le_val s < 2 ^ 255"
    unfolding le_val_top [OF len] using b(2,3) by simp_all
qed (use assms(1) in \<open>simp_all add: clamp_def\<close>)

section \<open>Properties\<close>

text \<open>C18: Key pairs and signatures. The secret scalar of a key pair is a multiple of 8 between \<open>2^254\<close> and \<open>2^255\<close>
  and the public key encodes the point for it. A signature is 64 bytes: the encoded point for the nonce
  \<open>r = H(prefix, M) mod L\<close>, and \<open>S = r + k a mod L\<close> with \<open>k = H(R, A, M) mod L\<close>, fully reduced.\<close>

theorem keys_and_signatures:
  fixes message :: "u8 list"
  assumes "ed25519_create_keypair seed = (pk, sk)"
  defines "a \<equiv> le_val (take 32 sk)"
    and "r \<equiv> le_val (sha3 (drop 32 sk @ message) 64) mod L25519"
    and "sig \<equiv> ed25519_sign message pk sk"
  defines "k \<equiv> le_val (sha3 (take 32 sig @ pk @ message) 64) mod L25519"
  shows "8 dvd a \<and> a \<in> {2 ^ 254..<2 ^ 255} \<and> length pk = 32 \<and> length sk = 64 \<and> length sig = 64 \<and>
    (\<exists>P. base_multiple a P \<and> le_val pk = ed_encode P) \<and>
    (\<exists>R. base_multiple r R \<and> le_val (take 32 sig) = ed_encode R) \<and>
    le_val (drop 32 sig) = (r + k * a) mod L25519"
proof -
  define seed_hash where "seed_hash = sha3 (take 32 seed) 64"
  have sk: "sk = clamp seed_hash" and pk: "pk = ge_p3_tobytes (ge_scalarmult_base (take 32 sk))"
    using assms(1) by (auto simp: ed25519_create_keypair_def seed_hash_def Let_def)
  have "length seed_hash = 64" by (simp add: seed_hash_def)
  note c = clamp_value [OF this, folded sk]
  note pt = base_multiple_ok [OF c(4,5)]
  note enc = ge_p3_tobytes_ok [OF pt(2), folded pk]
  define rb where "rb = sc_reduce (sha3 (drop 32 sk @ message) 64)"
  have rb: "length rb = 32" "le_val rb = r"
    using sc_reduce_val [of "sha3 (drop 32 sk @ message) 64"] by (simp_all add: rb_def r_def)
  have "le_val rb < 2 ^ 253" unfolding rb(2) r_def
    by (rule less_trans [OF pos_mod_bound]) (simp_all add: L25519_def)
  then have top: "uint (rb ! 31) < 128"
    using le_val_top [OF rb(1)] le_val_bounds [of "take 31 rb"] by simp
  note ptR = base_multiple_ok [OF rb(1) top]
  define sigR where "sigR = ge_p3_tobytes (ge_scalarmult_base rb)"
  note encR = ge_p3_tobytes_ok [OF ptR(2), folded sigR_def]
  define kb where "kb = sc_reduce (sha3 (sigR @ pk @ message) 64)"
  have kb: "length kb = 32" "le_val kb = le_val (sha3 (sigR @ pk @ message) 64) mod L25519"
    using sc_reduce_val [of "sha3 (sigR @ pk @ message) 64"] by (simp_all add: kb_def)
  define S where "S = sc_muladd kb (take 32 sk) rb"
  have S: "length S = 32" "le_val S = (le_val kb * a + r) mod L25519"
    using sc_muladd_val [OF kb(1) c(4) rb(1)] by (simp_all add: S_def a_def rb(2))
  have sig: "sig = sigR @ S"
    using c(7) rb(1) enc(2)
    by (simp add: sig_def ed25519_sign_def Let_def sha3_update_append sha3_streamed sigR_def S_def kb_def rb_def)
  have k: "k = le_val kb" unfolding k_def kb(2) using encR(2) by (simp add: sig)
  have "le_val (drop 32 sig) = (r + k * a) mod L25519" using encR(2) S(2) by (simp add: sig k add.commute)
  moreover have "\<exists>R. base_multiple r R \<and> le_val (take 32 sig) = ed_encode R"
    using ptR(1) encR by (auto simp: sig rb(2))
  moreover have "\<exists>P. base_multiple a P \<and> le_val pk = ed_encode P"
    using pt(1) enc(1) by (auto simp: a_def)
  ultimately show ?thesis using c(1,2,3,7) enc(2) encR(2) S(1) by (simp add: a_def sig)
qed

lemma keys_and_signatures_witness:
  "let (pk, sk) = ed25519_create_keypair (replicate 32 7); sig = ed25519_sign [1, 2, 3] pk sk
   in length pk = 32 \<and> length sig = 64 \<and>
      le_val (drop 32 sig) = (le_val (sha3 (drop 32 sk @ [1, 2, 3]) 64) mod L25519 +
        le_val (sha3 (take 32 sig @ pk @ [1, 2, 3]) 64) mod L25519 * le_val (take 32 sk)) mod L25519"
proof -
  obtain pk sk where k: "ed25519_create_keypair (replicate 32 7) = (pk, sk)" by force
  from keys_and_signatures [OF k, of "[1, 2, 3]"] show ?thesis unfolding k Let_def prod.case by blast
qed

end
