(* ===== verification/Bootloader.thy ===== *)
theory Bootloader
  imports SM_Memory Randomart Ed25519
begin

text \<open>
  The measured boot: the check of the root of trust (\<open>root_of_trust/root_of_trust.c\<close>) and the
  bootloader (\<open>bootloader/bootloader.c\<close>), which derives the device keys from the random number
  generator, commits to the public key on the console, measures the security monitor, derives the
  monitor's keys from the measurement and signs them.

  The host is a parameter: \<open>env k\<close> is the value that the \<open>k\<close>-th read of \<open>tohost\<close> returns; the state of
  the console is the number of reads so far, the mailbox \<open>fromhost\<close> and the list of commands written to
  \<open>tohost\<close>. A wait that never ends is \<open>None\<close>. \<open>trng k\<close> is the \<open>k\<close>-th value read from the random number
  register \<open>0xCC0\<close>. The symbols \<open>sm_ptr\<close> and \<open>sm_size\<close> come from the linker script, their values are
  arguments. The state has one field per output object of the linker script; the stack buffers
  \<open>scratchpad\<close>, \<open>hash_ctx\<close> and \<open>SK_D\<close> are local.
\<close>

section \<open>Console\<close>

record console =
  ticks :: nat
  fromhost :: u64
  sent :: "u64 list"

definition TOHOST_CMD :: "u64 \<Rightarrow> u64 \<Rightarrow> u64 \<Rightarrow> u64" where
  "TOHOST_CMD dev cmd payload = push_bit 56 dev OR push_bit 48 cmd OR payload"

partial_function (option) wait_tohost :: "(nat \<Rightarrow> u64) \<Rightarrow> console \<Rightarrow> console option" where
  "wait_tohost env c =
     (if env (ticks c) \<noteq> 0 then wait_tohost env (c\<lparr>ticks := ticks c + 1, fromhost := 0\<rparr>)
      else Some (c\<lparr>ticks := ticks c + 1\<rparr>))"

definition print_char :: "(nat \<Rightarrow> u64) \<Rightarrow> u8 \<Rightarrow> console \<Rightarrow> console option" where
  "print_char env ch c =
     (case wait_tohost env c of
        None \<Rightarrow> None
      | Some c \<Rightarrow> Some (c\<lparr>sent := sent c @ [TOHOST_CMD 1 1 (ucast ch)]\<rparr>))"

text \<open>A C string is given by its bytes up to the terminator, if it has one.\<close>

fun print_str :: "(nat \<Rightarrow> u64) \<Rightarrow> u8 list \<Rightarrow> console \<Rightarrow> console option" where
  "print_str env [] c = None"
| "print_str env (ch # s) c =
     (if ch \<noteq> 0 then Option.bind (print_char env ch c) (print_str env s) else Some c)"

definition print_nibble :: "(nat \<Rightarrow> u64) \<Rightarrow> u8 \<Rightarrow> console \<Rightarrow> console option" where
  "print_nibble env n c = (let n = (if n < 0xA then n + 0x30 else n + (0x41 - 0xA)) in print_char env n c)"

definition print_hex_byte :: "(nat \<Rightarrow> u64) \<Rightarrow> u8 \<Rightarrow> console \<Rightarrow> console option" where
  "print_hex_byte env b c =
     Option.bind (print_char env 0x5C c) (\<lambda>c.
     Option.bind (print_char env 0x78 c) (\<lambda>c.
     Option.bind (print_nibble env (drop_bit 4 b AND 0xF) c) (\<lambda>c.
     print_nibble env (b AND 0xF) c)))"

fun print_hex_bytes :: "(nat \<Rightarrow> u64) \<Rightarrow> u8 list \<Rightarrow> console \<Rightarrow> console option" where
  "print_hex_bytes env [] c = Some c"
| "print_hex_bytes env (b # bs) c = Option.bind (print_hex_byte env b c) (print_hex_bytes env bs)"

section \<open>Boot\<close>

definition ascii :: "string \<Rightarrow> u8 list" where "ascii s = map of_char s"

definition c_string :: "string \<Rightarrow> u8 list" where "c_string s = ascii s @ [0]"

definition newline :: string where "newline = [CHR 0x0A]"

record rot_state =
  PK_D :: "u8 list"
  SM_H :: "u8 list"
  PK_SM :: "u8 list"
  SK_SM :: "u8 list"
  SM_SIG :: "u8 list"
  console :: console

definition trng_seed :: "(nat \<Rightarrow> u64) \<Rightarrow> u8 list" where
  "trng_seed trng = concat (map (\<lambda>i. word_bytes (trng i)) [0..<4])"

definition commit_banner :: "(nat \<Rightarrow> u64) \<Rightarrow> u8 list \<Rightarrow> string \<Rightarrow> console \<Rightarrow> console option" where
  "commit_banner env pk_d randomart_str c =
     Option.bind (print_str env (c_string ''Committing to PK_D: (ed25519) '') c) (\<lambda>c.
     Option.bind (print_hex_bytes env (take 32 pk_d) c) (\<lambda>c.
     Option.bind (print_str env (c_string (newline @ newline @ ''+--[ED25519 256]--+'' @ newline)) c) (\<lambda>c.
     Option.bind (print_str env (ascii randomart_str) c) (\<lambda>c.
     print_str env (c_string (newline @
       ''Trusted manufacturer (host) should endorse this key in order to root the device's attestations.'' @
       newline @ newline)) c))))"

definition rot_bootloader ::
    "(nat \<Rightarrow> u64) \<Rightarrow> (nat \<Rightarrow> u64) \<Rightarrow> mem \<Rightarrow> u64 \<Rightarrow> u64 \<Rightarrow> rot_state \<Rightarrow> rot_state option" where
  "rot_bootloader env trng m sm_ptr sm_size s =
     (let scratchpad = trng_seed trng;
          (pk_d, SK_D) = ed25519_create_keypair scratchpad;
          s = s\<lparr>PK_D := pk_d\<rparr>
      in case randomart (take 32 (PK_D s)) of
           None \<Rightarrow> None
         | Some randomart_str \<Rightarrow>
        (case commit_banner env (PK_D s) randomart_str (console s) of
           None \<Rightarrow> None
         | Some c \<Rightarrow>
            (let s = s\<lparr>console := c\<rparr>;
                 s = s\<lparr>SM_H := sha3 (ld_bytes m sm_ptr (unat sm_size)) 64\<rparr>;
                 hash_ctx = sha3_init 32;
                 hash_ctx = sha3_update hash_ctx SK_D;
                 hash_ctx = sha3_update hash_ctx (SM_H s);
                 scratchpad = fst (sha3_final hash_ctx);
                 (pk_sm, sk_sm) = ed25519_create_keypair scratchpad;
                 s = s\<lparr>PK_SM := pk_sm, SK_SM := sk_sm\<rparr>;
                 hash_ctx = sha3_init 64;
                 hash_ctx = sha3_update hash_ctx (SM_H s);
                 hash_ctx = sha3_update hash_ctx (PK_SM s);
                 scratchpad = fst (sha3_final hash_ctx)
             in Some (s\<lparr>SM_SIG := ed25519_sign scratchpad (PK_D s) SK_D\<rparr>))))"

section \<open>Root of trust\<close>

text \<open>The digest and the expected value are arrays of eight 64-bit words in memory.\<close>

definition le_word :: "u8 list \<Rightarrow> u64" where "le_word bs = word_of_int (le_val bs)"

definition rot_hash_and_verify :: "mem \<Rightarrow> u64 \<Rightarrow> u64 \<Rightarrow> u64 \<Rightarrow> bool" where
  "rot_hash_and_verify m bootloader_ptr bootloader_size bootloader_expected_hash =
     (let bootloader_hash = sha3 (ld_bytes m bootloader_ptr (unat bootloader_size)) 64
      in list_all (\<lambda>i. le_word (take 8 (drop (8 * i) bootloader_hash)) =
                       ld64 m (bootloader_expected_hash + 8 * word_of_nat i)) [0..<8])"

section \<open>The console is live when the host is\<close>

definition host_live :: "(nat \<Rightarrow> u64) \<Rightarrow> bool" where
  "host_live env \<longleftrightarrow> (\<forall>k. \<exists>j\<ge>k. env j = 0)"

definition char_cmd :: "u8 \<Rightarrow> u64" where "char_cmd ch = TOHOST_CMD 1 1 (ucast ch)"

definition hex_digit :: "u8 \<Rightarrow> u8" where "hex_digit n = (if n < 10 then 48 + n else 55 + n)"

definition hex_text :: "u8 \<Rightarrow> u8 list" where
  "hex_text b = [0x5C, 0x78, hex_digit (drop_bit 4 b AND 0xF), hex_digit (b AND 0xF)]"

text \<open>\<open>sends env p bs\<close>: the printing routine \<open>p\<close> returns from every state and sends exactly \<open>bs\<close>.\<close>

definition sends :: "(console \<Rightarrow> console option) \<Rightarrow> u8 list \<Rightarrow> bool" where
  "sends p bs \<longleftrightarrow> (\<forall>c. \<exists>c'. p c = Some c' \<and> sent c' = sent c @ map char_cmd bs)"

lemma sends_bind: "sends p xs \<Longrightarrow> sends q ys \<Longrightarrow> sends (\<lambda>c. Option.bind (p c) q) (xs @ ys)"
  unfolding sends_def by (metis bind.bind_lunit append.assoc map_append)

lemma sends_Some: "sends Some []"
  by (simp add: sends_def)

lemma wait_tohost_acknowledged:
  assumes "env (ticks c + n) = 0"
  shows "\<exists>c'. wait_tohost env c = Some c' \<and> sent c' = sent c"
  using assms
proof (induction n arbitrary: c)
  case 0
  then show ?case by (subst wait_tohost.simps) simp
next
  case (Suc n)
  have "\<exists>c'. wait_tohost env (c\<lparr>ticks := ticks c + 1, fromhost := 0\<rparr>) = Some c' \<and> sent c' = sent c"
    using Suc.IH [of "c\<lparr>ticks := ticks c + 1, fromhost := 0\<rparr>"] Suc.prems by simp
  then show ?case by (subst wait_tohost.simps) simp
qed

lemma wait_tohost_ends:
  assumes "wait_tohost env c = Some c'"
  shows "\<exists>k\<ge>ticks c. env k = 0"
proof (rule wait_tohost.raw_induct [where P = "\<lambda>env c _. \<exists>k\<ge>ticks c. env k = 0", OF _ assms])
  fix wait env c c'
  assume ih: "\<And>env c c'. wait env c = Some c' \<Longrightarrow> \<exists>k\<ge>ticks c. env k = 0"
    and eq: "(if env (ticks c) \<noteq> 0 then wait env (c\<lparr>ticks := ticks c + 1, fromhost := 0\<rparr>)
              else Some (c\<lparr>ticks := ticks c + 1\<rparr>)) = Some c'"
  show "\<exists>k\<ge>ticks c. env k = 0"
  proof (cases "env (ticks c) = 0")
    case False
    with ih eq have "\<exists>k\<ge>ticks c + 1. env k = 0" by fastforce
    then show ?thesis by (metis Suc_eq_plus1 Suc_leD)
  qed auto
qed

lemma print_char_sends: "host_live env \<Longrightarrow> sends (print_char env ch) [ch]"
  unfolding sends_def
proof
  fix c :: console
  assume "host_live env"
  then obtain j where "ticks c \<le> j" "env j = 0" by (auto simp: host_live_def)
  then have "env (ticks c + (j - ticks c)) = 0" by simp
  from wait_tohost_acknowledged [where env = env and c = c, OF this]
  show "\<exists>c'. print_char env ch c = Some c' \<and> sent c' = sent c @ map char_cmd [ch]"
    by (auto simp: print_char_def char_cmd_def)
qed

lemma print_str_sends:
  assumes "host_live env" "0 \<in> set s"
  shows "sends (print_str env s) (takeWhile (\<lambda>ch. ch \<noteq> 0) s)"
  using assms(2)
proof (induction s)
  case (Cons ch s)
  show ?case
  proof (cases "ch = 0")
    case False
    then have "print_str env (ch # s) = (\<lambda>c. Option.bind (print_char env ch c) (print_str env s))" by auto
    with sends_bind [OF print_char_sends [OF assms(1)] Cons.IH, of ch] Cons.prems False show ?thesis by simp
  qed (simp add: sends_def)
qed simp

lemma print_nibble_sends:
  assumes "host_live env"
  shows "sends (print_nibble env n) [hex_digit n]"
proof -
  have "print_nibble env n = print_char env (hex_digit n)"
    by (rule ext) (simp add: print_nibble_def hex_digit_def add.commute)
  then show ?thesis using print_char_sends [OF assms] by simp
qed

lemma print_hex_byte_sends:
  assumes "host_live env"
  shows "sends (print_hex_byte env b) (hex_text b)"
proof -
  note ch = print_char_sends [OF assms] and nib = print_nibble_sends [OF assms]
  have "print_hex_byte env b = (\<lambda>c. Option.bind (print_char env 0x5C c) (\<lambda>c. Option.bind (print_char env 0x78 c)
      (\<lambda>c. Option.bind (print_nibble env (drop_bit 4 b AND 0xF) c) (print_nibble env (b AND 0xF)))))"
    by (rule ext) (simp add: print_hex_byte_def)
  moreover have "hex_text b = [0x5C] @ [0x78] @ [hex_digit (drop_bit 4 b AND 0xF)] @ [hex_digit (b AND 0xF)]"
    by (simp add: hex_text_def)
  ultimately show ?thesis by (simp only:) (intro sends_bind ch nib)
qed

lemma print_hex_bytes_sends:
  assumes "host_live env"
  shows "sends (print_hex_bytes env bs) (concat (map hex_text bs))"
proof (induction bs)
  case (Cons b bs)
  have "print_hex_bytes env (b # bs) = (\<lambda>c. Option.bind (print_hex_byte env b c) (print_hex_bytes env bs))" by auto
  with sends_bind [OF print_hex_byte_sends [OF assms] Cons.IH] show ?case by simp
qed (simp add: sends_def)

section \<open>Hashing\<close>

lemma le_word_inject: "length xs = 8 \<Longrightarrow> length ys = 8 \<Longrightarrow> le_word xs = le_word ys \<longleftrightarrow> xs = ys"
proof
  assume l: "length xs = 8" "length ys = 8" and e: "le_word xs = le_word ys"
  have "le_val xs mod 2 ^ 64 = le_val ys mod 2 ^ 64"
    using arg_cong [OF e, of uint] by (simp add: le_word_def uint_word_of_int_eq take_bit_eq_mod)
  moreover have "le_val xs < 2 ^ 64" "le_val ys < 2 ^ 64" using le_val_bounds [of xs] le_val_bounds [of ys] l by simp_all
  ultimately have "le_val xs = le_val ys" using le_val_bounds [of xs] le_val_bounds [of ys] by simp
  with l show "xs = ys" by (intro le_val_inject) simp_all
qed simp

lemma ldn_le_val: "int (ldn n m a) = le_val (ld_bytes m a n)"
  by (induction n arbitrary: a) simp_all

lemma ld64_le_word: "ld64 m a = le_word (ld_bytes m a 8)"
  by (simp only: ld64_def le_word_def flip: ldn_le_val) simp

lemma list_64_eq:
  assumes "length xs = 64" "length ys = 64"
  shows "xs = ys \<longleftrightarrow> (\<forall>i<8. take 8 (drop (8 * i) xs) = take 8 (drop (8 * i) ys))"
proof
  assume e: "\<forall>i<8. take 8 (drop (8 * i) xs) = take 8 (drop (8 * i) ys)"
  show "xs = ys"
  proof (rule nth_equalityI)
    fix k assume "k < length xs"
    with assms have k: "k < 64" by simp
    then have i: "k div 8 < 8" by auto
    have kk: "8 * (k div 8) + k mod 8 = k" by simp
    have "take 8 (drop (8 * (k div 8)) xs) ! (k mod 8) = take 8 (drop (8 * (k div 8)) ys) ! (k mod 8)"
      using e i by simp
    then show "xs ! k = ys ! k" using assms k kk by simp
  qed (simp add: assms)
qed simp

section \<open>The text of the boot\<close>

definition boot_text :: "u8 list \<Rightarrow> string \<Rightarrow> u8 list" where
  "boot_text pk art =
     ascii ''Committing to PK_D: (ed25519) '' @ concat (map hex_text (take 32 pk)) @
     ascii (newline @ newline @ ''+--[ED25519 256]--+'' @ newline) @ takeWhile (\<lambda>ch. ch \<noteq> 0) (ascii art) @
     ascii (newline @
       ''Trusted manufacturer (host) should endorse this key in order to root the device's attestations.'' @
       newline @ newline)"

lemma c_string_sends:
  assumes "host_live env" "0 \<notin> set (ascii s)"
  shows "sends (print_str env (c_string s)) (ascii s)"
proof -
  have "takeWhile (\<lambda>ch. ch \<noteq> 0) (ascii s @ [0]) = ascii s"
    using assms(2) by (subst takeWhile_append2) auto
  with print_str_sends [OF assms(1), of "c_string s"] show ?thesis by (simp add: c_string_def)
qed

lemma randomart_terminated: "randomart input = Some art \<Longrightarrow> 0 \<in> set (ascii art)"
  by (auto simp: randomart_def ascii_def)

lemma commit_banner_sends:
  assumes "host_live env" "randomart (take 32 pk) = Some art"
  shows "sends (commit_banner env pk art) (boot_text pk art)"
proof -
  note str = c_string_sends [OF assms(1)]
    and art = print_str_sends [OF assms(1) randomart_terminated [OF assms(2)]]
    and hex = print_hex_bytes_sends [OF assms(1)]
  have eq: "commit_banner env pk art =
     (\<lambda>c. Option.bind (print_str env (c_string ''Committing to PK_D: (ed25519) '') c)
     (\<lambda>c. Option.bind (print_hex_bytes env (take 32 pk) c)
     (\<lambda>c. Option.bind (print_str env (c_string (newline @ newline @ ''+--[ED25519 256]--+'' @ newline)) c)
     (\<lambda>c. Option.bind (print_str env (ascii art) c)
     (print_str env (c_string (newline @
       ''Trusted manufacturer (host) should endorse this key in order to root the device's attestations.'' @
       newline @ newline)))))))"
    by (rule ext) (simp add: commit_banner_def)
  show ?thesis unfolding eq boot_text_def
    by (intro sends_bind str hex art) (simp_all add: ascii_def newline_def)
qed

section \<open>Properties\<close>

text \<open>C25: Liveness of the console. When the host clears \<open>tohost\<close> again and again, printing a string
  returns from every state and sends its characters in order; when the host never clears it, the
  first character is awaited for ever.\<close>

theorem console_liveness:
  "(host_live env \<longrightarrow> (\<exists>c'. print_str env (c_string s) c = Some c' \<and>
      sent c' = sent c @ map char_cmd (takeWhile (\<lambda>ch. ch \<noteq> 0) (c_string s)))) \<and>
   ((\<forall>k\<ge>ticks c. env k \<noteq> 0) \<longrightarrow> print_char env ch c = None)"
proof (intro conjI impI)
  assume "host_live env"
  then show "\<exists>c'. print_str env (c_string s) c = Some c' \<and>
      sent c' = sent c @ map char_cmd (takeWhile (\<lambda>ch. ch \<noteq> 0) (c_string s))"
    using print_str_sends [of env "c_string s"] by (simp add: sends_def c_string_def)
next
  assume "\<forall>k\<ge>ticks c. env k \<noteq> 0"
  then show "print_char env ch c = None"
    using wait_tohost_ends [of env c] by (cases "wait_tohost env c") (auto simp: print_char_def)
qed

theorem console_liveness_witness:
  "(\<exists>c'. print_str (\<lambda>k. if even k then 1 else 0) (c_string ''Hi'') \<lparr>ticks = 0, fromhost = 5, sent = []\<rparr> = Some c' \<and>
      sent c' = map char_cmd (takeWhile (\<lambda>ch. ch \<noteq> 0) (c_string ''Hi''))) \<and>
   print_char (\<lambda>k. 1) 65 \<lparr>ticks = 0, fromhost = 5, sent = []\<rparr> = None"
proof -
  have "host_live (\<lambda>k. if even k then 1 else 0)"
    unfolding host_live_def by (metis even_Suc le_refl nat_le_linear not_less_eq_eq)
  then show ?thesis
    using console_liveness [of "\<lambda>k. if even k then 1 else 0" "''Hi''" "\<lparr>ticks = 0, fromhost = 5, sent = []\<rparr>" 65]
      console_liveness [of "\<lambda>k. 1" "[]" "\<lparr>ticks = 0, fromhost = 5, sent = []\<rparr>" 65] by simp
qed

text \<open>C23: The measured boot. With a live host the bootloader returns exactly when the drawing of the device
  key stays within its symbols, and then: the device keys come from the random seed alone, the
  measurement is the digest of the monitor's image, the monitor's keys come from the digest of the device
  secret and the measurement, and the signature under the device key covers the measurement and the
  monitor's public key; on the console appear the device's public key and its drawing, and nothing else.\<close>

theorem measured_boot:
  assumes "host_live env"
  shows "map_option (\<lambda>t. (PK_D t, SM_H t, PK_SM t, SK_SM t, SM_SIG t, sent (console t)))
      (rot_bootloader env trng m sm_ptr sm_size s) =
    (let (pk_d, sk_d) = ed25519_create_keypair (trng_seed trng);
         sm_h = sha3 (ld_bytes m sm_ptr (unat sm_size)) 64;
         (pk_sm, sk_sm) = ed25519_create_keypair (sha3 (sk_d @ sm_h) 32);
         sm_sig = ed25519_sign (sha3 (sm_h @ pk_sm) 64) pk_d sk_d
     in map_option (\<lambda>art. (pk_d, sm_h, pk_sm, sk_sm, sm_sig, sent (console s) @ map char_cmd (boot_text pk_d art)))
          (randomart (take 32 pk_d)))"
proof -
  obtain pk_d sk_d where k: "ed25519_create_keypair (trng_seed trng) = (pk_d, sk_d)" by force
  show ?thesis
  proof (cases "randomart (take 32 pk_d)")
    case None
    then show ?thesis by (simp add: rot_bootloader_def k split_beta)
  next
    case (Some art)
    obtain c where "commit_banner env pk_d art (console s) = Some c"
      "sent c = sent (console s) @ map char_cmd (boot_text pk_d art)"
      using commit_banner_sends [OF assms Some] by (force simp: sends_def)
    with Some show ?thesis
      by (simp add: rot_bootloader_def k split_beta Let_def sha3_update_append sha3_streamed)
  qed
qed

theorem measured_boot_witness:
  "map_option (\<lambda>t. (PK_D t, SM_H t, PK_SM t, SK_SM t, SM_SIG t, sent (console t)))
      (rot_bootloader (\<lambda>_. 0) word_of_nat (\<lambda>_. 7) 0x80022000 16
        \<lparr>PK_D = [], SM_H = [], PK_SM = [], SK_SM = [], SM_SIG = [], console = \<lparr>ticks = 0, fromhost = 0, sent = []\<rparr>\<rparr>) =
    (let (pk_d, sk_d) = ed25519_create_keypair (trng_seed word_of_nat);
         sm_h = sha3 (ld_bytes (\<lambda>_. 7) 0x80022000 (unat (16 :: u64))) 64;
         (pk_sm, sk_sm) = ed25519_create_keypair (sha3 (sk_d @ sm_h) 32);
         sm_sig = ed25519_sign (sha3 (sm_h @ pk_sm) 64) pk_d sk_d
     in map_option (\<lambda>art. (pk_d, sm_h, pk_sm, sk_sm, sm_sig, sent (console
          \<lparr>PK_D = [], SM_H = [], PK_SM = [], SK_SM = [], SM_SIG = [], console = \<lparr>ticks = 0, fromhost = 0, sent = []\<rparr>\<rparr>) @
          map char_cmd (boot_text pk_d art))) (randomart (take 32 pk_d)))"
  by (rule measured_boot) (auto simp: host_live_def)

text \<open>The root of trust. The check accepts the bootloader exactly when the 64 bytes of the SHA-3 digest
  of its image are those of the expected value.\<close>

theorem root_of_trust_check:
  "rot_hash_and_verify m ptr len expected \<longleftrightarrow> sha3 (ld_bytes m ptr (unat len)) 64 = ld_bytes m expected 64"
proof -
  let ?h = "sha3 (ld_bytes m ptr (unat len)) 64"
  have w: "take 8 (drop (8 * i) (ld_bytes m expected 64)) = ld_bytes m (expected + 8 * word_of_nat i) 8" if "i < 8" for i
    using that by (intro nth_equalityI) (auto simp: add.assoc)
  have "rot_hash_and_verify m ptr len expected \<longleftrightarrow>
      (\<forall>i<8. le_word (take 8 (drop (8 * i) ?h)) = le_word (take 8 (drop (8 * i) (ld_bytes m expected 64))))"
    by (auto simp: rot_hash_and_verify_def list_all_iff ld64_le_word w simp del: drop_drop)
  also have "\<dots> \<longleftrightarrow> (\<forall>i<8. take 8 (drop (8 * i) ?h) = take 8 (drop (8 * i) (ld_bytes m expected 64)))"
    by (simp add: le_word_inject)
  finally show ?thesis using list_64_eq [of ?h "ld_bytes m expected 64"] by simp
qed

end
