(* ===== verification/CLib.thy ===== *)
theory CLib
  imports SM_Memory
begin

text \<open>
  The freestanding C library of \<open>common/util\<close>: memory fill, copy and comparison and the
  string functions, over the byte memory. Pointers are addresses; a loop whose end the C
  code does not bound is a \<^theory_text>\<open>partial_function\<close>, and \<open>None\<close> says that it does not
  return.
\<close>

section \<open>memset\<close>

definition memset_pattern :: "u32 \<Rightarrow> u64" where
  "memset_pattern byte =
     (let w0 = ucast byte AND 0xFF;
          w1 = w0 OR push_bit 8 w0;
          w2 = w1 OR push_bit 16 w1
      in w2 OR push_bit 16 (push_bit 16 w2))"

partial_function (option) memset_words :: "mem \<Rightarrow> u64 \<Rightarrow> u64 \<Rightarrow> u64 \<Rightarrow> mem option" where
  "memset_words m d e w = (if d < e then memset_words (st64 m d w) (d + 8) e w else Some m)"

partial_function (option) memset_bytes :: "mem \<Rightarrow> u64 \<Rightarrow> u64 \<Rightarrow> u8 \<Rightarrow> mem option" where
  "memset_bytes m d e b = (if d < e then memset_bytes (m(d := b)) (d + 1) e b else Some m)"

definition memset :: "mem \<Rightarrow> u64 \<Rightarrow> u32 \<Rightarrow> u64 \<Rightarrow> mem option" where
  "memset m dest byte len =
     (if (dest OR len) AND 7 = 0
      then memset_words m dest (dest + len) (memset_pattern byte)
      else memset_bytes m dest (dest + len) (ucast byte))"

section \<open>memcpy\<close>

text \<open>The word loop stops where fewer than eight bytes are left; it returns both pointers.\<close>

partial_function (option) memcpy_words :: "mem \<Rightarrow> u64 \<Rightarrow> u64 \<Rightarrow> u64 \<Rightarrow> (mem \<times> u64 \<times> u64) option" where
  "memcpy_words m d s e =
     (if d < e then memcpy_words (st64 m d (ld64 m s)) (d + 8) (s + 8) e else Some (m, d, s))"

partial_function (option) memcpy_bytes :: "mem \<Rightarrow> u64 \<Rightarrow> u64 \<Rightarrow> u64 \<Rightarrow> mem option" where
  "memcpy_bytes m d s e =
     (if d < e then memcpy_bytes (m(d := m s)) (d + 1) (s + 1) e else Some m)"

definition memcpy :: "mem \<Rightarrow> u64 \<Rightarrow> u64 \<Rightarrow> u64 \<Rightarrow> mem option" where
  "memcpy m dest src len =
     (case (if (dest OR src) AND 7 = 0 then memcpy_words m dest src (dest + len - 7)
            else Some (m, dest, src)) of
        None \<Rightarrow> None
      | Some (m', d, s) \<Rightarrow> memcpy_bytes m' d s (dest + len))"

section \<open>memcmp and the string functions\<close>

function memcmp :: "mem \<Rightarrow> u64 \<Rightarrow> u64 \<Rightarrow> u64 \<Rightarrow> int" where
  "memcmp m p1 p2 n =
     (if n = 0 then 0
      else if m p1 \<noteq> m p2 then uint (m p1) - uint (m p2)
      else memcmp m (p1 + 1) (p2 + 1) (n - 1))"
  by pat_completeness auto
termination
  by (relation "measure (\<lambda>(m, p1, p2, n). unat n)") (simp_all add: unat_pred word_neq_0_conv unat_gt_0)

declare memcmp.simps [simp del]

partial_function (option) strlen_loop :: "mem \<Rightarrow> u64 \<Rightarrow> u64 option" where
  "strlen_loop m p = (if m p \<noteq> 0 then strlen_loop m (p + 1) else Some p)"

definition strlen :: "mem \<Rightarrow> u64 \<Rightarrow> u64 option" where
  "strlen m s = map_option (\<lambda>p. p - s) (strlen_loop m s)"

partial_function (option) strcmp :: "mem \<Rightarrow> u64 \<Rightarrow> u64 \<Rightarrow> int option" where
  "strcmp m s1 s2 =
     (let c1 = m s1; c2 = m s2
      in if c1 \<noteq> 0 \<and> c1 = c2 then strcmp m (s1 + 1) (s2 + 1)
         else Some (uint c1 - uint c2))"

partial_function (option) strcpy_loop :: "mem \<Rightarrow> u64 \<Rightarrow> u64 \<Rightarrow> mem option" where
  "strcpy_loop m d s =
     (let m' = m(d := m s) in if m s \<noteq> 0 then strcpy_loop m' (d + 1) (s + 1) else Some m')"

definition strcpy :: "mem \<Rightarrow> u64 \<Rightarrow> u64 \<Rightarrow> mem option" where
  "strcpy m dest src = strcpy_loop m dest src"

text \<open>\<open>atol\<close> on 64-bit two's complement values; the target's \<open>char\<close> is unsigned.\<close>

partial_function (option) atol_spaces :: "mem \<Rightarrow> u64 \<Rightarrow> u64 option" where
  "atol_spaces m p = (if m p = 32 then atol_spaces m (p + 1) else Some p)"

partial_function (option) atol_digits :: "mem \<Rightarrow> u64 \<Rightarrow> u64 \<Rightarrow> u64 option" where
  "atol_digits m p res =
     (if m p \<noteq> 0 then atol_digits m (p + 1) (res * 10 + (ucast (m p) - 48)) else Some res)"

definition atol :: "mem \<Rightarrow> u64 \<Rightarrow> u64 option" where
  "atol m str =
     (case atol_spaces m str of
        None \<Rightarrow> None
      | Some p \<Rightarrow>
          (let signed = m p = 45 \<or> m p = 43; sgn = m p = 45; q = (if signed then p + 1 else p)
           in map_option (\<lambda>res. if sgn then - res else res) (atol_digits m q 0)))"

section \<open>C strings\<close>

text \<open>\<open>cstr m p cs\<close>: the string at \<open>p\<close> is \<open>cs\<close> (no zero byte) followed by a zero byte.\<close>

fun cstr :: "mem \<Rightarrow> u64 \<Rightarrow> u8 list \<Rightarrow> bool" where
  "cstr m p [] \<longleftrightarrow> m p = 0"
| "cstr m p (c # cs) \<longleftrightarrow> m p = c \<and> c \<noteq> 0 \<and> cstr m (p + 1) cs"

lemma strlen_loop_cstr: "cstr m p cs \<Longrightarrow> strlen_loop m p = Some (p + word_of_nat (length cs))"
  by (induction cs arbitrary: p) (simp_all add: strlen_loop.simps ac_simps)

text \<open>On a C string \<open>strlen\<close> returns, with the number of bytes before the terminator.\<close>

theorem strlen_correct:
  assumes "cstr m p cs"
  shows "strlen m p = Some (word_of_nat (length cs))"
  using assms by (simp add: strlen_def strlen_loop_cstr)

theorem strlen_correct_witness:
  "strlen ((\<lambda>_. 0)(100 := 65, 101 := 66)) 100 = Some 2"
  by (rule strlen_correct [of _ _ "[65, 66]", simplified]) simp

text \<open>The first difference of two zero-terminated strings, as \<open>strcmp\<close> reports it.\<close>

fun cstr_compare :: "u8 list \<Rightarrow> u8 list \<Rightarrow> int" where
  "cstr_compare [] [] = 0"
| "cstr_compare (x # xs) [] = uint x"
| "cstr_compare [] (y # ys) = - uint y"
| "cstr_compare (x # xs) (y # ys) = (if x = y then cstr_compare xs ys else uint x - uint y)"

lemma strcmp_compare:
  "cstr m p xs \<Longrightarrow> cstr m q ys \<Longrightarrow> strcmp m p q = Some (cstr_compare xs ys)"
  by (induction xs ys arbitrary: p q rule: cstr_compare.induct)
    (simp_all add: strcmp.simps Let_def)

lemma cstr_no_zero: "cstr m p xs \<Longrightarrow> 0 \<notin> set xs"
  by (induction xs arbitrary: p) auto

lemma cstr_compare_0: "0 \<notin> set xs \<Longrightarrow> 0 \<notin> set ys \<Longrightarrow> cstr_compare xs ys = 0 \<longleftrightarrow> xs = ys"
  by (induction xs ys rule: cstr_compare.induct) (auto simp: uint_0_iff dest: unsigned_word_eqI)

text \<open>\<open>strcmp\<close> returns on two C strings, and its result is 0 exactly when the strings are
  equal; otherwise it is the difference of the first bytes that differ.\<close>

theorem strcmp_correct:
  assumes "cstr m p xs" "cstr m q ys"
  shows "\<exists>c. strcmp m p q = Some c \<and> c = cstr_compare xs ys \<and> (c = 0 \<longleftrightarrow> xs = ys)"
  using strcmp_compare [OF assms] cstr_compare_0 [OF cstr_no_zero [OF assms(1)] cstr_no_zero [OF assms(2)]]
  by simp

theorem strcmp_correct_witness:
  "\<exists>c. strcmp ((\<lambda>_. 0)(100 := 65, 200 := 66)) 100 200 = Some c \<and> c = cstr_compare [65] [66]
     \<and> (c = 0 \<longleftrightarrow> [65 :: u8] = [66])"
  by (rule strcmp_correct) simp_all

section \<open>memset is a byte fill\<close>

definition fill :: "mem \<Rightarrow> u64 \<Rightarrow> nat \<Rightarrow> u8 \<Rightarrow> mem" where
  "fill m a n b = st_bytes m a (replicate n b)"

lemma fill_apply: "n \<le> 2 ^ 64 \<Longrightarrow> fill m a n b c = (if unat (c - a) < n then b else m c)"
  by (simp add: fill_def st_bytes_apply)

lemma fill_add: "fill m a (n + k) b = fill (fill m a n b) (a + word_of_nat n) k b"
  by (simp add: fill_def replicate_add st_bytes_append)

lemma unat_add_less64: "unat (d :: u64) + n < 2 ^ 64 \<Longrightarrow> unat (d + word_of_nat n) = unat d + n"
  by (simp add: unat_word_ariths unat_of_nat64)

lemma memset_bytes_fill:
  "unat d + n < 2 ^ 64 \<Longrightarrow> memset_bytes m d (d + word_of_nat n) b = Some (fill m d n b)"
proof (induction n arbitrary: m d)
  case 0
  then show ?case by (simp add: memset_bytes.simps fill_def)
next
  case (Suc n)
  have lt: "d < d + word_of_nat (Suc n)"
    using Suc.prems unat_add_less64 [of d "Suc n"] by (simp only: word_less_nat_alt)
  have d1: "unat (d + 1) = unat d + 1"
    using Suc.prems unat_add_less64 [of d 1] by simp
  have "memset_bytes (m(d := b)) (d + 1) (d + 1 + word_of_nat n) b = Some (fill (m(d := b)) (d + 1) n b)"
    by (rule Suc.IH) (use Suc.prems d1 in simp)
  with lt show ?case
    by (subst memset_bytes.simps) (simp add: fill_def ac_simps del: fun_upd_apply cong: if_cong)
qed

lemma memset_words_fill:
  assumes bytes: "word_bytes w = replicate 8 b"
  shows "unat d + 8 * n < 2 ^ 64 \<Longrightarrow> memset_words m d (d + word_of_nat (8 * n)) w = Some (fill m d (8 * n) b)"
proof (induction n arbitrary: m d)
  case 0
  then show ?case by (simp add: memset_words.simps fill_def)
next
  case (Suc n)
  have lt: "d < d + word_of_nat (8 * Suc n)"
    using Suc.prems unat_add_less64 [of d "8 * Suc n"] by (simp only: word_less_nat_alt) simp
  have d8: "unat (d + 8) = unat d + 8"
    using Suc.prems unat_add_less64 [of d 8] by simp
  have "memset_words (st64 m d w) (d + 8) (d + 8 + word_of_nat (8 * n)) w
      = Some (fill (st64 m d w) (d + 8) (8 * n) b)"
    by (rule Suc.IH) (use Suc.prems d8 in simp)
  moreover have "d + 8 + word_of_nat (8 * n) = d + word_of_nat (8 * Suc n)" by simp
  moreover have "fill (st64 m d w) (d + 8) (8 * n) b = fill m d (8 * Suc n) b"
    using fill_add [of m d 8 "8 * n" b] by (simp add: st64_eq_st_bytes bytes fill_def)
  ultimately show ?case using lt by (subst memset_words.simps) (simp only: if_True)
qed


lemma bit_double_pattern:
  fixes w :: u64
  assumes w: "\<And>k. bit w k \<longleftrightarrow> k < 8 * q \<and> P (k mod 8)" and k: "k < 64"
  shows "bit (w OR push_bit (8 * q) w) k \<longleftrightarrow> k < 2 * (8 * q) \<and> P (k mod 8)"
proof (cases "k < 8 * q")
  case False
  then obtain d where d: "k = 8 * q + d" by (auto simp: not_less dest: le_Suc_ex)
  then have "k mod 8 = d mod 8" by simp
  with d k show ?thesis by (auto simp: bit_or_iff bit_push_bit_iff w)
qed (auto simp: bit_or_iff bit_push_bit_iff w)

lemma bit_memset_pattern: "k < 64 \<Longrightarrow> bit (memset_pattern x) k \<longleftrightarrow> bit x (k mod 8)"
proof -
  assume k: "k < 64"
  define w0 :: u64 where "w0 = ucast x AND 0xFF"
  define w1 where "w1 = w0 OR push_bit 8 w0"
  define w2 where "w2 = w1 OR push_bit 16 w1"
  have "w0 = take_bit 8 (ucast x)" by (simp add: w0_def take_bit_eq_mask mask_eq_exp_minus_1)
  then have b0: "bit w0 k \<longleftrightarrow> k < 8 * 1 \<and> bit x (k mod 8)" for k
    by (auto simp: bit_take_bit_iff bit_ucast_iff)
  have out1: "bit w1 k \<Longrightarrow> k < 64" and out2: "bit w2 k \<Longrightarrow> k < 64" for k
    using bit_imp_le_length [of w1 k] bit_imp_le_length [of w2 k] by auto
  have b1: "bit w1 k \<longleftrightarrow> k < 8 * 2 \<and> bit x (k mod 8)" for k
    using bit_double_pattern [of w0 1, OF b0, of k] out1 [of k] by (cases "k < 64") (auto simp: w1_def)
  have b2: "bit w2 k \<longleftrightarrow> k < 8 * 4 \<and> bit x (k mod 8)" for k
    using bit_double_pattern [of w1 2, OF b1, of k] out2 [of k] by (cases "k < 64") (auto simp: w2_def)
  have "memset_pattern x = w2 OR push_bit (8 * 4) w2"
    by (simp add: memset_pattern_def Let_def w0_def w1_def w2_def)
  then show ?thesis using bit_double_pattern [of w2 4, OF b2 k] k by simp
qed

lemma word_bytes_memset_pattern: "word_bytes (memset_pattern x) = replicate 8 (ucast x)"
proof (rule nth_equalityI)
  fix i assume i: "i < length (word_bytes (memset_pattern x))"
  have "(ucast (drop_bit (8 * i) (memset_pattern x)) :: u8) = ucast x"
    by (rule bit_word_eqI) (use i in \<open>simp add: bit_ucast_iff bit_drop_bit_eq bit_memset_pattern\<close>)
  then show "word_bytes (memset_pattern x) ! i = replicate 8 (ucast x) ! i"
    using i by (simp add: word_bytes_def)
qed simp

lemma low_bits_0_iff: "x AND 7 = 0 \<longleftrightarrow> 8 dvd unat x" for x :: u64
proof -
  have "x AND 7 = take_bit 3 x" by (simp add: take_bit_eq_mask mask_eq_exp_minus_1)
  then have "x AND 7 = 0 \<longleftrightarrow> take_bit 3 (unat x) = 0"
    by (metis unat_eq_0 unsigned_take_bit_eq)
  then show ?thesis by (simp add: take_bit_eq_mod dvd_eq_mod_eq_0)
qed

lemma or_low_bits: "(x OR y) AND 7 = 0 \<longleftrightarrow> 8 dvd unat x \<and> 8 dvd unat y" for x y :: u64
proof -
  have "(x OR y) AND 7 = 0 \<longleftrightarrow> x AND 7 = 0 \<and> y AND 7 = 0"
    by (simp add: bit_eq_iff [of _ 0] bit_and_iff bit_or_iff) blast
  then show ?thesis by (simp add: low_bits_0_iff)
qed

lemma memset_fill:
  "memset m dest byte len =
     Some (if unat dest + unat len < 2 ^ 64 then fill m dest (unat len) (ucast byte) else m)"
proof (cases "unat dest + unat len < 2 ^ 64")
  case True
  have e: "dest + len = dest + word_of_nat (unat len)" by simp
  show ?thesis
  proof (cases "(dest OR len) AND 7 = 0")
    case al: True
    then obtain n where n: "unat len = 8 * n" by (auto simp: or_low_bits)
    have "memset_words m dest (dest + word_of_nat (8 * n)) (memset_pattern byte)
        = Some (fill m dest (8 * n) (ucast byte))"
      using True n by (intro memset_words_fill word_bytes_memset_pattern) simp
    then show ?thesis using True al e n by (simp add: memset_def del: of_nat_mult)
  next
    case False
    have "memset_bytes m dest (dest + word_of_nat (unat len)) (ucast byte)
        = Some (fill m dest (unat len) (ucast byte))"
      using True by (rule memset_bytes_fill)
    with True False show ?thesis by (simp add: memset_def)
  qed
next
  case False
  then have "unat (dest + len) \<le> unat dest"
    using unat_less64 [of dest] unat_less64 [of len] by (simp add: unat_plus_if')
  then have "\<not> dest < dest + len" by (simp add: word_less_nat_alt)
  then have "memset m dest byte len = Some m"
    by (simp add: memset_def memset_words.simps memset_bytes.simps)
  with False show ?thesis by simp
qed


section \<open>memcpy and memcmp\<close>

text \<open>\<open>memset\<close> always returns. When the range does not reach the end of the address space it
  writes the low byte of its argument to each of the \<open>len\<close> addresses and nothing else, whichever
  of its two loops runs; when \<open>dest + len\<close> wraps around it writes nothing.\<close>

theorem memset_correct:
  "memset m dest byte len =
     Some (if unat dest + unat len < 2 ^ 64 then fill m dest (unat len) (ucast byte) else m)"
  by (rule memset_fill)

lemma sep_step: "sep d (k + n) s (k + n) \<Longrightarrow> sep (d + c) n (s + c) n"
  by (simp add: sep_def)

lemma ld_bytes_st_bytes_sep:
  assumes "sep d (k + n) s (k + n)" "length bs = k" "k + n < 2 ^ 64"
  shows "ld_bytes (st_bytes m d bs) (s + word_of_nat k) n = ld_bytes m (s + word_of_nat k) n"
proof (rule ld_bytes_cong)
  fix i assume i: "i < n"
  have "k \<le> unat (s + word_of_nat k + word_of_nat i - d)"
  proof (cases "s = d")
    case True
    with assms i show ?thesis by (simp add: sep_def)
  next
    case False
    then have "unat (d - s) = 2 ^ 64 - unat (s - d)"
      using unat_minus_nonzero [of "s - d"] by simp
    with assms(1) i have "unat (s - d) + (k + i) < 2 ^ 64"
      using unat_less64 [of "s - d"] unfolding sep_def by linarith
    then have "unat (s - d + word_of_nat (k + i)) = unat (s - d) + (k + i)"
      by (rule unat_add_less64)
    then show ?thesis using assms(1) by (simp add: sep_def algebra_simps)
  qed
  then show "st_bytes m d bs (s + word_of_nat k + word_of_nat i) = m (s + word_of_nat k + word_of_nat i)"
    using assms(2) by (intro st_bytes_outside) simp
qed

lemma memcpy_bytes_correct:
  "unat d + n < 2 ^ 64 \<Longrightarrow> sep d n s n \<Longrightarrow>
   memcpy_bytes m d s (d + word_of_nat n) = Some (st_bytes m d (ld_bytes m s n))"
proof (induction n arbitrary: m d s)
  case 0
  then show ?case by (simp add: memcpy_bytes.simps)
next
  case (Suc n)
  have lt: "d < d + word_of_nat (Suc n)"
    using Suc.prems unat_add_less64 [of d "Suc n"] by (simp only: word_less_nat_alt)
  have d1: "unat (d + 1) = unat d + 1"
    using Suc.prems unat_add_less64 [of d 1] by simp
  have "memcpy_bytes (m(d := m s)) (d + 1) (s + 1) (d + 1 + word_of_nat n)
      = Some (st_bytes (m(d := m s)) (d + 1) (ld_bytes (m(d := m s)) (s + 1) n))"
    by (rule Suc.IH) (use Suc.prems d1 sep_step [of d 1 n s 1] in simp_all)
  moreover have "ld_bytes (m(d := m s)) (s + 1) n = ld_bytes m (s + 1) n"
    using ld_bytes_st_bytes_sep [of d 1 n s "[m s]" m] Suc.prems by simp
  moreover have "d + 1 + word_of_nat n = d + word_of_nat (Suc n)" by simp
  ultimately show ?case using lt by (subst memcpy_bytes.simps) (simp only: if_True ld_bytes.simps st_bytes.simps)
qed

lemma memcpy_words_correct:
  "unat d + (8 * k + r) < 2 ^ 64 \<Longrightarrow> 7 \<le> unat d + (8 * k + r) \<Longrightarrow> r < 8 \<Longrightarrow> sep d (8 * k) s (8 * k) \<Longrightarrow>
   memcpy_words m d s (d + word_of_nat (8 * k + r) - 7)
   = Some (st_bytes m d (ld_bytes m s (8 * k)), d + word_of_nat (8 * k), s + word_of_nat (8 * k))"
proof (induction k arbitrary: m d s)
  case 0
  have "unat (d + word_of_nat r - 7) = unat d + r - 7"
    using 0 unat_add_less64 [of d r] by (simp add: unat_sub_if')
  then have "\<not> d < d + word_of_nat r - 7" using 0 by (simp add: word_less_nat_alt)
  then show ?case by (simp add: memcpy_words.simps)
next
  case (Suc k)
  let ?m = "st64 m d (ld64 m s)"
  have m: "?m = st_bytes m d (ld_bytes m s 8)" by (simp add: st64_eq_st_bytes word_bytes_ld64)
  have e: "unat (d + word_of_nat (8 * Suc k + r) - 7) = unat d + (8 * Suc k + r) - 7"
    using Suc.prems unat_add_less64 [of d "8 * Suc k + r"] by (simp add: unat_sub_if' del: of_nat_add of_nat_mult)
  have lt: "d < d + word_of_nat (8 * Suc k + r) - 7"
    unfolding word_less_nat_alt e by simp
  have d8: "unat (d + 8) = unat d + 8"
    using Suc.prems unat_add_less64 [of d 8] by simp
  have sp: "sep d (8 + 8 * k) s (8 + 8 * k)" using Suc.prems(4) by simp
  have "memcpy_words ?m (d + 8) (s + 8) (d + 8 + word_of_nat (8 * k + r) - 7)
      = Some (st_bytes ?m (d + 8) (ld_bytes ?m (s + 8) (8 * k)), d + 8 + word_of_nat (8 * k), s + 8 + word_of_nat (8 * k))"
    by (rule Suc.IH) (use Suc.prems d8 sep_step [OF sp, of 8] in simp_all)
  moreover have "ld_bytes ?m (s + 8) (8 * k) = ld_bytes m (s + 8) (8 * k)"
    using ld_bytes_st_bytes_sep [OF sp, of "ld_bytes m s 8" m] Suc.prems by (simp add: m)
  moreover have "d + 8 + word_of_nat (8 * k + r) - 7 = d + word_of_nat (8 * Suc k + r) - 7"
    "d + 8 + word_of_nat (8 * k) = d + word_of_nat (8 * Suc k)"
    "s + 8 + word_of_nat (8 * k) = s + word_of_nat (8 * Suc k)" by simp_all
  moreover have "st_bytes ?m (d + 8) (ld_bytes m (s + 8) (8 * k)) = st_bytes m d (ld_bytes m s (8 * Suc k))"
    using ld_bytes_append [of m s 8 "8 * k"] by (simp add: m st_bytes_append)
  ultimately show ?case using lt by (subst memcpy_words.simps) (simp only: if_True)
qed

text \<open>For source and destination ranges that share no byte, with a destination that does
  not reach the end of the address space and ends at address 7 or above, \<open>memcpy\<close> returns and
  copies exactly the \<open>len\<close> bytes, on the aligned path (words, then the tail) as on the byte path.\<close>

theorem memcpy_correct:
  assumes "unat dest + unat len < 2 ^ 64" "7 \<le> unat dest + unat len"
    and "sep dest (unat len) src (unat len)"
  shows "memcpy m dest src len = Some (st_bytes m dest (ld_bytes m src (unat len)))"
proof (cases "(dest OR src) AND 7 = 0")
  case False
  have "memcpy_bytes m dest src (dest + word_of_nat (unat len)) = Some (st_bytes m dest (ld_bytes m src (unat len)))"
    using assms by (intro memcpy_bytes_correct)
  with False show ?thesis by (simp add: memcpy_def)
next
  case True
  define k r where "k = unat len div 8" and "r = unat len mod 8"
  have len: "unat len = 8 * k + r" "r < 8" by (simp_all add: k_def r_def)
  let ?d = "dest + word_of_nat (8 * k)" and ?s = "src + word_of_nat (8 * k)"
  let ?m = "st_bytes m dest (ld_bytes m src (8 * k))"
  have sp: "sep dest (8 * k + r) src (8 * k + r)" using assms(3) len by simp
  have "memcpy_words m dest src (dest + word_of_nat (8 * k + r) - 7) = Some (?m, ?d, ?s)"
    using assms len sep_weaken [OF sp] by (intro memcpy_words_correct) auto
  moreover have "word_of_nat (8 * k + r) = len" by (simp flip: len(1))
  ultimately have w: "memcpy_words m dest src (dest + len - 7) = Some (?m, ?d, ?s)" by simp
  have "unat ?d = unat dest + 8 * k" using assms len by (intro unat_add_less64) simp
  then have "memcpy_bytes ?m ?d ?s (?d + word_of_nat r) = Some (st_bytes ?m ?d (ld_bytes ?m ?s r))"
    using assms len by (intro memcpy_bytes_correct sep_step [OF sp]) simp
  moreover have "ld_bytes ?m ?s r = ld_bytes m ?s r"
    using assms len by (intro ld_bytes_st_bytes_sep [OF sp]) simp_all
  moreover have "?d + word_of_nat r = dest + len"
    using \<open>word_of_nat (8 * k + r) = len\<close> by (simp add: ac_simps)
  ultimately have "memcpy_bytes ?m ?d ?s (dest + len) = Some (st_bytes ?m ?d (ld_bytes m ?s r))"
    by (simp only:)
  then show ?thesis using True w
    by (simp add: memcpy_def len(1) ld_bytes_append st_bytes_append)
qed

theorem memcpy_correct_witness:
  "memcpy (\<lambda>_. 7) 1024 4096 20 = Some (st_bytes (\<lambda>_. 7) 1024 (ld_bytes (\<lambda>_. 7) 4096 20))"
  using memcpy_correct [of 1024 20 4096 "\<lambda>_. 7"] by (simp add: sep_def)

text \<open>\<open>memcmp\<close> returns 0 exactly when the two byte ranges are equal.\<close>

theorem memcmp_correct:
  "memcmp m p q n = 0 \<longleftrightarrow> ld_bytes m p (unat n) = ld_bytes m q (unat n)"
proof (induction m p q n rule: memcmp.induct)
  case (1 m p q n)
  show ?case
  proof (cases "n = 0")
    case False
    then have "unat n = Suc (unat (n - 1))" by (simp add: unat_pred word_neq_0_conv unat_gt_0)
    then show ?thesis using False 1
      by (subst memcmp.simps) (auto dest: unsigned_word_eqI)
  qed (simp add: memcmp.simps)
qed

lemma cstr_iff_bytes:
  "cstr m p cs \<longleftrightarrow> ld_bytes m p (Suc (length cs)) = cs @ [0] \<and> 0 \<notin> set cs"
  by (induction cs arbitrary: p) auto

lemma strcpy_loop_correct:
  "cstr m s cs \<Longrightarrow> sep d (Suc (length cs)) s (Suc (length cs)) \<Longrightarrow> Suc (length cs) < 2 ^ 64 \<Longrightarrow>
   strcpy_loop m d s = Some (st_bytes m d (cs @ [0]))"
proof (induction cs arbitrary: m d s)
  case Nil
  then show ?case by (simp add: strcpy_loop.simps Let_def fun_upd_def)
next
  case (Cons c cs)
  let ?m = "m(d := m s)"
  have "ld_bytes ?m (s + 1) (Suc (length cs)) = ld_bytes m (s + 1) (Suc (length cs))"
    using ld_bytes_st_bytes_sep [of d 1 "Suc (length cs)" s "[m s]" m] Cons.prems
    by (simp del: ld_bytes.simps fun_upd_apply)
  moreover have "cstr m (s + 1) cs" using Cons.prems(1) by simp
  ultimately have "cstr ?m (s + 1) cs"
    by (simp add: cstr_iff_bytes del: ld_bytes.simps fun_upd_apply)
  then have "strcpy_loop ?m (d + 1) (s + 1) = Some (st_bytes ?m (d + 1) (cs @ [0]))"
    using Cons.prems sep_step [of d 1 "Suc (length cs)" s 1] by (intro Cons.IH) (simp_all del: fun_upd_apply)
  then show ?case using Cons.prems(1)
    by (subst strcpy_loop.simps) (simp add: Let_def del: fun_upd_apply)
qed


text \<open>\<open>strcpy\<close> returns for a C string whose copy does not overlap it, and writes the string
  with its terminator.\<close>

theorem strcpy_correct:
  assumes "cstr m src cs" "sep dest (Suc (length cs)) src (Suc (length cs))" "Suc (length cs) < 2 ^ 64"
  shows "strcpy m dest src = Some (st_bytes m dest (cs @ [0]))"
  using assms by (simp add: strcpy_def strcpy_loop_correct)

theorem strcpy_correct_witness:
  "strcpy ((\<lambda>_. 0)(100 := 65)) 200 100 = Some (st_bytes ((\<lambda>_. 0)(100 := 65)) 200 ([65] @ [0]))"
  by (rule strcpy_correct) (simp_all add: sep_def)

end
