(* ===== verification/Fdt.thy ===== *)
theory Fdt
  imports CLib "HOL-Library.Signed_Division"
begin

text \<open>
  The flattened device tree (\<open>sm/machine/fdt.c\<close>): the scanner and its clients. A pointer is a 64-bit
  address into the byte memory. The callbacks of a scan are HOL functions on the memory and the client's
  \<open>extra\<close> state; a failed \<open>assert\<close> stops the machine and is \<open>None\<close>, as are a loop that does not end and
  a null dereference. A pointer to a \<open>struct fdt_scan_node\<close> is modelled by the node's contents when the
  callback runs: the struct is the variable \<open>child\<close> of an activation of \<open>fdt_scan_helper\<close>, so two such
  pointers are equal when they belong to the same activation, which the nesting depth identifies.
  String literals are byte lists; comparing with one is \<open>strcmp_lit\<close>, which is \<open>strcmp\<close> of the C library
  with a literal stored anywhere (\<open>strcmp_literal\<close>). The printing code under \<open>PK_PRINT_DEVICE_TREE\<close> is
  not compiled and not modelled.
\<close>

section \<open>Scanner\<close>

definition bswap :: "u32 \<Rightarrow> u32" where
  "bswap x =
     (let y = push_bit 8 (x AND 0x00FF00FF) OR drop_bit 8 (x AND 0xFF00FF00);
          z = push_bit 16 (y AND 0x0000FFFF) OR drop_bit 16 (y AND 0xFFFF0000)
      in z)"

definition FDT_MAGIC :: u32 where "FDT_MAGIC = 0xd00dfeed"
definition FDT_VERSION :: u32 where "FDT_VERSION = 17"
definition FDT_BEGIN_NODE :: u32 where "FDT_BEGIN_NODE = 1"
definition FDT_END_NODE :: u32 where "FDT_END_NODE = 2"
definition FDT_PROP :: u32 where "FDT_PROP = 3"
definition FDT_NOP :: u32 where "FDT_NOP = 4"

datatype scan_node =
  Node (node_parent: "scan_node option") (node_name: u64) (address_cells: u32) (size_cells: u32)

fun node_depth :: "scan_node \<Rightarrow> nat" where
  "node_depth (Node None _ _ _) = 0"
| "node_depth (Node (Some p) _ _ _) = Suc (node_depth p)"

record scan_prop =
  prop_node :: "scan_node option"
  prop_name :: u64
  prop_value :: u64
  prop_len :: u32

record 'x fdt_cb =
  cb_open :: "(scan_node \<Rightarrow> mem \<times> 'x \<Rightarrow> (mem \<times> 'x) option) option"
  cb_prop :: "scan_prop \<Rightarrow> mem \<times> 'x \<Rightarrow> (mem \<times> 'x) option"
  cb_done :: "(scan_node \<Rightarrow> mem \<times> 'x \<Rightarrow> (mem \<times> 'x) option) option"
  cb_close :: "(scan_node \<Rightarrow> mem \<times> 'x \<Rightarrow> (int \<times> mem \<times> 'x) option) option"

fun strcmp_lit :: "mem \<Rightarrow> u64 \<Rightarrow> u8 list \<Rightarrow> int" where
  "strcmp_lit m p [] = uint (m p)"
| "strcmp_lit m p (c # cs) = (if m p \<noteq> 0 \<and> m p = c then strcmp_lit m (p + 1) cs else uint (m p) - uint c)"

definition lit :: "string \<Rightarrow> u8 list" where "lit s = map of_char s"

definition set_cells :: "mem \<Rightarrow> scan_prop \<Rightarrow> u32 \<Rightarrow> scan_node option \<Rightarrow> scan_node option" where
  "set_cells m prop v node =
     (case node of
        None \<Rightarrow> None
      | Some (Node parent name ac sc) \<Rightarrow>
          (let ac = (if strcmp_lit m (prop_name prop) (lit ''#address-cells'') = 0 then v else ac);
               sc = (if strcmp_lit m (prop_name prop) (lit ''#size-cells'') = 0 then v else sc)
           in Some (Node parent name ac sc)))"

definition call_opt :: "(scan_node \<Rightarrow> mem \<times> 'x \<Rightarrow> (mem \<times> 'x) option) option \<Rightarrow> scan_node \<Rightarrow> mem \<times> 'x \<Rightarrow> (mem \<times> 'x) option" where
  "call_opt f node st = (case f of None \<Rightarrow> Some st | Some f \<Rightarrow> f node st)"

definition call_done :: "'x fdt_cb \<Rightarrow> bool \<Rightarrow> scan_node option \<Rightarrow> mem \<times> 'x \<Rightarrow> (mem \<times> 'x) option" where
  "call_done cb seen node st =
     (case node of
        Some n \<Rightarrow> if \<not> seen then call_opt (cb_done cb) n st else Some st
      | None \<Rightarrow> Some st)"

text \<open>\<open>while (lex != lex_next) *lex++ = bswap(FDT_NOP)\<close>\<close>

partial_function (option) nop_out :: "mem \<Rightarrow> u64 \<Rightarrow> u64 \<Rightarrow> mem option" where
  "nop_out m pos pos_next =
     (if pos \<noteq> pos_next then nop_out (st32 m pos (bswap FDT_NOP)) (pos + 4) pos_next else Some m)"

definition call_close ::
    "'x fdt_cb \<Rightarrow> scan_node \<Rightarrow> u64 \<Rightarrow> u64 \<Rightarrow> mem \<times> 'x \<Rightarrow> (mem \<times> 'x) option" where
  "call_close cb child pos pos_next st =
     (case cb_close cb of
        None \<Rightarrow> Some st
      | Some f \<Rightarrow>
          Option.bind (f child st) (\<lambda>(r, m, x).
            if r = - 1 then map_option (\<lambda>m. (m, x)) (nop_out m pos pos_next) else Some (m, x)))"

text \<open>
  The length of a property rounded up to words, as the C expression \<open>3 + (prop.len+3)/4\<close> over \<open>int\<close>,
  scaled by the size of a word.
\<close>

definition prop_advance :: "u32 \<Rightarrow> u64" where
  "prop_advance len = 4 * word_of_int (3 + (sint (len + 3) sdiv 4))"

text \<open>
  One activation of \<open>fdt_scan_helper\<close>: \<open>cells\<close> are the two cell counts of its variable \<open>child\<close>. The result
  is the position it returns, its node as it left it, and the state.
\<close>

partial_function (option) fdt_scan_loop ::
    "u64 \<Rightarrow> 'x fdt_cb \<Rightarrow> u64 \<Rightarrow> scan_node option \<Rightarrow> u32 \<times> u32 \<Rightarrow> bool \<Rightarrow> mem \<times> 'x \<Rightarrow>
     (u64 \<times> scan_node option \<times> mem \<times> 'x) option" where
  "fdt_scan_loop strings cb pos node cells seen st =
     (let m = fst st; tag = bswap (ld32 m pos) in
      if tag = FDT_NOP then fdt_scan_loop strings cb (pos + 4) node cells seen st
      else if tag = FDT_PROP then
        if seen then None
        else
         (let prop = \<lparr>prop_node = None, prop_name = strings + ucast (bswap (ld32 m (pos + 8))),
                      prop_value = pos + 12, prop_len = bswap (ld32 m (pos + 4))\<rparr>;
              node = set_cells m prop (bswap (ld32 m (pos + 12))) node
          in Option.bind (cb_prop cb (prop\<lparr>prop_node := node\<rparr>) st)
               (fdt_scan_loop strings cb (pos + prop_advance (prop_len prop)) node cells seen))
      else if tag = FDT_BEGIN_NODE then
        Option.bind (call_done cb seen node st) (\<lambda>st.
          let child = Node node (pos + 4) (fst cells) (snd cells) in
          Option.bind (call_opt (cb_open cb) child st) (\<lambda>st.
          Option.bind (strlen (fst st) (pos + 4)) (\<lambda>n.
          Option.bind (fdt_scan_loop strings cb (pos + 8 + 4 * (n div 4)) (Some child) (2, 1) False st)
            (\<lambda>(pos_next, child, st).
          Option.bind (call_close cb (the child) pos pos_next st)
            (fdt_scan_loop strings cb pos_next node (address_cells (the child), size_cells (the child)) True)))))
      else if tag = FDT_END_NODE then
        map_option (\<lambda>st. (pos + 4, node, st)) (call_done cb seen node st)
      else map_option (\<lambda>st. (pos, node, st)) (call_done cb seen node st))"

definition fdt_scan_helper ::
    "u64 \<Rightarrow> 'x fdt_cb \<Rightarrow> u64 \<Rightarrow> scan_node option \<Rightarrow> mem \<times> 'x \<Rightarrow> (u64 \<times> scan_node option \<times> mem \<times> 'x) option" where
  "fdt_scan_helper strings cb pos node st = fdt_scan_loop strings cb pos node (2, 1) False st"

definition fdt_understood :: "mem \<Rightarrow> u64 \<Rightarrow> bool" where
  "fdt_understood m fdt \<longleftrightarrow>
     bswap (ld32 m fdt) = FDT_MAGIC \<and> \<not> bswap (ld32 m (fdt + 24)) > FDT_VERSION"

definition fdt_scan :: "u64 \<Rightarrow> 'x fdt_cb \<Rightarrow> mem \<times> 'x \<Rightarrow> (mem \<times> 'x) option" where
  "fdt_scan fdt cb st =
     (let m = fst st in
      if \<not> fdt_understood m fdt then Some st
      else
       (let strings = fdt + ucast (bswap (ld32 m (fdt + 12)));
            pos = fdt + ucast (bswap (ld32 m (fdt + 8)))
        in map_option (\<lambda>(_, _, st). st) (fdt_scan_helper strings cb pos None st)))"

definition fdt_size :: "mem \<Rightarrow> u64 \<Rightarrow> u32" where
  "fdt_size m fdt = (if \<not> fdt_understood m fdt then 0 else bswap (ld32 m (fdt + 4)))"

section \<open>Fields\<close>

fun get_cells :: "mem \<Rightarrow> nat \<Rightarrow> u64 \<Rightarrow> u64 \<Rightarrow> u64 \<times> u64" where
  "get_cells m 0 v result = (v, result)"
| "get_cells m (Suc cells) v result = get_cells m cells (v + 4) (push_bit 32 result + ucast (bswap (ld32 m v)))"

definition fdt_get_address :: "mem \<Rightarrow> scan_node \<Rightarrow> u64 \<Rightarrow> u64 \<times> u64" where
  "fdt_get_address m node v = get_cells m (nat (sint (address_cells node))) v 0"

definition fdt_get_size :: "mem \<Rightarrow> scan_node \<Rightarrow> u64 \<Rightarrow> u64 \<times> u64" where
  "fdt_get_size m node v = get_cells m (nat (sint (size_cells node))) v 0"

text \<open>The address in a \<open>reg\<close> property, read with the cell counts of the node's parent.\<close>

definition parent_address :: "mem \<Rightarrow> scan_prop \<Rightarrow> u64 option" where
  "parent_address m prop =
     Option.bind (prop_node prop) (\<lambda>node. map_option (\<lambda>parent. snd (fdt_get_address m parent (prop_value prop)))
       (node_parent node))"

partial_function (option) string_list_loop :: "mem \<Rightarrow> u64 \<Rightarrow> u64 \<Rightarrow> u8 list \<Rightarrow> int \<Rightarrow> int option" where
  "string_list_loop m l e str index =
     (if 0 < sint (e - l) then
        if strcmp_lit m l str = 0 then Some index
        else Option.bind (strlen m l) (\<lambda>n. string_list_loop m (l + (n + 1)) e str (index + 1))
      else Some (- 1))"

definition fdt_string_list_index :: "mem \<Rightarrow> scan_prop \<Rightarrow> u8 list \<Rightarrow> int option" where
  "fdt_string_list_index m prop str =
     (let l = prop_value prop; e = l + scast (prop_len prop) in string_list_loop m l e str 0)"

definition name_is :: "mem \<Rightarrow> scan_prop \<Rightarrow> string \<Rightarrow> bool" where
  "name_is m prop s \<longleftrightarrow> strcmp_lit m (prop_name prop) (lit s) = 0"

definition value_is :: "mem \<Rightarrow> scan_prop \<Rightarrow> string \<Rightarrow> bool" where
  "value_is m prop s \<longleftrightarrow> strcmp_lit m (prop_value prop) (lit s) = 0"

definition first_cell :: "mem \<Rightarrow> scan_prop \<Rightarrow> u32" where
  "first_cell m prop = bswap (ld32 m (prop_value prop))"

text \<open>The end of a list of cells: \<open>value + len/4\<close>.\<close>

definition cells_end :: "u64 \<Rightarrow> u32 \<Rightarrow> u64" where
  "cells_end v len = v + 4 * word_of_int (sint len sdiv 4)"

section \<open>What the queries set up\<close>

definition NUM_HARTS :: nat where "NUM_HARTS = 1"

record hls_t =
  ipi :: u64
  mipi_pending :: u32
  timecmp :: u64
  plic_m_thresh :: u64
  plic_m_ie :: u64
  plic_s_thresh :: u64
  plic_s_ie :: u64

definition hls_zero :: hls_t where
  "hls_zero = \<lparr>ipi = 0, mipi_pending = 0, timecmp = 0, plic_m_thresh = 0, plic_m_ie = 0, plic_s_thresh = 0,
     plic_s_ie = 0\<rparr>"

record machine =
  mem_size :: u64
  mtime :: u64
  plic_priorities :: u64
  plic_ndevs :: u64
  hart_phandles :: "u32 list"
  hart_mask :: u64
  hls :: "hls_t list"

definition hls_init :: "nat \<Rightarrow> machine \<Rightarrow> machine" where
  "hls_init id' g = g\<lparr>hls := (hls g)[id' := hls_zero]\<rparr>"

subsection \<open>Memory\<close>

record mem_scan =
  memory :: bool
  reg_value :: u64
  reg_len :: u32

definition mem_open :: "scan_node \<Rightarrow> mem \<times> mem_scan \<times> machine \<Rightarrow> (mem \<times> mem_scan \<times> machine) option" where
  "mem_open node st = (case st of (m, scan, g) \<Rightarrow> Some (m, \<lparr>memory = False, reg_value = 0, reg_len = 0\<rparr>, g))"

definition mem_prop :: "scan_prop \<Rightarrow> mem \<times> mem_scan \<times> machine \<Rightarrow> (mem \<times> mem_scan \<times> machine) option" where
  "mem_prop prop st =
     (case st of (m, scan, g) \<Rightarrow>
       if name_is m prop ''device_type'' \<and> value_is m prop ''memory'' then Some (m, scan\<lparr>memory := True\<rparr>, g)
       else if name_is m prop ''reg''
       then Some (m, scan\<lparr>reg_value := prop_value prop, reg_len := prop_len prop\<rparr>, g)
       else Some st)"

text \<open>
  The loop over the base and size pairs; \<open>self\<close> is the address of the function \<open>mem_done\<close>, which lies in
  the monitor. The result is the position where the loop stops and the value of \<open>mem_size\<close>.
\<close>

partial_function (option) mem_ranges :: "mem \<Rightarrow> scan_node \<Rightarrow> u64 \<Rightarrow> u64 \<Rightarrow> u64 \<Rightarrow> u64 \<Rightarrow> (u64 \<times> u64) option" where
  "mem_ranges m parent self v e size0 =
     (if 0 < sint (e - v) then
        let (v, base') = fdt_get_address m parent v;
            (v, size') = fdt_get_size m parent v
        in mem_ranges m parent self v e (if base' \<le> self \<and> self \<le> base' + size' then size' else size0)
      else Some (v, size0))"

definition mem_done :: "u64 \<Rightarrow> scan_node \<Rightarrow> mem \<times> mem_scan \<times> machine \<Rightarrow> (mem \<times> mem_scan \<times> machine) option" where
  "mem_done self node st =
     (case st of (m, scan, g) \<Rightarrow>
       let v = reg_value scan; e = cells_end v (reg_len scan) in
       if \<not> memory scan then Some st
       else if \<not> (reg_value scan \<noteq> 0 \<and> sint (reg_len scan) smod 4 = 0) then None
       else
         Option.bind (if 0 < sint (e - v) then
                        Option.bind (node_parent node) (\<lambda>parent. mem_ranges m parent self v e (mem_size g))
                      else Some (v, mem_size g))
           (\<lambda>(v, size'). if e = v then Some (m, scan, g\<lparr>mem_size := size'\<rparr>) else None))"

definition query_mem :: "u64 \<Rightarrow> mem_scan \<Rightarrow> u64 \<Rightarrow> mem \<times> machine \<Rightarrow> (mem \<times> machine) option" where
  "query_mem self unset fdt st =
     (case st of (m, g) \<Rightarrow>
       let cb = \<lparr>cb_open = Some mem_open, cb_prop = mem_prop, cb_done = Some (mem_done self), cb_close = None\<rparr>;
           g = g\<lparr>mem_size := 0\<rparr>
       in Option.bind (fdt_scan fdt cb (m, unset, g)) (\<lambda>(m, scan, g).
            if 0 < mem_size g then Some (m, g) else None))"

subsection \<open>Harts\<close>

text \<open>The pointers \<open>cpu\<close> and \<open>controller\<close> are nesting depths.\<close>

record hart_scan =
  cpu :: "nat option"
  hart :: u32
  controller :: "nat option"
  icells :: u32
  phandle :: u32

definition hart_open :: "scan_node \<Rightarrow> mem \<times> hart_scan \<times> machine \<Rightarrow> (mem \<times> hart_scan \<times> machine) option" where
  "hart_open node st =
     (case st of (m, scan, g) \<Rightarrow>
       let scan = (if cpu scan = None then scan\<lparr>hart := - 1\<rparr> else scan);
           scan = (if controller scan = None then scan\<lparr>icells := 0, phandle := 0\<rparr> else scan)
       in Some (m, scan, g))"

definition hart_prop :: "scan_prop \<Rightarrow> mem \<times> hart_scan \<times> machine \<Rightarrow> (mem \<times> hart_scan \<times> machine) option" where
  "hart_prop prop st =
     (case st of (m, scan, g) \<Rightarrow>
       if name_is m prop ''device_type'' \<and> value_is m prop ''cpu'' then
         if cpu scan = None then Some (m, scan\<lparr>cpu := map_option node_depth (prop_node prop)\<rparr>, g) else None
       else if name_is m prop ''interrupt-controller'' then
         if controller scan = None
         then Some (m, scan\<lparr>controller := map_option node_depth (prop_node prop)\<rparr>, g) else None
       else if name_is m prop ''#interrupt-cells'' then Some (m, scan\<lparr>icells := first_cell m prop\<rparr>, g)
       else if name_is m prop ''phandle'' then Some (m, scan\<lparr>phandle := first_cell m prop\<rparr>, g)
       else if name_is m prop ''reg'' then
         map_option (\<lambda>reg. (m, scan\<lparr>hart := ucast reg\<rparr>, g)) (parent_address m prop)
       else Some st)"

definition hart_done :: "scan_node \<Rightarrow> mem \<times> hart_scan \<times> machine \<Rightarrow> (mem \<times> hart_scan \<times> machine) option" where
  "hart_done node st =
     (case st of (m, scan, g) \<Rightarrow>
       if cpu scan = Some (node_depth node) \<and> \<not> 0 \<le> sint (hart scan) then None
       else if controller scan = Some (node_depth node) \<and> cpu scan \<noteq> None then
         if \<not> 0 < phandle scan \<or> icells scan \<noteq> 1 then None
         else if sint (hart scan) < int NUM_HARTS then
           if sint (hart scan) < 0 then None
           else
            (let i = unat (hart scan);
                 g = g\<lparr>hart_phandles := (hart_phandles g)[i := phandle scan]\<rparr>;
                 g = g\<lparr>hart_mask := hart_mask g OR int_shl1 (scast (hart scan))\<rparr>
             in Some (m, scan, hls_init i g))
         else Some st
       else Some st)"

definition hart_close :: "scan_node \<Rightarrow> mem \<times> hart_scan \<times> machine \<Rightarrow> (int \<times> mem \<times> hart_scan \<times> machine) option" where
  "hart_close node st =
     (case st of (m, scan, g) \<Rightarrow>
       let scan = (if cpu scan = Some (node_depth node) then scan\<lparr>cpu := None\<rparr> else scan);
           scan = (if controller scan = Some (node_depth node) then scan\<lparr>controller := None\<rparr> else scan)
       in Some (0, m, scan, g))"

definition query_harts :: "u64 \<Rightarrow> u64 \<Rightarrow> mem \<times> machine \<Rightarrow> (mem \<times> machine) option" where
  "query_harts mhartid fdt st =
     (case st of (m, g) \<Rightarrow>
       let cb = \<lparr>cb_open = Some hart_open, cb_prop = hart_prop, cb_done = Some hart_done, cb_close = Some hart_close\<rparr>;
           scan = \<lparr>cpu = None, hart = 0, controller = None, icells = 0, phandle = 0\<rparr>
       in Option.bind (fdt_scan fdt cb (m, scan, g)) (\<lambda>(m, scan, g).
            if srl64 (hart_mask g) mhartid \<noteq> 0 then Some (m, g) else None))"

subsection \<open>Core-local interruptor\<close>

record clint_scan =
  clint_compat :: bool
  clint_reg :: u64
  clint_int_value :: u64
  clint_int_len :: u32
  clint_finished :: bool

definition clint_open :: "scan_node \<Rightarrow> mem \<times> clint_scan \<times> machine \<Rightarrow> (mem \<times> clint_scan \<times> machine) option" where
  "clint_open node st =
     (case st of (m, scan, g) \<Rightarrow>
       Some (m, scan\<lparr>clint_compat := False, clint_reg := 0, clint_int_value := 0\<rparr>, g))"

definition compatible :: "mem \<Rightarrow> scan_prop \<Rightarrow> u8 list \<Rightarrow> bool option" where
  "compatible m prop str =
     (if name_is m prop ''compatible'' then map_option (\<lambda>i. 0 \<le> i) (fdt_string_list_index m prop str)
      else Some False)"

definition clint_prop :: "scan_prop \<Rightarrow> mem \<times> clint_scan \<times> machine \<Rightarrow> (mem \<times> clint_scan \<times> machine) option" where
  "clint_prop prop st =
     (case st of (m, scan, g) \<Rightarrow>
       Option.bind (compatible m prop (lit ''riscv,clint0'')) (\<lambda>c.
         if c then Some (m, scan\<lparr>clint_compat := True\<rparr>, g)
         else if name_is m prop ''reg'' then
           map_option (\<lambda>reg. (m, scan\<lparr>clint_reg := reg\<rparr>, g)) (parent_address m prop)
         else if name_is m prop ''interrupts-extended'' then
           Some (m, scan\<lparr>clint_int_value := prop_value prop, clint_int_len := prop_len prop\<rparr>, g)
         else Some st))"

text \<open>The first hart with a given handle; \<open>NUM_HARTS\<close> when there is none.\<close>

definition hart_of :: "machine \<Rightarrow> u32 \<Rightarrow> nat" where
  "hart_of g ph = (case find (\<lambda>i. hart_phandles g ! i = ph) [0..<NUM_HARTS] of Some i \<Rightarrow> i | None \<Rightarrow> NUM_HARTS)"

definition update_hls :: "nat \<Rightarrow> (hls_t \<Rightarrow> hls_t) \<Rightarrow> machine \<Rightarrow> machine" where
  "update_hls i f g = g\<lparr>hls := (hls g)[i := f (hls g ! i)]\<rparr>"

partial_function (option) clint_loop :: "mem \<Rightarrow> u64 \<Rightarrow> u64 \<Rightarrow> u64 \<Rightarrow> u32 \<Rightarrow> machine \<Rightarrow> machine option" where
  "clint_loop m reg v e index g =
     (if 0 < sint (e - v) then
        let i = hart_of g (bswap (ld32 m v));
            g = (if i < NUM_HARTS
                 then update_hls i (\<lambda>h. h\<lparr>ipi := reg + scast (index * 4),
                                         timecmp := reg + 0x4000 + scast (index * 8)\<rparr>) g
                 else g)
        in clint_loop m reg (v + 16) e (index + 1) g
      else Some g)"

definition clint_done :: "scan_node \<Rightarrow> mem \<times> clint_scan \<times> machine \<Rightarrow> (mem \<times> clint_scan \<times> machine) option" where
  "clint_done node st =
     (case st of (m, scan, g) \<Rightarrow>
       let v = clint_int_value scan; e = cells_end v (clint_int_len scan) in
       if \<not> clint_compat scan then Some st
       else if clint_reg scan = 0 then None
       else if \<not> (clint_int_value scan \<noteq> 0 \<and> sint (clint_int_len scan) smod 16 = 0) then None
       else if clint_finished scan then None
       else map_option (\<lambda>g. (m, scan\<lparr>clint_finished := True\<rparr>, g))
              (clint_loop m (clint_reg scan) v e 0 (g\<lparr>mtime := clint_reg scan + 0xbff8\<rparr>)))"

definition query_clint :: "clint_scan \<Rightarrow> u64 \<Rightarrow> mem \<times> machine \<Rightarrow> (mem \<times> machine) option" where
  "query_clint unset fdt st =
     (case st of (m, g) \<Rightarrow>
       let cb = \<lparr>cb_open = Some clint_open, cb_prop = clint_prop, cb_done = Some clint_done, cb_close = None\<rparr>;
           scan = unset\<lparr>clint_finished := False\<rparr>
       in Option.bind (fdt_scan fdt cb (m, scan, g)) (\<lambda>(m, scan, g).
            if clint_finished scan then Some (m, g) else None))"

subsection \<open>Platform-level interrupt controller\<close>

record plic_scan =
  plic_compat :: bool
  plic_reg :: u64
  plic_int_value :: u64
  plic_int_len :: u32
  plic_finished :: bool
  plic_ndev :: u32

definition plic_open :: "scan_node \<Rightarrow> mem \<times> plic_scan \<times> 'g \<Rightarrow> (mem \<times> plic_scan \<times> 'g) option" where
  "plic_open node st =
     (case st of (m, scan, g) \<Rightarrow>
       Some (m, scan\<lparr>plic_compat := False, plic_reg := 0, plic_int_value := 0\<rparr>, g))"

definition plic_prop :: "scan_prop \<Rightarrow> mem \<times> plic_scan \<times> 'g \<Rightarrow> (mem \<times> plic_scan \<times> 'g) option" where
  "plic_prop prop st =
     (case st of (m, scan, g) \<Rightarrow>
       Option.bind (compatible m prop (lit ''riscv,plic0'')) (\<lambda>c.
         if c then Some (m, scan\<lparr>plic_compat := True\<rparr>, g)
         else if name_is m prop ''reg'' then
           map_option (\<lambda>reg. (m, scan\<lparr>plic_reg := reg\<rparr>, g)) (parent_address m prop)
         else if name_is m prop ''interrupts-extended'' then
           Some (m, scan\<lparr>plic_int_value := prop_value prop, plic_int_len := prop_len prop\<rparr>, g)
         else if name_is m prop ''riscv,ndev'' then Some (m, scan\<lparr>plic_ndev := first_cell m prop\<rparr>, g)
         else Some st))"

definition IRQ_S_EXT :: u32 where "IRQ_S_EXT = 9"
definition IRQ_M_EXT :: u32 where "IRQ_M_EXT = 11"
definition HART_BASE :: u64 where "HART_BASE = 0x200000"
definition HART_SIZE :: u32 where "HART_SIZE = 0x1000"
definition ENABLE_BASE :: u64 where "ENABLE_BASE = 0x2000"
definition ENABLE_SIZE :: u32 where "ENABLE_SIZE = 0x80"

partial_function (option) plic_loop :: "mem \<Rightarrow> u64 \<Rightarrow> u64 \<Rightarrow> u64 \<Rightarrow> u32 \<Rightarrow> machine \<Rightarrow> machine option" where
  "plic_loop m reg v e index g =
     (if 0 < sint (e - v) then
        let i = hart_of g (bswap (ld32 m v));
            cpu_int = bswap (ld32 m (v + 4));
            ie = reg + ENABLE_BASE + scast (ENABLE_SIZE * index);
            thresh = reg + HART_BASE + scast (HART_SIZE * index);
            g = (if i < NUM_HARTS
                 then if cpu_int = IRQ_M_EXT then update_hls i (\<lambda>h. h\<lparr>plic_m_ie := ie, plic_m_thresh := thresh\<rparr>) g
                      else if cpu_int = IRQ_S_EXT then update_hls i (\<lambda>h. h\<lparr>plic_s_ie := ie, plic_s_thresh := thresh\<rparr>) g
                      else g
                 else g)
        in plic_loop m reg (v + 8) e (index + 1) g
      else Some g)"

definition plic_done :: "scan_node \<Rightarrow> mem \<times> plic_scan \<times> machine \<Rightarrow> (mem \<times> plic_scan \<times> machine) option" where
  "plic_done node st =
     (case st of (m, scan, g) \<Rightarrow>
       let v = plic_int_value scan; e = cells_end v (plic_int_len scan) in
       if \<not> plic_compat scan then Some st
       else if plic_reg scan = 0 then None
       else if \<not> (plic_int_value scan \<noteq> 0 \<and> sint (plic_int_len scan) smod 8 = 0) then None
       else if \<not> (0 \<le> sint (plic_ndev scan) \<and> sint (plic_ndev scan) < 1024) then None
       else if plic_finished scan then None
       else map_option (\<lambda>g. (m, scan\<lparr>plic_finished := True\<rparr>, g))
              (plic_loop m (plic_reg scan) v e 0
                 (g\<lparr>plic_priorities := plic_reg scan, plic_ndevs := scast (plic_ndev scan)\<rparr>)))"

definition query_plic :: "plic_scan \<Rightarrow> u64 \<Rightarrow> mem \<times> machine \<Rightarrow> (mem \<times> machine) option" where
  "query_plic unset fdt st =
     (case st of (m, g) \<Rightarrow>
       let cb = \<lparr>cb_open = Some plic_open, cb_prop = plic_prop, cb_done = Some plic_done, cb_close = None\<rparr>
       in map_option (\<lambda>(m, scan, g). (m, g)) (fdt_scan fdt cb (m, unset\<lparr>plic_finished := False\<rparr>, g)))"

section \<open>Filters\<close>

partial_function (option) redact_loop :: "mem \<Rightarrow> u64 \<Rightarrow> u64 \<Rightarrow> mem option" where
  "redact_loop m v e =
     (if 0 < sint (e - v) then
        let m = (if bswap (ld32 m (v + 4)) = IRQ_M_EXT then st32 m (v + 4) (bswap (- 1)) else m)
        in redact_loop m (v + 8) e
      else Some m)"

definition plic_redact :: "scan_node \<Rightarrow> mem \<times> plic_scan \<times> unit \<Rightarrow> (mem \<times> plic_scan \<times> unit) option" where
  "plic_redact node st =
     (case st of (m, scan, g) \<Rightarrow>
       let v = plic_int_value scan; e = cells_end v (plic_int_len scan) in
       if \<not> plic_compat scan then Some st
       else map_option (\<lambda>m. (m, scan\<lparr>plic_finished := True\<rparr>, g)) (redact_loop m v e))"

definition filter_plic :: "plic_scan \<Rightarrow> u64 \<Rightarrow> mem \<Rightarrow> mem option" where
  "filter_plic unset fdt m =
     (let cb = \<lparr>cb_open = Some plic_open, cb_prop = plic_prop, cb_done = Some plic_redact, cb_close = None\<rparr>
      in map_option fst (fdt_scan fdt cb (m, unset\<lparr>plic_finished := False\<rparr>, ())))"

text \<open>The scan of \<open>filter_compat\<close>: the nesting depth and the depth of a node to delete, 999 for none.\<close>

record compat_scan =
  compat :: "u8 list"
  depth :: int
  kill :: int

definition compat_open :: "scan_node \<Rightarrow> mem \<times> compat_scan \<Rightarrow> (mem \<times> compat_scan) option" where
  "compat_open node st = (case st of (m, scan) \<Rightarrow> Some (m, scan\<lparr>depth := depth scan + 1\<rparr>))"

definition compat_prop :: "scan_prop \<Rightarrow> mem \<times> compat_scan \<Rightarrow> (mem \<times> compat_scan) option" where
  "compat_prop prop st =
     (case st of (m, scan) \<Rightarrow>
       map_option (\<lambda>c. (m, if c \<and> depth scan < kill scan then scan\<lparr>kill := depth scan\<rparr> else scan))
         (compatible m prop (compat scan)))"

definition compat_close :: "scan_node \<Rightarrow> mem \<times> compat_scan \<Rightarrow> (int \<times> mem \<times> compat_scan) option" where
  "compat_close node st =
     (case st of (m, scan) \<Rightarrow>
       let hit = (kill scan = depth scan); scan = scan\<lparr>depth := depth scan - 1\<rparr>
       in if hit then Some (- 1, m, scan\<lparr>kill := 999\<rparr>) else Some (0, m, scan))"

definition filter_compat :: "u64 \<Rightarrow> u8 list \<Rightarrow> mem \<Rightarrow> mem option" where
  "filter_compat fdt str m =
     (let cb = \<lparr>cb_open = Some compat_open, cb_prop = compat_prop, cb_done = None, cb_close = Some compat_close\<rparr>;
          scan = \<lparr>compat = str, depth = 0, kill = 999\<rparr>
      in map_option fst (fdt_scan fdt cb (m, scan)))"

record hart_filter =
  hf_compat :: bool
  hf_hart :: u32
  hf_status :: u64
  hf_mask :: u64

definition hart_filter_open :: "scan_node \<Rightarrow> mem \<times> hart_filter \<Rightarrow> (mem \<times> hart_filter) option" where
  "hart_filter_open node st =
     (case st of (m, f) \<Rightarrow> Some (m, f\<lparr>hf_status := 0, hf_compat := False, hf_hart := - 1\<rparr>))"

definition hart_filter_prop :: "scan_prop \<Rightarrow> mem \<times> hart_filter \<Rightarrow> (mem \<times> hart_filter) option" where
  "hart_filter_prop prop st =
     (case st of (m, f) \<Rightarrow>
       if name_is m prop ''device_type'' \<and> value_is m prop ''cpu'' then Some (m, f\<lparr>hf_compat := True\<rparr>)
       else if name_is m prop ''reg'' then
         map_option (\<lambda>reg. (m, f\<lparr>hf_hart := ucast reg\<rparr>)) (parent_address m prop)
       else if name_is m prop ''status'' then Some (m, f\<lparr>hf_status := prop_value prop\<rparr>)
       else Some st)"

text \<open>\<open>strcpy(status, "masked")\<close> and the new length two words before the value.\<close>

definition hart_filter_done :: "scan_node \<Rightarrow> mem \<times> hart_filter \<Rightarrow> (mem \<times> hart_filter) option" where
  "hart_filter_done node st =
     (case st of (m, f) \<Rightarrow>
       if \<not> hf_compat f then Some st
       else if hf_status f = 0 then None
       else if \<not> 0 \<le> sint (hf_hart f) then None
       else if srl64 (hf_mask f) (scast (hf_hart f)) AND 1 \<noteq> 0 \<and> strcmp_lit m (hf_status f) (lit ''okay'') = 0 then
         let m = st_bytes m (hf_status f) (lit ''masked'' @ [0]);
             m = st32 m (hf_status f - 8) (bswap (6 + 1))
         in Some (m, f)
       else Some st)"

definition filter_harts :: "hart_filter \<Rightarrow> u64 \<Rightarrow> u64 \<Rightarrow> mem \<Rightarrow> mem option" where
  "filter_harts unset fdt hart_mask' m =
     (let cb = \<lparr>cb_open = Some hart_filter_open, cb_prop = hart_filter_prop, cb_done = Some hart_filter_done,
                cb_close = None\<rparr>
      in map_option fst (fdt_scan fdt cb (m, unset\<lparr>hf_mask := hart_mask'\<rparr>)))"

section \<open>Literals\<close>

lemma strcmp_literal:
  assumes "cstr m q cs"
  shows "strcmp m p q = Some (strcmp_lit m p cs)"
  using assms
proof (induction cs arbitrary: p q)
  case Nil
  then show ?case by (subst strcmp.simps) (auto simp: Let_def)
next
  case (Cons c cs)
  then show ?case by (subst strcmp.simps) (auto simp: Let_def)
qed

end
