(* ===== verification/Fdt_Scan.thy ===== *)
theory Fdt_Scan
  imports Fdt
begin

text \<open>
  What the scanner of \<open>Fdt\<close> does on a well-formed tree. The structure block is a list of \<open>item\<close>s; \<open>encs\<close>
  is its words in the order they have in memory. A client that edits the tree only by deleting nodes is an
  instance of the locale \<open>fdt_editor\<close>: the scan then terminates, calls the client as a traversal of the tree
  would, and leaves in memory the tree without the deleted nodes. \<open>filter_compat\<close> is such a client.
\<close>

section \<open>Trees and their words\<close>

datatype item = Nop | Prop u32 u32 "u32 list" | Sub "u32 list" "item list"

fun enc :: "item \<Rightarrow> u32 list" where
  "enc Nop = [FDT_NOP]"
| "enc (Prop len off vs) = FDT_PROP # len # off # vs"
| "enc (Sub nm its) = FDT_BEGIN_NODE # nm @ concat (map enc its) @ [FDT_END_NODE]"

definition encs :: "item list \<Rightarrow> u32 list" where "encs its = concat (map enc its)"

lemma encs_simps [simp]: "encs [] = []" "encs (i # is) = enc i @ encs is" "encs (is @ js) = encs is @ encs js"
  by (simp_all add: encs_def)

lemma enc_Sub: "enc (Sub nm its) = FDT_BEGIN_NODE # nm @ encs its @ [FDT_END_NODE]"
  by (simp add: encs_def)

declare enc.simps(3) [simp del]

definition cell :: "mem \<Rightarrow> u64 \<Rightarrow> u32" where "cell m a = bswap (ld32 m a)"

fun cells_at :: "mem \<Rightarrow> u64 \<Rightarrow> u32 list \<Rightarrow> bool" where
  "cells_at m a [] \<longleftrightarrow> True"
| "cells_at m a (w # ws) \<longleftrightarrow> cell m a = w \<and> cells_at m (a + 4) ws"

lemma cells_at_append: "cells_at m a (xs @ ys) \<longleftrightarrow> cells_at m a xs \<and> cells_at m (a + 4 * word_of_nat (length xs)) ys"
  by (induction xs arbitrary: a) (auto simp: algebra_simps)

text \<open>The bytes of a word as they are in memory.\<close>

definition be_bytes :: "u32 \<Rightarrow> u8 list" where
  "be_bytes w = map (\<lambda>i. ucast (drop_bit (24 - 8 * i) w)) [0..<4]"

definition bytes_of :: "u32 list \<Rightarrow> u8 list" where "bytes_of ws = concat (map be_bytes ws)"

lemma bit_bswap:
  assumes "k < 32"
  shows "bit (bswap w) k \<longleftrightarrow> bit w (24 - 8 * (k div 8) + k mod 8)"
proof -
  have "\<forall>k\<in>set [0..<32]. bit (bswap w) k \<longleftrightarrow> bit w (24 - 8 * (k div 8) + k mod 8)"
    by (simp add: upt_rec bswap_def Let_def bit_or_iff bit_and_iff bit_push_bit_iff bit_drop_bit_eq)
      (simp add: eval_nat_numeral)
  with assms show ?thesis by simp
qed

lemma bswap_bswap [simp]: "bswap (bswap w) = w"
proof (rule bit_word_eqI)
  have "\<forall>k\<in>set [0..<32]. bit (bswap (bswap w)) k = bit w k"
    by (simp add: upt_rec bit_bswap) (simp add: eval_nat_numeral)
  moreover fix k assume "k < LENGTH(32)"
  ultimately show "bit (bswap (bswap w)) k = bit w k" by simp
qed

lemma be_bytes_cell: "be_bytes (cell m a) = ld_bytes m a 4"
proof (rule nth_equalityI)
  fix i assume "i < length (be_bytes (cell m a))"
  then have i: "i < 4" by (simp add: be_bytes_def)
  have "ucast (drop_bit (24 - 8 * i) (bswap (ld32 m a))) = (ucast (drop_bit (8 * i) (ld32 m a)) :: u8)"
  proof (rule bit_word_eqI)
    have "\<forall>i\<in>set [0..<4]. \<forall>k\<in>set [0..<8]. bit (bswap (ld32 m a)) (24 - 8 * i + k) = bit (ld32 m a) (8 * i + k)"
      by (simp add: upt_rec bit_bswap) (simp add: eval_nat_numeral)
    moreover fix k assume "k < LENGTH(8)"
    ultimately show "bit (ucast (drop_bit (24 - 8 * i) (bswap (ld32 m a))) :: u8) k =
        bit (ucast (drop_bit (8 * i) (ld32 m a)) :: u8) k"
      using i by (simp add: bit_ucast_iff bit_drop_bit_eq)
  qed
  with ld32_byte [OF i] show "be_bytes (cell m a) ! i = ld_bytes m a 4 ! i"
    using i by (simp add: be_bytes_def cell_def)
qed (simp add: be_bytes_def)

lemma length_be_bytes [simp]: "length (be_bytes w) = 4"
  by (simp add: be_bytes_def)

lemma length_bytes_of [simp]: "length (bytes_of ws) = 4 * length ws"
  by (induction ws) (simp_all add: bytes_of_def)

lemma bytes_of_simps [simp]: "bytes_of [] = []" "bytes_of (w # ws) = be_bytes w @ bytes_of ws"
    "bytes_of (xs @ ys) = bytes_of xs @ bytes_of ys"
  by (simp_all add: bytes_of_def)

lemma cells_at_bytes: "cells_at m a ws \<Longrightarrow> ld_bytes m a (4 * length ws) = bytes_of ws"
proof (induction ws arbitrary: a)
  case (Cons w ws)
  have "ld_bytes m a (4 + 4 * length ws) = ld_bytes m a 4 @ ld_bytes m (a + 4) (4 * length ws)"
    using ld_bytes_append [of m a 4 "4 * length ws"] by simp
  with Cons show ?case by (simp flip: be_bytes_cell)
qed simp

lemma cell_st32_same [simp]: "cell (st32 m a (bswap w)) a = w"
  by (simp add: cell_def)

lemma cell_cong: "(\<And>b. unat (b - a) < 4 \<Longrightarrow> m' b = m b) \<Longrightarrow> cell m' a = cell m a"
  unfolding cell_def by (rule arg_cong [where f = bswap], rule ld32_cong) simp

section \<open>Ranges of words\<close>

definition unchanged_outside :: "u64 \<Rightarrow> nat \<Rightarrow> mem \<Rightarrow> mem \<Rightarrow> bool" where
  "unchanged_outside a n m m' \<longleftrightarrow> (\<forall>b. n \<le> unat (b - a) \<longrightarrow> m' b = m b)"

lemma unchanged_outside_refl [simp]: "unchanged_outside a n m m"
  by (simp add: unchanged_outside_def)

lemma unchanged_outside_trans:
  "unchanged_outside a n m m' \<Longrightarrow> unchanged_outside a n m' m'' \<Longrightarrow> unchanged_outside a n m m''"
  by (simp add: unchanged_outside_def)

lemma unchanged_outside_sub:
  assumes "unchanged_outside (a + word_of_nat k) n m m'" "k + n \<le> l" "l \<le> 2 ^ 64"
  shows "unchanged_outside a l m m'"
  unfolding unchanged_outside_def
proof (intro allI impI)
  fix b assume "l \<le> unat (b - a)"
  then have "\<not> unat (b - (a + word_of_nat k)) < n" using assms offset_iff [of k n b a] by auto
  then show "m' b = m b" using assms(1) by (simp add: unchanged_outside_def not_less)
qed

lemma cells_at_cong:
  assumes "\<And>b. unat (b - a) < 4 * length ws \<Longrightarrow> m' b = m b" "4 * length ws \<le> 2 ^ 64"
  shows "cells_at m' a ws = cells_at m a ws"
  using assms
proof (induction ws arbitrary: a)
  case (Cons w ws)
  have "cell m' a = cell m a"
    by (rule cell_cong) (use Cons.prems in auto)
  moreover have "cells_at m' (a + 4) ws = cells_at m (a + 4) ws"
  proof (rule Cons.IH)
    fix b assume "unat (b - (a + 4)) < 4 * length ws"
    then show "m' b = m b" using Cons.prems offset_iff [of 4 "4 * length ws" b a] by simp
  qed (use Cons.prems in simp)
  ultimately show ?case by simp
qed simp

text \<open>A change inside a range of words keeps the words before and after the range.\<close>

lemma cells_at_before:
  assumes "unchanged_outside (a + word_of_nat k) n m m'" "4 * length ws \<le> k" "k + n \<le> 2 ^ 64"
  shows "cells_at m' a ws = cells_at m a ws"
proof (rule cells_at_cong)
  fix b assume "unat (b - a) < 4 * length ws"
  then have "\<not> unat (b - (a + word_of_nat k)) < n" using assms offset_iff [of k n b a] by auto
  then show "m' b = m b" using assms(1) by (simp add: unchanged_outside_def not_less)
qed (use assms in simp)

lemma cells_at_after:
  assumes "unchanged_outside a n m m'" "n \<le> k" "k + 4 * length ws \<le> 2 ^ 64"
  shows "cells_at m' (a + word_of_nat k) ws = cells_at m (a + word_of_nat k) ws"
proof (rule cells_at_cong)
  fix b assume "unat (b - (a + word_of_nat k)) < 4 * length ws"
  then have "k \<le> unat (b - a)" using assms offset_iff [of k "4 * length ws" b a] by auto
  then show "m' b = m b" using assms(1,2) by (simp add: unchanged_outside_def)
qed (use assms in simp)

lemma nop_out_words:
  assumes "4 * n < 2 ^ 64"
  shows "\<exists>m'. nop_out m pos (pos + 4 * word_of_nat n) = Some m' \<and> cells_at m' pos (replicate n FDT_NOP) \<and>
    unchanged_outside pos (4 * n) m m'"
  using assms
proof (induction n arbitrary: m pos)
  case 0
  then show ?case by (subst nop_out.simps) simp
next
  case (Suc n)
  let ?m1 = "st32 m pos (bswap FDT_NOP)"
  have ne: "pos \<noteq> pos + 4 * word_of_nat (Suc n)"
  proof
    assume "pos = pos + 4 * word_of_nat (Suc n)"
    then have "word_of_nat (4 * Suc n) = (0 :: u64)" by (simp only: of_nat_mult of_nat_numeral add_cancel_right_right)
    moreover have "unat (word_of_nat (4 * Suc n) :: u64) = 4 * Suc n" using Suc.prems by (rule unat_of_nat64)
    ultimately have "4 * Suc n = 0" by (metis unsigned_0)
    then show False by simp
  qed
  have step: "pos + 4 * word_of_nat (Suc n) = pos + 4 + 4 * word_of_nat n" by simp
  obtain m' where m': "nop_out ?m1 (pos + 4) (pos + 4 + 4 * word_of_nat n) = Some m'"
    "cells_at m' (pos + 4) (replicate n FDT_NOP)" "unchanged_outside (pos + 4) (4 * n) ?m1 m'"
    using Suc.IH [of ?m1 "pos + 4"] Suc.prems by auto
  have off: "unchanged_outside (pos + word_of_nat 4) (4 * n) ?m1 m'" using m'(3) by simp
  have le: "4 * length [FDT_NOP] \<le> 4" "4 + 4 * n \<le> 2 ^ 64" using Suc.prems by simp_all
  have "cells_at m' pos [FDT_NOP]" using cells_at_before [OF off le] by simp
  with m'(2) have c: "cells_at m' pos (replicate (Suc n) FDT_NOP)" by simp
  have "unchanged_outside pos (4 * Suc n) m ?m1"
    by (auto simp: unchanged_outside_def intro!: st32_outside)
  moreover have "unchanged_outside pos (4 * Suc n) ?m1 m'"
    by (rule unchanged_outside_sub [OF off]) (use Suc.prems in simp_all)
  ultimately have "unchanged_outside pos (4 * Suc n) m m'" by (rule unchanged_outside_trans)
  moreover have "nop_out m pos (pos + 4 * word_of_nat (Suc n)) = Some m'"
    using m'(1) ne [unfolded step] by (simp only: nop_out.simps [of m pos] step if_True not_False_eq_True)
  ultimately show ?case using c by blast
qed

section \<open>Names and lengths\<close>

definition wf_name :: "u32 list \<Rightarrow> bool" where
  "wf_name nm \<longleftrightarrow>
     (let n = length (takeWhile (\<lambda>b. b \<noteq> 0) (bytes_of nm)) in n < 4 * length nm \<and> n div 4 + 1 = length nm)"

lemma cstr_takeWhile: "0 \<in> set (ld_bytes m a k) \<Longrightarrow> cstr m a (takeWhile (\<lambda>b. b \<noteq> 0) (ld_bytes m a k))"
  by (induction k arbitrary: a) auto

lemma takeWhile_short: "length (takeWhile P xs) < length xs \<Longrightarrow> \<exists>x\<in>set xs. \<not> P x"
  by (metis nat_less_le takeWhile_eq_all_conv)

lemma strlen_name:
  assumes "cells_at m a nm" "wf_name nm" "4 * length nm < 2 ^ 64"
  shows "\<exists>n. strlen m a = Some n \<and> 4 + 4 * (n div 4) = 4 * word_of_nat (length nm)"
proof -
  let ?k = "length (takeWhile (\<lambda>b. b \<noteq> 0) (bytes_of nm))"
  note b = cells_at_bytes [OF assms(1)]
  have k: "?k < 4 * length nm" "?k div 4 + 1 = length nm" using assms(2) by (simp_all add: wf_name_def Let_def)
  then have "0 \<in> set (bytes_of nm)" using takeWhile_short [of "\<lambda>b. b \<noteq> 0" "bytes_of nm"] by auto
  then have "strlen m a = Some (word_of_nat ?k)"
    using cstr_takeWhile [of m a "4 * length nm"] by (simp add: strlen_def strlen_loop_cstr b)
  moreover have "word_of_nat ?k div 4 = (word_of_nat (?k div 4) :: u64)"
    using k(1) assms(3) by (simp add: word_arith_nat_div unat_of_nat64)
  ultimately show ?thesis by (simp flip: k(2))
qed

text \<open>Well-formed items, for a client that accepts the properties \<open>ok\<close>; properties come before subnodes.\<close>

fun wf_item :: "(u32 \<Rightarrow> u32 \<Rightarrow> u32 list \<Rightarrow> bool) \<Rightarrow> item \<Rightarrow> bool"
  and props_first :: "bool \<Rightarrow> item list \<Rightarrow> bool" where
  "wf_item ok Nop \<longleftrightarrow> True"
| "wf_item ok (Prop len off vs) \<longleftrightarrow> ok len off vs \<and> unat len + 3 < 2 ^ 31 \<and> length vs = (unat len + 3) div 4"
| "wf_item ok (Sub nm its) \<longleftrightarrow> wf_name nm \<and> props_first False its \<and> (\<forall>i\<in>set its. wf_item ok i)"
| "props_first seen [] \<longleftrightarrow> True"
| "props_first seen (Nop # its) \<longleftrightarrow> props_first seen its"
| "props_first seen (Prop len off vs # its) \<longleftrightarrow> \<not> seen \<and> props_first seen its"
| "props_first seen (Sub nm sub # its) \<longleftrightarrow> props_first True its"

lemma prop_advance_words:
  assumes "unat len + 3 < 2 ^ 31" "length vs = (unat len + 3) div 4"
  shows "prop_advance len = 4 * word_of_nat (3 + length vs)"
proof -
  define n where "n = unat len + 3"
  have n: "n < 2 ^ 31" "length vs = n div 4" using assms by (simp_all add: n_def)
  have "unat (len + 3) = n" using assms(1) by (simp add: n_def unat_word_ariths)
  then have e: "uint (len + 3) = int n" by (simp only: uint_nat)
  have "sint (len + 3) = int n"
    unfolding sint_uint e by (rule signed_take_bit_int_eq_self) (use n(1) in simp_all)
  then have "sint (len + 3) sdiv 4 = int (length vs)" by (cases "n = 0") (simp_all add: n(2) signed_divide_int_def zdiv_int)
  then show ?thesis by (simp add: prop_advance_def)
qed

section \<open>The traversal of a tree\<close>

text \<open>
  A client that opens and closes nodes, reads properties and decides on closing whether the node is deleted:
  \<open>visits\<close> is its traversal of a list of items, with the items that remain.
\<close>

fun visits :: "('x \<Rightarrow> 'x) \<Rightarrow> (u32 \<Rightarrow> u32 \<Rightarrow> u32 list \<Rightarrow> 'x \<Rightarrow> 'x) \<Rightarrow> ('x \<Rightarrow> bool \<times> 'x) \<Rightarrow> item list \<Rightarrow> 'x \<Rightarrow> item list \<times> 'x" where
  "visits opn prp cls [] x = ([], x)"
| "visits opn prp cls (Nop # its) x = (let q = visits opn prp cls its x in (Nop # fst q, snd q))"
| "visits opn prp cls (Prop len off vs # its) x =
     (let q = visits opn prp cls its (prp len off vs x) in (Prop len off vs # fst q, snd q))"
| "visits opn prp cls (Sub nm sub # its) x =
     (let r = visits opn prp cls sub (opn x);
          c = cls (snd r);
          q = visits opn prp cls its (snd c)
      in ((if fst c then replicate (length (enc (Sub nm sub))) Nop else [Sub nm (fst r)]) @ fst q, snd q))"

lemma items_induct [case_names Nil Nop Prop Sub]:
  assumes "P []" "\<And>its. P its \<Longrightarrow> P (Nop # its)" "\<And>len off vs its. P its \<Longrightarrow> P (Prop len off vs # its)"
    "\<And>nm sub its. P sub \<Longrightarrow> P its \<Longrightarrow> P (Sub nm sub # its)"
  shows "P its"
proof (rule visits.induct [where P = "\<lambda>_ _ _ its _. P its" and ?a0.0 = id and ?a1.0 = "\<lambda>_ _ _. id" and
        ?a2.0 = "Pair False" and ?a4.0 = "()"])
  fix opn and prp :: "u32 \<Rightarrow> u32 \<Rightarrow> u32 list \<Rightarrow> unit \<Rightarrow> unit" and cls :: "unit \<Rightarrow> bool \<times> unit" and nm sub its x
  assume "P sub" "\<And>r c. r = visits opn prp cls sub (opn x) \<Longrightarrow> c = cls (snd r) \<Longrightarrow> P its"
  then show "P (Sub nm sub # its)" by (blast intro: assms(4))
qed (auto intro: assms)

lemma encs_Nops [simp]: "encs (replicate n Nop) = replicate n FDT_NOP"
  by (induction n) simp_all

lemma length_visits: "length (encs (fst (visits opn prp cls its x))) = length (encs its)"
  by (induction opn prp cls its x rule: visits.induct) (simp_all add: Let_def enc_Sub)

locale fdt_editor =
  fixes strings :: u64
    and cb :: "'x fdt_cb"
    and names :: "mem \<Rightarrow> bool"
    and region :: "u64 \<Rightarrow> bool"
    and ok :: "u32 \<Rightarrow> u32 \<Rightarrow> u32 list \<Rightarrow> bool"
    and opn :: "'x \<Rightarrow> 'x"
    and prp :: "u32 \<Rightarrow> u32 \<Rightarrow> u32 list \<Rightarrow> 'x \<Rightarrow> 'x"
    and cls :: "'x \<Rightarrow> bool \<times> 'x"
  assumes no_done: "cb_done cb = None"
    and opens: "names m \<Longrightarrow> call_opt (cb_open cb) node (m, x) = Some (m, opn x)"
    and props: "names m \<Longrightarrow> ok len off vs \<Longrightarrow> cells_at m (prop_value p) vs \<Longrightarrow>
      prop_name p = strings + ucast off \<Longrightarrow> prop_len p = len \<Longrightarrow> cb_prop cb p (m, x) = Some (m, prp len off vs x)"
    and closes: "call_close cb node pos pos' (m, x) =
      (if fst (cls x) then map_option (\<lambda>m. (m, snd (cls x))) (nop_out m pos pos') else Some (m, snd (cls x)))"
    and frame: "names m \<Longrightarrow> (\<And>b. \<not> region b \<Longrightarrow> m' b = m b) \<Longrightarrow> names m'"
begin

abbreviation remaining :: "item list \<Rightarrow> 'x \<Rightarrow> item list" where
  "remaining its x \<equiv> fst (visits opn prp cls its x)"

abbreviation state_after :: "item list \<Rightarrow> 'x \<Rightarrow> 'x" where
  "state_after its x \<equiv> snd (visits opn prp cls its x)"

definition in_region :: "u64 \<Rightarrow> nat \<Rightarrow> bool" where
  "in_region pos n \<longleftrightarrow> (\<forall>b. unat (b - pos) < 4 * n \<longrightarrow> region b)"

lemma names_unchanged:
  assumes "names m" "unchanged_outside pos (4 * n) m m'" "in_region pos n"
  shows "names m'"
  by (rule frame [OF assms(1)]) (metis assms(2,3) unchanged_outside_def in_region_def not_less)

lemma in_region_sub:
  assumes "in_region pos n" "k + l \<le> n" "4 * n \<le> 2 ^ 64"
  shows "in_region (pos + 4 * word_of_nat k) l"
  unfolding in_region_def
proof (intro allI impI)
  fix b assume "unat (b - (pos + 4 * word_of_nat k)) < 4 * l"
  then have "unat (b - (pos + word_of_nat (4 * k))) < 4 * l" by simp
  then have "unat (b - pos) < 4 * k + 4 * l" using offset_iff [of "4 * k" "4 * l" b pos] assms by simp
  then show "region b" using assms by (auto simp: in_region_def)
qed

lemma call_done_skips: "call_done cb seen node st = Some st"
  by (simp add: call_done_def call_opt_def no_done split: option.splits)

text \<open>What a scan of \<open>its\<close> up to the closing word \<open>t\<close> is to do.\<close>

definition scanned :: "u32 \<Rightarrow> u64 \<Rightarrow> item list \<Rightarrow> mem \<Rightarrow> 'x \<Rightarrow> scan_node option \<Rightarrow>
    (u64 \<times> scan_node option \<times> mem \<times> 'x) option \<Rightarrow> bool" where
  "scanned t pos its m x node r \<longleftrightarrow>
     (\<exists>m' node'. r = Some (pos + 4 * word_of_nat (length (encs its)) + (if t = FDT_END_NODE then 4 else 0), node', m',
         state_after its x) \<and>
       (node \<noteq> None \<longrightarrow> node' \<noteq> None) \<and> cells_at m' pos (encs (remaining its x) @ [t]) \<and>
       unchanged_outside pos (4 * length (encs its)) m m')"

lemma tag_at: "cells_at m pos (w # ws) \<Longrightarrow> bswap (ld32 m pos) = w"
  by (simp add: cell_def)

lemma scan_end:
  assumes "cells_at m pos [t]" "t \<noteq> FDT_NOP" "t \<noteq> FDT_PROP" "t \<noteq> FDT_BEGIN_NODE"
  shows "scanned t pos [] m x node (fdt_scan_loop strings cb pos node cells seen (m, x))"
  using assms tag_at [OF assms(1)]
  by (subst fdt_scan_loop.simps) (simp add: scanned_def Let_def call_done_skips)

lemma scan_nop:
  assumes "cells_at m pos (FDT_NOP # ws)"
  shows "fdt_scan_loop strings cb pos node cells seen (m, x) = fdt_scan_loop strings cb (pos + 4) node cells seen (m, x)"
  using tag_at [OF assms] by (subst fdt_scan_loop.simps) (simp add: Let_def)

lemma set_cells_None: "set_cells m p v node = None \<longleftrightarrow> node = None"
  by (auto simp: set_cells_def Let_def split: option.splits scan_node.splits)

lemma scan_prop:
  assumes "names m" "cells_at m pos (enc (Prop len off vs))" "wf_item ok (Prop len off vs)"
  shows "\<exists>node'. (node' = None \<longleftrightarrow> node = None) \<and>
    fdt_scan_loop strings cb pos node cells False (m, x) =
    fdt_scan_loop strings cb (pos + 4 * word_of_nat (3 + length vs)) node' cells False (m, prp len off vs x)"
proof -
  let ?p = "\<lparr>prop_node = None, prop_name = strings + ucast off, prop_value = pos + 12, prop_len = len\<rparr>"
  let ?node = "set_cells m ?p (bswap (ld32 m (pos + 12))) node"
  have w: "bswap (ld32 m pos) = FDT_PROP" "bswap (ld32 m (pos + 4)) = len" "bswap (ld32 m (pos + 8)) = off"
    "cells_at m (pos + 12) vs"
    using assms(2) by (simp_all add: cell_def add.assoc)
  have "cb_prop cb (?p\<lparr>prop_node := ?node\<rparr>) (m, x) = Some (m, prp len off vs x)"
    by (rule props) (use assms w(4) in simp_all)
  moreover have "prop_advance len = 4 * word_of_nat (3 + length vs)"
    using assms(3) by (intro prop_advance_words) simp_all
  moreover have "FDT_PROP \<noteq> FDT_NOP" by (simp add: FDT_PROP_def FDT_NOP_def)
  ultimately have "fdt_scan_loop strings cb pos node cells False (m, x) =
      fdt_scan_loop strings cb (pos + 4 * word_of_nat (3 + length vs)) ?node cells False (m, prp len off vs x)"
    by (simp only: fdt_scan_loop.simps [of strings cb pos node cells False] w Let_def fst_conv
        scan_prop.simps scan_prop.update_convs bind.bind_lunit if_False if_True simp_thms)
  then show ?thesis by (intro exI [of _ ?node] conjI set_cells_None)
qed

lemma scan_sub:
  assumes "names m" "cells_at m pos (FDT_BEGIN_NODE # nm)" "wf_name nm" "4 * length nm < 2 ^ 64"
  shows "\<exists>child cells'. fdt_scan_loop strings cb pos node cells seen (m, x) =
    Option.bind (fdt_scan_loop strings cb (pos + 4 * word_of_nat (1 + length nm)) (Some child) cells' False (m, opn x))
      (\<lambda>(pos_next, child, st). Option.bind (call_close cb (the child) pos pos_next st)
        (fdt_scan_loop strings cb pos_next node (address_cells (the child), size_cells (the child)) True))"
proof -
  obtain n where n: "strlen m (pos + 4) = Some n" "4 + 4 * (n div 4) = 4 * word_of_nat (length nm)"
    using strlen_name [OF _ assms(3,4), of m "pos + 4"] assms(2) by auto
  have "pos + 8 + 4 * (n div 4) = pos + 4 + (4 + 4 * (n div 4))" by simp
  also have "\<dots> = pos + 4 * word_of_nat (1 + length nm)" by (simp add: n(2))
  finally have a: "pos + 8 + 4 * (n div 4) = pos + 4 * word_of_nat (1 + length nm)" .
  have "fdt_scan_loop strings cb pos node cells seen (m, x) =
    Option.bind (fdt_scan_loop strings cb (pos + 4 * word_of_nat (1 + length nm))
        (Some (Node node (pos + 4) (fst cells) (snd cells))) (2, 1) False (m, opn x))
      (\<lambda>(pos_next, child, st). Option.bind (call_close cb (the child) pos pos_next st)
        (fdt_scan_loop strings cb pos_next node (address_cells (the child), size_cells (the child)) True))"
    using tag_at [OF assms(2)]
    by (subst fdt_scan_loop.simps)
      (simp add: Let_def call_done_skips opens [OF assms(1)] n(1) a FDT_BEGIN_NODE_def FDT_PROP_def FDT_NOP_def
        del: of_nat_add of_nat_Suc)
  then show ?thesis by (intro exI)
qed

text \<open>A scan whose first \<open>k\<close> words are done, with the words \<open>ws\<close> left in their place, and whose rest is scanned.\<close>

lemma scanned_prefix:
  assumes rest: "scanned t (pos + 4 * word_of_nat k) its m1 x1 node1 r" and node: "node \<noteq> None \<longrightarrow> node1 \<noteq> None"
    and ws: "cells_at m1 pos ws" "length ws = k" "unchanged_outside pos (4 * k) m m1"
    and all: "encs (remaining its0 x0) = ws @ encs (remaining its x1)" "state_after its0 x0 = state_after its x1"
      "length (encs its0) = k + length (encs its)"
    and fits: "4 * (length (encs its0) + 1) < 2 ^ 64"
  shows "scanned t pos its0 m x0 node r"
proof -
  let ?n = "length (encs its)"
  obtain m' node' where r: "r = Some (pos + 4 * word_of_nat k + 4 * word_of_nat ?n +
        (if t = FDT_END_NODE then 4 else 0), node', m', state_after its x1)"
      "node1 \<noteq> None \<longrightarrow> node' \<noteq> None" "cells_at m' (pos + 4 * word_of_nat k) (encs (remaining its x1) @ [t])"
      "unchanged_outside (pos + word_of_nat (4 * k)) (4 * ?n) m1 m'"
    using rest by (auto simp: scanned_def)
  have l: "4 * length ws \<le> 4 * k" "4 * k + 4 * ?n \<le> 2 ^ 64" using ws(2) fits all(3) by simp_all
  have "cells_at m' pos ws" using cells_at_before [OF r(4) l] ws(1) by simp
  moreover have "unchanged_outside pos (4 * length (encs its0)) m m1"
    using ws(3) by (auto simp: unchanged_outside_def all(3))
  moreover have "unchanged_outside pos (4 * length (encs its0)) m1 m'"
    by (rule unchanged_outside_sub [OF r(4)]) (use fits in \<open>simp_all add: all(3)\<close>)
  ultimately show ?thesis
    using r(1-3) node ws(2)
    by (auto simp: scanned_def all cells_at_append distrib_left intro: unchanged_outside_trans)
qed

text \<open>
  The scan terminates, calls the client as the traversal does, and leaves the remaining items in memory.
  The last two premises bound the block by the address space and keep it apart from the names.
\<close>

lemma scan_items:
  assumes "names m" "\<forall>i\<in>set its. wf_item ok i" "props_first seen its" "cells_at m pos (encs its @ [t])"
    "t \<noteq> FDT_NOP" "t \<noteq> FDT_PROP" "t \<noteq> FDT_BEGIN_NODE" "4 * (length (encs its) + 1) < 2 ^ 64"
    "in_region pos (length (encs its))"
  shows "scanned t pos its m x node (fdt_scan_loop strings cb pos node cells seen (m, x))"
  using assms
proof (induction its arbitrary: t m x pos node cells seen rule: items_induct)
  case Nil
  then show ?case by (intro scan_end) simp_all
next
  case (Nop its)
  from Nop.prems have c: "cells_at m pos (FDT_NOP # encs its @ [t])" by simp
  have "scanned t (pos + 4 * word_of_nat 1) its m x node (fdt_scan_loop strings cb (pos + 4) node cells seen (m, x))"
    using Nop.prems in_region_sub [OF Nop.prems(9), of 1 "length (encs its)"] by (simp add: Nop.IH)
  then show ?case unfolding scan_nop [OF c]
    by (rule scanned_prefix [where ws = "[FDT_NOP]"]) (use c Nop.prems in \<open>simp_all add: Let_def\<close>)
next
  case (Prop len off vs its)
  then have seen: "\<not> seen" and pf: "props_first False its" by (cases seen; simp)+
  let ?k = "3 + length vs"
  have c: "cells_at m pos (enc (Prop len off vs))"
    using Prop.prems(4) by (simp only: encs_simps append_assoc cells_at_append)
  have rest: "cells_at m (pos + 4 * word_of_nat ?k) (encs its @ [t])"
    using Prop.prems(4) cells_at_append [of m pos "enc (Prop len off vs)" "encs its @ [t]"] by simp
  obtain node' where n: "node' = None \<longleftrightarrow> node = None"
    "fdt_scan_loop strings cb pos node cells False (m, x) =
     fdt_scan_loop strings cb (pos + 4 * word_of_nat ?k) node' cells False (m, prp len off vs x)"
    using scan_prop [OF Prop.prems(1) c, of node cells x] Prop.prems(2) by auto
  have "scanned t (pos + 4 * word_of_nat ?k) its m (prp len off vs x) node'
      (fdt_scan_loop strings cb (pos + 4 * word_of_nat ?k) node' cells False (m, prp len off vs x))"
    using Prop.prems in_region_sub [OF Prop.prems(9), of ?k "length (encs its)"] rest pf
    by (intro Prop.IH) simp_all
  then have "scanned t pos (Prop len off vs # its) m x node
      (fdt_scan_loop strings cb (pos + 4 * word_of_nat ?k) node' cells False (m, prp len off vs x))"
    by (rule scanned_prefix [where ws = "enc (Prop len off vs)"])
      (use c n(1) Prop.prems in \<open>simp_all add: Let_def del: of_nat_add\<close>)
  then show ?case using seen n(2) by simp
next
  case (Sub nm sub its)
  let ?L = "length (enc (Sub nm sub))" and ?k = "1 + length nm" and ?n = "length (encs sub)"
  let ?p = "pos + 4 * word_of_nat ?k" and ?q = "pos + 4 * word_of_nat ?L"
  let ?x1 = "state_after sub (opn x)"
  have L: "?L = ?k + ?n + 1" by (simp add: enc_Sub)
  have fits: "4 * (?L + length (encs its) + 1) < 2 ^ 64" using Sub.prems(8) by simp
  have c: "cells_at m pos (FDT_BEGIN_NODE # nm)" "cells_at m ?p (encs sub @ [FDT_END_NODE])" "cells_at m ?q (encs its @ [t])"
    using Sub.prems(4) cells_at_append [of m pos "FDT_BEGIN_NODE # nm" "(encs sub @ [FDT_END_NODE]) @ encs its @ [t]"]
      cells_at_append [of m pos "enc (Sub nm sub)" "encs its @ [t]"]
    by (auto simp: enc_Sub cells_at_append)
  have wf: "wf_name nm" "props_first False sub" "\<forall>i\<in>set sub. wf_item ok i" "\<forall>i\<in>set its. wf_item ok i" "props_first True its"
    using Sub.prems(2,3) by simp_all
  have nm: "4 * length nm < 2 ^ 64" using fits L by simp
  obtain child cells' where s: "fdt_scan_loop strings cb pos node cells seen (m, x) =
    Option.bind (fdt_scan_loop strings cb ?p (Some child) cells' False (m, opn x))
      (\<lambda>(pos_next, child, st). Option.bind (call_close cb (the child) pos pos_next st)
        (fdt_scan_loop strings cb pos_next node (address_cells (the child), size_cells (the child)) True))"
    using scan_sub [OF Sub.prems(1) c(1) wf(1) nm, of node cells seen x] by blast
  have "scanned FDT_END_NODE ?p sub m (opn x) (Some child)
      (fdt_scan_loop strings cb ?p (Some child) cells' False (m, opn x))"
    using in_region_sub [OF Sub.prems(9), of ?k ?n] fits L
    by (intro Sub.IH(1) Sub.prems(1) wf c(2)) (simp_all add: FDT_END_NODE_def FDT_NOP_def FDT_PROP_def FDT_BEGIN_NODE_def)
  then obtain m1 child' where sub: "fdt_scan_loop strings cb ?p (Some child) cells' False (m, opn x) =
      Some (?p + 4 * word_of_nat ?n + 4, Some child', m1, ?x1)"
    "cells_at m1 ?p (encs (remaining sub (opn x)) @ [FDT_END_NODE])" "unchanged_outside (pos + word_of_nat (4 * ?k)) (4 * ?n) m m1"
    by (auto simp: scanned_def)
  have q: "?p + 4 * word_of_nat ?n + 4 = ?q" by (simp add: L algebra_simps)
  have u1: "unchanged_outside pos (4 * ?L) m m1"
    by (rule unchanged_outside_sub [OF sub(3)]) (use fits L in simp_all)
  have "cells_at m1 pos (FDT_BEGIN_NODE # nm)"
    using cells_at_before [OF sub(3), of "FDT_BEGIN_NODE # nm"] c(1) fits L by simp
  with sub(2) have kept: "cells_at m1 pos (enc (Sub nm (remaining sub (opn x))))"
    using cells_at_append [of m1 pos "FDT_BEGIN_NODE # nm"] by (simp add: enc_Sub)
  obtain m2 ws where close: "call_close cb child' pos ?q (m1, ?x1) = Some (m2, snd (cls ?x1))"
    and ws: "cells_at m2 pos ws" "length ws = ?L" "unchanged_outside pos (4 * ?L) m m2"
      "ws = (if fst (cls ?x1) then replicate ?L FDT_NOP else enc (Sub nm (remaining sub (opn x))))"
  proof (cases "fst (cls ?x1)")
    case True
    obtain m2 where m2: "nop_out m1 pos ?q = Some m2" "cells_at m2 pos (replicate ?L FDT_NOP)"
      "unchanged_outside pos (4 * ?L) m1 m2"
      using nop_out_words [of ?L m1 pos] fits by auto
    show thesis
      by (rule that [of m2 "replicate ?L FDT_NOP"])
        (use m2 True unchanged_outside_trans [OF u1 m2(3)] in \<open>simp_all add: closes\<close>)
  next
    case False
    show thesis
      by (rule that [of m1 "enc (Sub nm (remaining sub (opn x)))"])
        (use kept False u1 in \<open>simp_all add: closes enc_Sub length_visits\<close>)
  qed
  have "cells_at m2 ?q (encs its @ [t])"
    using cells_at_after [OF ws(3), of "4 * ?L" "encs its @ [t]"] c(3) fits by simp
  moreover have "names m2"
    by (rule names_unchanged [OF Sub.prems(1) ws(3) in_region_sub [OF Sub.prems(9), of 0, simplified]]) (use fits in simp_all)
  ultimately have "scanned t ?q its m2 (snd (cls ?x1)) node
      (fdt_scan_loop strings cb ?q node (address_cells child', size_cells child') True (m2, snd (cls ?x1)))"
    using in_region_sub [OF Sub.prems(9), of ?L "length (encs its)"] fits
    by (intro Sub.IH(2) wf Sub.prems(5-7)) simp_all
  then have "scanned t pos (Sub nm sub # its) m x node
      (fdt_scan_loop strings cb ?q node (address_cells child', size_cells child') True (m2, snd (cls ?x1)))"
    by (rule scanned_prefix [OF _ _ ws(1-3)]) (use fits ws(4) in \<open>simp_all add: Let_def\<close>)
  then show ?case by (simp only: s sub(1) q close bind.bind_lunit case_prod_conv option.sel)
qed

end

end
