(* ===== verification/Fdt_Filter.thy ===== *)
theory Fdt_Filter
  imports Fdt_Scan
begin

text \<open>
  \<open>filter_compat\<close> deletes exactly the nodes that list a string as compatible, with everything below them, by
  overwriting their words; the rest of the tree stays as it is. The proof is an interpretation of
  \<open>fdt_editor\<close> on the callbacks of \<open>filter_compat\<close> and an invariant of its depth counters. The second part
  shows what the scanner gets wrong: the cell counts of a node leak into its next sibling.
\<close>

section \<open>String lists\<close>

fun split_strings :: "u8 list \<Rightarrow> u8 list list" where
  "split_strings [] = []"
| "split_strings (b # bs) =
     takeWhile (\<lambda>c. c \<noteq> 0) (b # bs) # split_strings (drop (length (takeWhile (\<lambda>c. c \<noteq> 0) (b # bs))) bs)"

definition c_part :: "u8 list \<Rightarrow> u8 list" where "c_part s = takeWhile (\<lambda>c. c \<noteq> 0) s"

lemma c_part_simps [simp]: "c_part [] = []" "c_part (c # s) = (if c = 0 then [] else c # c_part s)"
  by (simp_all add: c_part_def)

lemma c_part_id: "0 \<notin> set s \<Longrightarrow> c_part s = s"
  by (induction s) auto

lemma strcmp_lit_eq: "cstr m p cs \<Longrightarrow> strcmp_lit m p s = 0 \<longleftrightarrow> cs = c_part s"
proof (induction s arbitrary: p cs)
  case Nil
  then show ?case by (cases cs) (auto simp: uint_0_iff)
next
  case (Cons c s)
  then show ?case by (cases cs) (auto simp: uint_0_iff dest: unsigned_word_eqI)
qed

lemma length_takeWhile_less: "\<exists>x\<in>set xs. \<not> P x \<Longrightarrow> length (takeWhile P xs) < length xs"
  by (induction xs) auto

lemma sint_small64: "n < 2 ^ 63 \<Longrightarrow> sint (word_of_nat n :: u64) = int n"
proof -
  assume n: "n < 2 ^ 63"
  then have "uint (word_of_nat n :: u64) = int n" by (simp add: unsigned_of_nat take_bit_nat_eq_self)
  then show ?thesis using n by (simp add: sint_uint signed_take_bit_int_eq_self)
qed

lemma sint_small32:
  assumes "unat (x :: u32) < 2 ^ 31"
  shows "sint x = int (unat x)"
proof -
  define n where "n = unat x"
  have e: "uint x = int n" by (simp only: uint_nat n_def)
  show ?thesis unfolding sint_uint n_def [symmetric] e
    by (rule signed_take_bit_int_eq_self) (use assms in \<open>simp_all add: n_def [symmetric]\<close>)
qed

lemma string_list_loop_finds:
  assumes "ld_bytes m l (length bs) = bs" "bs = [] \<or> List.last bs = 0" "length bs < 2 ^ 63" "0 \<le> i"
  shows "\<exists>r. string_list_loop m l (l + word_of_nat (length bs)) str i = Some r \<and>
    (0 \<le> r \<longleftrightarrow> c_part str \<in> set (split_strings bs))"
  using assms
proof (induction bs arbitrary: l i rule: split_strings.induct)
  case 1
  then show ?case by (subst string_list_loop.simps) simp
next
  case (2 b bs)
  define s where "s = takeWhile (\<lambda>c. c \<noteq> 0) (b # bs)"
  define rest where "rest = drop (length s) bs"
  define e where "e = l + word_of_nat (length (b # bs))"
  have "0 \<in> set (b # bs)" using "2.prems"(2) by (metis last_in_set list.distinct(1))
  then have s: "cstr m l s" "length s < length (b # bs)"
    using cstr_takeWhile [of m l "length (b # bs)"] length_takeWhile_less [of "b # bs" "\<lambda>c. c \<noteq> 0"]
    unfolding "2.prems"(1) s_def by blast+
  have len: "length (b # bs) = Suc (length s) + length rest" using s(2) by (simp add: rest_def)
  have pos: "0 < sint (e - l)" using "2.prems"(3) sint_small64 [of "length (b # bs)"] by (simp add: e_def del: of_nat_Suc)
  have split: "split_strings (b # bs) = s # split_strings rest" by (simp add: s_def rest_def)
  have step: "string_list_loop m l e str i =
      (if s = c_part str then Some i else string_list_loop m (l + (word_of_nat (length s) + 1)) e str (i + 1))"
    using pos strcmp_lit_eq [OF s(1)] strlen_loop_cstr [OF s(1)]
    by (subst string_list_loop.simps) (simp add: strlen_def)
  have e: "e = l + (word_of_nat (length s) + 1) + word_of_nat (length rest)" unfolding e_def len by simp
  have "ld_bytes m (l + word_of_nat (Suc (length s))) (length rest) = rest"
  proof -
    have "ld_bytes m l (Suc (length s)) @ ld_bytes m (l + word_of_nat (Suc (length s))) (length rest) = b # bs"
      using "2.prems"(1) unfolding len ld_bytes_append .
    then have "ld_bytes m (l + word_of_nat (Suc (length s))) (length rest) = drop (Suc (length s)) (b # bs)"
      by (metis append_eq_conv_conj length_ld_bytes)
    then show ?thesis by (simp add: rest_def)
  qed
  then have ld: "ld_bytes m (l + (word_of_nat (length s) + 1)) (length rest) = rest" by (simp add: ac_simps)
  have last: "rest = [] \<or> List.last rest = 0" using "2.prems"(2)
    by (cases "length s < length bs") (auto simp: rest_def last_drop split: if_splits)
  have short: "length rest < 2 ^ 63" "0 \<le> i + 1" using "2.prems"(3,4) len by simp_all
  obtain r where "string_list_loop m (l + (word_of_nat (length s) + 1)) e str (i + 1) = Some r"
      "0 \<le> r \<longleftrightarrow> c_part str \<in> set (split_strings rest)"
    using "2.IH" [folded s_def, folded rest_def, OF ld last short, folded e] by blast
  then show ?case unfolding e_def [symmetric] step split using "2.prems"(4) by auto
qed

section \<open>The client of filter_compat\<close>

text \<open>
  \<open>name_of\<close> gives the name stored at an offset of the strings block, \<open>offs\<close> the offsets in use: \<open>names_at\<close>
  says that these names are in memory, outside the structure block.
\<close>

definition names_at :: "u64 \<Rightarrow> (u32 \<Rightarrow> u8 list) \<Rightarrow> u32 set \<Rightarrow> (u64 \<Rightarrow> bool) \<Rightarrow> mem \<Rightarrow> bool" where
  "names_at strings name_of offs region m \<longleftrightarrow>
     (\<forall>off\<in>offs. cstr m (strings + ucast off) (name_of off) \<and>
       (\<forall>i\<le>length (name_of off). \<not> region (strings + ucast off + word_of_nat i)))"

definition value_bytes :: "u32 \<Rightarrow> u32 list \<Rightarrow> u8 list" where
  "value_bytes len vs = take (unat len) (bytes_of vs)"

text \<open>The properties the filter understands: a \<open>compatible\<close> property ends with a terminator.\<close>

definition compat_ok :: "(u32 \<Rightarrow> u8 list) \<Rightarrow> u32 set \<Rightarrow> u32 \<Rightarrow> u32 \<Rightarrow> u32 list \<Rightarrow> bool" where
  "compat_ok name_of offs len off vs \<longleftrightarrow>
     off \<in> offs \<and> unat len < 2 ^ 31 \<and> unat len \<le> 4 * length vs \<and>
     (name_of off = lit ''compatible'' \<longrightarrow> value_bytes len vs = [] \<or> List.last (value_bytes len vs) = 0)"

definition lists_compatible :: "(u32 \<Rightarrow> u8 list) \<Rightarrow> u8 list \<Rightarrow> u32 \<Rightarrow> u32 \<Rightarrow> u32 list \<Rightarrow> bool" where
  "lists_compatible name_of str len off vs \<longleftrightarrow>
     name_of off = lit ''compatible'' \<and> c_part str \<in> set (split_strings (value_bytes len vs))"

definition opn_compat :: "compat_scan \<Rightarrow> compat_scan" where "opn_compat s = s\<lparr>depth := depth s + 1\<rparr>"

definition prp_compat :: "(u32 \<Rightarrow> u8 list) \<Rightarrow> u32 \<Rightarrow> u32 \<Rightarrow> u32 list \<Rightarrow> compat_scan \<Rightarrow> compat_scan" where
  "prp_compat name_of len off vs s =
     (if lists_compatible name_of (compat s) len off vs \<and> depth s < kill s
      then s\<lparr>kill := depth s\<rparr> else s)"

definition cls_compat :: "compat_scan \<Rightarrow> bool \<times> compat_scan" where
  "cls_compat s = (kill s = depth s, s\<lparr>depth := depth s - 1, kill := (if kill s = depth s then 999 else kill s)\<rparr>)"

lemma lit_compatible: "c_part (lit ''compatible'') = lit ''compatible''"
  by (rule c_part_id) (simp add: lit_def)

lemma compatible_value:
  assumes "cells_at m (prop_value p) vs" "compat_ok name_of offs len off vs" "cstr m (prop_name p) (name_of off)"
    "prop_len p = len"
  shows "compatible m p str = Some (lists_compatible name_of str len off vs)"
proof -
  let ?bs = "value_bytes len vs"
  have len: "length ?bs = unat len" using assms(2) by (simp add: value_bytes_def compat_ok_def)
  have "ld_bytes m (prop_value p) (4 * length vs) = bytes_of vs" using assms(1) by (rule cells_at_bytes)
  then have "take (unat len) (ld_bytes m (prop_value p) (unat len + (4 * length vs - unat len))) = ?bs"
    using assms(2) by (simp add: value_bytes_def compat_ok_def)
  then have bs: "ld_bytes m (prop_value p) (length ?bs) = ?bs" by (simp add: ld_bytes_append len)
  have "scast len = (word_of_nat (length ?bs) :: u64)"
  proof -
    have "sint len = int (unat len)"
      using assms(2) by (intro sint_small32) (simp add: compat_ok_def)
    then show ?thesis by (simp only: scast_eq len of_int_of_nat_eq)
  qed
  then have fdt: "fdt_string_list_index m p str =
      string_list_loop m (prop_value p) (prop_value p + word_of_nat (length ?bs)) str 0"
    by (simp add: fdt_string_list_index_def assms(4) Let_def)
  show ?thesis
  proof (cases "name_of off = lit ''compatible''")
    case True
    then obtain r where "fdt_string_list_index m p str = Some r" "0 \<le> r \<longleftrightarrow> c_part str \<in> set (split_strings ?bs)"
      using string_list_loop_finds [OF bs, of 0] assms(2) by (auto simp: fdt compat_ok_def len)
    then show ?thesis
      using True strcmp_lit_eq [OF assms(3)] lit_compatible by (simp add: compatible_def name_is_def lists_compatible_def)
  next
    case False
    then show ?thesis
      using strcmp_lit_eq [OF assms(3)] lit_compatible by (simp add: compatible_def name_is_def lists_compatible_def)
  qed
qed

definition compat_cb :: "compat_scan fdt_cb" where
  "compat_cb = \<lparr>cb_open = Some compat_open, cb_prop = compat_prop, cb_done = None, cb_close = Some compat_close\<rparr>"

interpretation compat_editor: fdt_editor strings compat_cb "names_at strings name_of offs region" region
  "compat_ok name_of offs" opn_compat "prp_compat name_of" cls_compat
  for strings name_of offs region
proof unfold_locales
  fix m m' :: mem and node x len off vs p
  show "cb_done compat_cb = None" by (simp add: compat_cb_def)
  show "call_opt (cb_open compat_cb) node (m, x) = Some (m, opn_compat x)"
    by (simp add: compat_cb_def call_opt_def compat_open_def opn_compat_def)
  show "cb_prop compat_cb p (m, x) = Some (m, prp_compat name_of len off vs x)"
    if "names_at strings name_of offs region m" "compat_ok name_of offs len off vs" "cells_at m (prop_value p) vs"
      "prop_name p = strings + ucast off" "prop_len p = len"
    using compatible_value [OF that(3,2) _ that(5), of "compat x"] that(1,2,4)
    by (simp add: compat_cb_def compat_prop_def prp_compat_def names_at_def compat_ok_def)
  show "call_close compat_cb node pos pos' (m, x) =
      (if fst (cls_compat x) then map_option (\<lambda>m. (m, snd (cls_compat x))) (nop_out m pos pos')
       else Some (m, snd (cls_compat x)))" for pos pos'
    by (simp add: compat_cb_def call_close_def compat_close_def cls_compat_def Let_def)
  show "names_at strings name_of offs region m'"
    if "names_at strings name_of offs region m" "\<And>b. \<not> region b \<Longrightarrow> m' b = m b"
    unfolding names_at_def
  proof (intro ballI conjI)
    fix off assume off: "off \<in> offs"
    let ?p = "strings + ucast off" and ?s = "name_of off"
    have c: "cstr m ?p ?s" "\<And>i. i \<le> length ?s \<Longrightarrow> \<not> region (?p + word_of_nat i)"
      using that(1) off by (auto simp: names_at_def)
    have "ld_bytes m' ?p (Suc (length ?s)) = ld_bytes m ?p (Suc (length ?s))"
      by (rule ld_bytes_cong) (use that(2) c(2) in simp)
    with c(1) show "cstr m' ?p ?s" by (simp add: cstr_iff_bytes del: ld_bytes.simps)
    show "\<forall>i\<le>length ?s. \<not> region (?p + word_of_nat i)" using c(2) by simp
  qed
qed

section \<open>The traversal prunes the tree\<close>

definition has_prop :: "(u32 \<Rightarrow> u32 \<Rightarrow> u32 list \<Rightarrow> bool) \<Rightarrow> item list \<Rightarrow> bool" where
  "has_prop P its \<longleftrightarrow> list_ex (\<lambda>i. case i of Prop len off vs \<Rightarrow> P len off vs | _ \<Rightarrow> False) its"

lemma has_prop_simps [simp]:
  "has_prop P [] = False" "has_prop P (Nop # its) = has_prop P its"
  "has_prop P (Prop len off vs # its) = (P len off vs \<or> has_prop P its)" "has_prop P (Sub nm sub # its) = has_prop P its"
  by (simp_all add: has_prop_def)

text \<open>The tree without the nodes that have a property in \<open>P\<close>; their words become \<open>NOP\<close>s.\<close>

fun prune :: "(u32 \<Rightarrow> u32 \<Rightarrow> u32 list \<Rightarrow> bool) \<Rightarrow> item list \<Rightarrow> item list" where
  "prune P [] = []"
| "prune P (Nop # its) = Nop # prune P its"
| "prune P (Prop len off vs # its) = Prop len off vs # prune P its"
| "prune P (Sub nm sub # its) =
     (if has_prop P sub then replicate (length (enc (Sub nm sub))) Nop else [Sub nm (prune P sub)]) @ prune P its"

fun nesting :: "item list \<Rightarrow> nat" where
  "nesting [] = 0"
| "nesting (Nop # its) = nesting its"
| "nesting (Prop len off vs # its) = nesting its"
| "nesting (Sub nm sub # its) = max (Suc (nesting sub)) (nesting its)"

lemma props_first_True: "props_first True its \<Longrightarrow> \<not> has_prop P its \<and> props_first False its"
proof (induction its rule: items_induct)
  case (Sub nm sub its)
  then show ?case by simp
qed simp_all

abbreviation compat_visits :: "(u32 \<Rightarrow> u8 list) \<Rightarrow> item list \<Rightarrow> compat_scan \<Rightarrow> item list \<times> compat_scan" where
  "compat_visits name_of its x \<equiv> visits opn_compat (prp_compat name_of) cls_compat its x"

lemma prp_compat_state:
  "prp_compat name_of len off vs \<lparr>compat = str, depth = d, kill = k\<rparr> =
    \<lparr>compat = str, depth = d, kill = (if lists_compatible name_of str len off vs \<and> d < k then d else k)\<rparr>"
  by (simp add: prp_compat_def)

lemma opn_compat_state: "opn_compat \<lparr>compat = str, depth = d, kill = k\<rparr> = \<lparr>compat = str, depth = d + 1, kill = k\<rparr>"
  by (simp add: opn_compat_def)

lemma cls_compat_state:
  "cls_compat \<lparr>compat = str, depth = d, kill = k\<rparr> =
    (k = d, \<lparr>compat = str, depth = d - 1, kill = (if k = d then 999 else k)\<rparr>)"
  by (simp add: cls_compat_def)

lemmas compat_states = prp_compat_state opn_compat_state cls_compat_state

text \<open>Below a node that is going to be deleted nothing is deleted.\<close>

lemma visits_killed:
  "k \<le> d \<Longrightarrow> compat_visits name_of its \<lparr>compat = str, depth = d, kill = k\<rparr> = (its, \<lparr>compat = str, depth = d, kill = k\<rparr>)"
proof (induction its arbitrary: d rule: items_induct)
  case (Sub nm sub its)
  then show ?case using Sub.IH(1) [of "d + 1"] by (simp add: compat_states)
qed (simp_all add: compat_states)

lemma visits_prune:
  assumes "\<forall>i\<in>set its. wf_item ok i" "props_first seen its" "d + int (nesting its) < 999"
  shows "compat_visits name_of its \<lparr>compat = str, depth = d, kill = 999\<rparr> =
    (let P = lists_compatible name_of str
     in if has_prop P its then (its, \<lparr>compat = str, depth = d, kill = d\<rparr>)
        else (prune P its, \<lparr>compat = str, depth = d, kill = 999\<rparr>))"
  using assms
proof (induction its arbitrary: d seen rule: items_induct)
  case (Prop len off vs its)
  then have pf: "props_first False its" by (cases seen) simp_all
  show ?case
  proof (cases "lists_compatible name_of str len off vs")
    case True
    then show ?thesis using Prop.prems(3) visits_killed [of d d name_of its str] by (simp add: prp_compat_state)
  next
    case False
    then show ?thesis using Prop.IH [OF _ pf] Prop.prems by (simp add: prp_compat_state Let_def)
  qed
next
  case (Sub nm sub its)
  let ?P = "lists_compatible name_of str"
  have no: "\<not> has_prop ?P its" using Sub.prems(2) props_first_True by simp
  have s: "compat_visits name_of sub \<lparr>compat = str, depth = d + 1, kill = 999\<rparr> =
      (if has_prop ?P sub then (sub, \<lparr>compat = str, depth = d + 1, kill = d + 1\<rparr>)
       else (prune ?P sub, \<lparr>compat = str, depth = d + 1, kill = 999\<rparr>))"
    using Sub.IH(1) [of False "d + 1"] Sub.prems by (simp add: Let_def)
  have r: "compat_visits name_of its \<lparr>compat = str, depth = d, kill = 999\<rparr> =
      (prune ?P its, \<lparr>compat = str, depth = d, kill = 999\<rparr>)"
    using Sub.IH(2) [of True d] Sub.prems no by (simp add: Let_def)
  have "d + 1 < 999" using Sub.prems(3) by simp
  then show ?case by (simp add: compat_states s r no Let_def)
qed (simp_all add: Let_def)

section \<open>Memory given by its words\<close>

definition word_mem :: "u32 list \<Rightarrow> mem" where
  "word_mem ws = (let bs = bytes_of ws in (\<lambda>a. (if unat a < length bs then bs ! unat a else 0)))"

lemma be_bytes_inject: "be_bytes w = be_bytes v \<Longrightarrow> w = v"
proof (rule bit_word_eqI)
  fix k assume e: "be_bytes w = be_bytes v" and "k < LENGTH(32)"
  then have k: "k < 32" by simp
  have q: "3 - k div 8 < 4" "24 - 8 * (3 - k div 8) = 8 * (k div 8)" using k by linarith+
  have "be_bytes w ! (3 - k div 8) = be_bytes v ! (3 - k div 8)" by (simp only: e)
  then have "ucast (drop_bit (8 * (k div 8)) w) = (ucast (drop_bit (8 * (k div 8)) v) :: u8)"
    using q by (simp add: be_bytes_def del: upt_conv_Cons)
  then have "bit (ucast (drop_bit (8 * (k div 8)) w) :: u8) (k mod 8) = bit (ucast (drop_bit (8 * (k div 8)) v) :: u8) (k mod 8)"
    by (simp only:)
  then show "bit w k = bit v k" by (simp add: bit_ucast_iff bit_drop_bit_eq)
qed

lemma ld_bytes_word_mem:
  assumes "4 * length ws < 2 ^ 64" "k + n \<le> 4 * length ws"
  shows "ld_bytes (word_mem ws) (word_of_nat k) n = take n (drop k (bytes_of ws))"
proof (rule nth_equalityI)
  fix i assume "i < length (ld_bytes (word_mem ws) (word_of_nat k) n)"
  then have i: "i < n" by simp
  have "unat (word_of_nat (k + i) :: u64) = k + i" using i assms by (intro unat_of_nat64) simp
  then have "word_mem ws (word_of_nat k + word_of_nat i) = bytes_of ws ! (k + i)"
    using i assms(2) by (simp add: word_mem_def Let_def)
  then show "ld_bytes (word_mem ws) (word_of_nat k) n ! i = take n (drop k (bytes_of ws)) ! i"
    using i assms(2) by simp
qed (use assms(2) in simp)

lemma drop_bytes_of: "drop (4 * k) (bytes_of ws) = bytes_of (drop k ws)"
proof (induction k arbitrary: ws)
  case (Suc k)
  show ?case
  proof (cases ws)
    case (Cons w ws')
    have "drop (4 * Suc k) (be_bytes w @ bytes_of ws') = drop (4 * k) (bytes_of ws')" by simp
    then show ?thesis using Suc.IH [of ws'] Cons by simp
  qed simp
qed simp

lemma cell_word_mem:
  assumes "4 * length ws < 2 ^ 64" "k < length ws"
  shows "cell (word_mem ws) (4 * word_of_nat k) = ws ! k"
proof (rule be_bytes_inject)
  have "be_bytes (cell (word_mem ws) (4 * word_of_nat k)) = take 4 (drop (4 * k) (bytes_of ws))"
    using ld_bytes_word_mem [of ws "4 * k" 4] assms by (simp add: be_bytes_cell)
  also have "drop (4 * k) (bytes_of ws) = be_bytes (ws ! k) @ bytes_of (drop (Suc k) ws)"
    using assms(2) by (simp add: drop_bytes_of flip: Cons_nth_drop_Suc)
  finally show "be_bytes (cell (word_mem ws) (4 * word_of_nat k)) = be_bytes (ws ! k)" by simp
qed

lemma cells_at_word_mem:
  "4 * length ws < 2 ^ 64 \<Longrightarrow> k \<le> length ws \<Longrightarrow> cells_at (word_mem ws) (4 * word_of_nat k) (drop k ws)"
proof (induction "drop k ws" arbitrary: k)
  case (Cons w vs)
  then have lt: "k < length ws" by (metis drop_all list.distinct(1) not_le_imp_less)
  then have k: "k < length ws" "vs = drop (Suc k) ws" "w = ws ! k"
    using Cons.hyps(2) Cons_nth_drop_Suc [OF lt] by (metis list.inject)+
  have "cells_at (word_mem ws) (4 * word_of_nat (Suc k)) vs"
    unfolding k(2) by (rule Cons.hyps(1)) (use k Cons.prems in auto)
  then have "cells_at (word_mem ws) (4 * word_of_nat k + 4) vs" by (simp add: algebra_simps)
  then show ?case
    unfolding Cons.hyps(2) [symmetric] using k cell_word_mem [OF Cons.prems(1) k(1)] by simp
qed simp

lemma cstr_stored:
  assumes "4 * length ws < 2 ^ 64" "take (Suc (length cs)) (drop k (bytes_of ws)) = cs @ [0]" "0 \<notin> set cs"
  shows "cstr (word_mem ws) (word_of_nat k) cs"
proof -
  have "length (take (Suc (length cs)) (drop k (bytes_of ws))) = Suc (length cs)" unfolding assms(2) by simp
  then have "k + Suc (length cs) \<le> 4 * length ws" by simp
  then show ?thesis using ld_bytes_word_mem [OF assms(1)] assms(2,3) by (simp only: cstr_iff_bytes not_False_eq_True simp_thms)
qed

section \<open>Properties\<close>

text \<open>The structure block of a device tree that the scanner understands, up to its end word.\<close>

definition tree_at :: "mem \<Rightarrow> u64 \<Rightarrow> (u32 \<Rightarrow> u8 list) \<Rightarrow> u32 set \<Rightarrow> item list \<Rightarrow> u32 \<Rightarrow> bool" where
  "tree_at m fdt name_of offs its t \<longleftrightarrow>
     (let pos = fdt + ucast (bswap (ld32 m (fdt + 8))); strings = fdt + ucast (bswap (ld32 m (fdt + 12)))
      in fdt_understood m fdt \<and> cells_at m pos (encs its @ [t]) \<and> t \<notin> {FDT_NOP, FDT_PROP, FDT_BEGIN_NODE} \<and>
         4 * (length (encs its) + 1) < 2 ^ 64 \<and>
         names_at strings name_of offs (\<lambda>b. unat (b - pos) < 4 * length (encs its)) m)"

text \<open>C24: \<open>filter_compat\<close> returns on every well-formed tree that nests less than 999 deep, and turns it into the
  tree without the nodes that list the string as compatible: their words are \<open>NOP\<close>s afterwards, every
  other byte of memory is unchanged.\<close>

theorem filter_compat_prunes:
  assumes "tree_at m fdt name_of offs its t"
    and "\<forall>i\<in>set its. wf_item (compat_ok name_of offs) i" "props_first True its" "nesting its < 999"
  shows "let pos = fdt + ucast (bswap (ld32 m (fdt + 8)))
    in \<exists>m'. filter_compat fdt str m = Some m' \<and>
      cells_at m' pos (encs (prune (lists_compatible name_of str) its) @ [t]) \<and>
      unchanged_outside pos (4 * length (encs its)) m m'"
proof -
  let ?pos = "fdt + ucast (bswap (ld32 m (fdt + 8)))" and ?strings = "fdt + ucast (bswap (ld32 m (fdt + 12)))"
  let ?region = "\<lambda>b. unat (b - ?pos) < 4 * length (encs its)" and ?x = "\<lparr>compat = str, depth = 0, kill = 999\<rparr>"
  have a: "fdt_understood m fdt" "cells_at m ?pos (encs its @ [t])" "t \<noteq> FDT_NOP" "t \<noteq> FDT_PROP" "t \<noteq> FDT_BEGIN_NODE"
    "4 * (length (encs its) + 1) < 2 ^ 64" "names_at ?strings name_of offs ?region m"
    using assms(1) by (simp_all add: tree_at_def Let_def)
  have p: "props_first False its" "\<not> has_prop (lists_compatible name_of str) its"
    using props_first_True [OF assms(3)] by simp_all
  have in_reg: "compat_editor.in_region ?region ?pos (length (encs its))"
    by (simp add: compat_editor.in_region_def)
  have "compat_editor.scanned name_of t ?pos its m ?x None
      (fdt_scan_loop ?strings compat_cb ?pos None (2, 1) False (m, ?x))"
    by (rule compat_editor.scan_items [OF a(7) assms(2) p(1) a(2-6) in_reg])
  then obtain m' node' x' where "fdt_scan_loop ?strings compat_cb ?pos None (2, 1) False (m, ?x) = Some x'"
      "fst (snd (snd x')) = m'" "cells_at m' ?pos (encs (prune (lists_compatible name_of str) its) @ [t])"
      "unchanged_outside ?pos (4 * length (encs its)) m m'"
    using visits_prune [OF assms(2) p(1), of 0 name_of str] assms(4) p(2)
    by (auto simp: compat_editor.scanned_def)
  then show ?thesis
    using a(1) by (auto simp: Let_def filter_compat_def fdt_scan_def fdt_scan_helper_def compat_cb_def [symmetric] split_beta)
qed

text \<open>A tree with the nodes \<open>clint\<close>, compatible with \<open>riscv,clint0\<close>, and \<open>uart\<close>.\<close>

definition demo_items :: "item list" where
  "demo_items =
     [Sub [0] [Sub [0x636c696e, 0x74000000] [Prop 13 0 [0x72697363, 0x762c636c, 0x696e7430, 0]],
               Sub [0x75617274, 0] []]]"

definition demo_words :: "u32 list" where
  "demo_words = [FDT_MAGIC, 128, 40, 116, 0, 17, 16, 0, 12, 76] @ encs demo_items @ [9] @
     [0x636f6d70, 0x61746962, 0x6c650000]"

lemma demo_cells: "cells_at (word_mem demo_words) 0 demo_words"
  using cells_at_word_mem [of demo_words 0] by (simp add: demo_words_def demo_items_def enc_Sub)

lemma demo_tree: "tree_at (word_mem demo_words) 0 (\<lambda>_. lit ''compatible'') {0} demo_items 9"
proof -
  let ?m = "word_mem demo_words"
  note tags = FDT_MAGIC_def FDT_VERSION_def FDT_NOP_def FDT_PROP_def FDT_BEGIN_NODE_def FDT_END_NODE_def
  have len: "length (encs demo_items) = 18" "length demo_words = 32" by (simp_all add: demo_words_def demo_items_def enc_Sub)
  note c = demo_cells [unfolded demo_words_def cells_at_append]
  have h: "bswap (ld32 ?m 0) = FDT_MAGIC" "bswap (ld32 ?m 8) = 40" "bswap (ld32 ?m 12) = 116" "bswap (ld32 ?m 24) = 16"
    using c by (simp_all add: cell_def demo_words_def)
  have "cells_at ?m 40 (encs demo_items @ [9])"
    using c by (simp add: cells_at_append demo_words_def)
  moreover have "cstr ?m (word_of_nat 116) (lit ''compatible'')"
  proof (rule cstr_stored)
    show "take (Suc (length (lit ''compatible''))) (drop 116 (bytes_of demo_words)) = lit ''compatible'' @ [0]" by code_simp
  qed (simp_all add: len lit_def)
  then have "cstr ?m 116 (lit ''compatible'')" by (simp only: of_nat_numeral)
  moreover have "\<not> unat (116 + word_of_nat i - 40 :: u64) < 72" if "i \<le> 10" for i
    using that unat_of_nat64 [of "76 + i"] by simp
  ultimately show ?thesis
    by (simp add: tree_at_def Let_def fdt_understood_def h len tags names_at_def lit_def)
qed


lemma filter_compat_prunes_witness:
  "\<exists>m'. filter_compat 0 (lit ''riscv,clint0'') (word_mem demo_words) = Some m' \<and>
     cells_at m' 40 ([1, 0] @ [4, 4, 4, 4, 4, 4, 4, 4, 4, 4, 4] @ [1, 0x75617274, 0, 2] @ [2, 9])"
proof -
  have wf: "\<forall>i\<in>set demo_items. wf_item (compat_ok (\<lambda>_. lit ''compatible'') {0}) i"
    by (simp add: demo_items_def wf_name_def compat_ok_def value_bytes_def be_bytes_def upt_rec)
  have first: "props_first True demo_items" "nesting demo_items < 999" by (simp_all add: demo_items_def)
  have fdt: "bswap (ld32 (word_mem demo_words) 8) = 40"
    using demo_cells by (simp add: cell_def demo_words_def)
  have pruned: "lists_compatible (\<lambda>_. lit ''compatible'') (lit ''riscv,clint0'') 13 0
      [0x72697363, 0x762c636c, 0x696e7430, 0]" by code_simp
  show ?thesis
    using filter_compat_prunes [OF demo_tree wf first, where str = "lit ''riscv,clint0''"] pruned
    by (auto simp: fdt Let_def demo_items_def enc_Sub FDT_NOP_def FDT_BEGIN_NODE_def FDT_END_NODE_def)
qed


section \<open>Cell counts of siblings\<close>

text \<open>A client that records the cell counts with which each node is opened, and changes nothing.\<close>

definition record_open :: "scan_node \<Rightarrow> mem \<times> (u32 \<times> u32) list \<Rightarrow> (mem \<times> (u32 \<times> u32) list) option" where
  "record_open node st = (case st of (m, l) \<Rightarrow> Some (m, l @ [(address_cells node, size_cells node)]))"

definition recorder :: "(u32 \<times> u32) list fdt_cb" where
  "recorder = \<lparr>cb_open = Some record_open, cb_prop = \<lambda>_. Some, cb_done = None, cb_close = None\<rparr>"

lemma recorder_simps [simp]:
  "cb_open recorder = Some record_open" "cb_prop recorder p st = Some st" "cb_done recorder = None" "cb_close recorder = None"
  by (simp_all add: recorder_def)

text \<open>A root with the nodes \<open>a\<close>, which sets its address cells to 1, and \<open>b\<close>, which sets nothing.\<close>

definition siblings_words :: "u32 list" where
  "siblings_words = [FDT_MAGIC, 115, 40, 96, 0, 17, 16, 0, 15, 56,
     1, 0, 1, 0x61000000, 3, 4, 0, 1, 2, 1, 0x62000000, 2, 2, 9,
     0x23616464, 0x72657373, 0x2d63656c, 0x6c730000]"

lemma siblings_cells: "cells_at (word_mem siblings_words) 0 siblings_words"
  using cells_at_word_mem [of siblings_words 0] by (simp add: siblings_words_def)

lemma siblings_names:
  "cstr (word_mem siblings_words) 44 []" "cstr (word_mem siblings_words) 52 [0x61]"
  "cstr (word_mem siblings_words) 80 [0x62]" "cstr (word_mem siblings_words) 96 (lit ''#address-cells'')"
proof -
  have len: "4 * length siblings_words < 2 ^ 64" by (simp add: siblings_words_def)
  have "take (Suc (length [])) (drop 44 (bytes_of siblings_words)) = [] @ [0]"
    "take (Suc (length [0x61::u8])) (drop 52 (bytes_of siblings_words)) = [0x61] @ [0]"
    "take (Suc (length [0x62::u8])) (drop 80 (bytes_of siblings_words)) = [0x62] @ [0]"
    "take (Suc (length (lit ''#address-cells''))) (drop 96 (bytes_of siblings_words)) = lit ''#address-cells'' @ [0]"
    by code_simp+
  note this [THEN cstr_stored [OF len]]
  moreover have "0 \<notin> set ([] :: u8 list)" "0 \<notin> set [0x61 :: u8]" "0 \<notin> set [0x62 :: u8]" "0 \<notin> set (lit ''#address-cells'')"
    by code_simp+
  ultimately show "cstr (word_mem siblings_words) 44 []" "cstr (word_mem siblings_words) 52 [0x61]"
    "cstr (word_mem siblings_words) 80 [0x62]" "cstr (word_mem siblings_words) 96 (lit ''#address-cells'')"
    by (simp_all only: of_nat_numeral not_False_eq_True simp_thms)
qed

text \<open>The cell counts of a node start from those its preceding sibling ended with, not from the
  defaults: \<open>b\<close> is opened with one address cell, because \<open>a\<close> set its own count to one.\<close>

theorem sibling_cells_leak:
  "fdt_scan 0 recorder (word_mem siblings_words, []) = Some (word_mem siblings_words, [(2, 1), (2, 1), (1, 1)])"
proof -
  define m where "m = word_mem siblings_words"
  have "cells_at m 0 siblings_words" unfolding m_def by (rule siblings_cells)
  note c = this [unfolded siblings_words_def cells_at.simps cell_def]
  note strings = siblings_names [folded m_def]
  have len: "strlen m 44 = Some 0" "strlen m 52 = Some 1" "strlen m 80 = Some 1"
    using strings(1-3) [THEN strlen_loop_cstr] by (simp_all add: strlen_def)
  have eq: "strcmp_lit m 96 (lit ''#address-cells'') = 0" "strcmp_lit m 96 (lit ''#size-cells'') \<noteq> 0"
    using strings(4) [THEN strcmp_lit_eq, of "lit ''#address-cells''"]
      strings(4) [THEN strcmp_lit_eq, of "lit ''#size-cells''"] by (simp_all add: lit_def)
  note tags = FDT_NOP_def FDT_PROP_def FDT_BEGIN_NODE_def FDT_END_NODE_def
  have ends: "fdt_scan_loop 96 recorder p node cells seen (m, x) = Some (p + 4, node, m, x)"
    if "p \<in> {72, 84, 88}" for p node cells seen x
    using c that by (subst fdt_scan_loop.simps) (auto simp: tags call_done_def call_opt_def split: option.splits)
  have stop: "fdt_scan_loop 96 recorder 92 None cells seen (m, x) = Some (92, None, m, x)" for cells seen x
    using c by (subst fdt_scan_loop.simps) (simp add: tags call_done_def)
  have sets: "fdt_scan_loop 96 recorder 56 (Some (Node p n ac sc)) cells False (m, x) = Some (76, Some (Node p n 1 sc), m, x)"
    for p n ac sc cells x
    using c by (subst fdt_scan_loop.simps)
      (simp add: tags Let_def set_cells_def eq prop_advance_def signed_divide_int_def ends)
  have b: "fdt_scan_loop 96 recorder 76 (Some r) (1, 1) seen (m, x) = Some (92, Some r, m, x @ [(1, 1)])" for r seen x
    using c by (subst fdt_scan_loop.simps)
      (simp add: tags Let_def call_done_def call_opt_def call_close_def record_open_def len ends)
  have a: "fdt_scan_loop 96 recorder 48 (Some r) (2, 1) False (m, x) = Some (92, Some r, m, x @ [(2, 1), (1, 1)])" for r x
    using c by (subst fdt_scan_loop.simps)
      (simp add: tags Let_def call_done_def call_opt_def call_close_def record_open_def len sets b)
  have "fdt_scan_loop 96 recorder 40 None (2, 1) False (m, []) = Some (92, None, m, [(2, 1), (2, 1), (1, 1)])"
    using c by (subst fdt_scan_loop.simps)
      (simp add: tags Let_def call_done_def call_opt_def call_close_def record_open_def len a stop)
  then show ?thesis unfolding m_def [symmetric]
    using c by (simp add: fdt_scan_def fdt_scan_helper_def fdt_understood_def Let_def FDT_VERSION_def)
qed

end
