(* ===== verification/SM_Arch.thy ===== *)
theory SM_Arch
  imports SM_Memory
begin

text \<open>
  The helpers of \<open>sm/arch\<close>: range masks and bitmaps (\<open>bit_masking.h\<close>), the lock flag and
  the atomic counters (\<open>atomics.h\<close>), the platform constants (\<open>memory.h\<close>, \<open>cpu_context.h\<close>).
\<close>

section \<open>Platform constants (memory.h, cpu_context.h)\<close>

definition read_dram_base :: u64 where "read_dram_base = 0x80000000"
definition read_dram_size :: u64 where "read_dram_size = 2147483648"
definition read_cache_levels :: u64 where "read_cache_levels = 2"
definition is_shared_cache :: "u64 \<Rightarrow> bool" where
  "is_shared_cache cache_level \<longleftrightarrow> cache_level = 1"
definition read_cache_line_size :: "u64 \<Rightarrow> u64" where
  "read_cache_line_size cache_level = 64"
definition read_cache_set_count :: "u64 \<Rightarrow> u64" where
  "read_cache_set_count cache_level = (if cache_level = 0 then 4096 else 32768)"
definition read_min_cache_index_shift :: u64 where "read_min_cache_index_shift = 0"
definition read_max_cache_index_shift :: u64 where "read_max_cache_index_shift = 0"
definition read_core_count :: u64 where "read_core_count = 1"

section \<open>Page constants (page_tables.h)\<close>

definition page_shift :: u64 where "page_shift = 12"
definition page_size :: u64 where "page_size = int_shl1 page_shift"

lemma page_size_eq [simp]: "page_size = 4096"
  by (simp add: page_size_def page_shift_def int_shl1_small)

lemma page_shift_eq [simp]: "page_shift = 12"
  by (simp add: page_shift_def)

section \<open>Range masks (bit\_masking.h)\<close>

definition is_valid_range_mask :: "u64 \<Rightarrow> bool" where
  "is_valid_range_mask msk \<longleftrightarrow> msk AND (msk + 1) = 0"

definition is_aligned_to_mask :: "u64 \<Rightarrow> u64 \<Rightarrow> bool" where
  "is_aligned_to_mask address msk \<longleftrightarrow> address AND msk = 0"

definition is_valid_range :: "u64 \<Rightarrow> u64 \<Rightarrow> bool" where
  "is_valid_range base msk \<longleftrightarrow> is_aligned_to_mask base msk \<and> is_valid_range_mask msk"

definition is_page_aligned :: "u64 \<Rightarrow> bool" where
  "is_page_aligned address \<longleftrightarrow> is_aligned_to_mask address (page_size - 1)"

definition pages_needed_for :: "u64 \<Rightarrow> u64" where
  "pages_needed_for memory_size = srl64 (memory_size + page_size - 1) page_shift"

text \<open>
  The loop of \<open>address_bits_for\<close>: the counter grows while the shifted size is positive. The
  initial \<open>memory_size -= 1\<close> wraps around for 0.
\<close>

function address_bits_loop :: "u64 \<Rightarrow> u64 \<Rightarrow> u64" where
  "address_bits_loop memory_size bits =
     (if 0 < memory_size then address_bits_loop (drop_bit 1 memory_size) (bits + 1) else bits)"
  by pat_completeness auto
termination
proof (relation "measure (\<lambda>(memory_size, bits). unat memory_size)", goal_cases)
  case (2 memory_size bits)
  then have "0 < unat memory_size" by (simp add: word_less_nat_alt)
  then show ?case by (simp add: unat_drop_bit_1)
qed simp

declare address_bits_loop.simps [simp del]

definition address_bits_for :: "u64 \<Rightarrow> u64" where
  "address_bits_for memory_size = address_bits_loop (memory_size - 1) 0"

definition ceil_power_of_two :: "u64 \<Rightarrow> u64" where
  "ceil_power_of_two memory_size = int_shl1 (address_bits_for memory_size)"

definition is_power_of_two :: "u64 \<Rightarrow> bool" where
  "is_power_of_two memory_size \<longleftrightarrow> 0 < memory_size \<and> is_valid_range_mask (memory_size - 1)"

section \<open>Bitmaps (bit\_masking.h)\<close>

text \<open>
  \<open>1 << (bit % bits_in_size_t)\<close> shifts the \<open>int\<close> 1: from bit 31 on, the mask is not the
  one the comment promises (\<open>int_shl1\<close>).
\<close>

definition bitmap_mask :: "u64 \<Rightarrow> u64" where
  "bitmap_mask bt = int_shl1 (bt mod 64)"

definition set_bitmap_bit :: "mem \<Rightarrow> u64 \<Rightarrow> u64 \<Rightarrow> bool \<Rightarrow> mem" where
  "set_bitmap_bit m bitmap bt v =
     (let offset = bt div 64; msk = bitmap_mask bt; a = bitmap + 8 * offset
      in if v then st64 m a (ld64 m a OR msk) else st64 m a (ld64 m a AND NOT msk))"

definition read_bitmap_bit :: "mem \<Rightarrow> u64 \<Rightarrow> u64 \<Rightarrow> bool" where
  "read_bitmap_bit m bitmap bt =
     (let offset = bt div 64; msk = bitmap_mask bt
      in ld64 m (bitmap + 8 * offset) AND msk \<noteq> 0)"

section \<open>Lock flags and atomics (atomics.h)\<close>

text \<open>
  \<open>atomic_flag\<close> is a struct and both lock functions take it by value: they work on a copy
  in the callee's frame. The model returns what the function returns together with the
  final value of that copy; the caller's object is not an argument, so it cannot change.
\<close>

definition atomic_flag_test_and_set :: "u32 \<Rightarrow> bool \<times> u32" where
  "atomic_flag_test_and_set f = (f \<noteq> 0, 1)"

definition atomic_flag_clear :: "u32 \<Rightarrow> u32" where
  "atomic_flag_clear f = 0"

definition atomic_init :: "mem \<Rightarrow> u64 \<Rightarrow> u64 \<Rightarrow> mem" where
  "atomic_init m object v = st64 m object v"

definition atomic_load :: "mem \<Rightarrow> u64 \<Rightarrow> u64" where
  "atomic_load m object = ld64 m object"

definition atomic_store :: "mem \<Rightarrow> u64 \<Rightarrow> u64 \<Rightarrow> mem" where
  "atomic_store m object v = st64 m object v"

definition atomic_fetch_add :: "mem \<Rightarrow> u64 \<Rightarrow> u64 \<Rightarrow> u64 \<times> mem" where
  "atomic_fetch_add m object v = (ld64 m object, st64 m object (ld64 m object + v))"

definition atomic_fetch_sub :: "mem \<Rightarrow> u64 \<Rightarrow> u64 \<Rightarrow> u64 \<times> mem" where
  "atomic_fetch_sub m object v = (ld64 m object, st64 m object (ld64 m object - v))"

section \<open>Facts on masks\<close>

lemma mask_add_one: "n < 64 \<Longrightarrow> (mask n :: u64) + 1 = 2 ^ n"
  by (simp add: mask_eq_exp_minus_1)

lemma valid_mask_of_mask: "is_valid_range_mask (mask n)"
proof (cases "n < 64")
  case True
  have "mask n AND push_bit n (1 :: u64) = 0"
    by (rule bit_word_eqI) (auto simp: bit_simps)
  with True show ?thesis
    by (simp add: is_valid_range_mask_def mask_add_one push_bit_eq_mult)
next
  case False
  then have "(mask n :: u64) = - 1" by (intro bit_word_eqI) (auto simp: bit_simps)
  then show ?thesis by (simp add: is_valid_range_mask_def)
qed


lemma valid_mask_imp_mask:
  assumes "is_valid_range_mask w"
  shows "\<exists>n\<le>64. w = mask n"
proof (cases "w = - 1")
  case True
  then have "w = mask 64" by (simp only: mask_64)
  then show ?thesis by blast
next
  case False
  then have "\<exists>n. n < 64 \<and> \<not> bit w n"
    by (auto simp: bit_eq_iff [of w] bit_simps)
  then have ex: "\<exists>n. \<not> bit w n" by blast
  define n where "n = (LEAST n. \<not> bit w n)"
  have n: "\<not> bit w n" using LeastI_ex [OF ex] by (simp add: n_def)
  have below: "bit w k" if "k < n" for k
    using not_less_Least that unfolding n_def by blast
  have n64: "n < 64"
  proof (rule ccontr)
    assume "\<not> n < 64"
    then have "bit w k" if "k < 64" for k using below that by simp
    with \<open>\<exists>n. n < 64 \<and> \<not> bit w n\<close> show False by blast
  qed
  define h where "h = w AND NOT (mask n)"
  have h_bits: "bit h k \<longleftrightarrow> n < k \<and> bit w k" for k
    using n by (cases "k = n") (auto simp: h_def bit_simps dest: bit_imp_le_length)
  have split: "w = mask n + h"
  proof -
    have "mask n + h = mask n OR h"
      by (rule disjunctive_add) (auto simp: h_bits bit_simps)
    also have "\<dots> = w"
      by (rule bit_word_eqI) (use below n in \<open>auto simp: h_bits bit_simps not_less\<close>,
        metis nat_less_le not_less)
    finally show ?thesis by simp
  qed
  have "w + 1 = push_bit n 1 + h"
    using n64 mask_add_one [of n] by (subst split) (simp add: push_bit_eq_mult ac_simps)
  also have "\<dots> = push_bit n 1 OR h"
    by (rule disjunctive_add) (auto simp: h_bits bit_simps)
  finally have succ: "w + 1 = push_bit n 1 OR h" .
  have "\<not> bit h k" for k
  proof
    assume "bit h k"
    then have "bit (w AND (w + 1)) k" by (simp add: succ h_bits bit_simps)
    with assms show False by (simp add: is_valid_range_mask_def)
  qed
  then have "h = 0" by (intro bit_word_eqI) simp
  with split n64 show ?thesis by (intro exI [of _ n]) simp
qed

lemma is_valid_range_mask_iff: "is_valid_range_mask w \<longleftrightarrow> (\<exists>n\<le>64. w = mask n)"
  using valid_mask_imp_mask valid_mask_of_mask by blast

lemma aligned_or_eq_add: "is_aligned_to_mask base w \<Longrightarrow> base OR w = base + w"
  by (rule disjunctive_add [symmetric]) (metis bit_and_iff bit_0_eq bot_apply is_aligned_to_mask_def bot_bool_def)

lemma address_bits_loop_spec:
  "\<exists>k. k \<le> 64 \<and> address_bits_loop x b = b + word_of_nat k \<and> unat x < 2 ^ k \<and>
       (k = 0 \<or> 2 ^ (k - 1) \<le> unat x)"
proof (induction x b rule: address_bits_loop.induct)
  case (1 x b)
  show ?case
  proof (cases "0 < x")
    case True
    with "1.IH" obtain k where k: "address_bits_loop (drop_bit 1 x) (b + 1) = b + 1 + word_of_nat k"
      "unat x div 2 < 2 ^ k" "k = 0 \<or> 2 ^ (k - 1) \<le> unat x div 2"
      by (auto simp: unat_drop_bit_1)
    have low: "2 ^ k \<le> unat x"
    proof (cases k)
      case 0
      with True show ?thesis by (simp add: word_less_nat_alt)
    next
      case (Suc j)
      with k(3) show ?thesis by simp
    qed
    moreover have "k < 64"
    proof (rule ccontr)
      assume "\<not> k < 64"
      then have "(2 :: nat) ^ 64 \<le> 2 ^ k" by (intro power_increasing) auto
      with low unat_less64 [of x] show False by simp
    qed
    ultimately show ?thesis using True k
      by (intro exI [of _ "Suc k"]) (simp add: address_bits_loop.simps [of x b] algebra_simps)
  next
    case False
    then show ?thesis by (intro exI [of _ 0]) (simp add: address_bits_loop.simps word_less_nat_alt)
  qed
qed

lemma address_bits_for_spec:
  assumes "0 < ms"
  obtains k where "k \<le> 64" "unat (address_bits_for ms) = k" "unat ms \<le> 2 ^ k"
    "\<And>j. unat ms \<le> 2 ^ j \<Longrightarrow> k \<le> j"
proof -
  have pred: "unat (ms - 1) = unat ms - 1" "0 < unat ms"
    using assms by (simp_all add: unat_pred word_less_nat_alt)
  obtain k where k: "k \<le> 64" "address_bits_for ms = word_of_nat k" "unat (ms - 1) < 2 ^ k"
    "k = 0 \<or> 2 ^ (k - 1) \<le> unat (ms - 1)"
    using address_bits_loop_spec [of "ms - 1" 0] by (auto simp: address_bits_for_def)
  have "k \<le> j" if "unat ms \<le> 2 ^ j" for j
  proof (rule ccontr)
    assume "\<not> k \<le> j"
    then have "(2 :: nat) ^ j \<le> 2 ^ (k - 1)" "k \<noteq> 0" by (auto intro: power_increasing)
    with that k(4) pred show False by linarith
  qed
  with k pred show ?thesis by (intro that [of k]) (simp_all add: unat_of_nat64)
qed

section \<open>Facts on bitmaps\<close>

lemma bitmap_mask_low: "unat (bt mod 64) < 31 \<Longrightarrow> bitmap_mask bt = push_bit (unat (bt mod 64)) 1"
  by (simp add: bitmap_mask_def int_shl1_small)

lemma and_exp_eq_0: "w AND 2 ^ n = 0 \<longleftrightarrow> \<not> bit w n" for w :: u64
  using bit_imp_le_length [of w n] by (auto simp: bit_eq_iff [of "w AND _"] bit_simps)

definition bitmap_key :: "u64 \<Rightarrow> bool" where
  "bitmap_key bt \<longleftrightarrow> unat bt < 2 ^ 32 \<and> unat (bt mod 64) < 31"

lemma bitmap_cells_sep:
  assumes "unat i < 2 ^ 32" "unat j < 2 ^ 32" "i div 64 \<noteq> j div 64"
  shows "sep (bm + 8 * (i div 64)) 8 (bm + 8 * (j div 64)) 8"
proof -
  have eq: "8 * (i div 64) = word_of_nat (8 * (unat i div 64))"
    "8 * (j div 64) = word_of_nat (8 * (unat j div 64))"
    by (simp_all add: word_of_nat_unat_div_64)
  have "unat i div 64 \<noteq> unat j div 64"
    using assms(3) by (auto simp flip: word_of_nat_unat_div_64)
  then consider "8 * (unat i div 64) + 8 \<le> 8 * (unat j div 64)"
    | "8 * (unat j div 64) + 8 \<le> 8 * (unat i div 64)" by linarith
  then show ?thesis
  proof cases
    case 1
    with assms show ?thesis unfolding eq by (intro sep_offsets) auto
  next
    case 2
    with assms show ?thesis unfolding eq by (subst sep_sym) (intro sep_offsets, auto)
  qed
qed

interpretation bitmap: keyed_store "\<lambda>m. read_bitmap_bit m bm"
  "\<lambda>bt v m. set_bitmap_bit m bm bt v" "\<lambda>m. bitmap_key" for bm
proof
  fix m k j v
  assume k: "bitmap_key k"
  then show "read_bitmap_bit (set_bitmap_bit m bm k v) bm k = v"
    by (simp add: read_bitmap_bit_def set_bitmap_bit_def Let_def bitmap_key_def bitmap_mask_low
        and_exp_eq_0 bit_simps)
  assume j: "bitmap_key j" and ne: "j \<noteq> k"
  show "read_bitmap_bit (set_bitmap_bit m bm k v) bm j = read_bitmap_bit m bm j"
  proof (cases "k div 64 = j div 64")
    case True
    with ne have "unat (j mod 64) \<noteq> unat (k mod 64)"
      by (metis word_unat_eq_iff word_mod_div_equality)
    with True j k show ?thesis
      by (auto simp: read_bitmap_bit_def set_bitmap_bit_def Let_def bitmap_key_def bitmap_mask_low
        and_exp_eq_0 bit_simps)
  next
    case False
    then have "sep (bm + 8 * (k div 64)) 8 (bm + 8 * (j div 64)) 8"
      using j k by (intro bitmap_cells_sep) (auto simp: bitmap_key_def)
    then show ?thesis
      by (simp add: read_bitmap_bit_def set_bitmap_bit_def Let_def mem_simps)
  qed
qed simp


section \<open>Properties\<close>

lemma unat_and_not_mask: "unat (a AND NOT (mask n) :: u64) = unat a div 2 ^ n * 2 ^ n"
proof -
  have "a AND NOT (mask n) = push_bit n (drop_bit n a)"
    by (rule bit_word_eqI) (auto simp: bit_simps)
  moreover have "unat (push_bit n (drop_bit n a)) = take_bit 64 (push_bit n (drop_bit n (unat a)))"
    by (simp add: unsigned_push_bit_eq unsigned_drop_bit_eq take_bit_drop_bit min_def
        take_bit_nat_eq_self unat_less64)
  moreover have "unat a div 2 ^ n * 2 ^ n < 2 ^ 64"
    using unat_less64 [of a] by (simp add: order_le_less_trans [OF div_times_less_eq_dividend])
  ultimately show ?thesis
    by (simp add: push_bit_eq_mult drop_bit_eq_div take_bit_nat_eq_self)
qed

lemma unat_mask_64: "n \<le> 64 \<Longrightarrow> unat (mask n :: u64) = 2 ^ n - 1"
proof (cases "n = 64")
  case True
  then show ?thesis by (simp add: mask_64 unat_minus1_64 del: mask_eq_exp_minus_1)
next
  case False
  assume "n \<le> 64"
  with False have n: "n < 64" by simp
  have "mask n = take_bit n (- 1 :: u64)" by (simp add: take_bit_minus_one_eq_mask)
  then have "unat (mask n :: u64) = take_bit n (2 ^ 64 - 1)"
    by (simp only: unsigned_take_bit_eq unat_minus1_64)
  also have "\<dots> = take_bit n (mask 64)" by (simp only: mask_eq_exp_minus_1)
  also have "\<dots> = mask n" using n by simp
  finally show ?thesis by (simp add: mask_eq_exp_minus_1)
qed

lemma aligned_dvd:
  assumes "is_aligned_to_mask base (mask n)"
  shows "2 ^ n dvd unat base"
proof -
  have "take_bit n base = 0"
    using assms by (simp add: is_aligned_to_mask_def take_bit_eq_mask)
  then have "take_bit n (unat base) = 0" by (metis unsigned_0 unsigned_take_bit_eq)
  then show ?thesis by (simp add: take_bit_eq_mod dvd_eq_mod_eq_0)
qed

lemma aligned_no_overflow:
  assumes "is_aligned_to_mask base (mask n)" "n \<le> 64"
  shows "unat base + (2 ^ n - 1) < 2 ^ 64"
proof -
  obtain q where q: "unat base = 2 ^ n * q" using aligned_dvd [OF assms(1)] by (auto elim: dvdE)
  have pow: "(2 :: nat) ^ 64 = 2 ^ n * 2 ^ (64 - n)" using assms(2) by (simp flip: power_add)
  have "2 ^ n * q < 2 ^ n * 2 ^ (64 - n)" using unat_less64 [of base] q pow by simp
  then have "q + 1 \<le> 2 ^ (64 - n)" by simp
  then have "2 ^ n * (q + 1) \<le> 2 ^ 64" unfolding pow by (rule mult_le_mono2)
  then show ?thesis using q by (simp add: algebra_simps)
qed

lemma unat_range_end:
  assumes "is_aligned_to_mask base (mask n)" "n \<le> 64"
  shows "unat (base OR mask n) = unat base + (2 ^ n - 1)"
  using aligned_no_overflow [OF assms] assms
  by (simp add: aligned_or_eq_add unat_word_ariths unat_mask_64)

text \<open>A base/mask pair accepted by \<open>is_valid_range\<close> denotes exactly the interval from the
  base to \<open>base | mask\<close>: the comparison the hardware makes, \<open>(addr & ~mask) == base\<close>, holds for
  the addresses of that interval and for no other, and the interval does not wrap around.\<close>

theorem valid_range_interval:
  assumes "is_valid_range base msk"
  shows "(a AND NOT msk = base \<longleftrightarrow> base \<le> a \<and> a \<le> base OR msk) \<and>
    base OR msk = base + msk \<and> unat (base OR msk) = unat base + unat msk"
proof -
  from assms obtain n where n: "n \<le> 64" "msk = mask n" and al: "is_aligned_to_mask base (mask n)"
    by (auto simp: is_valid_range_def is_valid_range_mask_iff)
  have dvd: "2 ^ n dvd unat base" by (rule aligned_dvd [OF al])
  have "a AND NOT msk = base \<longleftrightarrow> unat a div 2 ^ n * 2 ^ n = unat base"
    unfolding n(2) by (simp only: word_unat_eq_iff unat_and_not_mask)
  also have "\<dots> \<longleftrightarrow> unat base \<le> unat a \<and> unat a \<le> unat base + (2 ^ n - 1)"
  proof
    assume eq: "unat a div 2 ^ n * 2 ^ n = unat base"
    have "unat a mod 2 ^ n < 2 ^ n" by simp
    then have "unat a mod 2 ^ n \<le> 2 ^ n - 1" by linarith
    then show "unat base \<le> unat a \<and> unat a \<le> unat base + (2 ^ n - 1)"
      using div_mult_mod_eq [of "unat a" "2 ^ n"] eq by linarith
  next
    assume b: "unat base \<le> unat a \<and> unat a \<le> unat base + (2 ^ n - 1)"
    from dvd obtain q where q: "unat base = q * 2 ^ n" by (auto elim: dvdE simp: mult.commute)
    have "0 < (2 :: nat) ^ n" by simp
    then have "unat a < (q + 1) * 2 ^ n" using b q unfolding distrib_right by linarith
    then have "unat a div 2 ^ n = q"
      using b q by (intro div_nat_eqI) (simp_all add: mult.commute)
    then show "unat a div 2 ^ n * 2 ^ n = unat base" using q by simp
  qed
  also have "\<dots> \<longleftrightarrow> base \<le> a \<and> a \<le> base OR msk"
    using n unat_range_end [OF al n(1)] by (simp add: word_le_nat_alt)
  finally have "a AND NOT msk = base \<longleftrightarrow> base \<le> a \<and> a \<le> base OR msk" .
  moreover have "base OR msk = base + msk" using al n by (simp add: aligned_or_eq_add)
  moreover have "unat (base OR msk) = unat base + unat msk"
    using unat_range_end [OF al n(1)] n by (simp add: unat_mask_64)
  ultimately show ?thesis by blast
qed

theorem valid_range_interval_witness:
  "((0x3abc :: u64) AND NOT 0xfff = 0x3000 \<longleftrightarrow> 0x3000 \<le> (0x3abc :: u64) \<and> 0x3abc \<le> (0x3000 OR 0xfff :: u64))
   \<and> (0x3000 OR 0xfff :: u64) = 0x3000 + 0xfff"
proof -
  have "is_valid_range 0x3000 0xfff"
    by (simp add: is_valid_range_def is_valid_range_mask_def is_aligned_to_mask_def)
  from valid_range_interval [OF this, of "0x3abc"] show ?thesis by blast
qed

text \<open>\<open>ceil_power_of_two\<close> returns, for every size from 1 to \<open>2 ^ 30\<close>, the least power of two
  that is not below it.\<close>

theorem ceil_power_of_two_correct:
  assumes "0 < ms" "unat ms \<le> 2 ^ 30"
  shows "\<exists>k\<le>30. unat (ceil_power_of_two ms) = 2 ^ k \<and> unat ms \<le> 2 ^ k \<and> (\<forall>j. unat ms \<le> 2 ^ j \<longrightarrow> k \<le> j)"
proof -
  obtain k where k: "unat (address_bits_for ms) = k" "unat ms \<le> 2 ^ k"
    "\<And>j. unat ms \<le> 2 ^ j \<Longrightarrow> k \<le> j"
    using address_bits_for_spec [OF assms(1)] by metis
  have k30: "k \<le> 30" using k(3) assms(2) by blast
  then have "int_shl1 (address_bits_for ms) = push_bit k 1"
    using k(1) int_shl1_small [of "address_bits_for ms"] by simp
  then have "unat (ceil_power_of_two ms) = 2 ^ k"
    using k30 by (simp add: ceil_power_of_two_def unat_exp_64)
  with k k30 show ?thesis by blast
qed

theorem ceil_power_of_two_correct_witness:
  "\<exists>k\<le>30. unat (ceil_power_of_two 100) = 2 ^ k \<and> (100 :: nat) \<le> 2 ^ k \<and> (\<forall>j. (100 :: nat) \<le> 2 ^ j \<longrightarrow> k \<le> j)"
  using ceil_power_of_two_correct [of 100] by simp

text \<open>Region bitmaps behave as a store of independent bits for the bits whose position in
  their word is below 31: after writing bit \<open>i\<close>, bit \<open>i\<close> reads the value written and every other
  such bit reads what it read before.\<close>

theorem bitmap_read_after_set:
  assumes "bitmap_key i" "bitmap_key j"
  shows "read_bitmap_bit (set_bitmap_bit m bm i v) bm j = (if j = i then v else read_bitmap_bit m bm j)"
  using assms by (rule bitmap.get_put)

theorem bitmap_read_after_set_witness:
  "read_bitmap_bit (set_bitmap_bit (\<lambda>_. 0) 64 70 True) 64 70"
proof -
  have "bitmap_key 70" by (simp add: bitmap_key_def)
  then show ?thesis using bitmap_read_after_set [of 70 70 "\<lambda>_. 0" 64 True] by simp
qed

lemma int_shl1_mod32: "n AND 31 = k AND 31 \<Longrightarrow> int_shl1 n = int_shl1 k"
  by (simp add: int_shl1_def)

text \<open>Bits 32 to 63 of a bitmap word are not represented: writing bit \<open>64 * w + 32 + b\<close>
  (\<open>b < 32\<close>) is the same memory update as writing bit \<open>64 * w + b\<close>, because \<open>1 << (bit % 64)\<close>
  shifts a 32-bit \<open>int\<close>. For region 33 the update changes the bit of region 1.\<close>

theorem bitmap_high_bits_alias:
  "set_bitmap_bit m bm 33 v = set_bitmap_bit m bm 1 v \<and>
   read_bitmap_bit m bm 33 = read_bitmap_bit m bm 1 \<and>
   (\<forall>k<64. bit (ld64 (set_bitmap_bit m bm 33 v) bm) k = (if k = 1 then v else bit (ld64 m bm) k))"
proof -
  have "bitmap_mask 33 = bitmap_mask 1" "bitmap_mask 1 = 2"
    by (simp_all add: bitmap_mask_def int_shl1_def signed_take_bit_def)
  moreover have "(33 :: u64) div 64 = 0" "(1 :: u64) div 64 = 0" by simp_all
  moreover have "bit (2 :: u64) k \<longleftrightarrow> k = 1" if "k < 64" for k
    using bit_exp_iff [of 1 k, where ?'a = "64 word"] that by auto
  moreover from this have "bit (- 3 :: u64) k \<longleftrightarrow> k \<noteq> 1" if "k < 64" for k
    using bit_not_iff [of "2 :: u64" k] that by simp
  ultimately show ?thesis
    by (auto simp: set_bitmap_bit_def read_bitmap_bit_def Let_def bit_and_iff bit_or_iff bit_not_iff)
qed

theorem bitmap_high_bits_alias_witness:
  "bit (ld64 (set_bitmap_bit (\<lambda>_. 0) 64 33 True) 64) 1"
proof -
  have "\<forall>k<64. bit (ld64 (set_bitmap_bit (\<lambda>_. 0) 64 33 True) 64) k =
      (if k = 1 then True else bit (ld64 (\<lambda>_. 0) 64) k)"
    using bitmap_high_bits_alias [of "\<lambda>_. 0" 64 True] by blast
  then show ?thesis by (metis numeral_One one_less_numeral_iff semiring_norm(76,77))
qed

end
