(* ===== verification/Monitor_State.thy ===== *)
theory Monitor_State
  imports SM_Arch
begin

text \<open>
  The monitor's state: the memory, the globals of \<open>sm/monitor\<close>, the control registers and
  the count of TLB flushes. The tables that \<open>boot_init.c\<close> lays out in memory (core table,
  region table, block clock, OS region bitmap) are reached through the pointers held in the
  globals, as in C; \<open>cell\<close> names their 64-bit words.
\<close>

record mstate =
  mem :: mem
  g_core :: u64
  g_core_count :: u64
  g_dram_region :: u64
  g_dram_regions :: u64
  g_dram_base :: u64
  g_dram_size :: u64
  g_dram_region_shift :: u64
  g_dram_stripe_shift :: u64
  g_dram_stripe_page_mask :: u64
  g_dram_region_mask :: u64
  g_dram_stripe_mask :: u64
  g_dram_region_count :: u64
  g_dram_stripe_size :: u64
  g_dram_stripe_pages :: u64
  g_dram_region_bitmap_words :: u64
  g_dma_range_start :: u64
  g_dma_range_end :: u64
  g_metadata_region_pages :: u64
  g_metadata_region_start :: u64
  g_os_region_bitmap :: u64
  g_monitor_top :: u64
  csr :: "u64 \<Rightarrow> u64"
  tlb_flushes :: nat

section \<open>Result codes and special identifiers (api.h, dram\_regions.h)\<close>

datatype api_result =
    monitor_ok
  | monitor_invalid_value
  | monitor_invalid_state
  | monitor_concurrent_call
  | monitor_async_exit
  | monitor_access_denied
  | monitor_unsupported

fun api_code :: "api_result \<Rightarrow> u64" where
  "api_code monitor_ok = 0"
| "api_code monitor_invalid_value = 1"
| "api_code monitor_invalid_state = 2"
| "api_code monitor_concurrent_call = 3"
| "api_code monitor_async_exit = 4"
| "api_code monitor_access_denied = 4"
| "api_code monitor_unsupported = 5"

definition null_enclave_id :: u64 where "null_enclave_id = 0"
definition blocked_enclave_id :: u64 where "blocked_enclave_id = 1"
definition metadata_enclave_id :: u64 where "metadata_enclave_id = 2"
definition free_enclave_id :: u64 where "free_enclave_id = 3"

lemmas enclave_id_defs [simp] =
  null_enclave_id_def blocked_enclave_id_def metadata_enclave_id_def free_enclave_id_def

datatype dram_region_state_t =
    dram_region_invalid
  | dram_region_free
  | dram_region_blocked
  | dram_region_locked
  | dram_region_owned

fun dram_region_state_code :: "dram_region_state_t \<Rightarrow> u64" where
  "dram_region_state_code dram_region_invalid = 0"
| "dram_region_state_code dram_region_free = 1"
| "dram_region_state_code dram_region_blocked = 2"
| "dram_region_state_code dram_region_locked = 3"
| "dram_region_state_code dram_region_owned = 4"

section \<open>Control registers (cpu\_context.h, memory.h)\<close>

definition write_csr :: "u64 \<Rightarrow> u64 \<Rightarrow> mstate \<Rightarrow> mstate" where
  "write_csr n v s = s\<lparr>csr := (csr s)(n := v)\<rparr>"

definition current_core :: "mstate \<Rightarrow> u64" where
  "current_core s = csr s 0xF14"

definition flush_tlbs :: "mstate \<Rightarrow> mstate" where
  "flush_tlbs s = s\<lparr>tlb_flushes := tlb_flushes s + 1\<rparr>"

definition set_cache_index_shift :: "u64 \<Rightarrow> mstate \<Rightarrow> mstate" where
  "set_cache_index_shift cache_index_shift s = s"

definition set_par_base :: "u64 \<Rightarrow> mstate \<Rightarrow> mstate" where
  "set_par_base v = write_csr 0x7c5 v"
definition set_par_mask :: "u64 \<Rightarrow> mstate \<Rightarrow> mstate" where
  "set_par_mask v = write_csr 0x7c6 v"
definition set_drb_map :: "u64 \<Rightarrow> mstate \<Rightarrow> mstate" where
  "set_drb_map phys_addr s = write_csr 0x7c3 (ld64 (mem s) phys_addr) s"
definition set_epar_base :: "u64 \<Rightarrow> mstate \<Rightarrow> mstate" where
  "set_epar_base v = write_csr 0x7c7 v"
definition set_epar_mask :: "u64 \<Rightarrow> mstate \<Rightarrow> mstate" where
  "set_epar_mask v = write_csr 0x7c8 v"
definition set_ev_base :: "u64 \<Rightarrow> mstate \<Rightarrow> mstate" where
  "set_ev_base v = write_csr 0x7c0 v"
definition set_ev_mask :: "u64 \<Rightarrow> mstate \<Rightarrow> mstate" where
  "set_ev_mask v = write_csr 0x7c1 v"

text \<open>The mode bits are written as \<open>8<<60\<close>, a shift of an \<open>int\<close> that C leaves undefined: its value is the argument
  \<open>mode\<close>. \<open>-1L>>4\<close> is an arithmetic shift, so the mask keeps all bits.\<close>

definition set_eptbr :: "u64 \<Rightarrow> u64 \<Rightarrow> mstate \<Rightarrow> mstate" where
  "set_eptbr mode v = write_csr 0x7c2 (v AND signed_drop_bit 4 (- 1) OR mode)"
definition set_ptbr :: "u64 \<Rightarrow> u64 \<Rightarrow> mstate \<Rightarrow> mstate" where
  "set_ptbr mode v = write_csr 0x180 (v AND signed_drop_bit 4 (- 1) OR mode)"

lemma table_base_keeps_mode_bits: "csr (set_eptbr mode v s) 0x7c2 = v OR mode"
proof -
  have "signed_drop_bit 4 (- 1 :: u64) = - 1"
    by (rule bit_word_eqI) (simp add: bit_signed_drop_bit_iff)
  then show ?thesis by (simp add: set_eptbr_def write_csr_def)
qed

definition set_edrb_map :: "u64 \<Rightarrow> mstate \<Rightarrow> mstate" where
  "set_edrb_map phys_addr s = write_csr 0x7c4 (ld64 (mem s) phys_addr) s"
definition set_dmar_base :: "u64 \<Rightarrow> mstate \<Rightarrow> mstate" where
  "set_dmar_base v s = s"
definition set_dmar_mask :: "u64 \<Rightarrow> mstate \<Rightarrow> mstate" where
  "set_dmar_mask v s = s"

lemmas csr_defs [sm_defs] =
  write_csr_def flush_tlbs_def set_cache_index_shift_def set_par_base_def set_par_mask_def
  set_drb_map_def set_edrb_map_def set_dmar_base_def set_dmar_mask_def

section \<open>Table cells\<close>

text \<open>
  \<open>dram_region_info_t\<close> (40 bytes: the lock flag at 0, then four words) and \<open>core_info_t\<close>
  (32 bytes: four words).
\<close>

datatype region_field = Owner | Previous_owner | Pinned_pages | Blocked_at
datatype core_field = Enclave_id | Thread_id | Thread | Flushed_at

fun region_offset :: "region_field \<Rightarrow> nat" where
  "region_offset Owner = 8"
| "region_offset Previous_owner = 16"
| "region_offset Pinned_pages = 24"
| "region_offset Blocked_at = 32"

fun core_offset :: "core_field \<Rightarrow> nat" where
  "core_offset Enclave_id = 0"
| "core_offset Thread_id = 8"
| "core_offset Thread = 16"
| "core_offset Flushed_at = 24"

datatype cell =
    Region region_field u64
  | Core core_field u64
  | Block_clock
  | Os_bitmap_word u64

definition region_ptr :: "mstate \<Rightarrow> u64 \<Rightarrow> u64" where
  "region_ptr s r = g_dram_region s + 40 * r"

definition core_ptr :: "mstate \<Rightarrow> u64 \<Rightarrow> u64" where
  "core_ptr s c = g_core s + 32 * c"

fun cell_addr :: "mstate \<Rightarrow> cell \<Rightarrow> u64" where
  "cell_addr s (Region f r) = region_ptr s r + word_of_nat (region_offset f)"
| "cell_addr s (Core f c) = core_ptr s c + word_of_nat (core_offset f)"
| "cell_addr s Block_clock = g_dram_regions s"
| "cell_addr s (Os_bitmap_word i) = g_os_region_bitmap s + 8 * i"

definition get_cell :: "mstate \<Rightarrow> cell \<Rightarrow> u64" where
  "get_cell s c = ld64 (mem s) (cell_addr s c)"

definition put_cell :: "cell \<Rightarrow> u64 \<Rightarrow> mstate \<Rightarrow> mstate" where
  "put_cell c v s = s\<lparr>mem := st64 (mem s) (cell_addr s c) v\<rparr>"

definition region_lock :: "mstate \<Rightarrow> u64 \<Rightarrow> u32" where
  "region_lock s r = ld32 (mem s) (region_ptr s r)"

abbreviation region_owner :: "mstate \<Rightarrow> u64 \<Rightarrow> u64" where
  "region_owner s r \<equiv> get_cell s (Region Owner r)"

abbreviation block_clock :: "mstate \<Rightarrow> u64" where
  "block_clock s \<equiv> get_cell s Block_clock"

section \<open>Layout\<close>

text \<open>
  What \<open>boot_init_dynamic_arrays\<close> establishes: the tables lie one after the other below
  \<open>g_monitor_top\<close>, the bitmap has a bit per region, and the hart number indexes the core
  table. It mentions globals and registers only.
\<close>

definition wf_layout :: "mstate \<Rightarrow> bool" where
  "wf_layout s \<longleftrightarrow>
     unat (g_core s) + 32 * unat (g_core_count s) \<le> unat (g_dram_region s) \<and>
     unat (g_dram_region s) + 40 * unat (g_dram_region_count s) \<le> unat (g_dram_regions s) \<and>
     unat (g_dram_regions s) + 8 \<le> unat (g_os_region_bitmap s) \<and>
     unat (g_os_region_bitmap s) + 8 * unat (g_dram_region_bitmap_words s) \<le> unat (g_monitor_top s) \<and>
     unat (g_dram_region_count s) \<le> 64 * unat (g_dram_region_bitmap_words s) \<and>
     0 < g_dram_region_count s \<and>
     current_core s < g_core_count s"

fun cell_ok :: "mstate \<Rightarrow> cell \<Rightarrow> bool" where
  "cell_ok s (Region f r) \<longleftrightarrow> r < g_dram_region_count s"
| "cell_ok s (Core f c) \<longleftrightarrow> c < g_core_count s"
| "cell_ok s Block_clock \<longleftrightarrow> True"
| "cell_ok s (Os_bitmap_word i) \<longleftrightarrow> i < g_dram_region_bitmap_words s"

definition valid_cell :: "mstate \<Rightarrow> cell \<Rightarrow> bool" where
  "valid_cell s c \<longleftrightarrow> wf_layout s \<and> cell_ok s c"

fun cell_pos :: "mstate \<Rightarrow> cell \<Rightarrow> nat" where
  "cell_pos s (Region f r) = unat (g_dram_region s) + 40 * unat r + region_offset f"
| "cell_pos s (Core f c) = unat (g_core s) + 32 * unat c + core_offset f"
| "cell_pos s Block_clock = unat (g_dram_regions s)"
| "cell_pos s (Os_bitmap_word i) = unat (g_os_region_bitmap s) + 8 * unat i"

lemma region_offset_bounds: "8 \<le> region_offset f" "region_offset f + 8 \<le> 40"
  by (cases f; simp)+

lemma core_offset_bound: "core_offset f + 8 \<le> 32"
  by (cases f) simp_all

lemma region_offset_apart:
  "f \<noteq> f' \<Longrightarrow> region_offset f + 8 \<le> region_offset f' \<or> region_offset f' + 8 \<le> region_offset f"
  by (cases f; cases f') simp_all

lemma core_offset_apart:
  "f \<noteq> f' \<Longrightarrow> core_offset f + 8 \<le> core_offset f' \<or> core_offset f' + 8 \<le> core_offset f"
  by (cases f; cases f') simp_all

lemma unat_of_pos:
  assumes "a = word_of_nat n" "n < 2 ^ 64"
  shows "unat (a :: u64) = n"
  using assms by (simp add: unat_of_nat64)

lemma cell_addr_of_pos: "cell_addr s c = word_of_nat (cell_pos s c)"
  by (cases c) (simp_all add: region_ptr_def core_ptr_def)

text \<open>The four tables in address order, and the bounds of each.\<close>

fun table_of :: "cell \<Rightarrow> nat" where
  "table_of (Core f c) = 0"
| "table_of (Region f r) = 1"
| "table_of Block_clock = 2"
| "table_of (Os_bitmap_word i) = 3"

fun table_start :: "mstate \<Rightarrow> cell \<Rightarrow> nat" where
  "table_start s (Core f c) = unat (g_core s)"
| "table_start s (Region f r) = unat (g_dram_region s)"
| "table_start s Block_clock = unat (g_dram_regions s)"
| "table_start s (Os_bitmap_word i) = unat (g_os_region_bitmap s)"

fun table_end :: "mstate \<Rightarrow> cell \<Rightarrow> nat" where
  "table_end s (Core f c) = unat (g_core s) + 32 * unat (g_core_count s)"
| "table_end s (Region f r) = unat (g_dram_region s) + 40 * unat (g_dram_region_count s)"
| "table_end s Block_clock = unat (g_dram_regions s) + 8"
| "table_end s (Os_bitmap_word i) = unat (g_os_region_bitmap s) + 8 * unat (g_dram_region_bitmap_words s)"

lemma cell_in_table:
  assumes "valid_cell s c"
  shows "table_start s c \<le> cell_pos s c \<and> cell_pos s c + 8 \<le> table_end s c"
proof (cases c)
  case (Region f r)
  with assms have "unat r < unat (g_dram_region_count s)"
    by (simp add: valid_cell_def word_less_nat_alt)
  with Region region_offset_bounds [of f] show ?thesis
    by (simp only: cell_pos.simps table_start.simps table_end.simps) linarith
next
  case (Core f r)
  with assms have "unat r < unat (g_core_count s)"
    by (simp add: valid_cell_def word_less_nat_alt)
  with Core core_offset_bound [of f] show ?thesis
    by (simp only: cell_pos.simps table_start.simps table_end.simps) linarith
next
  case (Os_bitmap_word i)
  with assms have "unat i < unat (g_dram_region_bitmap_words s)"
    by (simp add: valid_cell_def word_less_nat_alt)
  with Os_bitmap_word show ?thesis
    by (simp only: cell_pos.simps table_start.simps table_end.simps) linarith
qed simp

lemma table_order:
  "wf_layout s \<Longrightarrow> table_of c < table_of d \<Longrightarrow> table_end s c \<le> table_start s d"
  unfolding wf_layout_def
  by (cases c; cases d; simp only: table_of.simps table_start.simps table_end.simps; linarith)

lemma cell_pos_below_top:
  assumes "valid_cell s c"
  shows "unat (g_core s) \<le> cell_pos s c \<and> cell_pos s c + 8 \<le> unat (g_monitor_top s)"
proof -
  have "unat (g_core s) \<le> table_start s c \<and> table_end s c \<le> unat (g_monitor_top s)"
    using assms unfolding valid_cell_def wf_layout_def
    by (cases c; simp only: table_start.simps table_end.simps; linarith)
  with cell_in_table [OF assms] show ?thesis by linarith
qed

lemma unat_cell_addr: "valid_cell s c \<Longrightarrow> unat (cell_addr s c) = cell_pos s c"
  using cell_pos_below_top [of s c] unat_less64 [of "g_monitor_top s"]
  by (intro unat_of_pos cell_addr_of_pos) simp

lemma cell_pos_apart:
  assumes v: "valid_cell s c" "valid_cell s d" and ne: "c \<noteq> d"
  shows "cell_pos s c + 8 \<le> cell_pos s d \<or> cell_pos s d + 8 \<le> cell_pos s c"
proof (cases "table_of c = table_of d")
  case False
  then consider "table_of c < table_of d" | "table_of d < table_of c" by linarith
  then show ?thesis
    using cell_in_table [OF v(1)] cell_in_table [OF v(2)] v(1) table_order [of s c d]
      table_order [of s d c] unfolding valid_cell_def
    by cases linarith+
next
  case True
  show ?thesis
  proof (cases c)
    case (Region f r)
    with True obtain f' r' where d: "d = Region f' r'" by (cases d) auto
    show ?thesis
    proof (cases "unat r = unat r'")
      case True
      then have "f \<noteq> f'" using ne Region d by (auto simp: word_unat_eq_iff)
      with True Region d region_offset_apart [of f f'] show ?thesis by auto
    next
      case False
      with Region d region_offset_bounds [of f] region_offset_bounds [of f'] show ?thesis
        by (simp only: cell_pos.simps) linarith
    qed
  next
    case (Core f r)
    with True obtain f' r' where d: "d = Core f' r'" by (cases d) auto
    show ?thesis
    proof (cases "unat r = unat r'")
      case True
      then have "f \<noteq> f'" using ne Core d by (auto simp: word_unat_eq_iff)
      with True Core d core_offset_apart [of f f'] show ?thesis by auto
    next
      case False
      with Core d core_offset_bound [of f] core_offset_bound [of f'] show ?thesis
        by (simp only: cell_pos.simps) linarith
    qed
  next
    case Block_clock
    with True have "d = Block_clock" by (cases d) auto
    with Block_clock ne show ?thesis by simp
  next
    case (Os_bitmap_word i)
    with True obtain j where d: "d = Os_bitmap_word j" by (cases d) auto
    with Os_bitmap_word ne have "unat i \<noteq> unat j" by (auto simp: word_unat_eq_iff)
    with Os_bitmap_word d show ?thesis by (simp only: cell_pos.simps) linarith
  qed
qed

text \<open>Two distinct cells of the tables share no byte.\<close>

lemma cells_sep:
  assumes "valid_cell s c" "valid_cell s d" "c \<noteq> d"
  shows "sep (cell_addr s c) 8 (cell_addr s d) 8"
proof -
  have top: "cell_pos s c + 8 \<le> 2 ^ 64" "cell_pos s d + 8 \<le> 2 ^ 64"
    using cell_pos_below_top [OF assms(1)] cell_pos_below_top [OF assms(2)]
      unat_less64 [of "g_monitor_top s"] by simp_all
  from cell_pos_apart [OF assms] show ?thesis
  proof
    assume "cell_pos s c + 8 \<le> cell_pos s d"
    then show ?thesis using assms top by (intro sep_below) (simp_all add: unat_cell_addr)
  next
    assume "cell_pos s d + 8 \<le> cell_pos s c"
    then show ?thesis using assms top by (intro sep_above) (simp_all add: unat_cell_addr)
  qed
qed

lemma wf_layout_mem [simp]: "wf_layout (s\<lparr>mem := m\<rparr>) \<longleftrightarrow> wf_layout s"
  by (simp add: wf_layout_def current_core_def)

lemma cell_ok_mem [simp]: "cell_ok (s\<lparr>mem := m\<rparr>) c \<longleftrightarrow> cell_ok s c"
  by (cases c) simp_all

lemma valid_cell_mem [simp]: "valid_cell (s\<lparr>mem := m\<rparr>) c \<longleftrightarrow> valid_cell s c"
  by (simp add: valid_cell_def)

lemma cell_addr_mem [simp]: "cell_addr (s\<lparr>mem := m\<rparr>) c = cell_addr s c"
  by (cases c) (simp_all add: region_ptr_def core_ptr_def)

interpretation tables: keyed_store get_cell put_cell valid_cell
proof
  fix s k j v
  assume "valid_cell s k"
  show "get_cell (put_cell k v s) k = v"
    by (simp add: get_cell_def put_cell_def)
  show "valid_cell (put_cell k v s) j \<longleftrightarrow> valid_cell s j"
    by (simp add: put_cell_def)
  assume "valid_cell s k" "valid_cell s j" "j \<noteq> k"
  then show "get_cell (put_cell k v s) j = get_cell s j"
    by (simp add: get_cell_def put_cell_def ld64_st64_sep cells_sep)
qed

section \<open>Writes outside the tables\<close>

text \<open>\<open>above_tables s a n\<close>: the n bytes from \<open>a\<close> lie at or above \<open>g_monitor_top\<close>.\<close>

definition above_tables :: "mstate \<Rightarrow> u64 \<Rightarrow> nat \<Rightarrow> bool" where
  "above_tables s a n \<longleftrightarrow> unat (g_monitor_top s) \<le> unat a \<and> unat a + n \<le> 2 ^ 64 \<and> 0 < n"

lemma cell_sep_above:
  assumes "valid_cell s c" "above_tables s a n"
  shows "sep a n (cell_addr s c) 8"
  using cell_pos_below_top [OF assms(1)] assms
  by (intro sep_above) (simp_all add: unat_cell_addr above_tables_def)

lemma get_cell_write_above:
  "valid_cell s c \<Longrightarrow> above_tables s a 8 \<Longrightarrow> get_cell (s\<lparr>mem := st64 (mem s) a v\<rparr>) c = get_cell s c"
  by (simp add: get_cell_def ld64_st64_sep cell_sep_above)

lemma get_cell_put_other:
  "valid_cell s c \<Longrightarrow> valid_cell s d \<Longrightarrow> c \<noteq> d \<Longrightarrow>
   get_cell (s\<lparr>mem := st64 (mem s) (cell_addr s d) v\<rparr>) c = get_cell s c"
  using tables.get_put_other [of s d c v] by (simp add: put_cell_def)

text \<open>Locks are the first four bytes of a region's record: no cell and no address above the
  tables overlaps them.\<close>

lemma unat_region_ptr:
  assumes "wf_layout s" "r < g_dram_region_count s"
  shows "unat (region_ptr s r) = unat (g_dram_region s) + 40 * unat r"
    and "unat (g_dram_region s) + 40 * unat r + 40 \<le> unat (g_dram_regions s)"
proof -
  have r: "unat r < unat (g_dram_region_count s)" using assms(2) by (simp add: word_less_nat_alt)
  then show b: "unat (g_dram_region s) + 40 * unat r + 40 \<le> unat (g_dram_regions s)"
    using assms(1) unfolding wf_layout_def by linarith
  have "region_ptr s r = word_of_nat (unat (g_dram_region s) + 40 * unat r)"
    by (simp add: region_ptr_def)
  then show "unat (region_ptr s r) = unat (g_dram_region s) + 40 * unat r"
    using b unat_less64 [of "g_dram_regions s"] by (intro unat_of_pos) simp_all
qed

lemma lock_pos_apart:
  assumes "valid_cell s c" "r < g_dram_region_count s"
  shows "cell_pos s c + 8 \<le> unat (region_ptr s r) \<or> unat (region_ptr s r) + 4 \<le> cell_pos s c"
proof -
  have wf: "wf_layout s" using assms(1) by (simp add: valid_cell_def)
  note ptr = unat_region_ptr [OF wf assms(2)]
  have bounds: "table_end s c \<le> unat (g_dram_region s) \<or> unat (g_dram_regions s) \<le> table_start s c
      \<or> table_of c = 1"
    using wf unfolding wf_layout_def
    by (cases c; simp only: table_of.simps table_start.simps table_end.simps; linarith)
  then consider "table_end s c \<le> unat (g_dram_region s)" | "unat (g_dram_regions s) \<le> table_start s c"
    | f r' where "c = Region f r'" by (cases c) auto
  then show ?thesis
  proof cases
    case 3
    then have r': "unat r' < unat (g_dram_region_count s)"
      using assms(1) by (simp add: valid_cell_def word_less_nat_alt)
    from 3 ptr show ?thesis using region_offset_bounds [of f]
      by (cases "unat r' < unat r") (simp only: cell_pos.simps, linarith)+
  qed (use cell_in_table [OF assms(1)] ptr in linarith)+
qed

lemma lock_cell_sep:
  assumes "valid_cell s c" "r < g_dram_region_count s"
  shows "sep (cell_addr s c) 8 (region_ptr s r) 4"
proof -
  have wf: "wf_layout s" using assms(1) by (simp add: valid_cell_def)
  have "unat (region_ptr s r) + 4 \<le> 2 ^ 64"
    using unat_region_ptr [OF wf assms(2)] unat_less64 [of "g_dram_regions s"] by simp
  moreover have "cell_pos s c + 8 \<le> 2 ^ 64"
    using cell_pos_below_top [OF assms(1)] unat_less64 [of "g_monitor_top s"] by simp
  ultimately show ?thesis
    using lock_pos_apart [OF assms] unat_cell_addr [OF assms(1)] sep_below sep_above
    by (metis zero_less_numeral)
qed

lemma region_lock_put:
  "valid_cell s c \<Longrightarrow> r < g_dram_region_count s \<Longrightarrow> region_lock (put_cell c v s) r = region_lock s r"
  by (simp add: region_lock_def put_cell_def region_ptr_def ld32_st64_sep
      lock_cell_sep [unfolded region_ptr_def])

lemma region_lock_write_above:
  assumes "wf_layout s" "r < g_dram_region_count s" "above_tables s a 8"
  shows "region_lock (s\<lparr>mem := st64 (mem s) a v\<rparr>) r = region_lock s r"
proof -
  have "sep a 8 (region_ptr s r) 4"
    using unat_region_ptr [OF assms(1,2)] assms unfolding above_tables_def wf_layout_def
    by (intro sep_above) linarith+
  then show ?thesis by (simp add: region_lock_def region_ptr_def ld32_st64_sep)
qed


section \<open>Frame facts\<close>

lemma cell_addr_frame [simp]:
  "cell_addr (s\<lparr>csr := c\<rparr>) k = cell_addr s k"
  "cell_addr (s\<lparr>tlb_flushes := n\<rparr>) k = cell_addr s k"
  "cell_addr (s\<lparr>g_dma_range_start := a\<rparr>) k = cell_addr s k"
  "cell_addr (s\<lparr>g_dma_range_end := a\<rparr>) k = cell_addr s k"
  by (cases k; simp add: region_ptr_def core_ptr_def)+

lemma get_cell_frame [simp]:
  "get_cell (s\<lparr>csr := c\<rparr>) k = get_cell s k"
  "get_cell (s\<lparr>tlb_flushes := n\<rparr>) k = get_cell s k"
  "get_cell (s\<lparr>g_dma_range_start := a\<rparr>) k = get_cell s k"
  "get_cell (s\<lparr>g_dma_range_end := a\<rparr>) k = get_cell s k"
  by (simp_all add: get_cell_def)

lemma wf_layout_frame [simp]:
  "c 0xF14 = csr s 0xF14 \<Longrightarrow> wf_layout (s\<lparr>csr := c\<rparr>) \<longleftrightarrow> wf_layout s"
  "wf_layout (s\<lparr>tlb_flushes := k\<rparr>) \<longleftrightarrow> wf_layout s"
  "wf_layout (s\<lparr>g_dma_range_start := a\<rparr>) \<longleftrightarrow> wf_layout s"
  "wf_layout (s\<lparr>g_dma_range_end := a\<rparr>) \<longleftrightarrow> wf_layout s"
  by (simp_all add: wf_layout_def current_core_def)

lemma region_lock_frame [simp]:
  "region_lock (s\<lparr>csr := c\<rparr>) r = region_lock s r"
  "region_lock (s\<lparr>tlb_flushes := n\<rparr>) r = region_lock s r"
  "region_lock (s\<lparr>g_dma_range_start := a\<rparr>) r = region_lock s r"
  "region_lock (s\<lparr>g_dma_range_end := a\<rparr>) r = region_lock s r"
  by (simp_all add: region_lock_def region_ptr_def)

lemma put_cell_globals [simp]:
  "g_core (put_cell k v s) = g_core s" "g_core_count (put_cell k v s) = g_core_count s"
  "g_dram_region (put_cell k v s) = g_dram_region s"
  "g_dram_regions (put_cell k v s) = g_dram_regions s"
  "g_dram_base (put_cell k v s) = g_dram_base s" "g_dram_size (put_cell k v s) = g_dram_size s"
  "g_dram_region_shift (put_cell k v s) = g_dram_region_shift s"
  "g_dram_region_mask (put_cell k v s) = g_dram_region_mask s"
  "g_dram_region_count (put_cell k v s) = g_dram_region_count s"
  "g_dram_stripe_size (put_cell k v s) = g_dram_stripe_size s"
  "g_os_region_bitmap (put_cell k v s) = g_os_region_bitmap s"
  "g_monitor_top (put_cell k v s) = g_monitor_top s"
  "g_metadata_region_start (put_cell k v s) = g_metadata_region_start s"
  "g_dma_range_start (put_cell k v s) = g_dma_range_start s"
  "g_dma_range_end (put_cell k v s) = g_dma_range_end s"
  "csr (put_cell k v s) = csr s" "tlb_flushes (put_cell k v s) = tlb_flushes s"
  "current_core (put_cell k v s) = current_core s"
  "wf_layout (put_cell k v s) = wf_layout s"
  "valid_cell (put_cell k v s) j = valid_cell s j"
  "cell_addr (put_cell k v s) j = cell_addr s j"
  by (simp_all add: put_cell_def current_core_def)

text \<open>A byte run above the tables changes no cell and no lock.\<close>

lemma get_cell_bytes_above:
  assumes "valid_cell s c" "\<And>b. unat b < unat (g_monitor_top s) \<Longrightarrow> m b = mem s b"
  shows "get_cell (s\<lparr>mem := m\<rparr>) c = get_cell s c"
proof -
  have "m b = mem s b" if b: "unat (b - cell_addr s c) < 8" for b
  proof (rule assms(2))
    have eq: "b = word_of_nat (unat (cell_addr s c) + unat (b - cell_addr s c))" by simp
    have le: "unat (cell_addr s c) + 8 \<le> unat (g_monitor_top s)"
      using cell_pos_below_top [OF assms(1)] by (simp add: unat_cell_addr [OF assms(1)])
    have "unat (cell_addr s c) + unat (b - cell_addr s c) < 2 ^ 64"
      using b le unat_less64 [of "g_monitor_top s"] by simp
    with eq have "unat b = unat (cell_addr s c) + unat (b - cell_addr s c)" by (rule unat_of_pos)
    with b le show "unat b < unat (g_monitor_top s)" by linarith
  qed
  then show ?thesis by (simp add: get_cell_def) (rule ld64_cong, simp)
qed

end
