(* ===== verification/Dram_Region_Ops.thy ===== *)
theory Dram_Region_Ops
  imports Monitor_State CLib
begin

text \<open>
  The inline helpers on DRAM regions (\<open>dram_regions_inl.h\<close>, \<open>cpu_core_inl.h\<close>) and on the
  enclave information structure that the region calls use (\<open>enclave.h\<close>, \<open>metadata_inl.h\<close>):
  address decomposition, region locks, ownership, region bitmaps, TLB flush bookkeeping.
\<close>

section \<open>Addresses and regions\<close>

definition is_dram_address :: "mstate \<Rightarrow> u64 \<Rightarrow> bool" where
  "is_dram_address s address \<longleftrightarrow> address < g_dram_size s \<and> address > g_dram_base s"

definition is_valid_dram_region :: "mstate \<Rightarrow> u64 \<Rightarrow> bool" where
  "is_valid_dram_region s dram_region \<longleftrightarrow> dram_region < g_dram_region_count s"

definition is_dynamic_dram_region :: "mstate \<Rightarrow> u64 \<Rightarrow> bool" where
  "is_dynamic_dram_region s dram_region \<longleftrightarrow> dram_region \<noteq> 0 \<and> is_valid_dram_region s dram_region"

definition dram_region_start :: "mstate \<Rightarrow> u64 \<Rightarrow> u64" where
  "dram_region_start s dram_region = sll64 dram_region (g_dram_region_shift s)"

definition dram_region_for :: "mstate \<Rightarrow> u64 \<Rightarrow> u64" where
  "dram_region_for s address = srl64 (address AND g_dram_region_mask s) (g_dram_region_shift s)"

definition clamped_dram_region_for :: "mstate \<Rightarrow> u64 \<Rightarrow> u64" where
  "clamped_dram_region_for s address = (if is_dram_address s address then dram_region_for s address else 0)"

definition dram_stripe_page_for :: "mstate \<Rightarrow> u64 \<Rightarrow> u64" where
  "dram_stripe_page_for s address = srl64 (address AND g_dram_stripe_page_mask s) page_shift"

definition dram_stripe_for :: "mstate \<Rightarrow> u64 \<Rightarrow> u64" where
  "dram_stripe_for s address = srl64 address (g_dram_stripe_shift s)"

definition dram_region_page_for :: "mstate \<Rightarrow> u64 \<Rightarrow> u64" where
  "dram_region_page_for s address =
     dram_stripe_page_for s address OR
     sll64 (dram_stripe_for s address) (g_dram_region_shift s - g_dram_stripe_shift s)"

section \<open>Locks and owners\<close>

text \<open>
  The flag is passed by value (\<open>atomic_flag_test_and_set(region->lock)\<close>): the call reads the
  region's flag and updates its own copy, which is dropped on return.
\<close>

definition test_and_set_dram_region_lock :: "u64 \<Rightarrow> mstate \<Rightarrow> bool \<times> mstate" where
  "test_and_set_dram_region_lock dram_region s =
     (let (held, copy) = atomic_flag_test_and_set (region_lock s dram_region) in (held, s))"

definition clear_dram_region_lock :: "u64 \<Rightarrow> mstate \<Rightarrow> mstate" where
  "clear_dram_region_lock dram_region s =
     (let copy = atomic_flag_clear (region_lock s dram_region) in s)"

definition read_dram_region_owner :: "mstate \<Rightarrow> u64 \<Rightarrow> u64" where
  "read_dram_region_owner s dram_region = region_owner s dram_region"

definition current_enclave :: "mstate \<Rightarrow> u64" where
  "current_enclave s = get_cell s (Core Enclave_id (current_core s))"

lemma test_and_set_eq [simp]:
  "test_and_set_dram_region_lock r s = (region_lock s r \<noteq> 0, s)"
  by (simp add: test_and_set_dram_region_lock_def atomic_flag_test_and_set_def)

lemma clear_lock_eq [simp]: "clear_dram_region_lock r s = s"
  by (simp add: clear_dram_region_lock_def Let_def)

section \<open>Wiping a region, flushing the TLBs\<close>

definition bzero :: "mem \<Rightarrow> u64 \<Rightarrow> u64 \<Rightarrow> mem option" where
  "bzero m start bytes = memset m start 0 bytes"

partial_function (option) bzero_stripes :: "mstate \<Rightarrow> u64 \<Rightarrow> u64 \<Rightarrow> u64 \<Rightarrow> mstate option" where
  "bzero_stripes s stripe stripe_step region_start =
     (if stripe < g_dram_size s
      then (case bzero (mem s) (stripe OR region_start) (g_dram_stripe_size s) of
              None \<Rightarrow> None
            | Some m \<Rightarrow> bzero_stripes (s\<lparr>mem := m\<rparr>) (stripe + stripe_step) stripe_step region_start)
      else Some s)"

definition bzero_dram_region :: "u64 \<Rightarrow> mstate \<Rightarrow> mstate option" where
  "bzero_dram_region dram_region s =
     (let stripe_step = sll64 (g_dram_region_count s) (g_dram_region_shift s);
          region_start = sll64 dram_region (g_dram_region_shift s)
      in bzero_stripes s 0 stripe_step region_start)"

text \<open>
  \<open>atomic_store(core_info->flushed_at, block_clock)\<close> passes the stored value as the address:
  the clock is written where \<open>flushed_at\<close> points to.
\<close>

definition dram_region_tlb_flush :: "mstate \<Rightarrow> mstate" where
  "dram_region_tlb_flush s0 =
     (let s = flush_tlbs s0;
          flushed_at = get_cell s (Core Flushed_at (current_core s));
          clock = atomic_load (mem s) (g_dram_regions s)
      in s\<lparr>mem := atomic_store (mem s) flushed_at clock\<rparr>)"

section \<open>Enclave information structure\<close>

text \<open>
  \<open>enclave_info_t\<close>: the lock flag at 0, then the fields in order; the hash state
  (\<open>hash_state_t\<close>, 160 bytes) at 80 and the hash block (64 bytes) at 240. The region bitmap
  and the mailboxes (\<open>mailbox_t\<close>, 304 bytes) follow.
\<close>

datatype enclave_field =
    Mailbox_count | Is_initialized | Is_debug | Thread_count | Dram_region_count
  | Ev_base | Ev_mask | Load_eptbr | Last_load_addr

fun enclave_offset :: "enclave_field \<Rightarrow> u64" where
  "enclave_offset Mailbox_count = 8"
| "enclave_offset Is_initialized = 16"
| "enclave_offset Is_debug = 24"
| "enclave_offset Thread_count = 32"
| "enclave_offset Dram_region_count = 40"
| "enclave_offset Ev_base = 48"
| "enclave_offset Ev_mask = 56"
| "enclave_offset Load_eptbr = 64"
| "enclave_offset Last_load_addr = 72"

definition enclave_hash_offset :: u64 where "enclave_hash_offset = 80"
definition enclave_hash_block_offset :: u64 where "enclave_hash_block_offset = 240"
definition sizeof_enclave_info :: u64 where "sizeof_enclave_info = 304"
definition sizeof_mailbox :: u64 where "sizeof_mailbox = 304"

definition enclave_get :: "mstate \<Rightarrow> u64 \<Rightarrow> enclave_field \<Rightarrow> u64" where
  "enclave_get s enclave_id f = ld64 (mem s) (enclave_id + enclave_offset f)"

definition enclave_put :: "u64 \<Rightarrow> enclave_field \<Rightarrow> u64 \<Rightarrow> mstate \<Rightarrow> mstate" where
  "enclave_put enclave_id f v s = s\<lparr>mem := st64 (mem s) (enclave_id + enclave_offset f) v\<rparr>"

definition enclave_region_bitmap :: "u64 \<Rightarrow> u64" where
  "enclave_region_bitmap enclave_id = enclave_id + sizeof_enclave_info"

definition set_enclave_region_bitmap_bit :: "u64 \<Rightarrow> u64 \<Rightarrow> bool \<Rightarrow> mstate \<Rightarrow> mstate" where
  "set_enclave_region_bitmap_bit enclave_id dram_region true_for_set s =
     (if enclave_id = null_enclave_id
      then s\<lparr>mem := set_bitmap_bit (mem s) (g_os_region_bitmap s) dram_region true_for_set\<rparr>
      else s\<lparr>mem := set_bitmap_bit (mem s) (enclave_region_bitmap enclave_id) dram_region true_for_set\<rparr>)"

definition read_enclave_region_bitmap_bit :: "mstate \<Rightarrow> u64 \<Rightarrow> u64 \<Rightarrow> bool" where
  "read_enclave_region_bitmap_bit s enclave_id dram_region =
     (if enclave_id = null_enclave_id
      then read_bitmap_bit (mem s) (g_os_region_bitmap s) dram_region
      else read_bitmap_bit (mem s) (enclave_region_bitmap enclave_id) dram_region)"

definition is_valid_enclave_id :: "mstate \<Rightarrow> u64 \<Rightarrow> bool" where
  "is_valid_enclave_id s enclave_id \<longleftrightarrow>
     region_owner s (clamped_dram_region_for s enclave_id) = enclave_id"

section \<open>Well-formed geometry\<close>

text \<open>
  What \<open>boot_init_dram_regions\<close> establishes between the region constants: the region mask
  selects the \<open>n\<close> bits above the shift, and the count is \<open>2 ^ n\<close>.
\<close>

definition wf_geometry :: "mstate \<Rightarrow> bool" where
  "wf_geometry s \<longleftrightarrow>
     (\<exists>n. unat (g_dram_region_shift s) + n < 64 \<and> n \<le> 16 \<and>
          g_dram_region_mask s = push_bit (unat (g_dram_region_shift s)) (mask n) \<and>
          g_dram_region_count s = 2 ^ n)"

lemma wf_geometry_mem [simp]: "wf_geometry (s\<lparr>mem := m\<rparr>) \<longleftrightarrow> wf_geometry s"
  by (simp add: wf_geometry_def)

lemma dram_region_for_field:
  assumes "g_dram_region_mask s = push_bit (unat (g_dram_region_shift s)) (mask n)"
    and "unat (g_dram_region_shift s) + n < 64"
  shows "dram_region_for s a = take_bit n (drop_bit (unat (g_dram_region_shift s)) a)"
  using assms
  by (intro bit_word_eqI) (auto simp: dram_region_for_def srl64_small bit_simps)

lemma dram_region_for_lt:
  assumes "wf_geometry s"
  shows "dram_region_for s a < g_dram_region_count s"
proof -
  obtain n where n: "unat (g_dram_region_shift s) + n < 64" "n \<le> 16"
    "g_dram_region_mask s = push_bit (unat (g_dram_region_shift s)) (mask n)"
    "g_dram_region_count s = 2 ^ n"
    using assms unfolding wf_geometry_def by blast
  have "unat (take_bit n (drop_bit (unat (g_dram_region_shift s)) a)) < 2 ^ n"
    by (simp only: unsigned_take_bit_eq) simp
  then show ?thesis using n by (simp add: dram_region_for_field word_less_nat_alt unat_exp_64)
qed

lemma clamped_dram_region_for_lt:
  assumes "wf_geometry s"
  shows "clamped_dram_region_for s a < g_dram_region_count s"
proof -
  have "0 < g_dram_region_count s"
    using dram_region_for_lt [OF assms, of 0] by (metis word_coorder.not_eq_extremum word_not_simps(1))
  then show ?thesis by (simp add: clamped_dram_region_for_def dram_region_for_lt [OF assms])
qed

text \<open>Region arithmetic: every address of the region that starts at
  \<open>dram_region_start(r)\<close> and is offset within its stripe is mapped back to \<open>r\<close>.\<close>

theorem dram_region_for_start:
  assumes "wf_geometry s" "r < g_dram_region_count s"
    and "unat off < 2 ^ unat (g_dram_region_shift s)"
  shows "dram_region_for s (dram_region_start s r + off) = r"
proof -
  define k where "k = unat (g_dram_region_shift s)"
  obtain n where n: "k + n < 64" "g_dram_region_mask s = push_bit k (mask n)"
    "g_dram_region_count s = 2 ^ n"
    using assms(1) unfolding wf_geometry_def k_def by blast
  have r: "unat r < 2 ^ n" using assms(2) n by (simp add: word_less_nat_alt unat_exp_64)
  have rbit: "i < n" if "bit r i" for i
  proof (rule ccontr)
    assume "\<not> i < n"
    then have "take_bit n r = r"
      using r n by (metis take_bit_nat_eq_self unsigned_take_bit_eq unsigned_word_eqI)
    with that \<open>\<not> i < n\<close> show False by (metis bit_take_bit_iff)
  qed
  have obit: "i < k" if "bit off i" for i
  proof (rule ccontr)
    assume "\<not> i < k"
    have "take_bit k off = off"
      using assms(3) by (metis k_def take_bit_nat_eq_self unsigned_take_bit_eq unsigned_word_eqI)
    with that \<open>\<not> i < k\<close> show False by (metis bit_take_bit_iff)
  qed
  have start: "dram_region_start s r = push_bit k r"
    using n by (simp add: dram_region_start_def sll64_small k_def)
  have "dram_region_start s r + off = push_bit k r OR off"
    unfolding start by (rule disjunctive_add) (auto simp: bit_simps dest: obit)
  moreover have "dram_region_for s a = take_bit n (drop_bit k a)" for a
    using n unfolding k_def by (intro dram_region_for_field)
  ultimately show ?thesis
    by (intro bit_word_eqI) (use n in \<open>auto simp: bit_simps dest: rbit obit\<close>)
qed

end
