(* ===== verification/Boot_Init.thy ===== *)
theory Boot_Init
  imports Dram_Region_Ops
begin

text \<open>
  The boot-time initialisation of the monitor (\<open>sm/monitor/boot_init.c\<close>): the region geometry
  computed from the platform constants, the metadata constants, the allocation of the tables
  and the protection registers. \<open>None\<close> stands for \<open>boot_panic\<close>, which never returns.
\<close>

section \<open>Integer expressions of type int\<close>

definition sext32 :: "u64 \<Rightarrow> u64" where
  "sext32 x = signed_take_bit 31 x"

definition int_sll :: "u64 \<Rightarrow> u64 \<Rightarrow> u64" where
  "int_sll x n = sext32 (push_bit (unat (n AND 31)) x)"

section \<open>boot\_init.c\<close>

definition boot_init_monitor_top :: "mstate \<Rightarrow> mstate" where
  "boot_init_monitor_top s = s\<lparr>g_monitor_top := 0\<rparr>"

text \<open>Sanctum assumes that only the last-level cache is shared.\<close>

definition inner_shared_cache :: "u64 \<Rightarrow> bool" where
  "inner_shared_cache cache_levels \<longleftrightarrow>
     list_ex (\<lambda>i. is_shared_cache (word_of_nat i) \<and> word_of_nat i \<noteq> cache_levels - 1)
       [0..<unat cache_levels]"

definition set_region_geometry :: "u64 \<Rightarrow> u64 \<Rightarrow> mstate \<Rightarrow> mstate" where
  "set_region_geometry stripe_page_bits region_bits s =
     (let region_shift = page_shift + stripe_page_bits;
          stripe_shift = region_shift + region_bits;
          region_count = int_shl1 region_bits
      in (set_cache_index_shift stripe_page_bits s)
           \<lparr>g_dram_region_shift := region_shift,
            g_dram_stripe_shift := stripe_shift,
            g_dram_stripe_size := int_shl1 region_shift,
            g_dram_stripe_pages := int_shl1 stripe_page_bits,
            g_dram_region_count := region_count,
            g_dram_stripe_page_mask := int_sll (sext32 (int_shl1 stripe_page_bits - 1)) page_shift,
            g_dram_region_mask := sll64 (region_count - 1) region_shift,
            g_dram_stripe_mask := sll64 (srl64 (g_dram_size s - 1) stripe_shift) stripe_shift,
            g_dram_region_bitmap_words := (region_count + 64 - 1) div 64\<rparr>)"

definition boot_init_dram_regions :: "mstate \<Rightarrow> mstate option" where
  "boot_init_dram_regions s0 =
     (let s = s0\<lparr>g_dram_base := read_dram_base, g_dram_size := read_dram_size\<rparr>;
          dram_address_bits = address_bits_for (g_dram_size s);
          cache_levels = read_cache_levels
      in if inner_shared_cache cache_levels then None
         else
          (let llc = cache_levels - 1;
               line_size = read_cache_line_size llc;
               line_bits = address_bits_for line_size
           in if line_size \<noteq> int_shl1 line_bits then None
              else
               (let set_count = read_cache_set_count llc;
                    set_bits = address_bits_for set_count
                in if set_count \<noteq> int_shl1 set_bits then None
                   else
                    (let cache_bits = set_bits + line_bits
                     in if cache_bits \<le> page_shift then None
                        else
                         (let region_bits = cache_bits - page_shift;
                              bits0 = dram_address_bits - cache_bits;
                              max_shift = read_max_cache_index_shift;
                              stripe_page_bits = (if bits0 > max_shift then max_shift else bits0);
                              min_shift = read_min_cache_index_shift
                          in if stripe_page_bits < min_shift then None
                             else Some (set_region_geometry stripe_page_bits region_bits s))))))"

definition boot_init_metadata :: "mstate \<Rightarrow> mstate" where
  "boot_init_metadata s =
     (let pages = srl64 (g_dram_size s) (g_dram_stripe_shift s - g_dram_region_shift s + page_shift);
          map_size = pages * 8
      in if map_size > g_dram_stripe_size s
         then s\<lparr>g_metadata_region_pages := g_dram_stripe_size s div 8,
                g_metadata_region_start := pages_needed_for (g_dram_stripe_size s)\<rparr>
         else s\<lparr>g_metadata_region_pages := pages,
                g_metadata_region_start := pages_needed_for map_size\<rparr>)"

definition indices :: "u64 \<Rightarrow> u64 list" where
  "indices n = map word_of_nat [0..<unat n]"

definition init_region_info :: "u64 \<Rightarrow> mstate \<Rightarrow> mstate" where
  "init_region_info r s =
     (let s = clear_dram_region_lock r s;
          s = put_cell (Region Owner r) null_enclave_id s;
          s = put_cell (Region Previous_owner r) null_enclave_id s;
          s = put_cell (Region Pinned_pages r) 0 s
      in put_cell (Region Blocked_at r) 0 s)"

text \<open>
  \<open>atomic_init(g_dram_regions->block_clock, 0)\<close> passes the clock's value as the address.
\<close>

definition boot_init_dynamic_arrays :: "mstate \<Rightarrow> mstate" where
  "boot_init_dynamic_arrays s0 =
     (let s = s0\<lparr>g_core_count := read_core_count\<rparr>;
          s = s\<lparr>g_core := g_monitor_top s\<rparr>;
          s = s\<lparr>g_monitor_top := g_core s + 32 * g_core_count s\<rparr>;
          s = s\<lparr>g_dram_region := g_monitor_top s\<rparr>;
          s = s\<lparr>g_monitor_top := g_dram_region s + 40 * g_dram_region_count s\<rparr>;
          s = fold init_region_info (indices (g_dram_region_count s)) s;
          s = s\<lparr>g_dram_regions := g_monitor_top s\<rparr>;
          s = s\<lparr>g_monitor_top := g_dram_regions s + 8\<rparr>;
          s = s\<lparr>mem := atomic_init (mem s) (ld64 (mem s) (g_dram_regions s)) 0\<rparr>;
          s = s\<lparr>g_os_region_bitmap := g_monitor_top s\<rparr>;
          s = s\<lparr>g_monitor_top := g_os_region_bitmap s + 8 * g_dram_region_bitmap_words s\<rparr>
      in fold (\<lambda>i s. s\<lparr>mem := set_bitmap_bit (mem s) (g_os_region_bitmap s) i True\<rparr>)
           (indices (g_dram_region_count s)) s)"

definition boot_init_protection :: "mstate \<Rightarrow> mstate option" where
  "boot_init_protection s0 =
     (let s = s0\<lparr>g_monitor_top := ceil_power_of_two (g_monitor_top s0)\<rparr>;
          s = set_par_base 0 s;
          s = set_par_mask (NOT (g_monitor_top s - 1)) s;
          s = set_drb_map (g_os_region_bitmap s) s
      in if g_monitor_top s > g_dram_stripe_size s then None
         else
          (let s = s\<lparr>g_dma_range_start := g_monitor_top s\<rparr>;
               s = s\<lparr>g_dma_range_end := g_dma_range_start s + 1\<rparr>
           in Some (set_dmar_mask (- 1) (set_dmar_base (g_dma_range_start s) s))))"

section \<open>The geometry of this platform\<close>

lemma address_bits_for_exp:
  assumes "n < 64"
  shows "address_bits_for (2 ^ n) = word_of_nat n"
proof -
  have pos: "0 < (2 ^ n :: u64)" using assms by (simp add: word_less_nat_alt unat_exp_64)
  obtain k where k: "unat (address_bits_for (2 ^ n)) = k" "unat (2 ^ n :: u64) \<le> 2 ^ k"
    "\<And>j. unat (2 ^ n :: u64) \<le> 2 ^ j \<Longrightarrow> k \<le> j"
    using address_bits_for_spec [OF pos] by metis
  have "k = n" using k(2) k(3) [of n] assms by (simp add: unat_exp_64)
  with k(1) show ?thesis by (metis of_nat_unat ucast_id)
qed

lemma address_bits_platform:
  "address_bits_for 2147483648 = 31" "address_bits_for 64 = 6" "address_bits_for 32768 = 15"
  using address_bits_for_exp [of 31] address_bits_for_exp [of 6] address_bits_for_exp [of 15] by simp_all

definition platform_geometry :: "mstate \<Rightarrow> mstate" where
  "platform_geometry s = s
     \<lparr>g_dram_base := 0x80000000, g_dram_size := 0x80000000,
      g_dram_region_shift := 12, g_dram_stripe_shift := 21,
      g_dram_stripe_size := 4096, g_dram_stripe_pages := 1, g_dram_region_count := 512,
      g_dram_stripe_page_mask := 0, g_dram_region_mask := 0x1FF000,
      g_dram_stripe_mask := 0x7FE00000, g_dram_region_bitmap_words := 8\<rparr>"

lemma int_shl1_platform:
  "int_shl1 0 = 1" "int_shl1 6 = 64" "int_shl1 9 = 512" "int_shl1 12 = 4096" "int_shl1 15 = 32768"
  by (simp_all add: int_shl1_small)

lemma platform_constants:
  "sll64 511 12 = 0x1FF000" "sll64 (srl64 2147483647 21) 21 = 0x7FE00000" "int_sll (sext32 0) 12 = 0"
  by (simp_all add: sll64_small srl64_small int_sll_def sext32_def)

text \<open>With the platform constants of \<open>memory.h\<close> the geometry computation does not panic and
  yields 512 regions of interleaved one-page stripes.\<close>

theorem boot_geometry: "boot_init_dram_regions s = Some (platform_geometry s)"
  by (simp add: boot_init_dram_regions_def Let_def read_dram_base_def read_dram_size_def
      read_cache_levels_def read_cache_line_size_def read_cache_set_count_def
      read_max_cache_index_shift_def read_min_cache_index_shift_def inner_shared_cache_def
      is_shared_cache_def address_bits_platform int_shl1_platform set_region_geometry_def
      set_cache_index_shift_def platform_constants platform_geometry_def upt_rec)


section \<open>The boot sequence\<close>

text \<open>
  The five steps in the order \<open>boot_init.h\<close> prescribes (no caller under \<open>sm/\<close> runs them): \<open>boot_tables\<close> is the
  first four, which make the tables, \<open>boot_sequence\<close> all of them.
\<close>

definition boot_tables :: "mstate \<Rightarrow> mstate option" where
  "boot_tables s =
     (case boot_init_dram_regions (boot_init_monitor_top s) of
        None \<Rightarrow> None
      | Some s \<Rightarrow> Some (boot_init_dynamic_arrays (boot_init_metadata s)))"

definition boot_sequence :: "mstate \<Rightarrow> mstate option" where
  "boot_sequence s = Option.bind (boot_tables s) boot_init_protection"

definition platform_metadata :: "mstate \<Rightarrow> mstate" where
  "platform_metadata s = s\<lparr>g_metadata_region_pages := 512, g_metadata_region_start := 1\<rparr>"

lemma boot_metadata_platform:
  "boot_init_metadata (platform_geometry s) = platform_metadata (platform_geometry s)"
  by (simp add: boot_init_metadata_def platform_geometry_def platform_metadata_def srl64_small
      Let_def pages_needed_for_def)

text \<open>The globals after the allocation: the four tables one after the other from address 0.\<close>

definition platform_tables :: "mstate \<Rightarrow> mstate" where
  "platform_tables s = (platform_metadata (platform_geometry s))
     \<lparr>g_core_count := 1, g_core := 0, g_dram_region := 32, g_dram_regions := 20512,
      g_os_region_bitmap := 20520, g_monitor_top := 20584\<rparr>"

lemma init_region_info_globals:
  "init_region_info r (s\<lparr>g_dram_regions := a, g_os_region_bitmap := b, g_monitor_top := c\<rparr>) =
   (init_region_info r s)\<lparr>g_dram_regions := a, g_os_region_bitmap := b, g_monitor_top := c\<rparr>"
  by (simp add: init_region_info_def put_cell_def region_ptr_def)

lemma fold_init_region_globals:
  "fold init_region_info rs (s\<lparr>g_dram_regions := a, g_os_region_bitmap := b, g_monitor_top := c\<rparr>) =
   (fold init_region_info rs s)\<lparr>g_dram_regions := a, g_os_region_bitmap := b, g_monitor_top := c\<rparr>"
  by (induction rs arbitrary: s) (simp_all add: init_region_info_globals)

definition region_cells :: "u64 \<Rightarrow> cell list" where
  "region_cells r = [Region Owner r, Region Previous_owner r, Region Pinned_pages r, Region Blocked_at r]"

lemma init_region_info_cells: "init_region_info r s = fold (\<lambda>k. put_cell k 0) (region_cells r) s"
  by (simp add: init_region_info_def region_cells_def)

lemma fold_init_region_cells:
  "fold init_region_info rs s = fold (\<lambda>k. put_cell k 0) (concat (map region_cells rs)) s"
  by (induction rs arbitrary: s) (simp_all add: init_region_info_cells)

text \<open>Folds of cell writes touch the memory only.\<close>

lemma fold_put_cell_mem: "\<exists>m. fold (\<lambda>k. put_cell k v) ks s = s\<lparr>mem := m\<rparr>"
proof (induction ks arbitrary: s)
  case Nil
  show ?case by (rule exI [of _ "mem s"]) simp
next
  case (Cons k ks)
  obtain m where "fold (\<lambda>k. put_cell k v) ks (put_cell k v s) = (put_cell k v s)\<lparr>mem := m\<rparr>"
    using Cons.IH by blast
  moreover have "(put_cell k v s)\<lparr>mem := m\<rparr> = s\<lparr>mem := m\<rparr>" by (simp add: put_cell_def)
  ultimately show ?case by (intro exI [of _ m]) simp
qed

lemma set_os_bitmap_bit_cell:
  "s\<lparr>mem := set_bitmap_bit (mem s) (g_os_region_bitmap s) i v\<rparr> =
   put_cell (Os_bitmap_word (i div 64))
     (if v then get_cell s (Os_bitmap_word (i div 64)) OR bitmap_mask i
      else get_cell s (Os_bitmap_word (i div 64)) AND NOT (bitmap_mask i)) s"
  by (simp add: set_bitmap_bit_def put_cell_def get_cell_def Let_def)

lemma read_os_bitmap_bit_cell:
  "read_bitmap_bit (mem s) (g_os_region_bitmap s) i \<longleftrightarrow>
   get_cell s (Os_bitmap_word (i div 64)) AND bitmap_mask i \<noteq> 0"
  by (simp add: read_bitmap_bit_def get_cell_def Let_def)

lemma set_in_indices [simp]: "r \<in> set (indices n) \<longleftrightarrow> r < n"
proof -
  have "r \<in> word_of_nat ` {0..<unat n} \<longleftrightarrow> r < n"
  proof
    assume "r < n"
    then have "unat r \<in> {0..<unat n}" by (simp add: word_less_nat_alt)
    then have "word_of_nat (unat r) \<in> (word_of_nat ` {0..<unat n} :: u64 set)" by (rule imageI)
    then show "r \<in> word_of_nat ` {0..<unat n}" by simp
  next
    assume "r \<in> word_of_nat ` {0..<unat n}"
    then show "r < n"
      using unat_less64 [of n]
      by (auto simp: word_less_nat_alt unsigned_of_nat take_bit_nat_eq_self)
  qed
  then show ?thesis by (simp add: indices_def)
qed


section \<open>The state after the boot sequence\<close>

lemma platform_tables_layout:
  "current_core s = 0 \<Longrightarrow> wf_layout (platform_tables s)"
  by (simp add: wf_layout_def platform_tables_def platform_metadata_def platform_geometry_def
      current_core_def)

lemma platform_tables_geometry: "wf_geometry (platform_tables s)"
proof -
  have "(0x1FF000 :: u64) = push_bit 12 (mask 9)"
    by (simp add: mask_eq_exp_minus_1 push_bit_eq_mult)
  then show ?thesis
    unfolding wf_geometry_def
    by (intro exI [of _ 9]) (simp add: platform_tables_def platform_metadata_def platform_geometry_def)
qed

text \<open>Writing zero bytes keeps a zero word zero, wherever they are written.\<close>

lemma ld64_st64_zero:
  assumes "ld64 m b = 0"
  shows "ld64 (st64 m a 0) b = 0"
proof -
  have z: "m (b + word_of_nat i) = 0" if "i < 8" for i
  proof -
    have "ld_bytes m b 8 = word_bytes 0" using assms by (simp add: word_bytes_ld64 [symmetric])
    then have "ld_bytes m b 8 ! i = word_bytes 0 ! i" by simp
    with that show ?thesis by (simp add: word_bytes_def)
  qed
  have "st64 m a 0 (b + word_of_nat i) = 0" if "i < 8" for i
    using z [OF that] by (simp add: st64_def stn_apply)
  then have "ld_bytes (st64 m a 0) b 8 = replicate 8 0"
    by (intro nth_equalityI) simp_all
  also have "\<dots> = word_bytes 0" by (simp add: word_bytes_def map_replicate_const)
  finally have "word_bytes (ld64 (st64 m a 0) b) = word_bytes (ld64 m b)"
    by (simp add: word_bytes_ld64 assms [symmetric])
  then show ?thesis using assms by (metis ld64_st64_same st64_eq_st_bytes)
qed

text \<open>The two loops of the allocation as one update of the memory of \<open>platform_tables\<close>.\<close>

definition set_os_bit :: "u64 \<Rightarrow> mstate \<Rightarrow> mstate" where
  "set_os_bit i s = s\<lparr>mem := set_bitmap_bit (mem s) (g_os_region_bitmap s) i True\<rparr>"

lemma boot_arrays_platform:
  assumes "g_monitor_top s = 0"
  shows "boot_init_dynamic_arrays (platform_metadata (platform_geometry s)) =
    (let t = fold init_region_info (indices 512) (platform_tables s)
     in fold set_os_bit (indices 512)
          (t\<lparr>mem := st64 (mem t) (ld64 (mem t) 20512) 0\<rparr>))"
proof -
  define u where "u = (platform_metadata (platform_geometry s))
     \<lparr>g_core_count := 1, g_core := 0, g_monitor_top := 32, g_dram_region := 32,
      g_monitor_top := 20512\<rparr>"
  have pt: "platform_tables s =
      u\<lparr>g_dram_regions := 20512, g_os_region_bitmap := 20520, g_monitor_top := 20584\<rparr>"
    by (simp add: platform_tables_def u_def)
  obtain m where m: "fold init_region_info (indices 512) u = u\<lparr>mem := m\<rparr>"
    unfolding fold_init_region_cells using fold_put_cell_mem by blast
  show ?thesis
    unfolding boot_init_dynamic_arrays_def pt fold_init_region_globals m
    using m unfolding u_def
    by (simp add: Let_def assms platform_metadata_def platform_geometry_def read_core_count_def
        atomic_init_def set_os_bit_def [abs_def]) (rule arg_cong [where f = "fold _ _"], simp)
qed


definition region_tables_cleared :: "mstate \<Rightarrow> mstate" where
  "region_tables_cleared s =
     (let t = fold init_region_info (indices 512) (platform_tables s)
      in t\<lparr>mem := st64 (mem t) (ld64 (mem t) 20512) 0\<rparr>)"

lemma boot_tables_eq:
  "boot_tables s = Some (fold set_os_bit (indices 512) (region_tables_cleared s\<lparr>g_monitor_top := 20584\<rparr>))"
proof -
  define s0 where "s0 = s\<lparr>g_monitor_top := 0\<rparr>"
  have "platform_tables s0 = platform_tables s"
    by (simp add: platform_tables_def platform_metadata_def platform_geometry_def s0_def)
  moreover have "region_tables_cleared s\<lparr>g_monitor_top := 20584\<rparr> = region_tables_cleared s"
  proof -
    obtain m where "fold init_region_info (indices 512) (platform_tables s) = platform_tables s\<lparr>mem := m\<rparr>"
      unfolding fold_init_region_cells using fold_put_cell_mem by blast
    then show ?thesis by (simp add: region_tables_cleared_def Let_def platform_tables_def)
  qed
  ultimately show ?thesis
    using boot_arrays_platform [of s0]
    by (simp add: boot_tables_def boot_init_monitor_top_def boot_geometry boot_metadata_platform
        s0_def region_tables_cleared_def Let_def)
qed

lemma region_tables_cleared_mem: "\<exists>m. region_tables_cleared s = platform_tables s\<lparr>mem := m\<rparr>"
proof -
  obtain m where "fold init_region_info (indices 512) (platform_tables s) = platform_tables s\<lparr>mem := m\<rparr>"
    unfolding fold_init_region_cells using fold_put_cell_mem by blast
  then show ?thesis by (auto simp: region_tables_cleared_def Let_def)
qed

lemma region_tables_cleared_zero:
  assumes "current_core s = 0" "r < 512"
  shows "get_cell (region_tables_cleared s) (Region f r) = 0"
proof -
  let ?ks = "concat (map region_cells (indices 512))"
  have cnt: "g_dram_region_count (platform_tables s) = 512"
    by (simp add: platform_tables_def platform_metadata_def platform_geometry_def)
  have wf: "wf_layout (platform_tables s)" by (rule platform_tables_layout [OF assms(1)])
  have ok: "\<forall>k\<in>set ?ks. valid_cell (platform_tables s) k"
    using wf cnt by (auto simp: valid_cell_def region_cells_def)
  have "Region f r \<in> set ?ks" using assms(2) by (cases f) (auto simp: region_cells_def intro!: bexI [of _ r])
  moreover have "valid_cell (platform_tables s) (Region f r)" using wf cnt assms(2) by (simp add: valid_cell_def)
  ultimately have z: "get_cell (fold (\<lambda>k. put_cell k 0) ?ks (platform_tables s)) (Region f r) = 0"
    using tables.get_fold [OF ok] by simp
  obtain m where m: "fold (\<lambda>k. put_cell k 0) ?ks (platform_tables s) = platform_tables s\<lparr>mem := m\<rparr>"
    using fold_put_cell_mem by blast
  from z show ?thesis
    unfolding region_tables_cleared_def fold_init_region_cells m
    by (simp add: get_cell_def ld64_st64_zero del: cell_addr.simps)
qed

text \<open>The bitmap loop: it writes bitmap words only, and a bit once set stays set.\<close>

lemma set_os_bit_cell:
  "set_os_bit i s = put_cell (Os_bitmap_word (i div 64)) (get_cell s (Os_bitmap_word (i div 64)) OR bitmap_mask i) s"
  unfolding set_os_bit_def set_os_bitmap_bit_cell by simp

lemma set_os_bit_mem: "\<exists>m. set_os_bit i s = s\<lparr>mem := m\<rparr>"
  by (auto simp: set_os_bit_def)

lemma fold_set_os_bit_mem: "\<exists>m. fold set_os_bit is s = s\<lparr>mem := m\<rparr>"
proof (induction "is" arbitrary: s)
  case Nil
  show ?case by (rule exI [of _ "mem s"]) simp
next
  case (Cons i "is")
  obtain m where "fold set_os_bit is (set_os_bit i s) = (set_os_bit i s)\<lparr>mem := m\<rparr>" using Cons.IH by blast
  moreover have "(set_os_bit i s)\<lparr>mem := m\<rparr> = s\<lparr>mem := m\<rparr>" by (simp add: set_os_bit_def)
  ultimately show ?case by (intro exI [of _ m]) simp
qed

lemma bitmap_word_valid:
  assumes "wf_layout s" "i < g_dram_region_count s"
  shows "valid_cell s (Os_bitmap_word (i div 64))"
proof -
  have "unat i < 64 * unat (g_dram_region_bitmap_words s)"
    using assms unfolding wf_layout_def word_less_nat_alt by linarith
  then have "unat i div 64 < unat (g_dram_region_bitmap_words s)" by (simp add: div_less_iff_less_mult mult.commute)
  then show ?thesis using assms by (simp add: valid_cell_def word_less_nat_alt unat_div)
qed

lemma fold_set_os_bit_other:
  assumes "wf_layout s" "\<forall>i\<in>set is. i < g_dram_region_count s" "valid_cell s c" "\<forall>i. c \<noteq> Os_bitmap_word i"
  shows "get_cell (fold set_os_bit is s) c = get_cell s c"
  using assms
proof (induction "is" arbitrary: s)
  case (Cons i "is")
  obtain m where m: "set_os_bit i s = s\<lparr>mem := m\<rparr>" using set_os_bit_mem by blast
  have "get_cell (set_os_bit i s) c = get_cell s c"
    unfolding set_os_bit_cell using Cons.prems
    by (intro tables.get_put_other bitmap_word_valid) auto
  moreover have "get_cell (fold set_os_bit is (set_os_bit i s)) c = get_cell (set_os_bit i s) c"
    using Cons.prems by (intro Cons.IH) (simp_all add: m)
  ultimately show ?case by simp
qed simp

lemma bitmap_mask_nonzero: "bitmap_mask i \<noteq> 0"
proof -
  have "bit (bitmap_mask i) (unat (i mod 64 AND 31))"
  proof -
    have "unat (i mod 64 AND 31) < 32" 
      using word_and_le1 [of "i mod 64" 31] by (simp add: word_le_nat_alt)
    then show ?thesis by (simp add: bitmap_mask_def int_shl1_def bit_signed_take_bit_iff bit_simps min_def)
  qed
  then show ?thesis by auto
qed

lemma and_mask_or_mono: "(x AND k) \<noteq> 0 \<Longrightarrow> ((x OR y) AND k) \<noteq> (0 :: u64)"
  by (metis and.commute and_zero_eq bit.conj_disj_distrib or_eq_0_iff)


lemma set_os_bit_keeps:
  assumes "wf_layout s" "i < g_dram_region_count s" "j < g_dram_region_count s"
    and "read_bitmap_bit (mem s) (g_os_region_bitmap s) j \<or> i = j"
  shows "read_bitmap_bit (mem (set_os_bit i s)) (g_os_region_bitmap s) j"
proof -
  let ?w = "Os_bitmap_word (j div 64)"
  have v: "valid_cell s (Os_bitmap_word (i div 64))" "valid_cell s ?w"
    using assms by (simp_all add: bitmap_word_valid)
  have g: "g_os_region_bitmap (set_os_bit i s) = g_os_region_bitmap s" by (simp add: set_os_bit_def)
  have "get_cell (set_os_bit i s) ?w AND bitmap_mask j \<noteq> 0"
    unfolding set_os_bit_cell
    using assms(4) v bitmap_mask_nonzero [of j] and_mask_or_mono [of "get_cell s ?w" "bitmap_mask j" "bitmap_mask i"]
    by (auto simp: tables.get_put read_os_bitmap_bit_cell bit.conj_disj_distrib2)
  then show ?thesis using read_os_bitmap_bit_cell [of "set_os_bit i s" j] g by simp
qed

lemma fold_set_os_bit_set:
  assumes "wf_layout s" "\<forall>i\<in>set is. i < g_dram_region_count s" "j < g_dram_region_count s"
    and "read_bitmap_bit (mem s) (g_os_region_bitmap s) j \<or> j \<in> set is"
  shows "read_bitmap_bit (mem (fold set_os_bit is s)) (g_os_region_bitmap s) j"
  using assms
proof (induction "is" arbitrary: s)
  case (Cons i "is")
  obtain m where m: "set_os_bit i s = s\<lparr>mem := m\<rparr>" using set_os_bit_mem by blast
  have "read_bitmap_bit (mem (set_os_bit i s)) (g_os_region_bitmap (set_os_bit i s)) j \<or> j \<in> set is"
    using Cons.prems set_os_bit_keeps [of s i j] by (auto simp: m)
  then have "read_bitmap_bit (mem (fold set_os_bit is (set_os_bit i s))) (g_os_region_bitmap (set_os_bit i s)) j"
    using Cons.prems by (intro Cons.IH) (simp_all add: m)
  then show ?case by (simp add: m)
qed simp

text \<open>The booted state, and what every reader of the tables may rely on.\<close>

definition booted :: "mstate \<Rightarrow> mstate" where
  "booted s = fold set_os_bit (indices 512) (region_tables_cleared s)"

lemma booted_mem: "\<exists>m. booted s = platform_tables s\<lparr>mem := m\<rparr>"
proof -
  obtain m where m: "region_tables_cleared s = platform_tables s\<lparr>mem := m\<rparr>"
    using region_tables_cleared_mem by blast
  obtain m' where "booted s = region_tables_cleared s\<lparr>mem := m'\<rparr>"
    unfolding booted_def using fold_set_os_bit_mem by blast
  then show ?thesis by (auto simp: m)
qed

lemma boot_tables_booted: "boot_tables s = Some (booted s)"
proof -
  obtain m where "region_tables_cleared s = platform_tables s\<lparr>mem := m\<rparr>"
    using region_tables_cleared_mem by blast
  then have "region_tables_cleared s\<lparr>g_monitor_top := 20584\<rparr> = region_tables_cleared s"
    by (simp add: platform_tables_def)
  then show ?thesis by (simp add: boot_tables_eq booted_def)
qed

lemma booted_globals:
  "g_core (booted s) = 0" "g_core_count (booted s) = 1" "g_dram_region (booted s) = 32"
  "g_dram_regions (booted s) = 20512" "g_os_region_bitmap (booted s) = 20520"
  "g_monitor_top (booted s) = 20584" "g_dram_region_count (booted s) = 512"
  "g_dram_region_bitmap_words (booted s) = 8" "g_dram_region_shift (booted s) = 12"
  "g_dram_stripe_shift (booted s) = 21" "g_dram_stripe_size (booted s) = 4096"
  "g_dram_stripe_pages (booted s) = 1" "g_dram_region_mask (booted s) = 0x1FF000"
  "g_dram_base (booted s) = 0x80000000" "g_dram_size (booted s) = 0x80000000"
  "g_metadata_region_start (booted s) = 1" "csr (booted s) = csr s"
  "g_dma_range_start (booted s) = g_dma_range_start s" "g_dma_range_end (booted s) = g_dma_range_end s"
proof -
  obtain m where "booted s = platform_tables s\<lparr>mem := m\<rparr>" using booted_mem by blast
  then show
    "g_core (booted s) = 0" "g_core_count (booted s) = 1" "g_dram_region (booted s) = 32"
    "g_dram_regions (booted s) = 20512" "g_os_region_bitmap (booted s) = 20520"
    "g_monitor_top (booted s) = 20584" "g_dram_region_count (booted s) = 512"
    "g_dram_region_bitmap_words (booted s) = 8" "g_dram_region_shift (booted s) = 12"
    "g_dram_stripe_shift (booted s) = 21" "g_dram_stripe_size (booted s) = 4096"
    "g_dram_stripe_pages (booted s) = 1" "g_dram_region_mask (booted s) = 0x1FF000"
    "g_dram_base (booted s) = 0x80000000" "g_dram_size (booted s) = 0x80000000"
    "g_metadata_region_start (booted s) = 1" "csr (booted s) = csr s"
    "g_dma_range_start (booted s) = g_dma_range_start s" "g_dma_range_end (booted s) = g_dma_range_end s"
    by (simp_all add: platform_tables_def platform_metadata_def platform_geometry_def)
qed

lemma booted_wf: "current_core s = 0 \<Longrightarrow> wf_layout (booted s)" "wf_geometry (booted s)"
  using booted_mem [of s] platform_tables_layout [of s] platform_tables_geometry [of s] by auto

lemma booted_region_zero:
  assumes "current_core s = 0" "r < 512"
  shows "get_cell (booted s) (Region f r) = 0"
proof -
  obtain m where m: "region_tables_cleared s = platform_tables s\<lparr>mem := m\<rparr>"
    using region_tables_cleared_mem by blast
  have cnt: "g_dram_region_count (platform_tables s) = 512"
    by (simp add: platform_tables_def platform_metadata_def platform_geometry_def)
  have "get_cell (booted s) (Region f r) = get_cell (region_tables_cleared s) (Region f r)"
    unfolding booted_def
    by (rule fold_set_os_bit_other)
      (use assms cnt in \<open>simp_all add: m platform_tables_layout valid_cell_def\<close>)
  then show ?thesis by (simp add: region_tables_cleared_zero assms)
qed

lemma booted_bitmap:
  assumes "current_core s = 0" "r < 512"
  shows "read_bitmap_bit (mem (booted s)) (g_os_region_bitmap (booted s)) r"
proof -
  obtain m where m: "region_tables_cleared s = platform_tables s\<lparr>mem := m\<rparr>"
    using region_tables_cleared_mem by blast
  have cnt: "g_dram_region_count (platform_tables s) = 512"
    by (simp add: platform_tables_def platform_metadata_def platform_geometry_def)
  have "g_os_region_bitmap (booted s) = g_os_region_bitmap (region_tables_cleared s)"
    using fold_set_os_bit_mem [of "indices 512" "region_tables_cleared s"] by (auto simp: booted_def)
  moreover have "read_bitmap_bit (mem (booted s)) (g_os_region_bitmap (region_tables_cleared s)) r"
    unfolding booted_def
    by (rule fold_set_os_bit_set) (use assms cnt in \<open>simp_all add: m platform_tables_layout\<close>)
  ultimately show ?thesis by simp
qed


text \<open>The last step stops the machine: the monitor's tables take more than one 4096-byte stripe on this platform, so
  \<open>boot_init_protection\<close> reaches \<open>boot_panic\<close>.\<close>

lemma boot_sequence_panics: "boot_sequence s = None"
proof -
  have "ceil_power_of_two 20584 = 2 ^ 15"
  proof -
    obtain k where k: "unat (address_bits_for 20584) = k" "unat (20584 :: u64) \<le> 2 ^ k"
      "\<And>j. unat (20584 :: u64) \<le> 2 ^ j \<Longrightarrow> k \<le> j"
      using address_bits_for_spec [of 20584] by (auto simp: word_less_nat_alt)
    have "k \<le> 15" using k(3) [of 15] by simp
    moreover have "14 < k"
    proof (rule ccontr)
      assume "\<not> 14 < k"
      then have "(2 :: nat) ^ k \<le> 2 ^ 14" by (intro power_increasing) auto
      with k(2) show False by simp
    qed
    ultimately have "unat (address_bits_for 20584) = 15" using k(1) by simp
    then have "address_bits_for 20584 = 15" by (intro unsigned_word_eqI) simp
    then show ?thesis by (simp add: ceil_power_of_two_def int_shl1_small)
  qed
  then show ?thesis
    by (simp add: boot_sequence_def boot_tables_booted boot_init_protection_def Let_def booted_globals sm_defs)
qed

section \<open>Properties\<close>

text \<open>C39: On the first hart the first four boot steps leave the tables disjoint and below
  \<open>g_monitor_top\<close>, every DRAM region owned by the OS with no pinned page, and every bit of the
  OS region bitmap set, whatever the memory held before, including the stray store
  that \<open>atomic_init(block_clock, 0)\<close> performs. The fifth step, which is to protect them, panics: with it the boot
  sequence never returns on this platform.\<close>

theorem boot_establishes_tables:
  assumes "current_core s = 0"
  shows "(\<exists>t. boot_tables s = Some t \<and> wf_layout t \<and> wf_geometry t \<and> g_dram_region_count t = 512 \<and>
    (\<forall>r<512. region_owner t r = null_enclave_id \<and> get_cell t (Region Pinned_pages r) = 0 \<and>
             read_bitmap_bit (mem t) (g_os_region_bitmap t) r) \<and> boot_init_protection t = None) \<and>
    boot_sequence s = None"
proof -
  have "boot_init_protection (booted s) = None"
    using boot_sequence_panics [of s] by (simp add: boot_sequence_def boot_tables_booted)
  with assms show ?thesis
    by (intro conjI exI [of _ "booted s"] boot_sequence_panics)
      (simp_all add: boot_tables_booted booted_wf booted_region_zero booted_bitmap, simp_all add: booted_globals)
qed

text \<open>The state of a machine after reset, memory zeroed.\<close>

definition reset_state :: mstate where
  "reset_state = \<lparr>mem = \<lambda>_. 0, g_core = 0, g_core_count = 0, g_dram_region = 0, g_dram_regions = 0,
     g_dram_base = 0, g_dram_size = 0, g_dram_region_shift = 0, g_dram_stripe_shift = 0,
     g_dram_stripe_page_mask = 0, g_dram_region_mask = 0, g_dram_stripe_mask = 0,
     g_dram_region_count = 0, g_dram_stripe_size = 0, g_dram_stripe_pages = 0,
     g_dram_region_bitmap_words = 0, g_dma_range_start = 0, g_dma_range_end = 0,
     g_metadata_region_pages = 0, g_metadata_region_start = 0, g_os_region_bitmap = 0,
     g_monitor_top = 0, csr = \<lambda>_. 0, tlb_flushes = 0\<rparr>"

lemma reset_core: "current_core reset_state = 0"
  by (simp add: current_core_def reset_state_def)

theorem boot_establishes_tables_witness:
  "\<exists>t. boot_tables reset_state = Some t \<and> region_owner t 511 = 0 \<and> boot_sequence reset_state = None"
  using boot_establishes_tables [OF reset_core] by auto

text \<open>With the platform's DRAM base and size, both \<open>0x80000000\<close>, \<open>is_dram_address\<close> accepts no
  address in the booted monitor, and the clamped region of every address is region 0.\<close>

theorem booted_no_dram_address:
  "map_option (\<lambda>t. (is_dram_address t a, clamped_dram_region_for t a)) (boot_tables s) = Some (False, 0)"
  by (auto simp: boot_tables_booted is_dram_address_def clamped_dram_region_for_def booted_globals)

theorem dram_region_for_start_witness:
  "dram_region_for (booted reset_state) (dram_region_start (booted reset_state) 5 + 7) = 5"
  by (rule dram_region_for_start) (simp_all add: booted_wf booted_globals)

end
