(* ===== verification/Dram_Regions.thy ===== *)
theory Dram_Regions
  imports Boot_Init
begin

text \<open>
  The DRAM region calls of the monitor (\<open>sm/monitor/dram_regions.c\<close>), each a function from the
  monitor state to the call's result and the new state, with every lock operation, guard and
  early return of the source. A call whose C loops may not end returns an option.
\<close>

section \<open>The calls\<close>

definition dram_size :: "mstate \<Rightarrow> u64" where
  "dram_size s = g_dram_size s"

definition dram_region_mask :: "mstate \<Rightarrow> u64" where
  "dram_region_mask s = g_dram_region_mask s"

text \<open>The check of \<open>block_dram_region\<close> that the DMA range does not cross the region.\<close>

definition dma_range_crossed :: "mstate \<Rightarrow> u64 \<Rightarrow> bool" where
  "dma_range_crossed s dram_region =
     (let region_start = dram_region_start s dram_region;
          region_end = dram_region_start s (dram_region + 1)
      in (g_dma_range_start s \<ge> region_start \<and> g_dma_range_end s \<le> region_end) \<or>
         (g_dma_range_end s \<ge> region_start \<and> g_dma_range_end s \<le> region_end) \<or>
         (region_start \<ge> g_dma_range_start s \<and> region_start \<le> g_dma_range_end s) \<or>
         (region_end \<ge> g_dma_range_start s \<and> region_end \<le> g_dma_range_end s))"

text \<open>The effect of a granted block: ownership, block clock, region bitmap and its register.\<close>

definition commit_block :: "u64 \<Rightarrow> u64 \<Rightarrow> mstate \<Rightarrow> mstate" where
  "commit_block owner dram_region s =
     (let s = put_cell (Region Previous_owner dram_region) owner s;
          s = put_cell (Region Owner dram_region) blocked_enclave_id s;
          (block_clock, m) = atomic_fetch_add (mem s) (g_dram_regions s) 1;
          s = put_cell (Region Blocked_at dram_region) block_clock (s\<lparr>mem := m\<rparr>);
          s = set_enclave_region_bitmap_bit owner dram_region False s
      in if owner = 0 then set_drb_map (g_os_region_bitmap s) s
         else set_edrb_map (enclave_region_bitmap owner) s)"

definition block_dram_region :: "u64 \<Rightarrow> mstate \<Rightarrow> api_result \<times> mstate" where
  "block_dram_region dram_region s0 =
     (if \<not> is_dynamic_dram_region s0 dram_region then (monitor_invalid_value, s0)
      else
       (let (held, s) = test_and_set_dram_region_lock dram_region s0 in
        if held then (monitor_concurrent_call, s)
        else
         (let owner = read_dram_region_owner s dram_region in
          if owner \<noteq> current_enclave s
          then (monitor_access_denied, clear_dram_region_lock dram_region s)
          else if owner \<noteq> null_enclave_id \<and> get_cell s (Region Pinned_pages dram_region) \<noteq> 0
          then (monitor_invalid_state, clear_dram_region_lock dram_region s)
          else
           (let owner_dram_region = dram_region_for s owner;
                (owner_held, s) = test_and_set_dram_region_lock owner_dram_region s in
            if owner_held then (monitor_concurrent_call, clear_dram_region_lock dram_region s)
            else if owner_dram_region = 0 \<and> dma_range_crossed s dram_region
            then (monitor_invalid_state,
                  clear_dram_region_lock dram_region (clear_dram_region_lock owner_dram_region s))
            else
             (monitor_ok,
              clear_dram_region_lock dram_region
                (clear_dram_region_lock owner_dram_region (commit_block owner dram_region s)))))))"

definition dram_region_check_ownership :: "u64 \<Rightarrow> mstate \<Rightarrow> api_result \<times> mstate" where
  "dram_region_check_ownership dram_region s0 =
     (if \<not> is_dynamic_dram_region s0 dram_region then (monitor_invalid_value, s0)
      else
       (let (held, s) = test_and_set_dram_region_lock dram_region s0 in
        if held then (monitor_concurrent_call, s)
        else
         (let result = (if read_dram_region_owner s dram_region = current_enclave s
                        then monitor_ok else monitor_invalid_state)
          in (result, clear_dram_region_lock dram_region s))))"

definition dram_region_state :: "u64 \<Rightarrow> mstate \<Rightarrow> dram_region_state_t \<times> mstate" where
  "dram_region_state dram_region s0 =
     (if \<not> is_valid_dram_region s0 dram_region then (dram_region_invalid, s0)
      else
       (let (held, s) = test_and_set_dram_region_lock dram_region s0 in
        if held then (dram_region_locked, s)
        else
         (let owner = read_dram_region_owner s dram_region;
              state = (if owner = null_enclave_id then dram_region_owned
                       else if owner = blocked_enclave_id then dram_region_blocked
                       else if owner = free_enclave_id then dram_region_free
                       else dram_region_owned)
          in (state, clear_dram_region_lock dram_region s))))"

definition dram_region_owner :: "u64 \<Rightarrow> mstate \<Rightarrow> u64 \<times> mstate" where
  "dram_region_owner dram_region s0 =
     (if \<not> is_valid_dram_region s0 dram_region then (null_enclave_id, s0)
      else
       (let (held, s) = test_and_set_dram_region_lock dram_region s0 in
        if held then (null_enclave_id, s)
        else
         (let owner = read_dram_region_owner s dram_region;
              owner = (if owner = blocked_enclave_id \<or> owner = free_enclave_id
                       then null_enclave_id else owner)
          in (owner, clear_dram_region_lock dram_region s))))"

text \<open>
  The loop of \<open>set_dma_range\<close> over the stripes of the range: \<open>Inl\<close> is the early return of a
  held lock, \<open>Inr\<close> the final \<open>os_owns_regions\<close>, which the source does not test.
\<close>

partial_function (option) dma_scan :: "mstate \<Rightarrow> u64 \<Rightarrow> u64 \<Rightarrow> bool \<Rightarrow> (api_result + bool) option" where
  "dma_scan s stripe_addr range_end os_owns_regions =
     (if stripe_addr < range_end
      then
       (let dram_region = dram_region_for s stripe_addr in
        if dram_region \<noteq> 0 \<and> fst (test_and_set_dram_region_lock dram_region s)
        then Some (Inl monitor_concurrent_call)
        else dma_scan s (stripe_addr + g_dram_stripe_size s) range_end
               (if region_owner s dram_region \<noteq> 0 then False else os_owns_regions))
      else Some (Inr os_owns_regions))"

definition set_dma_range :: "u64 \<Rightarrow> u64 \<Rightarrow> mstate \<Rightarrow> (api_result \<times> mstate) option" where
  "set_dma_range base msk s0 =
     (if \<not> is_valid_range base msk then Some (monitor_invalid_value, s0)
      else if \<not> is_dram_address s0 (base OR msk) then Some (monitor_invalid_value, s0)
      else
       (let (held, s) = test_and_set_dram_region_lock 0 s0 in
        if held then Some (monitor_concurrent_call, s)
        else
         (let range_end = (base OR msk) + 1 in
          case dma_scan s base range_end True of
            None \<Rightarrow> None
          | Some (Inl err) \<Rightarrow> Some (err, clear_dram_region_lock 0 s)
          | Some (Inr os_owns_regions) \<Rightarrow>
             (let s = s\<lparr>g_dma_range_start := base, g_dma_range_end := range_end\<rparr>;
                  s = set_dmar_base base s;
                  s = set_dmar_mask (NOT msk) s
              in Some (monitor_ok, clear_dram_region_lock 0 s)))))"

definition init_metadata_region :: "u64 \<Rightarrow> mstate \<Rightarrow> mstate option" where
  "init_metadata_region dram_region s =
     (let s = put_cell (Region Owner dram_region) metadata_enclave_id s;
          s = put_cell (Region Pinned_pages dram_region) 0 s;
          metadata_map = dram_region_start s dram_region
      in case bzero (mem s) metadata_map (sll64 (g_metadata_region_start s) page_shift) of
           None \<Rightarrow> None
         | Some m \<Rightarrow> Some (s\<lparr>mem := m\<rparr>))"

definition create_metadata_region :: "u64 \<Rightarrow> mstate \<Rightarrow> (api_result \<times> mstate) option" where
  "create_metadata_region dram_region s0 =
     (if \<not> is_valid_dram_region s0 dram_region then Some (monitor_invalid_value, s0)
      else
       (let (held, s) = test_and_set_dram_region_lock dram_region s0 in
        if held then Some (monitor_concurrent_call, s)
        else if read_dram_region_owner s dram_region \<noteq> free_enclave_id
        then Some (monitor_invalid_state, clear_dram_region_lock dram_region s)
        else (case init_metadata_region dram_region s of
                None \<Rightarrow> None
              | Some s \<Rightarrow> Some (monitor_ok, clear_dram_region_lock dram_region s))))"

definition assign_dram_region :: "u64 \<Rightarrow> u64 \<Rightarrow> mstate \<Rightarrow> api_result \<times> mstate" where
  "assign_dram_region dram_region new_owner s0 =
     (if \<not> is_valid_dram_region s0 dram_region then (monitor_invalid_value, s0)
      else
       (let (held, s) = test_and_set_dram_region_lock dram_region s0 in
        if held then (monitor_concurrent_call, s)
        else if read_dram_region_owner s dram_region \<noteq> free_enclave_id
        then (monitor_invalid_state, clear_dram_region_lock dram_region s)
        else
         (let new_owner_dram_region = dram_region_for s new_owner;
              (owner_held, s) = test_and_set_dram_region_lock new_owner_dram_region s in
          if owner_held then (monitor_concurrent_call, clear_dram_region_lock dram_region s)
          else
           (let (result, s) =
              (if is_valid_enclave_id s new_owner
               then (let s = put_cell (Region Owner dram_region) new_owner s;
                         s = set_enclave_region_bitmap_bit new_owner dram_region True s;
                         s = (if new_owner = 0 then set_drb_map (g_os_region_bitmap s) s else s)
                     in (monitor_ok, s))
               else (monitor_invalid_value, s))
            in (result, clear_dram_region_lock dram_region
                          (clear_dram_region_lock new_owner_dram_region s))))))"

definition can_free :: "mstate \<Rightarrow> u64 \<Rightarrow> bool" where
  "can_free s blocked_at \<longleftrightarrow>
     list_all (\<lambda>i. \<not> get_cell s (Core Flushed_at i) < blocked_at) (indices (g_core_count s))"

definition free_dram_region :: "u64 \<Rightarrow> mstate \<Rightarrow> api_result \<times> mstate" where
  "free_dram_region dram_region s0 =
     (if \<not> is_valid_dram_region s0 dram_region then (monitor_invalid_value, s0)
      else
       (let (held, s) = test_and_set_dram_region_lock dram_region s0 in
        if held then (monitor_concurrent_call, s)
        else
         (let region_owner = read_dram_region_owner s dram_region;
              (result, s) =
               (if region_owner = blocked_enclave_id
                then (if can_free s (get_cell s (Region Blocked_at dram_region))
                      then (monitor_ok, put_cell (Region Owner dram_region) free_enclave_id s)
                      else (monitor_invalid_state, s))
                else if region_owner = metadata_enclave_id
                then (if get_cell s (Region Pinned_pages dram_region) = 0
                      then (monitor_ok, put_cell (Region Owner dram_region) free_enclave_id s)
                      else (monitor_invalid_state, s))
                else (monitor_invalid_state, s))
          in (result, clear_dram_region_lock dram_region s))))"

definition flush_cached_dram_regions :: "mstate \<Rightarrow> api_result \<times> mstate" where
  "flush_cached_dram_regions s = (monitor_ok, dram_region_tlb_flush s)"

lemmas region_call_defs [call_defs] =
  block_dram_region_def dram_region_check_ownership_def dram_region_state_def
  dram_region_owner_def create_metadata_region_def assign_dram_region_def free_dram_region_def
  flush_cached_dram_regions_def set_dma_range_def


section \<open>The monitor's invariant\<close>

text \<open>
  \<open>wf_monitor\<close>: the layout and the geometry of the boot sequence, with the two facts the
  monitor's design asks for: the monitor's memory fits in the first stripe (the guard of
  \<open>boot_init_protection\<close>) and the metadata map fits in one stripe (\<open>boot_init_metadata\<close>).
\<close>

definition wf_monitor :: "mstate \<Rightarrow> bool" where
  "wf_monitor s \<longleftrightarrow> wf_layout s \<and> wf_geometry s \<and>
     unat (g_dram_stripe_size s) = 2 ^ unat (g_dram_region_shift s) \<and>
     unat (g_monitor_top s) \<le> unat (g_dram_stripe_size s) \<and>
     unat (g_metadata_region_start s) * 4096 \<le> unat (g_dram_stripe_size s)"

lemma wf_geometry_frame [simp]:
  "wf_geometry (s\<lparr>csr := c\<rparr>) \<longleftrightarrow> wf_geometry s"
  "wf_geometry (s\<lparr>tlb_flushes := k\<rparr>) \<longleftrightarrow> wf_geometry s"
  "wf_geometry (s\<lparr>g_dma_range_start := a\<rparr>) \<longleftrightarrow> wf_geometry s"
  "wf_geometry (s\<lparr>g_dma_range_end := a\<rparr>) \<longleftrightarrow> wf_geometry s"
  by (simp_all add: wf_geometry_def)

lemma wf_monitor_frame [simp]:
  "wf_monitor (s\<lparr>mem := m\<rparr>) \<longleftrightarrow> wf_monitor s"
  "c 0xF14 = csr s 0xF14 \<Longrightarrow> wf_monitor (s\<lparr>csr := c\<rparr>) \<longleftrightarrow> wf_monitor s"
  "wf_monitor (s\<lparr>tlb_flushes := k\<rparr>) \<longleftrightarrow> wf_monitor s"
  "wf_monitor (s\<lparr>g_dma_range_start := a\<rparr>) \<longleftrightarrow> wf_monitor s"
  "wf_monitor (s\<lparr>g_dma_range_end := a\<rparr>) \<longleftrightarrow> wf_monitor s"
  by (simp_all add: wf_monitor_def)

lemma wf_monitor_put [simp]: "wf_monitor (put_cell k v s) \<longleftrightarrow> wf_monitor s"
  by (simp add: put_cell_def)

lemma wf_monitorD:
  "wf_monitor s \<Longrightarrow> wf_layout s" "wf_monitor s \<Longrightarrow> wf_geometry s"
  by (simp_all add: wf_monitor_def)

text \<open>The table facts every call uses: which cells it may touch.\<close>

lemma valid_region [intro]:
  "wf_monitor s \<Longrightarrow> r < g_dram_region_count s \<Longrightarrow> valid_cell s (Region f r)"
  by (simp add: valid_cell_def wf_monitorD)

lemma valid_clock [intro]: "wf_monitor s \<Longrightarrow> valid_cell s Block_clock"
  by (simp add: valid_cell_def wf_monitorD)

lemma valid_core [intro]: "wf_monitor s \<Longrightarrow> c < g_core_count s \<Longrightarrow> valid_cell s (Core f c)"
  by (simp add: valid_cell_def wf_monitorD)

lemma valid_bitmap_word [intro]:
  "wf_monitor s \<Longrightarrow> r < g_dram_region_count s \<Longrightarrow> valid_cell s (Os_bitmap_word (r div 64))"
  by (rule bitmap_word_valid) (simp_all add: wf_monitorD)

lemma current_core_valid: "wf_monitor s \<Longrightarrow> current_core s < g_core_count s"
  by (simp add: wf_monitor_def wf_layout_def)

lemmas valid_cells = valid_region valid_clock valid_core valid_bitmap_word

section \<open>Effects of the calls on the tables\<close>

text \<open>Where the region bitmap of an owner lies: the OS's in the tables, an enclave's above them.\<close>

definition bitmap_home :: "mstate \<Rightarrow> u64 \<Rightarrow> u64 \<Rightarrow> bool" where
  "bitmap_home s owner r \<longleftrightarrow>
     owner = null_enclave_id \<or> above_tables s (enclave_region_bitmap owner + 8 * (r div 64)) 8"

lemma set_enclave_bit_cells:
  assumes "wf_monitor s" "valid_cell s c" "r < g_dram_region_count s" "bitmap_home s owner r"
    and "\<forall>i. c \<noteq> Os_bitmap_word i"
  shows "get_cell (set_enclave_region_bitmap_bit owner r v s) c = get_cell s c"
proof (cases "owner = 0")
  case True
  have "valid_cell s (Os_bitmap_word (r div 64))" using assms by blast
  with assms show ?thesis
    unfolding set_enclave_region_bitmap_bit_def set_os_bitmap_bit_cell
    by (simp add: True) (intro conjI impI tables.get_put_other; simp)
next
  case False
  with assms show ?thesis
    by (simp add: set_enclave_region_bitmap_bit_def set_bitmap_bit_def Let_def bitmap_home_def
        get_cell_write_above)
qed

lemma set_enclave_bit_mem: "\<exists>m. set_enclave_region_bitmap_bit owner r v s = s\<lparr>mem := m\<rparr>"
  by (simp add: set_enclave_region_bitmap_bit_def) blast


lemma fetch_add_clock:
  "a = g_dram_regions s \<Longrightarrow> atomic_fetch_add (mem s) a v =
   (block_clock s, mem (put_cell Block_clock (block_clock s + v) s))"
  by (simp add: atomic_fetch_add_def get_cell_def put_cell_def)

lemma mem_put_cell [simp]: "s\<lparr>mem := mem (put_cell k v s)\<rparr> = put_cell k v s"
  by (simp add: put_cell_def)

lemma drb_frame [simp]:
  "get_cell (set_drb_map a s) c = get_cell s c" "get_cell (set_edrb_map a s) c = get_cell s c"
  "wf_monitor (set_drb_map a s) = wf_monitor s" "wf_monitor (set_edrb_map a s) = wf_monitor s"
  "region_lock (set_drb_map a s) r = region_lock s r" "region_lock (set_edrb_map a s) r = region_lock s r"
  "mem (set_drb_map a s) = mem s" "mem (set_edrb_map a s) = mem s"
  "g_os_region_bitmap (set_drb_map a s) = g_os_region_bitmap s"
  "g_os_region_bitmap (set_edrb_map a s) = g_os_region_bitmap s"
  by (simp_all add: set_drb_map_def set_edrb_map_def write_csr_def)

text \<open>The table part of a granted block, before the bitmap and its register.\<close>

definition block_cells :: "u64 \<Rightarrow> u64 \<Rightarrow> mstate \<Rightarrow> mstate" where
  "block_cells owner r s =
     put_cell (Region Blocked_at r) (block_clock s)
       (put_cell Block_clock (block_clock s + 1)
         (put_cell (Region Owner r) 1 (put_cell (Region Previous_owner r) owner s)))"

lemma block_cells_globals [simp]:
  "wf_monitor (block_cells w r s) = wf_monitor s" "valid_cell (block_cells w r s) c = valid_cell s c"
  "g_dram_region_count (block_cells w r s) = g_dram_region_count s"
  "g_monitor_top (block_cells w r s) = g_monitor_top s"
  "g_os_region_bitmap (block_cells w r s) = g_os_region_bitmap s"
  "bitmap_home (block_cells w r s) owner q = bitmap_home s owner q"
  by (simp_all add: block_cells_def bitmap_home_def above_tables_def)

lemma get_block_cells:
  assumes "wf_monitor s" "r < g_dram_region_count s" "valid_cell s c"
  shows "get_cell (block_cells w r s) c =
    (if c = Region Owner r then 1 else if c = Region Previous_owner r then w
     else if c = Region Blocked_at r then block_clock s
     else if c = Block_clock then block_clock s + 1 else get_cell s c)"
  using assms valid_cells [OF assms(1)] unfolding block_cells_def
  by (simp add: tables.get_put)

lemma commit_block_eq:
  assumes "wf_monitor s" "r < g_dram_region_count s"
  shows "commit_block w r s =
    (let t = set_enclave_region_bitmap_bit w r False (block_cells w r s)
     in if w = 0 then set_drb_map (g_os_region_bitmap s) t else set_edrb_map (enclave_region_bitmap w) t)"
proof -
  define t where "t = set_enclave_region_bitmap_bit w r False (block_cells w r s)"
  obtain m where "t = (block_cells w r s)\<lparr>mem := m\<rparr>"
    unfolding t_def using set_enclave_bit_mem by blast
  then have g: "g_os_region_bitmap t = g_os_region_bitmap s" by simp
  have "commit_block w r s = (if w = 0 then set_drb_map (g_os_region_bitmap t) t
      else set_edrb_map (enclave_region_bitmap w) t)"
    using valid_cells [OF assms(1)] assms
    by (simp add: commit_block_def t_def block_cells_def Let_def fetch_add_clock tables.get_put)
  also note g
  finally show ?thesis by (simp only: Let_def t_def)
qed

lemma commit_block_cells:
  assumes "wf_monitor s" "r < g_dram_region_count s" "bitmap_home s w r" "valid_cell s c"
    and "\<forall>i. c \<noteq> Os_bitmap_word i"
  shows "get_cell (commit_block w r s) c =
    (if c = Region Owner r then 1 else if c = Region Previous_owner r then w
     else if c = Region Blocked_at r then block_clock s
     else if c = Block_clock then block_clock s + 1 else get_cell s c)"
proof -
  have "get_cell (set_enclave_region_bitmap_bit w r False (block_cells w r s)) c = get_cell (block_cells w r s) c"
    by (rule set_enclave_bit_cells) (use assms in simp_all)
  with assms show ?thesis
    unfolding commit_block_eq [OF assms(1,2)] Let_def
    by (simp only: drb_frame get_block_cells if_distrib [of "\<lambda>u. get_cell u c"] if_cancel)
qed


section \<open>The OS's view: callers, identities, flush pointers\<close>

text \<open>
  \<open>os_state\<close>: the state in which the OS calls. The core runs no enclave, region 0 is the OS's,
  every owner is one of the four values below (an enclave identifier never becomes an owner),
  and each core's \<open>flushed_at\<close> word, which \<open>dram_region_tlb_flush\<close> uses as an address, does
  not point into the tables.
\<close>

definition os_owner :: "u64 \<Rightarrow> bool" where
  "os_owner w \<longleftrightarrow> w \<in> {null_enclave_id, blocked_enclave_id, metadata_enclave_id, free_enclave_id}"

definition os_state :: "mstate \<Rightarrow> bool" where
  "os_state s \<longleftrightarrow> wf_monitor s \<and> current_enclave s = null_enclave_id \<and>
     region_owner s 0 = null_enclave_id \<and>
     (\<forall>r<g_dram_region_count s. os_owner (region_owner s r)) \<and>
     (\<forall>c<g_core_count s. above_tables s (get_cell s (Core Flushed_at c)) 8)"

lemma os_stateD:
  assumes "os_state s"
  shows "wf_monitor s" "current_enclave s = 0" "region_owner s 0 = 0"
    "r < g_dram_region_count s \<Longrightarrow> os_owner (region_owner s r)"
    "c < g_core_count s \<Longrightarrow> above_tables s (get_cell s (Core Flushed_at c)) 8"
  using assms by (simp_all add: os_state_def)

text \<open>Two states with the same globals and the same core cells, whose owners are related.\<close>

definition same_tables :: "mstate \<Rightarrow> mstate \<Rightarrow> bool" where
  "same_tables s t \<longleftrightarrow>
     g_dram_region_count t = g_dram_region_count s \<and> g_core_count t = g_core_count s \<and>
     g_monitor_top t = g_monitor_top s \<and> current_core t = current_core s \<and>
     (wf_monitor t \<longleftrightarrow> wf_monitor s) \<and>
     (\<forall>f. \<forall>c<g_core_count s. get_cell t (Core f c) = get_cell s (Core f c))"

lemma same_tables_refl [simp]: "same_tables s s"
  by (simp add: same_tables_def)

lemma same_tables_trans: "same_tables s t \<Longrightarrow> same_tables t u \<Longrightarrow> same_tables s u"
  by (simp add: same_tables_def)

lemma os_state_step:
  assumes "os_state s" "same_tables s t" "region_owner t 0 = 0"
    and "\<And>r. r < g_dram_region_count s \<Longrightarrow> os_owner (region_owner t r)"
  shows "os_state t"
  using assms current_core_valid [of s]
  by (auto simp: os_state_def same_tables_def current_enclave_def above_tables_def)


section \<open>Outcomes of the calls\<close>

text \<open>Each call either grants, with the guards of the source, or refuses and changes nothing.\<close>

lemma block_outcome:
  assumes "block_dram_region r s = (code, t)"
  shows "code = monitor_ok \<and> is_dynamic_dram_region s r \<and> region_lock s r = 0 \<and>
      region_owner s r = current_enclave s \<and>
      (current_enclave s \<noteq> 0 \<longrightarrow> get_cell s (Region Pinned_pages r) = 0) \<and>
      region_lock s (dram_region_for s (current_enclave s)) = 0 \<and>
      \<not> (dram_region_for s (current_enclave s) = 0 \<and> dma_range_crossed s r) \<and>
      t = commit_block (current_enclave s) r s
    \<or> code \<noteq> monitor_ok \<and> t = s"
  using assms by (auto simp: block_dram_region_def Let_def read_dram_region_owner_def split: if_splits)

lemma assign_outcome:
  assumes "assign_dram_region r w s = (code, t)"
  shows "code = monitor_ok \<and> r < g_dram_region_count s \<and> region_owner s r = 3 \<and>
      region_lock s r = 0 \<and> region_lock s (dram_region_for s w) = 0 \<and> is_valid_enclave_id s w \<and>
      (let u = set_enclave_region_bitmap_bit w r True (put_cell (Region Owner r) w s)
       in t = (if w = 0 then set_drb_map (g_os_region_bitmap u) u else u))
    \<or> code \<noteq> monitor_ok \<and> t = s"
  using assms
  by (auto simp: assign_dram_region_def Let_def read_dram_region_owner_def is_valid_dram_region_def
      split: if_splits)

lemma free_outcome:
  assumes "free_dram_region r s = (code, t)"
  shows "code = monitor_ok \<and> r < g_dram_region_count s \<and> region_lock s r = 0 \<and>
      (region_owner s r = 1 \<and> can_free s (get_cell s (Region Blocked_at r)) \<or>
       region_owner s r = 2 \<and> get_cell s (Region Pinned_pages r) = 0) \<and>
      t = put_cell (Region Owner r) 3 s
    \<or> code \<noteq> monitor_ok \<and> t = s"
  using assms
  by (auto simp: free_dram_region_def Let_def read_dram_region_owner_def is_valid_dram_region_def
      split: if_splits)

lemma create_outcome:
  assumes "create_metadata_region r s = Some (code, t)"
  shows "code = monitor_ok \<and> r < g_dram_region_count s \<and> region_owner s r = 3 \<and>
      region_lock s r = 0 \<and> init_metadata_region r s = Some t
    \<or> code \<noteq> monitor_ok \<and> t = s"
  using assms
  by (auto simp: create_metadata_region_def Let_def read_dram_region_owner_def
      is_valid_dram_region_def split: if_splits option.splits)

lemma dma_outcome:
  assumes "set_dma_range base msk s = Some (code, t)"
  shows "(code = monitor_ok \<and> is_valid_range base msk \<and> is_dram_address s (base OR msk) \<and>
      region_lock s 0 = 0 \<and>
      t = s\<lparr>g_dma_range_start := base, g_dma_range_end := (base OR msk) + 1\<rparr>)
    \<or> code \<noteq> monitor_ok \<and> t = s"
proof -
  have scan: "y \<noteq> Inl monitor_ok" if "dma_scan s a e b = Some y" for a e b y
    using that
    by (rule dma_scan.raw_induct [where P = "\<lambda>s a e b y. y \<noteq> Inl monitor_ok", rotated])
      (auto simp: Let_def split: if_splits)
  show ?thesis
  proof (cases "dma_scan s base ((base OR msk) + 1) True")
    case None
    with assms show ?thesis by (auto simp: set_dma_range_def split: if_splits)
  next
    case (Some y)
    with scan [OF Some] assms show ?thesis
      by (cases y) (auto simp: set_dma_range_def set_dmar_base_def set_dmar_mask_def split: if_splits)
  qed
qed

lemma query_outcome:
  "dram_region_check_ownership r s = (code, t) \<Longrightarrow> t = s"
  "dram_region_state r s = (st, t) \<Longrightarrow> t = s"
  "dram_region_owner r s = (w, t) \<Longrightarrow> t = s"
  by (auto simp: call_defs Let_def split: if_splits)

section \<open>Granted calls keep the OS's state\<close>

lemma commit_block_same_tables:
  assumes "os_state s" "r < g_dram_region_count s"
  shows "same_tables s (commit_block 0 r s)"
proof -
  note wf = os_stateD(1) [OF assms(1)]
  have home: "bitmap_home s 0 r" by (simp add: bitmap_home_def)
  obtain m where m: "set_enclave_region_bitmap_bit 0 r False (block_cells 0 r s) = (block_cells 0 r s)\<lparr>mem := m\<rparr>"
    using set_enclave_bit_mem by blast
  have "get_cell (commit_block 0 r s) (Core f c) = get_cell s (Core f c)" if "c < g_core_count s" for f c
    using commit_block_cells [OF wf assms(2) home] valid_core [OF wf that] by simp
  moreover have "commit_block 0 r s = set_drb_map (g_os_region_bitmap s) ((block_cells 0 r s)\<lparr>mem := m\<rparr>)"
    using commit_block_eq [OF wf assms(2)] by (simp add: m)
  ultimately show ?thesis
    by (simp add: same_tables_def set_drb_map_def write_csr_def current_core_def block_cells_def)
qed

lemma commit_block_owner:
  assumes "os_state s" "r < g_dram_region_count s" "q < g_dram_region_count s"
  shows "region_owner (commit_block 0 r s) q = (if q = r then 1 else region_owner s q)"
  using commit_block_cells [OF os_stateD(1) [OF assms(1)] assms(2), of 0 "Region Owner q"]
    valid_region [OF os_stateD(1) [OF assms(1)] assms(3)]
  by (simp add: bitmap_home_def)

lemma put_owner_same_tables:
  assumes "wf_monitor s" "r < g_dram_region_count s"
  shows "same_tables s (put_cell (Region f r) w s)"
  using assms valid_core [OF assms(1)] valid_region [OF assms]
  by (simp add: same_tables_def tables.get_put)

lemma put_owner_owner:
  assumes "wf_monitor s" "r < g_dram_region_count s" "q < g_dram_region_count s"
  shows "region_owner (put_cell (Region f r) w s) q = (if q = r \<and> f = Owner then w else region_owner s q)"
  using assms valid_region by (auto simp add: tables.get_put)

lemma shift_ge_2:
  assumes "wf_monitor s"
  shows "2 \<le> unat (g_dram_region_shift s)"
proof (rule ccontr)
  assume "\<not> 2 \<le> unat (g_dram_region_shift s)"
  then have "unat (g_dram_region_shift s) \<le> 1" by simp
  then have "(2 :: nat) ^ unat (g_dram_region_shift s) \<le> 2 ^ 1" by (rule power_increasing) simp
  moreover have "8 \<le> unat (g_monitor_top s)"
    using assms unfolding wf_monitor_def wf_layout_def by linarith
  ultimately show False using assms unfolding wf_monitor_def by simp
qed

lemma special_id_region_0:
  assumes "wf_geometry s" "2 \<le> unat (g_dram_region_shift s)" "os_owner w"
  shows "dram_region_for s w = 0"
proof -
  obtain n where n: "unat (g_dram_region_shift s) + n < 64"
    "g_dram_region_mask s = push_bit (unat (g_dram_region_shift s)) (mask n)"
    using assms(1) unfolding wf_geometry_def by blast
  have "\<not> bit w i" if "2 \<le> i" for i
  proof -
    have "w = take_bit 2 w" using assms(3) by (auto simp: os_owner_def take_bit_eq_mod)
    with that show ?thesis by (metis bit_take_bit_iff linorder_not_less)
  qed
  then show ?thesis
    unfolding dram_region_for_field [OF n(2,1)]
    using assms(2) by (intro bit_word_eqI) (auto simp: bit_simps)
qed

text \<open>
  \<open>no_enclave_owner\<close>: region 0 is the OS's and the owner of every region is one of the four values that name no
  enclave. It says nothing about the flush pointers or the caller, and the booted monitor satisfies it too. No
  enclave identifier is then valid but the null one.
\<close>

definition no_enclave_owner :: "mstate \<Rightarrow> bool" where
  "no_enclave_owner s \<longleftrightarrow> wf_geometry s \<and> 2 \<le> unat (g_dram_region_shift s) \<and>
     region_owner s 0 = null_enclave_id \<and> (\<forall>r<g_dram_region_count s. os_owner (region_owner s r))"

lemma os_state_no_enclave: "os_state s \<Longrightarrow> no_enclave_owner s"
  using shift_ge_2 [of s] by (simp add: os_state_def no_enclave_owner_def wf_monitorD)

lemma valid_enclave_id_null:
  assumes "no_enclave_owner s" "is_valid_enclave_id s w"
  shows "w = 0"
proof -
  note geo = assms(1) [unfolded no_enclave_owner_def]
  have w: "region_owner s (clamped_dram_region_for s w) = w"
    using assms(2) by (simp add: is_valid_enclave_id_def)
  then have "os_owner w"
    using geo clamped_dram_region_for_lt [of s w] by metis
  then have "clamped_dram_region_for s w = 0"
    using geo by (simp add: clamped_dram_region_for_def special_id_region_0)
  with w geo show ?thesis by simp
qed

text \<open>Wiping at or above an address keeps what lies below it.\<close>

lemma bzero_below:
  "\<exists>m'. bzero m a n = Some m' \<and> (\<forall>b. unat b < unat a \<longrightarrow> m' b = m b)"
proof -
  have "fill m a (unat n) 0 b = m b" if "unat a + unat n < 2 ^ 64" "unat b < unat a" for b
  proof -
    have "\<not> unat (b - a) < unat n"
      using that unat_sub_if' [of b a] by (simp split: if_splits)
    then show ?thesis using unat_less64 [of n] by (simp add: fill_apply)
  qed
  then show ?thesis by (auto simp: bzero_def memset_fill)
qed

lemma dram_region_start_unat:
  assumes "wf_geometry s" "r \<le> g_dram_region_count s"
  shows "unat (dram_region_start s r) = unat r * 2 ^ unat (g_dram_region_shift s)"
proof -
  obtain n where n: "unat (g_dram_region_shift s) + n < 64" "n \<le> 16" "g_dram_region_count s = 2 ^ n"
    using assms(1) unfolding wf_geometry_def by blast
  have "unat r \<le> 2 ^ n" using assms(2) n by (simp add: word_le_nat_alt unat_exp_64)
  then have "unat r * 2 ^ unat (g_dram_region_shift s) \<le> 2 ^ n * 2 ^ unat (g_dram_region_shift s)" by simp
  also have "\<dots> = 2 ^ (n + unat (g_dram_region_shift s))" by (simp add: power_add)
  also have "\<dots> < 2 ^ 64" using n by (intro power_strict_increasing) simp_all
  finally have lt: "unat r * 2 ^ unat (g_dram_region_shift s) < 2 ^ 64" .
  have "dram_region_start s r = word_of_nat (unat r * 2 ^ unat (g_dram_region_shift s))"
    using n by (simp add: dram_region_start_def sll64_small push_bit_eq_mult)
  then show ?thesis using lt by (rule unat_of_pos)
qed


lemma region_start_above:
  assumes "wf_monitor s" "r < g_dram_region_count s" "r \<noteq> 0"
  shows "unat (g_monitor_top s) \<le> unat (dram_region_start s r)"
proof -
  have "0 < unat r" using assms(3) by (simp add: unat_gt_0)
  then have "2 ^ unat (g_dram_region_shift s) \<le> unat r * 2 ^ unat (g_dram_region_shift s)" by simp
  moreover have "unat (dram_region_start s r) = unat r * 2 ^ unat (g_dram_region_shift s)"
    using assms by (intro dram_region_start_unat) (simp_all add: wf_monitorD less_imp_le)
  ultimately show ?thesis using assms(1) unfolding wf_monitor_def by linarith
qed

lemma put_cell_mem_twice: "(put_cell k v s)\<lparr>mem := m\<rparr> = s\<lparr>mem := m\<rparr>"
  by (simp add: put_cell_def)

text \<open>Making a free region a metadata region always returns and touches its two cells and memory
  above the tables.\<close>

lemma init_metadata_region_cells:
  assumes "wf_monitor s" "r < g_dram_region_count s" "r \<noteq> 0"
  obtains m where "init_metadata_region r s = Some (s\<lparr>mem := m\<rparr>)"
    and "\<And>c. valid_cell s c \<Longrightarrow> get_cell (s\<lparr>mem := m\<rparr>) c =
      (if c = Region Owner r then 2 else if c = Region Pinned_pages r then 0 else get_cell s c)"
proof -
  define u where "u = put_cell (Region Pinned_pages r) 0 (put_cell (Region Owner r) 2 s)"
  have start: "dram_region_start u r = dram_region_start s r"
    by (simp add: dram_region_start_def u_def)
  obtain m where m: "bzero (mem u) (dram_region_start s r) (sll64 (g_metadata_region_start s) page_shift) = Some m"
    "\<forall>b. unat b < unat (dram_region_start s r) \<longrightarrow> m b = mem u b"
    using bzero_below by blast
  have "init_metadata_region r s = Some (u\<lparr>mem := m\<rparr>)"
    using m(1) start by (simp add: init_metadata_region_def Let_def u_def)
  moreover have "u\<lparr>mem := m\<rparr> = s\<lparr>mem := m\<rparr>" by (simp add: u_def put_cell_mem_twice)
  moreover have "get_cell (u\<lparr>mem := m\<rparr>) c = get_cell u c" if "valid_cell s c" for c
    using that m(2) region_start_above [OF assms]
    by (intro get_cell_bytes_above) (auto simp: u_def)
  moreover have "get_cell u c = (if c = Region Owner r then 2 else if c = Region Pinned_pages r then 0
      else get_cell s c)" if "valid_cell s c" for c
    using that valid_region [OF assms(1,2)] by (auto simp: u_def tables.get_put)
  ultimately show ?thesis using that by metis
qed

lemma create_os:
  assumes "os_state s" "create_metadata_region r s = Some (code, t)" "code = monitor_ok"
  shows "r < g_dram_region_count s" "region_owner s r = 3" "same_tables s t"
    and "q < g_dram_region_count s \<Longrightarrow> region_owner t q = (if q = r then 2 else region_owner s q)"
    and "valid_cell s c \<Longrightarrow> get_cell t c =
      (if c = Region Owner r then 2 else if c = Region Pinned_pages r then 0 else get_cell s c)"
proof -
  note wf = os_stateD(1) [OF assms(1)]
  have o: "r < g_dram_region_count s" "region_owner s r = 3" "init_metadata_region r s = Some t"
    using create_outcome [OF assms(2)] assms(3) by auto
  then have "r \<noteq> 0" using os_stateD(3) [OF assms(1)] by auto
  then obtain m where m: "t = s\<lparr>mem := m\<rparr>"
    "\<And>c. valid_cell s c \<Longrightarrow> get_cell t c =
      (if c = Region Owner r then 2 else if c = Region Pinned_pages r then 0 else get_cell s c)"
    using init_metadata_region_cells [OF wf o(1)] o(3) by (metis option.inject)
  show "r < g_dram_region_count s" "region_owner s r = 3" using o by simp_all
  have core: "current_core (s\<lparr>mem := m\<rparr>) = current_core s" by (simp add: current_core_def)
  show "same_tables s t" using m(2) valid_core [OF wf] by (simp add: same_tables_def m(1) core)
  show "q < g_dram_region_count s \<Longrightarrow> region_owner t q = (if q = r then 2 else region_owner s q)"
    using m(2) valid_region [OF wf] by simp
  show "valid_cell s c \<Longrightarrow> get_cell t c =
      (if c = Region Owner r then 2 else if c = Region Pinned_pages r then 0 else get_cell s c)"
    by (rule m(2))
qed

lemma assign_os:
  assumes "os_state s" "assign_dram_region r w s = (code, t)" "code = monitor_ok"
  shows "r < g_dram_region_count s" "region_owner s r = 3" "w = 0" "same_tables s t"
    and "q < g_dram_region_count s \<Longrightarrow> region_owner t q = (if q = r then 0 else region_owner s q)"
    and "valid_cell s c \<Longrightarrow> \<forall>i. c \<noteq> Os_bitmap_word i \<Longrightarrow>
      get_cell t c = (if c = Region Owner r then 0 else get_cell s c)"
proof -
  note wf = os_stateD(1) [OF assms(1)]
  define u where "u = put_cell (Region Owner r) w s"
  have o: "r < g_dram_region_count s" "region_owner s r = 3" "is_valid_enclave_id s w"
    "t = (let v = set_enclave_region_bitmap_bit w r True u
          in if w = 0 then set_drb_map (g_os_region_bitmap v) v else v)"
    using assign_outcome [OF assms(2)] assms(3) unfolding u_def Let_def by blast+
  show "r < g_dram_region_count s" "region_owner s r = 3" using o by simp_all
  show w: "w = 0" by (rule valid_enclave_id_null [OF os_state_no_enclave [OF assms(1)] o(3)])
  define v where "v = set_enclave_region_bitmap_bit w r True u"
  have t: "t = set_drb_map (g_os_region_bitmap v) v" using o(4) by (simp add: w v_def Let_def)
  obtain m where m: "v = u\<lparr>mem := m\<rparr>" unfolding v_def using set_enclave_bit_mem by blast
  have keep: "get_cell t c = get_cell u c" if "valid_cell s c" "\<forall>i. c \<noteq> Os_bitmap_word i" for c
    unfolding t drb_frame unfolding v_def
    by (rule set_enclave_bit_cells) (use that wf o(1) in \<open>simp_all add: u_def bitmap_home_def w\<close>)
  have "same_tables s u" unfolding u_def by (rule put_owner_same_tables [OF wf o(1)])
  moreover have "same_tables u t"
    using keep valid_core [OF wf] m
    by (simp add: same_tables_def t set_drb_map_def write_csr_def current_core_def u_def)
  ultimately show "same_tables s t" by (rule same_tables_trans)
  show "q < g_dram_region_count s \<Longrightarrow> region_owner t q = (if q = r then 0 else region_owner s q)"
    using keep [OF valid_region [OF wf]] put_owner_owner [OF wf o(1)] by (simp add: u_def w)
  show "valid_cell s c \<Longrightarrow> \<forall>i. c \<noteq> Os_bitmap_word i \<Longrightarrow>
      get_cell t c = (if c = Region Owner r then 0 else get_cell s c)"
    using keep valid_region [OF wf o(1)] by (simp add: u_def w tables.get_put)
qed

lemma free_os:
  assumes "os_state s" "free_dram_region r s = (code, t)" "code = monitor_ok"
  shows "r < g_dram_region_count s" "region_owner s r \<in> {1, 2}" "same_tables s t"
    and "q < g_dram_region_count s \<Longrightarrow> region_owner t q = (if q = r then 3 else region_owner s q)"
  using free_outcome [OF assms(2)] assms(3) put_owner_same_tables [OF os_stateD(1) [OF assms(1)]]
    put_owner_owner [OF os_stateD(1) [OF assms(1)]] by auto

lemma block_os:
  assumes "os_state s" "block_dram_region r s = (code, t)" "code = monitor_ok"
  shows "r < g_dram_region_count s" "r \<noteq> 0" "region_owner s r = 0" "same_tables s t"
    and "q < g_dram_region_count s \<Longrightarrow> region_owner t q = (if q = r then 1 else region_owner s q)"
  using block_outcome [OF assms(2)] assms(3) os_stateD(2) [OF assms(1)]
    commit_block_same_tables [OF assms(1)] commit_block_owner [OF assms(1)]
  by (auto simp: is_dynamic_dram_region_def is_valid_dram_region_def)

text \<open>The flush writes where the current core's \<open>flushed_at\<close> word points.\<close>

lemma flush_eq:
  "dram_region_tlb_flush s =
     s\<lparr>mem := st64 (mem s) (get_cell s (Core Flushed_at (current_core s))) (block_clock s),
       tlb_flushes := tlb_flushes s + 1\<rparr>"
  by (simp add: dram_region_tlb_flush_def flush_tlbs_def Let_def atomic_store_def atomic_load_def
      get_cell_def [of _ Block_clock] current_core_def)

lemma flush_cells:
  assumes "os_state s" "valid_cell s c"
  shows "get_cell (dram_region_tlb_flush s) c = get_cell s c"
proof -
  have "above_tables s (get_cell s (Core Flushed_at (current_core s))) 8"
    using os_stateD(1,5) [OF assms(1)] current_core_valid by blast
  then show ?thesis using assms(2) by (simp add: flush_eq get_cell_write_above)
qed

lemma flush_same_tables: "os_state s \<Longrightarrow> same_tables s (dram_region_tlb_flush s)"
  using flush_cells [of s] os_stateD(1) valid_core
  by (simp add: same_tables_def) (simp add: flush_eq current_core_def)


section \<open>The ownership protocol\<close>

text \<open>
  What the calls promise: a partial map from regions to owners, and the change each granted
  call makes to it. \<open>perform\<close> runs a call of the OS on the monitor; \<open>abs_owners\<close> reads the map.
\<close>

datatype region_call =
    Block u64 | Check_ownership u64 | Region_state u64 | Region_owner_of u64
  | Set_dma u64 u64 | Create_metadata u64 | Assign u64 u64 | Free u64 | Flush

fun perform :: "region_call \<Rightarrow> mstate \<Rightarrow> (u64 \<times> mstate) option" where
  "perform (Block r) s = (let (code, t) = block_dram_region r s in Some (api_code code, t))"
| "perform (Check_ownership r) s =
     (let (code, t) = dram_region_check_ownership r s in Some (api_code code, t))"
| "perform (Region_state r) s =
     (let (st, t) = dram_region_state r s in Some (dram_region_state_code st, t))"
| "perform (Region_owner_of r) s = Some (dram_region_owner r s)"
| "perform (Set_dma base msk) s = map_option (map_prod api_code id) (set_dma_range base msk s)"
| "perform (Create_metadata r) s = map_option (map_prod api_code id) (create_metadata_region r s)"
| "perform (Assign r w) s = (let (code, t) = assign_dram_region r w s in Some (api_code code, t))"
| "perform (Free r) s = (let (code, t) = free_dram_region r s in Some (api_code code, t))"
| "perform Flush s = (let (code, t) = flush_cached_dram_regions s in Some (api_code code, t))"

fun_cases perform_SomeE: "perform c s = Some p"

definition abs_owners :: "mstate \<Rightarrow> u64 \<rightharpoonup> u64" where
  "abs_owners s = (\<lambda>r. if r < g_dram_region_count s then Some (region_owner s r) else None)"

inductive own_step :: "(u64 \<rightharpoonup> u64) \<Rightarrow> region_call \<Rightarrow> (u64 \<rightharpoonup> u64) \<Rightarrow> bool" where
  own_block: "w r = Some null_enclave_id \<Longrightarrow> r \<noteq> 0 \<Longrightarrow> own_step w (Block r) (w(r \<mapsto> blocked_enclave_id))"
| own_free_blocked: "w r = Some blocked_enclave_id \<Longrightarrow> own_step w (Free r) (w(r \<mapsto> free_enclave_id))"
| own_free_metadata: "w r = Some metadata_enclave_id \<Longrightarrow> own_step w (Free r) (w(r \<mapsto> free_enclave_id))"
| own_metadata: "w r = Some free_enclave_id \<Longrightarrow> own_step w (Create_metadata r) (w(r \<mapsto> metadata_enclave_id))"
| own_assign: "w r = Some free_enclave_id \<Longrightarrow> own_step w (Assign r null_enclave_id) (w(r \<mapsto> null_enclave_id))"
| own_same: "own_step w c w"

inductive_simps own_step_block: "own_step w (Block r) w'"
inductive_simps own_step_flush: "own_step w Flush w'"
inductive_cases own_stepE: "own_step w c w'"

lemma api_code_0: "api_code c = 0 \<longleftrightarrow> c = monitor_ok"
  by (cases c) simp_all

lemma abs_owners_upd:
  assumes "same_tables s t" "r < g_dram_region_count s"
    and "\<And>q. q < g_dram_region_count s \<Longrightarrow> region_owner t q = (if q = r then w else region_owner s q)"
  shows "abs_owners t = (abs_owners s)(r \<mapsto> w)"
  using assms by (auto simp: abs_owners_def same_tables_def)

lemma abs_owners_same:
  assumes "same_tables s t" "\<And>q. q < g_dram_region_count s \<Longrightarrow> region_owner t q = region_owner s q"
  shows "abs_owners t = abs_owners s"
  using assms by (auto simp: abs_owners_def same_tables_def)

text \<open>A step that changes the owner of one region other than 0 keeps the OS's state.\<close>

lemma os_state_upd:
  assumes "os_state s" "same_tables s t" "r \<noteq> 0" "os_owner w"
    and "\<And>q. q < g_dram_region_count s \<Longrightarrow> region_owner t q = (if q = r then w else region_owner s q)"
  shows "os_state t"
proof (rule os_state_step [OF assms(1,2)])
  have "0 < g_dram_region_count s" using os_stateD(1) [OF assms(1)] by (simp add: wf_monitor_def wf_layout_def)
  then show "region_owner t 0 = 0" using assms(3,5) os_stateD(3) [OF assms(1)] by simp
qed (use assms os_stateD(4) [OF assms(1)] in auto)


lemma special_owners [simp]:
  "os_owner 0" "os_owner 1" "os_owner 2" "os_owner 3"
  by (simp_all add: os_owner_def)

lemma region_0_valid: "wf_monitor s \<Longrightarrow> 0 < g_dram_region_count s"
  by (simp add: wf_monitor_def wf_layout_def)

lemma abs_owners_Some: "r < g_dram_region_count s \<Longrightarrow> abs_owners s r = Some (region_owner s r)"
  by (simp add: abs_owners_def)

lemma block_refines:
  assumes "os_state s" "block_dram_region r s = (code, t)"
  shows "os_state t \<and> own_step (abs_owners s) (Block r) (abs_owners t)"
proof (cases "code = monitor_ok")
  case True
  note b = block_os [OF assms True]
  have "abs_owners t = (abs_owners s)(r \<mapsto> 1)" using b by (intro abs_owners_upd) auto
  moreover have "os_state t" using b by (intro os_state_upd [OF assms(1), where r = r and w = 1]) auto
  ultimately show ?thesis using own_block [of "abs_owners s" r] b by (simp add: abs_owners_Some)
qed (use block_outcome [OF assms(2)] assms(1) own_same in auto)

lemma free_refines:
  assumes "os_state s" "free_dram_region r s = (code, t)"
  shows "os_state t \<and> own_step (abs_owners s) (Free r) (abs_owners t)"
proof (cases "code = monitor_ok")
  case True
  note b = free_os [OF assms True]
  have "r \<noteq> 0" using b(2) os_stateD(3) [OF assms(1)] by auto
  then have "os_state t" using b by (intro os_state_upd [OF assms(1), where r = r and w = 3]) auto
  moreover have "abs_owners t = (abs_owners s)(r \<mapsto> 3)" using b by (intro abs_owners_upd) auto
  ultimately show ?thesis
    using own_free_blocked [of "abs_owners s" r] own_free_metadata [of "abs_owners s" r] b
    by (auto simp: abs_owners_Some)
qed (use free_outcome [OF assms(2)] assms(1) own_same in auto)

lemma create_refines:
  assumes "os_state s" "create_metadata_region r s = Some (code, t)"
  shows "os_state t \<and> own_step (abs_owners s) (Create_metadata r) (abs_owners t)"
proof (cases "code = monitor_ok")
  case True
  note b = create_os [OF assms True]
  have "r \<noteq> 0" using b(2) os_stateD(3) [OF assms(1)] by auto
  then have "os_state t" using b by (intro os_state_upd [OF assms(1), where r = r and w = 2]) auto
  moreover have "abs_owners t = (abs_owners s)(r \<mapsto> 2)" using b by (intro abs_owners_upd) auto
  ultimately show ?thesis
    using own_metadata [of "abs_owners s" r] b by (auto simp: abs_owners_Some)
qed (use create_outcome [OF assms(2)] assms(1) own_same in auto)

lemma assign_refines:
  assumes "os_state s" "assign_dram_region r w s = (code, t)"
  shows "os_state t \<and> own_step (abs_owners s) (Assign r w) (abs_owners t)"
proof (cases "code = monitor_ok")
  case True
  note b = assign_os [OF assms True]
  have "r \<noteq> 0" using b(2) os_stateD(3) [OF assms(1)] by auto
  then have "os_state t" using b by (intro os_state_upd [OF assms(1), where r = r and w = 0]) auto
  moreover have "abs_owners t = (abs_owners s)(r \<mapsto> 0)" using b by (intro abs_owners_upd) auto
  ultimately show ?thesis
    using own_assign [of "abs_owners s" r] b by (auto simp: abs_owners_Some)
qed (use assign_outcome [OF assms(2)] assms(1) own_same in auto)

lemma flush_refines:
  assumes "os_state s"
  shows "os_state (dram_region_tlb_flush s) \<and> abs_owners (dram_region_tlb_flush s) = abs_owners s"
proof -
  note wf = os_stateD(1) [OF assms]
  have o: "region_owner (dram_region_tlb_flush s) q = region_owner s q" if "q < g_dram_region_count s" for q
    using that by (intro flush_cells [OF assms] valid_region [OF wf])
  have "os_state (dram_region_tlb_flush s)"
    by (rule os_state_step [OF assms flush_same_tables [OF assms]])
      (use o os_stateD(3,4) [OF assms] region_0_valid [OF wf] in auto)
  then show ?thesis using abs_owners_same [OF flush_same_tables [OF assms] o] by simp
qed

lemma dma_refines:
  assumes "os_state s" "set_dma_range base msk s = Some (code, t)"
  shows "os_state t \<and> abs_owners t = abs_owners s"
proof -
  have "same_tables s (s\<lparr>g_dma_range_start := a, g_dma_range_end := b\<rparr>)" for a b
    by (simp add: same_tables_def current_core_def)
  then show ?thesis
    using dma_outcome [OF assms(2)] assms(1) os_state_step [OF assms(1), of t] os_stateD(3,4) [OF assms(1)]
      abs_owners_same [of s t] by auto
qed

lemma perform_refines:
  assumes "os_state s" "perform c s = Some (code, t)"
  shows "os_state t \<and> own_step (abs_owners s) c (abs_owners t)"
proof (cases c)
  case (Block r)
  obtain k u where "block_dram_region r s = (k, u)" by fastforce
  with Block assms block_refines [OF assms(1) this] show ?thesis by simp
next
  case (Free r)
  obtain k u where "free_dram_region r s = (k, u)" by fastforce
  with Free assms free_refines [OF assms(1) this] show ?thesis by simp
next
  case (Assign r w)
  obtain k u where "assign_dram_region r w s = (k, u)" by fastforce
  with Assign assms assign_refines [OF assms(1) this] show ?thesis by simp
next
  case (Create_metadata r)
  with assms create_refines [OF assms(1)] show ?thesis by auto
next
  case (Set_dma base msk)
  with assms obtain k where "set_dma_range base msk s = Some (k, t)" by auto
  from dma_refines [OF assms(1) this] show ?thesis by (simp add: own_same)
next
  case Flush
  with assms flush_refines [OF assms(1)] show ?thesis
    by (auto simp: flush_cached_dram_regions_def own_same)
qed (use assms own_same in \<open>auto simp: Let_def split: prod.splits dest: query_outcome\<close>)


interpretation regions: simulation perform os_state abs_owners own_step
  by unfold_locales (rule perform_refines)


section \<open>A region blocked after the last recorded flush stays blocked\<close>

definition stuck :: "u64 \<Rightarrow> u64 \<Rightarrow> u64 \<Rightarrow> mstate \<Rightarrow> bool" where
  "stuck r c v s \<longleftrightarrow> os_state s \<and> r < g_dram_region_count s \<and> c < g_core_count s \<and>
     region_owner s r = blocked_enclave_id \<and>
     get_cell s (Core Flushed_at c) = v \<and> v < get_cell s (Region Blocked_at r)"

lemma stuck_keep:
  assumes "stuck r c v s" "os_state t" "same_tables s t"
    and "region_owner t r = region_owner s r"
    and "get_cell t (Region Blocked_at r) = get_cell s (Region Blocked_at r)"
  shows "stuck r c v t"
  using assms by (simp add: stuck_def same_tables_def)

lemma stuckD:
  assumes "stuck r c v s"
  shows "os_state s" "r < g_dram_region_count s" "c < g_core_count s" "region_owner s r = 1"
    "\<not> can_free s (get_cell s (Region Blocked_at r))" "valid_cell s (Region f r)"
  using assms valid_region [OF os_stateD(1)]
  by (auto simp: stuck_def can_free_def list_all_iff)

lemma stuck_step:
  assumes st: "stuck r c v s" and p: "perform k s = Some (code, t)"
  shows "stuck r c v t"
proof -
  note os = stuckD(1) [OF st] and r = stuckD(2) [OF st] and blk = stuckD(4) [OF st]
  note v = valid_region [OF os_stateD(1) [OF os] r]
  have t: "os_state t" using perform_refines [OF os p] by simp
  show ?thesis
  proof (cases k)
    case (Block q)
    then obtain e where e: "block_dram_region q s = (e, t)"
      using p by (auto simp: Let_def split: prod.splits)
    show ?thesis
    proof (cases "e = monitor_ok")
      case True
      note b = block_os [OF os e True]
      have "t = commit_block 0 q s" using block_outcome [OF e] True os_stateD(2) [OF os] by auto
      then have "get_cell t (Region f r) = get_cell s (Region f r)" for f
        using commit_block_cells [OF os_stateD(1) [OF os] b(1), of 0 "Region f r"] v b(3) blk
        by (auto simp: bitmap_home_def)
      then show ?thesis using stuck_keep [OF st t b(4)] by simp
    qed (use block_outcome [OF e] st in auto)
  next
    case (Free q)
    then obtain e where e: "free_dram_region q s = (e, t)"
      using p by (auto simp: Let_def split: prod.splits)
    show ?thesis
    proof (cases "e = monitor_ok")
      case True
      note b = free_os [OF os e True]
      have eq: "t = put_cell (Region Owner q) 3 s" and ne: "q \<noteq> r"
        using free_outcome [OF e] True blk stuckD(5) [OF st] by auto
      have "get_cell t (Region f r) = get_cell s (Region f r)" for f
        using ne v valid_region [OF os_stateD(1) [OF os] b(1)] by (simp add: eq tables.get_put)
      then show ?thesis using stuck_keep [OF st t b(3)] by simp
    qed (use free_outcome [OF e] st in auto)
  next
    case (Create_metadata q)
    then obtain e where e: "create_metadata_region q s = Some (e, t)" using p by auto
    show ?thesis
    proof (cases "e = monitor_ok")
      case True
      note b = create_os [OF os e True]
      have "q \<noteq> r" using b(2) blk by auto
      then show ?thesis using stuck_keep [OF st t b(3)] b(5) v by simp
    qed (use create_outcome [OF e] st in auto)
  next
    case (Assign q w)
    then obtain e where e: "assign_dram_region q w s = (e, t)"
      using p by (auto simp: Let_def split: prod.splits)
    show ?thesis
    proof (cases "e = monitor_ok")
      case True
      note b = assign_os [OF os e True]
      have "q \<noteq> r" using b(2) blk by auto
      then show ?thesis using stuck_keep [OF st t b(4)] b(6) v by simp
    qed (use assign_outcome [OF e] st in auto)
  next
    case (Set_dma base msk)
    then obtain e where e: "set_dma_range base msk s = Some (e, t)" using p by auto
    then show ?thesis using dma_outcome [OF e] st t by (auto simp: stuck_def)
  next
    case Flush
    then have "t = dram_region_tlb_flush s" using p by (simp add: flush_cached_dram_regions_def)
    then show ?thesis
      using stuck_keep [OF st t] flush_same_tables [OF os] flush_cells [OF os v] by simp
  qed (use p st in \<open>auto simp: Let_def split: prod.splits dest: query_outcome\<close>)
qed

interpretation stuck_region: simulation perform "stuck r c v" abs_owners own_step for r c v
  by unfold_locales (use stuck_step perform_refines stuckD(1) in blast)


section \<open>The OS region bitmap\<close>

text \<open>Up to 16 regions each bit has a mask of its own, and the bitmap shows the OS's regions.\<close>

definition os_bit :: "mstate \<Rightarrow> u64 \<Rightarrow> bool" where
  "os_bit s r = read_bitmap_bit (mem s) (g_os_region_bitmap s) r"

definition bitmap_tracks :: "mstate \<Rightarrow> bool" where
  "bitmap_tracks s \<longleftrightarrow> os_state s \<and> g_dram_region_count s \<le> 16 \<and>
     (\<forall>r<g_dram_region_count s. os_bit s r \<longleftrightarrow> region_owner s r = null_enclave_id)"

lemma os_bit_cell: "os_bit s r \<longleftrightarrow> get_cell s (Os_bitmap_word (r div 64)) AND bitmap_mask r \<noteq> 0"
  by (simp add: os_bit_def read_os_bitmap_bit_cell)

lemma bitmap_key_small: "(r :: u64) < 16 \<Longrightarrow> bitmap_key r"
proof -
  assume r: "r < 16"
  then have "unat r < 16" by (simp add: word_less_nat_alt)
  moreover have "unat (r mod 64) \<le> unat r" by (simp add: unat_mod)
  ultimately show ?thesis by (simp add: bitmap_key_def)
qed

lemma os_bit_set:
  assumes "q < 16" "r < 16"
  shows "os_bit (set_enclave_region_bitmap_bit 0 r v s) q = (if q = r then v else os_bit s q)"
  using bitmap.get_put [OF bitmap_key_small [OF assms(2)] bitmap_key_small [OF assms(1)]]
  by (simp add: os_bit_def set_enclave_region_bitmap_bit_def)

lemma os_bit_frame [simp]:
  "os_bit (set_drb_map a s) r = os_bit s r"
  by (simp add: os_bit_def set_drb_map_def write_csr_def)

lemma os_bit_same:
  assumes "get_cell t (Os_bitmap_word (r div 64)) = get_cell s (Os_bitmap_word (r div 64))"
  shows "os_bit t r = os_bit s r"
  using assms by (simp add: os_bit_cell)

text \<open>Every call that grants writes the bit of the region whose owner it changes, if any.\<close>

lemma commit_block_os_bit:
  assumes "os_state s" "g_dram_region_count s \<le> 16" "r < g_dram_region_count s" "q < g_dram_region_count s"
  shows "os_bit (commit_block 0 r s) q = (if q = r then False else os_bit s q)"
proof -
  note wf = os_stateD(1) [OF assms(1)]
  have "os_bit (block_cells 0 r s) q = os_bit s q"
    using valid_bitmap_word [OF wf assms(4)] wf assms(3) by (intro os_bit_same) (simp add: get_block_cells)
  moreover have "q < 16" "r < 16" using assms by (auto intro: less_le_trans)
  ultimately show ?thesis using commit_block_eq [OF wf assms(3)] by (simp add: os_bit_set)
qed

lemma assign_os_bit:
  assumes "os_state s" "g_dram_region_count s \<le> 16" "assign_dram_region r 0 s = (monitor_ok, t)"
    and "q < g_dram_region_count s"
  shows "os_bit t q = (if q = r then True else os_bit s q)"
proof -
  note wf = os_stateD(1) [OF assms(1)]
  have r: "r < g_dram_region_count s" and
    t: "t = set_drb_map (g_os_region_bitmap (set_enclave_region_bitmap_bit 0 r True (put_cell (Region Owner r) 0 s)))
      (set_enclave_region_bitmap_bit 0 r True (put_cell (Region Owner r) 0 s))"
    using assign_outcome [OF assms(3)] by (auto simp: Let_def)
  have "os_bit (put_cell (Region Owner r) 0 s) q = os_bit s q"
    using valid_bitmap_word [OF wf assms(4)] valid_region [OF wf r]
    by (intro os_bit_same) (simp add: tables.get_put)
  moreover have "q < 16" "r < 16" using assms r by (auto intro: less_le_trans)
  ultimately show ?thesis by (simp add: t os_bit_set)
qed

lemma bitmap_tracks_upd:
  assumes "bitmap_tracks s" "os_state t" "same_tables s t"
    and "\<And>q. q < g_dram_region_count s \<Longrightarrow> region_owner t q = (if q = r then w else region_owner s q)"
    and "\<And>q. q < g_dram_region_count s \<Longrightarrow>
      os_bit t q = (if q = r then w = null_enclave_id else os_bit s q)"
  shows "bitmap_tracks t"
  using assms by (auto simp: bitmap_tracks_def same_tables_def)

lemma bitmap_tracks_nochange:
  assumes "bitmap_tracks s" "os_state t" "same_tables s t"
    and "\<And>q. q < g_dram_region_count s \<Longrightarrow> region_owner t q = region_owner s q"
    and "\<And>q. q < g_dram_region_count s \<Longrightarrow> os_bit t q = os_bit s q"
  shows "bitmap_tracks t"
  using assms by (auto simp: bitmap_tracks_def same_tables_def)

lemma bitmap_tracksD:
  assumes "bitmap_tracks s"
  shows "os_state s" "g_dram_region_count s \<le> 16" "wf_monitor s"
    "r < g_dram_region_count s \<Longrightarrow> os_bit s r \<longleftrightarrow> region_owner s r = 0"
    "r < g_dram_region_count s \<Longrightarrow> valid_cell s (Os_bitmap_word (r div 64))"
  using assms valid_bitmap_word os_stateD(1) by (auto simp: bitmap_tracks_def)


lemma bitmap_tracks_step:
  assumes bt: "bitmap_tracks s" and p: "perform k s = Some (code, t)"
  shows "bitmap_tracks t"
proof -
  note os = bitmap_tracksD(1) [OF bt] and D = bitmap_tracksD [OF bt]
  have t: "os_state t" using perform_refines [OF os p] by simp
  show ?thesis
  proof (cases k)
    case (Block r)
    then obtain e where e: "block_dram_region r s = (e, t)"
      using p by (auto simp: Let_def split: prod.splits)
    show ?thesis
    proof (cases "e = monitor_ok")
      case True
      note b = block_os [OF os e True]
      have "t = commit_block 0 r s" using block_outcome [OF e] True os_stateD(2) [OF os] by auto
      then have "os_bit t q = (if q = r then False else os_bit s q)" if "q < g_dram_region_count s" for q
        using commit_block_os_bit [OF os D(2) b(1) that] by simp
      then show ?thesis using bitmap_tracks_upd [OF bt t b(4,5)] by simp
    qed (use block_outcome [OF e] bt in auto)
  next
    case (Free r)
    then obtain e where e: "free_dram_region r s = (e, t)"
      using p by (auto simp: Let_def split: prod.splits)
    show ?thesis
    proof (cases "e = monitor_ok")
      case True
      note b = free_os [OF os e True]
      have "t = put_cell (Region Owner r) 3 s" using free_outcome [OF e] True by auto
      then have "os_bit t q = os_bit s q" if "q < g_dram_region_count s" for q
        using D(5) [OF that] valid_region [OF D(3) b(1)] by (intro os_bit_same) (simp add: tables.get_put)
      then show ?thesis using bitmap_tracks_upd [OF bt t b(3,4)] D(4) [OF b(1)] b(2) by auto
    qed (use free_outcome [OF e] bt in auto)
  next
    case (Create_metadata r)
    then obtain e where e: "create_metadata_region r s = Some (e, t)" using p by auto
    show ?thesis
    proof (cases "e = monitor_ok")
      case True
      note b = create_os [OF os e True]
      have "os_bit t q = os_bit s q" if "q < g_dram_region_count s" for q
        using b(5) [OF D(5) [OF that]] by (intro os_bit_same) simp
      then show ?thesis using bitmap_tracks_upd [OF bt t b(3,4)] D(4) [OF b(1)] b(2) by auto
    qed (use create_outcome [OF e] bt in auto)
  next
    case (Assign r w)
    then obtain e where e: "assign_dram_region r w s = (e, t)"
      using p by (auto simp: Let_def split: prod.splits)
    show ?thesis
    proof (cases "e = monitor_ok")
      case True
      note b = assign_os [OF os e True]
      have "os_bit t q = (if q = r then True else os_bit s q)" if "q < g_dram_region_count s" for q
        using assign_os_bit [OF os D(2) _ that, of r t] e b(3) True by simp
      then show ?thesis using bitmap_tracks_upd [OF bt t b(4,5)] by simp
    qed (use assign_outcome [OF e] bt in auto)
  next
    case (Set_dma base msk)
    then obtain e where e: "set_dma_range base msk s = Some (e, t)" using p by auto
    then show ?thesis
      using dma_outcome [OF e] bt t by (auto simp: bitmap_tracks_def os_bit_def)
  next
    case Flush
    then have f: "t = dram_region_tlb_flush s" using p by (simp add: flush_cached_dram_regions_def)
    have "os_bit t q = os_bit s q" if "q < g_dram_region_count s" for q
      using flush_cells [OF os D(5) [OF that]] by (intro os_bit_same) (simp add: f)
    then show ?thesis
      using bitmap_tracks_nochange [OF bt t] flush_same_tables [OF os]
        flush_cells [OF os valid_region [OF D(3)]] f by simp
  qed (use p bt in \<open>auto simp: Let_def split: prod.splits dest: query_outcome\<close>)
qed

interpretation tracked: simulation perform bitmap_tracks abs_owners own_step
  by unfold_locales (use bitmap_tracks_step perform_refines bitmap_tracksD(1) in blast)

section \<open>A concrete machine\<close>

text \<open>
  A machine of 64 regions of 4 KB stripes with DRAM at 0, laid out as the boot sequence does:
  core table at 0, region table at 32, clock at 2592, bitmap at 2600; \<open>flushed_at\<close> of core 0
  holds an address above the tables.
\<close>

definition demo0 :: mstate where
  "demo0 = reset_state
     \<lparr>g_core := 0, g_core_count := 1, g_dram_region := 32, g_dram_regions := 2592,
      g_os_region_bitmap := 2600, g_monitor_top := 2608, g_dram_base := 0, g_dram_size := 0x80000000,
      g_dram_region_shift := 12, g_dram_stripe_shift := 18, g_dram_region_mask := 0x3F000,
      g_dram_stripe_size := 4096, g_dram_stripe_pages := 1, g_dram_region_count := 64,
      g_dram_region_bitmap_words := 1, g_metadata_region_pages := 8192, g_metadata_region_start := 1\<rparr>"

text \<open>\<open>demo kvs\<close>: the machine with the given cells set.\<close>

fun set_cells :: "(cell \<times> u64) list \<Rightarrow> mstate \<Rightarrow> mstate" where
  "set_cells [] s = s"
| "set_cells ((k, v) # kvs) s = put_cell k v (set_cells kvs s)"

definition demo :: "(cell \<times> u64) list \<Rightarrow> mstate" where
  "demo kvs = set_cells kvs (put_cell (Core Flushed_at 0) 8192 demo0)"

lemma set_cells_globals [simp]:
  "g_core (set_cells kvs s) = g_core s" "g_core_count (set_cells kvs s) = g_core_count s"
  "g_dram_base (set_cells kvs s) = g_dram_base s" "g_dram_size (set_cells kvs s) = g_dram_size s"
  "g_dram_region_shift (set_cells kvs s) = g_dram_region_shift s"
  "g_dram_region_mask (set_cells kvs s) = g_dram_region_mask s"
  "g_dram_region_count (set_cells kvs s) = g_dram_region_count s"
  "g_dram_stripe_size (set_cells kvs s) = g_dram_stripe_size s"
  "g_os_region_bitmap (set_cells kvs s) = g_os_region_bitmap s"
  "g_monitor_top (set_cells kvs s) = g_monitor_top s"
  "g_dma_range_start (set_cells kvs s) = g_dma_range_start s"
  "g_dma_range_end (set_cells kvs s) = g_dma_range_end s"
  "current_core (set_cells kvs s) = current_core s"
  "wf_monitor (set_cells kvs s) = wf_monitor s"
  "valid_cell (set_cells kvs s) c = valid_cell s c"
  by (induction kvs) auto

lemma get_set_cells:
  assumes "valid_cell s c" "\<forall>(k, v)\<in>set kvs. valid_cell s k"
  shows "get_cell (set_cells kvs s) c = (case map_of kvs c of None \<Rightarrow> get_cell s c | Some v \<Rightarrow> v)"
  using assms(2)
proof (induction kvs)
  case (Cons kv kvs)
  then show ?case using assms(1) by (cases kv) (simp add: tables.get_put)
qed simp

lemma lock_set_cells:
  assumes "r < g_dram_region_count s" "\<forall>(k, v)\<in>set kvs. valid_cell s k"
  shows "region_lock (set_cells kvs s) r = region_lock s r"
  using assms(2)
proof (induction kvs)
  case (Cons kv kvs)
  then show ?case using assms(1) by (cases kv) (simp add: region_lock_put)
qed simp


lemma ldn_zero: "ldn n (\<lambda>_. 0) a = 0"
  by (induction n arbitrary: a) simp_all

lemma demo0_wf: "wf_monitor demo0"
proof -
  have "(0x3F000 :: u64) = push_bit 12 (mask 6)"
    by (simp add: mask_eq_exp_minus_1 push_bit_eq_mult)
  then have "wf_geometry demo0"
    unfolding wf_geometry_def by (intro exI [of _ 6]) (simp add: demo0_def)
  moreover have "wf_layout demo0"
    by (simp add: wf_layout_def demo0_def current_core_def reset_state_def)
  ultimately show ?thesis by (simp add: wf_monitor_def demo0_def)
qed

lemma demo0_globals:
  "g_core demo0 = 0" "g_core_count demo0 = 1" "g_dram_base demo0 = 0" "g_dram_size demo0 = 0x80000000"
  "g_dram_region_shift demo0 = 12" "g_dram_region_mask demo0 = 0x3F000" "g_dram_region_count demo0 = 64"
  "g_dram_stripe_size demo0 = 4096" "g_monitor_top demo0 = 2608" "g_dma_range_start demo0 = 0"
  "g_dma_range_end demo0 = 0" "current_core demo0 = 0"
  by (simp_all add: demo0_def reset_state_def current_core_def)

lemma demo_globals [simp]:
  "g_core (demo kvs) = 0" "g_core_count (demo kvs) = 1" "g_dram_base (demo kvs) = 0"
  "g_dram_size (demo kvs) = 0x80000000"
  "g_dram_region_shift (demo kvs) = 12" "g_dram_region_mask (demo kvs) = 0x3F000"
  "g_dram_region_count (demo kvs) = 64" "g_dram_stripe_size (demo kvs) = 4096"
  "g_monitor_top (demo kvs) = 2608" "g_dma_range_start (demo kvs) = 0"
  "g_dma_range_end (demo kvs) = 0" "current_core (demo kvs) = 0" "wf_monitor (demo kvs)"
  by (simp_all add: demo_def demo0_globals demo0_wf)

lemma demo_valid [simp]:
  "r < 64 \<Longrightarrow> valid_cell demo0 (Region f r)" "valid_cell demo0 (Core g 0)"
  "valid_cell demo0 Block_clock" "valid_cell demo0 (Os_bitmap_word 0)"
  using demo0_wf by (auto simp: valid_cell_def wf_monitor_def demo0_globals) (simp add: demo0_def)

text \<open>Reading a cell of the concrete machine is looking it up in the list.\<close>

lemma demo_cell:
  assumes "valid_cell demo0 c" "\<forall>(k, v)\<in>set kvs. valid_cell demo0 k"
  shows "get_cell (demo kvs) c =
    (case map_of kvs c of None \<Rightarrow> (if c = Core Flushed_at 0 then 8192 else 0) | Some v \<Rightarrow> v)"
proof -
  have "get_cell demo0 c = 0"
    by (simp add: get_cell_def demo0_def reset_state_def ld64_def ldn_zero del: cell_addr.simps)
  then show ?thesis using assms unfolding demo_def
    by (subst get_set_cells) (auto simp: tables.get_put split: option.split)
qed

lemma demo_lock:
  assumes "\<forall>(k, v)\<in>set kvs. valid_cell demo0 k" "r < 64"
  shows "region_lock (demo kvs) r = 0"
proof -
  have "region_lock demo0 r = 0"
    by (simp add: region_lock_def demo0_def reset_state_def ld32_def ldn_zero)
  then show ?thesis using assms unfolding demo_def
    by (subst lock_set_cells) (auto simp: region_lock_put demo0_globals)
qed

definition region_cell_list :: "(cell \<times> u64) list \<Rightarrow> bool" where
  "region_cell_list kvs \<longleftrightarrow>
     (\<forall>(k, v)\<in>set kvs. valid_cell demo0 k \<and>
        (case k of Region f r \<Rightarrow> r \<noteq> 0 \<and> (f = Owner \<longrightarrow> os_owner v) | Core f c \<Rightarrow> False | _ \<Rightarrow> True))"

lemma region_cell_listD: "region_cell_list kvs \<Longrightarrow> \<forall>(k, v)\<in>set kvs. valid_cell demo0 k"
  by (auto simp: region_cell_list_def)

lemma demo_os_state:
  assumes "region_cell_list kvs"
  shows "os_state (demo kvs)"
proof -
  note v = region_cell_listD [OF assms]
  have core: "map_of kvs (Core f c) = None" for f c
    using assms by (auto simp: region_cell_list_def map_of_eq_None_iff dest!: bspec)
  have own: "os_owner w" if "map_of kvs (Region Owner r) = Some w" for r w
    using map_of_SomeD [OF that] assms by (auto simp: region_cell_list_def dest!: bspec)
  have r0: "map_of kvs (Region f 0) = None" for f
    using assms by (auto simp: region_cell_list_def map_of_eq_None_iff dest!: bspec)
  have c0: "c = 0" if "c < 1" for c :: u64
    using that by (simp add: word_less_nat_alt unat_eq_0)
  show ?thesis
    unfolding os_state_def
    by (auto simp: current_enclave_def demo_cell v core r0 own above_tables_def dest: c0
        split: option.split)
qed


lemma demo_current [simp]: "region_cell_list kvs \<Longrightarrow> current_enclave (demo kvs) = 0"
  using os_stateD(2) [OF demo_os_state] by blast

lemma demo_block:
  assumes "region_cell_list kvs" "0 < r" "r < 63" "map_of kvs (Region Owner r) = None"
  shows "block_dram_region r (demo kvs) = (monitor_ok, commit_block 0 r (demo kvs))"
proof -
  have r: "0 < unat r" "unat r < 63" using assms by (simp_all add: word_less_nat_alt)
  note wf = demo_globals(13) [of kvs]
  have "unat (r + 1) = unat r + 1"
    using r by (intro unat_of_pos) simp_all
  then have le: "r \<le> g_dram_region_count (demo kvs)" "r + 1 \<le> g_dram_region_count (demo kvs)"
    using r by (simp_all add: word_le_nat_alt)
  have "dram_region_start (demo kvs) r > 0" "dram_region_start (demo kvs) (r + 1) > 0"
    using dram_region_start_unat [OF wf_monitorD(2) [OF wf] le(1)]
      dram_region_start_unat [OF wf_monitorD(2) [OF wf] le(2)] r \<open>unat (r + 1) = unat r + 1\<close>
    by (simp_all add: word_less_nat_alt)
  then have "\<not> dma_range_crossed (demo kvs) r"
    by (auto simp: dma_range_crossed_def Let_def)
  moreover have "r < 64" using assms(3) by (rule less_trans) simp
  moreover have "0 < (64 :: u64)" by simp
  ultimately show ?thesis
    using assms region_cell_listD [OF assms(1)]
    by (simp add: block_dram_region_def is_dynamic_dram_region_def is_valid_dram_region_def Let_def
        demo_lock demo_cell read_dram_region_owner_def dram_region_for_def srl64_def)
qed

lemma demo_run_block:
  "region_cell_list kvs \<Longrightarrow> 0 < r \<Longrightarrow> r < 63 \<Longrightarrow> map_of kvs (Region Owner r) = None \<Longrightarrow>
   run_calls perform [Block r] (demo kvs) = Some (commit_block 0 r (demo kvs))"
  by (simp add: demo_block)

lemma can_free_demo:
  "region_cell_list kvs \<Longrightarrow> can_free (demo kvs) v \<longleftrightarrow> v \<le> 8192"
proof -
  assume v: "region_cell_list kvs"
  then have "map_of kvs (Core Flushed_at 0) = None"
    by (auto simp: region_cell_list_def map_of_eq_None_iff dest!: bspec)
  moreover have "indices 1 = [0]" by (simp add: indices_def)
  ultimately show ?thesis
    using region_cell_listD [OF v] by (simp add: can_free_def demo_cell linorder_not_less)
qed

lemma demo_free:
  assumes "region_cell_list kvs" "r < 64" "map_of kvs (Region Owner r) = Some 1"
    and "map_of kvs (Region Blocked_at r) = None"
  shows "free_dram_region r (demo kvs) = (monitor_ok, put_cell (Region Owner r) 3 (demo kvs))"
  using assms region_cell_listD [OF assms(1)]
  by (simp add: free_dram_region_def is_valid_dram_region_def Let_def demo_lock demo_cell
      read_dram_region_owner_def can_free_demo)

lemma region_cell_list_owners:
  "region_cell_list []"
  "r < 64 \<Longrightarrow> r \<noteq> 0 \<Longrightarrow> os_owner w \<Longrightarrow> region_cell_list kvs \<Longrightarrow> region_cell_list ((Region Owner r, w) # kvs)"
  "r < 64 \<Longrightarrow> r \<noteq> 0 \<Longrightarrow> f \<noteq> Owner \<Longrightarrow> region_cell_list kvs \<Longrightarrow> region_cell_list ((Region f r, w) # kvs)"
  by (auto simp: region_cell_list_def)

text \<open>The stripe loop ends when stripes have a size and the range ends a stripe below the top of the
  address space; with all locks free it runs to the end.\<close>

lemma dma_scan_ends:
  assumes "0 < unat (g_dram_stripe_size s)" "unat e + unat (g_dram_stripe_size s) \<le> 2 ^ 64"
  shows "\<exists>y. dma_scan s a e b = Some y \<and>
    ((\<forall>q. region_lock s q = 0) \<longrightarrow> (\<exists>o'. y = Inr o'))"
proof (induction "unat e - unat a" arbitrary: a b rule: less_induct)
  case less
  show ?case
  proof (cases "a < e")
    case False
    then show ?thesis by (subst dma_scan.simps) simp
  next
    case True
    then have lt: "unat a < unat e" by (simp add: word_less_nat_alt)
    have "a + g_dram_stripe_size s = word_of_nat (unat a + unat (g_dram_stripe_size s))" by simp
    then have "unat (a + g_dram_stripe_size s) = unat a + unat (g_dram_stripe_size s)"
      using lt assms(2) by (intro unat_of_pos) simp_all
    then have "unat e - unat (a + g_dram_stripe_size s) < unat e - unat a"
      using lt assms(1) by linarith
    from less [OF this] obtain y where
      "dma_scan s (a + g_dram_stripe_size s) e (if region_owner s (dram_region_for s a) \<noteq> 0 then False else b) = Some y"
      "(\<forall>q. region_lock s q = 0) \<longrightarrow> (\<exists>o'. y = Inr o')"
      by blast
    with True show ?thesis by (subst dma_scan.simps) (auto simp: Let_def)
  qed
qed

lemma dma_range_end_le:
  assumes "x < n"
  shows "unat (x + 1) \<le> unat (n :: u64)"
proof -
  have "unat x + 1 \<le> unat n" using assms by (simp add: word_less_nat_alt)
  moreover have "unat (x + 1) = unat x + 1"
    using calculation unat_less64 [of n] by (intro unat_of_pos) simp_all
  ultimately show ?thesis by simp
qed

text \<open>The metadata map after its creation is empty.\<close>

lemma bzero_inside:
  assumes "bzero m a n = Some m'" "unat a + unat n < 2 ^ 64" "unat (b - a) < unat n"
  shows "m' b = 0"
  using assms unat_less64 [of n] by (auto simp: bzero_def memset_fill fill_apply)

text \<open>A region and the whole of its first stripe lie below the top of the address space.\<close>

lemma region_stripe_bound:
  assumes "wf_geometry s" "r < g_dram_region_count s"
  shows "unat (dram_region_start s r) + 2 ^ unat (g_dram_region_shift s) < 2 ^ 64"
proof -
  obtain n where n: "unat (g_dram_region_shift s) + n < 64" "g_dram_region_count s = 2 ^ n"
    using assms(1) unfolding wf_geometry_def by blast
  have "unat r < 2 ^ n" using assms(2) n by (simp add: word_less_nat_alt unat_exp_64)
  then have "(unat r + 1) * 2 ^ unat (g_dram_region_shift s) \<le> 2 ^ n * 2 ^ unat (g_dram_region_shift s)"
    by (intro mult_le_mono1) simp
  also have "\<dots> = 2 ^ (unat (g_dram_region_shift s) + n)" by (simp add: power_add)
  also have "\<dots> < 2 ^ 64" using n by (intro power_strict_increasing) simp_all
  finally show ?thesis
    using dram_region_start_unat [OF assms(1), of r] assms(2) by (simp add: algebra_simps less_imp_le)
qed

lemma metadata_map_zeroed:
  assumes "wf_monitor s" "r < g_dram_region_count s" "init_metadata_region r s = Some (s\<lparr>mem := m\<rparr>)"
    and "unat (c - dram_region_start s r) < unat (g_metadata_region_start s) * 4096"
  shows "m c = 0"
proof -
  let ?len = "sll64 (g_metadata_region_start s) page_shift"
  define u where "u = put_cell (Region Pinned_pages r) 0 (put_cell (Region Owner r) 2 s)"
  obtain m' where m': "bzero (mem u) (dram_region_start s r) ?len = Some m'" using bzero_below by blast
  then have "init_metadata_region r s = Some (s\<lparr>mem := m'\<rparr>)"
    by (simp add: init_metadata_region_def Let_def u_def put_cell_mem_twice dram_region_start_def)
  with assms(3) have "s\<lparr>mem := m'\<rparr> = s\<lparr>mem := m\<rparr>" by simp
  then have "mem (s\<lparr>mem := m'\<rparr>) = mem (s\<lparr>mem := m\<rparr>)" by (rule arg_cong)
  with m' have b: "bzero (mem u) (dram_region_start s r) ?len = Some m" by simp
  have le: "unat (g_metadata_region_start s) * 4096 \<le> 2 ^ unat (g_dram_region_shift s)"
    using assms(1) by (simp add: wf_monitor_def)
  note bound = region_stripe_bound [OF wf_monitorD(2) [OF assms(1)] assms(2)]
  have "?len = word_of_nat (unat (g_metadata_region_start s) * 4096)"
    by (simp add: sll64_small push_bit_eq_mult)
  then have len: "unat ?len = unat (g_metadata_region_start s) * 4096"
    using le bound by (intro unat_of_pos) linarith+
  show "m c = 0" using bzero_inside [OF b, of c] assms(4) len le bound by linarith
qed

lemma set_os_bit_33:
  assumes "wf_monitor s" "33 < g_dram_region_count s"
  shows "\<not> os_bit (commit_block 0 33 s) 1"
proof -
  have "bitmap_mask 33 = bitmap_mask 1" by (simp add: bitmap_mask_def int_shl1_def)
  moreover have "(33 :: u64) div 64 = 0" "(1 :: u64) div 64 = 0" by simp_all
  ultimately show ?thesis
    using commit_block_eq [OF assms]
    by (simp add: os_bit_def set_enclave_region_bitmap_bit_def set_bitmap_bit_def read_bitmap_bit_def Let_def
        and.assoc)
qed

text \<open>The concrete machine cut down to two regions, with both bits of the bitmap set.\<close>

definition demo2 :: mstate where
  "demo2 = put_cell (Os_bitmap_word 0) 3
     ((demo [])\<lparr>g_dram_region_count := 2, g_dram_region_mask := 0x1000\<rparr>)"

lemma demo2_facts:
  "g_dram_region_count demo2 = 2" "g_core_count demo2 = 1" "g_monitor_top demo2 = 2608" "current_core demo2 = 0"
  "wf_monitor demo2" "r < 2 \<Longrightarrow> region_owner demo2 r = 0" "r < 2 \<Longrightarrow> region_lock demo2 r = 0"
  "get_cell demo2 (Core Flushed_at 0) = 8192" "get_cell demo2 (Core Enclave_id 0) = 0"
  "get_cell demo2 (Os_bitmap_word 0) = 3" "g_dma_range_start demo2 = 0" "g_dma_range_end demo2 = 0"
  "r < 2 \<Longrightarrow> get_cell demo2 (Region Pinned_pages r) = 0"
proof -
  let ?d = "(demo [])\<lparr>g_dram_region_count := 2, g_dram_region_mask := 0x1000\<rparr>"
  have "(0x1000 :: u64) = push_bit 12 (mask 1)" by simp
  then have geo: "wf_geometry ?d" unfolding wf_geometry_def by (intro exI [of _ 1]) simp
  have w: "wf_layout (demo [])" by (rule wf_monitorD(1)) simp
  then have lay: "wf_layout ?d"
    unfolding wf_layout_def by (simp add: current_core_def)
  have wf: "wf_monitor ?d"
    using demo_globals(13) [of "[]"] geo lay by (simp add: wf_monitor_def)
  have cell: "get_cell ?d c = get_cell (demo []) c" for c
    by (cases c) (simp_all add: get_cell_def region_ptr_def core_ptr_def)
  have bw: "g_dram_region_bitmap_words (demo []) = 1" by (simp add: demo_def demo0_def put_cell_def)
  have v: "valid_cell ?d (Os_bitmap_word 0)" "valid_cell ?d (Core f 0)" "r < 2 \<Longrightarrow> valid_cell ?d (Region f' r)"
    for f f' r
    using wf lay bw by (auto simp: valid_cell_def)
  show "r < 2 \<Longrightarrow> region_owner demo2 r = 0" "r < 2 \<Longrightarrow> get_cell demo2 (Region Pinned_pages r) = 0"
    using v demo_cell [of _ "[]"] less_trans [of r 2 64]
    by (simp_all add: demo2_def tables.get_put cell)
  show "r < 2 \<Longrightarrow> region_lock demo2 r = 0"
    using demo_lock [of "[]" r] less_trans [of r 2 64] v
    by (simp add: demo2_def region_lock_put) (simp add: region_lock_def region_ptr_def)
  show "get_cell demo2 (Core Flushed_at 0) = 8192" "get_cell demo2 (Core Enclave_id 0) = 0"
    "get_cell demo2 (Os_bitmap_word 0) = 3"
    using v demo_cell [of _ "[]"] by (simp_all add: demo2_def tables.get_put cell)
  have core: "current_core ?d = 0" using demo_globals(12) [of "[]"] by (simp add: current_core_def)
  show "g_dram_region_count demo2 = 2" "g_core_count demo2 = 1" "g_monitor_top demo2 = 2608"
    "current_core demo2 = 0" "wf_monitor demo2" "g_dma_range_start demo2 = 0" "g_dma_range_end demo2 = 0"
    using wf core by (simp_all add: demo2_def)
qed

lemma demo2_tracks: "bitmap_tracks demo2"
proof -
  have two: "r = 0 \<or> r = 1" if "r < 2" for r :: u64
    using that word_unat_eq_iff [of r 0] word_unat_eq_iff [of r 1] by (auto simp: word_less_nat_alt)
  have c0: "c = 0" if "c < 1" for c :: u64
    using that by (simp add: word_less_nat_alt unat_eq_0)
  have "os_state demo2"
    unfolding os_state_def current_enclave_def above_tables_def
    using demo2_facts by (auto dest!: c0)
  moreover have "bitmap_mask 0 = 1" "bitmap_mask 1 = 2" by (simp_all add: bitmap_mask_def int_shl1_small)
  ultimately show ?thesis
    using demo2_facts by (auto simp: bitmap_tracks_def os_bit_cell dest!: two)
qed

lemma demo2_block: "block_dram_region 1 demo2 = (monitor_ok, commit_block 0 1 demo2)"
proof -
  note wf = demo2_facts(5)
  have "dram_region_start demo2 1 > 0" "dram_region_start demo2 (1 + 1) > 0"
    using dram_region_start_unat [OF wf_monitorD(2) [OF wf], of 1]
      dram_region_start_unat [OF wf_monitorD(2) [OF wf], of "1 + 1"]
    by (simp_all add: word_less_nat_alt demo2_facts(1))
  then have "\<not> dma_range_crossed demo2 1"
    by (auto simp: dma_range_crossed_def Let_def demo2_facts)
  then show ?thesis
    using os_stateD(2) [of demo2] demo2_tracks
    by (simp add: block_dram_region_def is_dynamic_dram_region_def is_valid_dram_region_def Let_def demo2_facts
        bitmap_tracks_def read_dram_region_owner_def dram_region_for_def srl64_def)
qed

section \<open>Properties\<close>

text \<open>C1: The region calls refine the ownership protocol: from a state in which the OS runs, every
  call that returns keeps the state's invariant (tables well formed, region 0 the OS's, no
  enclave identifier as an owner), and changes the map from regions to owners by a step of
  \<open>own_step\<close>, that is by one of OS to blocked, blocked or metadata to free, free to metadata,
  free to OS for the region named in the call, or not at all.\<close>

theorem region_calls_refine_protocol:
  assumes "os_state s" "perform c s = Some (code, t)"
  shows "os_state t \<and> own_step (abs_owners s) c (abs_owners t)"
  using assms by (rule regions.step_sim)

theorem region_calls_refine_protocol_witness:
  "own_step (abs_owners (demo [])) (Block 1) (abs_owners (commit_block 0 1 (demo [])))"
  using region_calls_refine_protocol [of "demo []" "Block 1" 0 "commit_block 0 1 (demo [])"]
    demo_block [of "[]" 1] demo_os_state [of "[]"] by (simp add: region_cell_list_def)

text \<open>Over any sequence of region calls, an OS-owned region stops being the OS's only if the
  sequence blocks that very region.\<close>

theorem os_region_leaves_only_by_block:
  assumes "os_state s" "run_calls perform cs s = Some t"
    and "r < g_dram_region_count s" "region_owner s r = null_enclave_id" "region_owner t r \<noteq> null_enclave_id"
  shows "Block r \<in> set cs"
proof -
  have "\<exists>c\<in>set cs. \<exists>a b. own_step a c b \<and> a r = Some 0 \<and> b r \<noteq> Some 0"
    using regions.run_crossing [where P = "\<lambda>w. w r = Some 0", OF assms(1) _ _ assms(2)] assms(3-5)
    by (simp add: abs_owners_def)
  then show ?thesis by (auto elim!: own_stepE split: if_splits)
qed

text \<open>Over any sequence of region calls, a blocked region becomes usable again only if the sequence
  frees that very region.\<close>

theorem blocked_region_leaves_only_by_free:
  assumes "os_state s" "run_calls perform cs s = Some t"
    and "r < g_dram_region_count s" "region_owner s r = blocked_enclave_id"
    and "region_owner t r \<noteq> blocked_enclave_id"
  shows "Free r \<in> set cs"
proof -
  have "\<exists>c\<in>set cs. \<exists>a b. own_step a c b \<and> a r = Some 1 \<and> b r \<noteq> Some 1"
    using regions.run_crossing [where P = "\<lambda>w. w r = Some 1", OF assms(1) _ _ assms(2)] assms(3-5)
    by (simp add: abs_owners_def)
  then show ?thesis by (auto elim!: own_stepE split: if_splits)
qed

text \<open>C3: Over any sequence of region calls region 0 stays the OS's, and no region is ever owned by an
  enclave: the owners are the OS and the three special identifiers.\<close>

theorem no_enclave_ever_owns_a_region:
  assumes "os_state s" "run_calls perform cs s = Some t"
  shows "region_owner t 0 = null_enclave_id \<and>
    (\<forall>r<g_dram_region_count t. region_owner t r \<in>
       {null_enclave_id, blocked_enclave_id, metadata_enclave_id, free_enclave_id})"
  using regions.run_inv [OF assms] by (simp add: os_state_def os_owner_def)


theorem os_region_leaves_only_by_block_witness:
  "Block 7 \<in> set [Block (7 :: u64)] \<and> region_owner (commit_block 0 7 (demo [])) 7 = 1"
proof -
  note d = region_cell_list_owners(1)
  have o: "region_owner (commit_block 0 7 (demo [])) 7 = 1"
    using commit_block_owner [OF demo_os_state [OF d], of 7 7] by simp
  have "Block 7 \<in> set [Block (7 :: u64)]"
    by (rule os_region_leaves_only_by_block [OF demo_os_state [OF d] demo_run_block [OF d]])
      (simp_all add: demo_cell o)
  with o show ?thesis by simp
qed

theorem blocked_region_leaves_only_by_free_witness:
  "Free 7 \<in> set [Free (7 :: u64)] \<and>
   region_owner (put_cell (Region Owner 7) 3 (demo [(Region Owner 7, 1)])) 7 = 3"
proof -
  have d: "region_cell_list [(Region Owner 7, 1)]"
    by (intro region_cell_list_owners) simp_all
  have o: "region_owner (put_cell (Region Owner 7) 3 (demo [(Region Owner 7, 1)])) 7 = 3"
    using put_owner_owner [of "demo [(Region Owner 7, 1)]" 7 7] by simp
  have f: "run_calls perform [Free 7] (demo [(Region Owner 7, 1)]) =
      Some (put_cell (Region Owner 7) 3 (demo [(Region Owner 7, 1)]))"
    using demo_free [OF d, of 7] by simp
  have "Free 7 \<in> set [Free (7 :: u64)]"
    by (rule blocked_region_leaves_only_by_free [OF demo_os_state [OF d] f])
      (use o in \<open>simp_all add: demo_cell\<close>)
  with o show ?thesis by simp
qed

theorem no_enclave_ever_owns_a_region_witness:
  "region_owner (commit_block 0 7 (demo [])) 0 = 0"
  using no_enclave_ever_owns_a_region [OF demo_os_state demo_run_block, OF region_cell_list_owners(1)
      region_cell_list_owners(1), of 7] by simp

text \<open>A granted \<open>block_dram_region\<close> marks the region blocked, remembers its previous owner, stamps
  it with the block clock and advances the clock by one; no other word of the tables outside
  the region bitmap changes. (The caller's bitmap is the OS's or lies above the tables.) A
  refused call changes nothing.\<close>

theorem block_dram_region_effect:
  assumes "wf_monitor s" "bitmap_home s (current_enclave s) r" "valid_cell s c"
    and "\<forall>i. c \<noteq> Os_bitmap_word i" "block_dram_region r s = (code, t)"
  shows "get_cell t c =
    (if code \<noteq> monitor_ok then get_cell s c
     else if c = Region Owner r then blocked_enclave_id
     else if c = Region Previous_owner r then current_enclave s
     else if c = Region Blocked_at r then block_clock s
     else if c = Block_clock then block_clock s + 1
     else get_cell s c)"
  using block_outcome [OF assms(5)] commit_block_cells [OF assms(1) _ assms(2,3,4)]
  by (auto simp: is_dynamic_dram_region_def is_valid_dram_region_def)

theorem block_dram_region_effect_witness:
  "get_cell (commit_block 0 7 (demo [(Block_clock, 9)])) (Region Blocked_at 7) = 9"
proof -
  have d: "region_cell_list [(Block_clock, 9)]" by (simp add: region_cell_list_def)
  show ?thesis
    using block_dram_region_effect [of "demo [(Block_clock, 9)]" 7 "Region Blocked_at 7" monitor_ok
        "commit_block 0 7 (demo [(Block_clock, 9)])"] demo_block [OF d, of 7]
      valid_region [of "demo [(Block_clock, 9)]" 7 Blocked_at]
    by (simp add: d bitmap_home_def demo_cell)
qed

text \<open>A blocked region is freed only after every core has recorded a flush at or after the block:
  when \<open>free_dram_region\<close> grants on a blocked region, no core's \<open>flushed_at\<close> is below its
  \<open>blocked_at\<close>.\<close>

theorem free_blocked_needs_flush:
  assumes "free_dram_region r s = (monitor_ok, t)" "region_owner s r = blocked_enclave_id"
    and "c < g_core_count s"
  shows "get_cell s (Region Blocked_at r) \<le> get_cell s (Core Flushed_at c)"
  using free_outcome [OF assms(1)] assms(2,3) by (auto simp: can_free_def list_all_iff not_less)

theorem free_blocked_needs_flush_witness:
  "get_cell (demo [(Region Owner 7, 1)]) (Region Blocked_at 7) \<le> get_cell (demo [(Region Owner 7, 1)]) (Core Flushed_at 0)"
proof -
  have d: "region_cell_list [(Region Owner 7, 1)]"
    by (intro region_cell_list_owners) simp_all
  show ?thesis
    by (rule free_blocked_needs_flush [OF demo_free [OF d]]) (simp_all add: demo_cell)
qed

text \<open>C36: \<open>flush_cached_dram_regions\<close> never records a flush: from a state in which the OS runs, where every
  \<open>flushed_at\<close> word read as an address points above the tables, a region that was blocked at a later
  clock than a core's \<open>flushed_at\<close> stays blocked over every sequence of region calls, flushes included, and
  that \<open>flushed_at\<close> keeps its value: the flush stores the clock at the address \<open>flushed_at\<close> holds and not in
  \<open>flushed_at\<close>.\<close>

theorem blocked_region_stays_blocked:
  assumes "os_state s" "run_calls perform cs s = Some t"
    and "r < g_dram_region_count s" "region_owner s r = blocked_enclave_id"
    and "c < g_core_count s" "get_cell s (Core Flushed_at c) < get_cell s (Region Blocked_at r)"
  shows "region_owner t r = blocked_enclave_id \<and> get_cell t (Core Flushed_at c) = get_cell s (Core Flushed_at c)"
proof -
  have "stuck r c (get_cell s (Core Flushed_at c)) s" using assms by (simp add: stuck_def)
  from stuck_region.run_inv [OF this assms(2)] show ?thesis by (simp add: stuck_def)
qed

theorem blocked_region_stays_blocked_witness:
  "region_owner (dram_region_tlb_flush (demo [(Region Owner 7, 1), (Region Blocked_at 7, 9000)])) 7 = 1"
proof -
  let ?d = "demo [(Region Owner 7, 1), (Region Blocked_at 7, 9000)]"
  have d: "region_cell_list [(Region Owner 7, 1), (Region Blocked_at 7, 9000)]"
    by (intro region_cell_list_owners) simp_all
  have r: "run_calls perform [Flush] ?d = Some (dram_region_tlb_flush ?d)"
    by (simp add: flush_cached_dram_regions_def)
  show ?thesis using blocked_region_stays_blocked [OF demo_os_state [OF d] r, of 7 0] by (simp add: demo_cell)
qed


text \<open>With the core table at address 0, where the boot sequence puts it, and \<open>flushed_at\<close> still 0,
  a flush overwrites the core's enclave identifier with the block clock: the next caller on
  the core is taken for the enclave whose identifier is the clock's value.\<close>

theorem flush_overwrites_caller_identity:
  assumes "g_core s = 0" "current_core s = 0" "get_cell s (Core Flushed_at 0) = 0"
  shows "current_enclave (dram_region_tlb_flush s) = block_clock s"
proof -
  have "current_core (s\<lparr>mem := m, tlb_flushes := k\<rparr>) = 0" for m k
    using assms(2) by (simp add: current_core_def)
  then show ?thesis using assms
    by (simp add: flush_eq current_enclave_def get_cell_def [of _ "Core Enclave_id 0"] core_ptr_def)
qed

theorem flush_overwrites_caller_identity_witness:
  "current_enclave (dram_region_tlb_flush (put_cell Block_clock 3 demo0)) = 3"
proof -
  have "get_cell demo0 (Core Flushed_at 0) = 0"
    by (simp add: get_cell_def demo0_def reset_state_def ld64_def ldn_zero del: cell_addr.simps)
  then show ?thesis
    using flush_overwrites_caller_identity [of "put_cell Block_clock 3 demo0"]
    by (simp add: demo0_globals tables.get_put)
qed

text \<open>The region locks exclude nobody: acquiring and releasing a region's lock leave the state as
  it is, so a second \<open>test_and_set_dram_region_lock\<close> right after a successful one succeeds
  again.\<close>

theorem region_lock_excludes_nobody:
  "test_and_set_dram_region_lock r s = (held, t) \<longleftrightarrow> t = s \<and> (held \<longleftrightarrow> region_lock s r \<noteq> 0)"
  by auto

text \<open>\<open>block_dram_region\<close> grants the OS a region only when the DMA range and the region's first
  stripe, from \<open>dram_region_start(r)\<close> to \<open>dram_region_start(r + 1)\<close>, have no address in common.\<close>

theorem blocked_region_is_dma_free:
  assumes "block_dram_region r s = (monitor_ok, t)" "current_enclave s = null_enclave_id"
    and "g_dma_range_start s \<le> a" "a < g_dma_range_end s" "dram_region_start s r \<le> a"
  shows "dram_region_start s (r + 1) \<le> a"
proof (rule ccontr)
  assume "\<not> dram_region_start s (r + 1) \<le> a"
  then have "dma_range_crossed s r"
    using assms(3-5) unfolding dma_range_crossed_def Let_def by (auto simp: not_le)
  moreover have "dram_region_for s 0 = 0" by (simp add: dram_region_for_def srl64_def)
  ultimately show False using block_outcome [OF assms(1)] assms(2) by auto
qed

theorem blocked_region_is_dma_free_witness:
  "dram_region_start ((demo [])\<lparr>g_dma_range_start := 0x3000, g_dma_range_end := 0x4000\<rparr>) (1 + 1) \<le> 0x3800"
proof -
  let ?s = "(demo [])\<lparr>g_dma_range_start := 0x3000, g_dma_range_end := 0x4000\<rparr>"
  have c: "current_enclave ?s = 0" using demo_current [of "[]"]
    by (simp add: region_cell_list_def current_enclave_def current_core_def)
  have "\<not> dma_range_crossed ?s 1"
    by (simp add: dma_range_crossed_def dram_region_start_def sll64_small)
  moreover have "dram_region_for ?s 0 = 0" by (simp add: dram_region_for_def srl64_def)
  moreover have "region_lock ?s r = 0" if "r < 64" for r using that by (simp add: demo_lock)
  moreover have "region_owner ?s 1 = 0" by (simp add: demo_cell)
  ultimately have "block_dram_region 1 ?s = (monitor_ok, commit_block 0 1 ?s)"
    using c by (simp add: block_dram_region_def is_dynamic_dram_region_def is_valid_dram_region_def
        Let_def read_dram_region_owner_def)
  then show ?thesis
    using c by (intro blocked_region_is_dma_free) (simp_all add: dram_region_start_def sll64_small)
qed


text \<open>\<open>set_dma_range\<close> always returns when stripes have a size and DRAM ends a stripe below the
  top of the address space. With the region locks free it accepts exactly the ranges that are
  valid and whose last byte is a DRAM address, whoever owns the regions in between: it computes
  \<open>os_owns_regions\<close> and does not test it.\<close>

theorem set_dma_range_ignores_owners:
  assumes "0 < g_dram_stripe_size s" "unat (g_dram_size s) + unat (g_dram_stripe_size s) \<le> 2 ^ 64"
    and "\<forall>q. region_lock s q = 0"
  shows "set_dma_range base msk s =
    Some (if is_valid_range base msk \<and> is_dram_address s (base OR msk)
          then (monitor_ok, s\<lparr>g_dma_range_start := base, g_dma_range_end := (base OR msk) + 1\<rparr>)
          else (monitor_invalid_value, s))"
proof (cases "is_valid_range base msk \<and> is_dram_address s (base OR msk)")
  case True
  then have "unat ((base OR msk) + 1) \<le> unat (g_dram_size s)"
    by (intro dma_range_end_le) (simp add: is_dram_address_def)
  then have "unat ((base OR msk) + 1) + unat (g_dram_stripe_size s) \<le> 2 ^ 64"
    using assms(2) by linarith
  with assms dma_scan_ends [of s "(base OR msk) + 1" base True] True show ?thesis
    by (auto simp: set_dma_range_def word_less_nat_alt set_dmar_base_def set_dmar_mask_def)
qed (auto simp: set_dma_range_def)

theorem set_dma_range_ignores_owners_witness:
  "set_dma_range 0x3000 0xFFF (demo0\<lparr>mem := \<lambda>_. 0\<rparr>) =
     Some (monitor_ok, demo0\<lparr>mem := \<lambda>_. 0, g_dma_range_start := 0x3000, g_dma_range_end := 0x4000\<rparr>)"
proof -
  have "is_valid_range 0x3000 0xFFF"
    by (simp add: is_valid_range_def is_valid_range_mask_def is_aligned_to_mask_def)
  moreover have "is_dram_address (demo0\<lparr>mem := \<lambda>_. 0\<rparr>) (0x3000 OR 0xFFF)"
    by (simp add: is_dram_address_def demo0_globals)
  ultimately show ?thesis
    using set_dma_range_ignores_owners [of "demo0\<lparr>mem := \<lambda>_. 0\<rparr>" "0x3000" "0xFFF"]
    by (simp add: demo0_globals region_lock_def ld32_def ldn_zero)
qed

text \<open>\<open>create_metadata_region\<close> on a free, unlocked region always returns with success; the region
  becomes a metadata region without pinned pages, its page map reads zero, and no other word of
  the tables changes.\<close>

theorem create_metadata_region_effect:
  assumes "wf_monitor s" "r < g_dram_region_count s" "r \<noteq> 0" "region_owner s r = free_enclave_id"
    and "region_lock s r = 0"
  shows "\<exists>m. create_metadata_region r s = Some (monitor_ok, s\<lparr>mem := m\<rparr>) \<and>
    (\<forall>c. valid_cell s c \<longrightarrow> get_cell (s\<lparr>mem := m\<rparr>) c =
       (if c = Region Owner r then metadata_enclave_id else if c = Region Pinned_pages r then 0
        else get_cell s c)) \<and>
    (\<forall>b. unat (b - dram_region_start s r) < unat (g_metadata_region_start s) * 4096 \<longrightarrow> m b = 0)"
proof -
  obtain m where m: "init_metadata_region r s = Some (s\<lparr>mem := m\<rparr>)"
    "\<And>c. valid_cell s c \<Longrightarrow> get_cell (s\<lparr>mem := m\<rparr>) c =
      (if c = Region Owner r then 2 else if c = Region Pinned_pages r then 0 else get_cell s c)"
    using init_metadata_region_cells [OF assms(1-3)] by metis
  then show ?thesis
    using assms metadata_map_zeroed [OF assms(1,2) m(1)]
    by (intro exI [of _ m])
      (simp add: create_metadata_region_def is_valid_dram_region_def Let_def read_dram_region_owner_def)
qed

theorem create_metadata_region_effect_witness:
  "\<exists>m. create_metadata_region 7 (demo [(Region Owner 7, 3)]) =
    Some (monitor_ok, demo [(Region Owner 7, 3)]\<lparr>mem := m\<rparr>)"
  using create_metadata_region_effect [of "demo [(Region Owner 7, 3)]" 7]
  by (auto simp: demo_cell demo_lock)

text \<open>C38: With at most 16 regions the OS region bitmap always shows the OS's regions: if in a state in which the
  OS runs each bit agrees with the region's owner, it does so after every sequence of region calls.\<close>

theorem os_bitmap_tracks_ownership:
  assumes "bitmap_tracks s" "run_calls perform cs s = Some t" "r < g_dram_region_count t"
  shows "read_bitmap_bit (mem t) (g_os_region_bitmap t) r \<longleftrightarrow> region_owner t r = null_enclave_id"
  using tracked.run_inv [OF assms(1,2)] assms(3) by (simp add: bitmap_tracks_def os_bit_def)

theorem os_bitmap_tracks_ownership_witness:
  "\<exists>t. run_calls perform [Block 1] demo2 = Some t \<and> region_owner t 1 = blocked_enclave_id \<and>
    \<not> read_bitmap_bit (mem t) (g_os_region_bitmap t) 1 \<and> read_bitmap_bit (mem demo2) (g_os_region_bitmap demo2) 1"
proof (intro exI conjI)
  let ?t = "commit_block 0 1 demo2"
  show run: "run_calls perform [Block 1] demo2 = Some ?t" by (simp add: demo2_block)
  show own: "region_owner ?t 1 = blocked_enclave_id"
    using commit_block_cells [OF demo2_facts(5), of 1 0 "Region Owner 1"] valid_region [OF demo2_facts(5), of 1]
    by (simp add: demo2_facts bitmap_home_def)
  have "g_dram_region_count ?t = 2"
    using block_os(4) [OF bitmap_tracksD(1) [OF demo2_tracks] demo2_block] demo2_facts(1) by (simp add: same_tables_def)
  then show "\<not> read_bitmap_bit (mem ?t) (g_os_region_bitmap ?t) 1"
    using os_bitmap_tracks_ownership [OF demo2_tracks run, of 1] own by simp
  show "read_bitmap_bit (mem demo2) (g_os_region_bitmap demo2) 1"
    using demo2_tracks by (simp add: bitmap_tracks_def os_bit_def demo2_facts)
qed

text \<open>With more than 33 regions the bitmap loses track: a granted block of region 33 by the OS also
  clears the bit of region 1, whose owner stays the OS.\<close>

theorem blocking_33_clears_bit_of_1:
  assumes "wf_monitor s" "33 < g_dram_region_count s" "current_enclave s = null_enclave_id"
    and "block_dram_region 33 s = (monitor_ok, t)"
  shows "\<not> read_bitmap_bit (mem t) (g_os_region_bitmap t) 1 \<and> region_owner t 1 = region_owner s 1"
proof -
  have t: "t = commit_block 0 33 s" using block_outcome [OF assms(4)] assms(3) by auto
  have "1 < g_dram_region_count s" using assms(2) by (rule less_trans [rotated]) simp
  then have "region_owner t 1 = region_owner s 1"
    using commit_block_cells [OF assms(1,2), of 0 "Region Owner 1"] valid_region [OF assms(1)]
    by (simp add: t bitmap_home_def)
  moreover have "\<not> os_bit t 1" using set_os_bit_33 [OF assms(1,2)] by (simp add: t)
  ultimately show ?thesis by (simp add: os_bit_def)
qed

theorem blocking_33_clears_bit_of_1_witness:
  "region_owner (commit_block 0 33 (demo [])) 1 = 0"
  using blocking_33_clears_bit_of_1 [of "demo []" "commit_block 0 33 (demo [])"]
    demo_block [of "[]" 33] by (simp add: region_cell_list_owners(1) demo_cell)

end
