(* ===== verification/Measure.thy ===== *)
theory Measure
  imports Dram_Regions
begin

text \<open>
  Enclave measurement (\<open>sm/monitor/measure_inl.h\<close>). The hash functions of \<open>crypto/hash.h\<close>
  have no implementation in the repository: they are the parameter \<open>hash_ops\<close>, functions on
  the memory given the address of the hash state and of the block. What their header
  promises is the predicate \<open>hash_contract\<close>.
\<close>

section \<open>The hash functions\<close>

record hash_ops =
  init_hash :: "mem \<Rightarrow> u64 \<Rightarrow> mem"
  extend_hash :: "mem \<Rightarrow> u64 \<Rightarrow> u64 \<Rightarrow> mem"
  finalize_hash :: "mem \<Rightarrow> u64 \<Rightarrow> mem"

definition hash_block_size :: u64 where "hash_block_size = 64"

section \<open>The measurement block\<close>

datatype block_field = Opcode | Ptr1 | Ptr2 | Ptr3 | Ptr4 | Size1 | Size2

fun block_offset :: "block_field \<Rightarrow> u64" where
  "block_offset Opcode = 0"
| "block_offset Ptr1 = 8"
| "block_offset Ptr2 = 16"
| "block_offset Ptr3 = 24"
| "block_offset Ptr4 = 32"
| "block_offset Size1 = 40"
| "block_offset Size2 = 48"

definition enclave_init_opcode :: u64 where "enclave_init_opcode = 0xAAAAAAAA"
definition load_page_table_opcode :: u64 where "load_page_table_opcode = 0xBBBBBBBB"
definition load_page_opcode :: u64 where "load_page_opcode = 0xCCCCCCCC"
definition load_thread_opcode :: u64 where "load_thread_opcode = 0xDDDDDDDD"
definition finalize_enclave_opcode :: u64 where "finalize_enclave_opcode = 0xEEEEEEEE"

definition enclave_measurement_block :: "u64 \<Rightarrow> u64" where
  "enclave_measurement_block enclave_info = enclave_info + enclave_hash_block_offset"

definition set_block :: "u64 \<Rightarrow> block_field \<Rightarrow> u64 \<Rightarrow> mem \<Rightarrow> mem" where
  "set_block enclave_info f v m = st64 m (enclave_measurement_block enclave_info + block_offset f) v"

definition extend_enclave_hash :: "hash_ops \<Rightarrow> u64 \<Rightarrow> mem \<Rightarrow> mem" where
  "extend_enclave_hash h enclave_info m =
     extend_hash h m (enclave_info + enclave_hash_offset) (enclave_info + enclave_hash_block_offset)"

section \<open>measure\_inl.h\<close>

definition init_enclave_hash ::
    "hash_ops \<Rightarrow> u64 \<Rightarrow> u64 \<Rightarrow> u64 \<Rightarrow> u64 \<Rightarrow> bool \<Rightarrow> mem \<Rightarrow> mem option" where
  "init_enclave_hash h enclave_info ev_base ev_mask mailbox_count debug m0 =
     (case bzero m0 (enclave_info + enclave_hash_block_offset) hash_block_size of
        None \<Rightarrow> None
      | Some m \<Rightarrow>
         (let m = init_hash h m (enclave_info + enclave_hash_offset);
              m = set_block enclave_info Opcode enclave_init_opcode m;
              m = set_block enclave_info Ptr1 ev_base m;
              m = set_block enclave_info Ptr2 ev_mask m;
              m = set_block enclave_info Size1 mailbox_count m;
              m = set_block enclave_info Size2 (of_bool debug) m;
              m = extend_enclave_hash h enclave_info m;
              m = set_block enclave_info Ptr1 0 m;
              m = set_block enclave_info Ptr2 0 m;
              m = set_block enclave_info Size1 0 m
          in Some (set_block enclave_info Size2 0 m)))"

definition extend_enclave_hash_with_page_table ::
    "hash_ops \<Rightarrow> u64 \<Rightarrow> u64 \<Rightarrow> u64 \<Rightarrow> u64 \<Rightarrow> mem \<Rightarrow> mem" where
  "extend_enclave_hash_with_page_table h enclave_info virtual_addr level acl m =
     (let m = set_block enclave_info Opcode load_page_table_opcode m;
          m = set_block enclave_info Ptr1 virtual_addr m;
          m = set_block enclave_info Ptr2 acl m;
          m = set_block enclave_info Size1 level m;
          m = extend_enclave_hash h enclave_info m;
          m = set_block enclave_info Ptr1 0 m;
          m = set_block enclave_info Ptr2 0 m
      in set_block enclave_info Size1 0 m)"

text \<open>The loop over the page, 64 bytes at a time, until the pointer equals the page's end.\<close>

partial_function (option) extend_hash_blocks ::
    "hash_ops \<Rightarrow> u64 \<Rightarrow> u64 \<Rightarrow> u64 \<Rightarrow> mem \<Rightarrow> mem option" where
  "extend_hash_blocks h enclave_info page_ptr page_end m =
     (if page_ptr \<noteq> page_end
      then extend_hash_blocks h enclave_info (page_ptr + hash_block_size) page_end
             (extend_hash h m (enclave_info + enclave_hash_offset) page_ptr)
      else Some m)"

definition extend_enclave_hash_with_page ::
    "hash_ops \<Rightarrow> u64 \<Rightarrow> u64 \<Rightarrow> u64 \<Rightarrow> u64 \<Rightarrow> mem \<Rightarrow> mem option" where
  "extend_enclave_hash_with_page h enclave_info virtual_addr acl phys_addr m =
     (let m = set_block enclave_info Opcode load_page_opcode m;
          m = set_block enclave_info Ptr1 virtual_addr m;
          m = set_block enclave_info Ptr2 acl m;
          m = extend_enclave_hash h enclave_info m;
          m = set_block enclave_info Ptr1 0 m;
          m = set_block enclave_info Ptr2 0 m
      in extend_hash_blocks h enclave_info phys_addr (phys_addr + page_size) m)"

definition extend_enclave_hash_with_thread ::
    "hash_ops \<Rightarrow> u64 \<Rightarrow> u64 \<Rightarrow> u64 \<Rightarrow> u64 \<Rightarrow> u64 \<Rightarrow> mem \<Rightarrow> mem" where
  "extend_enclave_hash_with_thread h enclave_info entry_pc entry_stack fault_pc fault_stack m =
     (let m = set_block enclave_info Opcode load_thread_opcode m;
          m = set_block enclave_info Ptr1 entry_pc m;
          m = set_block enclave_info Ptr2 entry_stack m;
          m = set_block enclave_info Ptr3 fault_pc m;
          m = set_block enclave_info Ptr4 fault_stack m;
          m = extend_enclave_hash h enclave_info m;
          m = set_block enclave_info Ptr1 0 m;
          m = set_block enclave_info Ptr2 0 m;
          m = set_block enclave_info Ptr3 0 m
      in set_block enclave_info Ptr4 0 m)"

definition finalize_enclave_hash :: "hash_ops \<Rightarrow> u64 \<Rightarrow> mem \<Rightarrow> mem" where
  "finalize_enclave_hash h enclave_info m =
     (let m = set_block enclave_info Opcode finalize_enclave_opcode m;
          m = extend_enclave_hash h enclave_info m
      in finalize_hash h m (enclave_info + enclave_hash_offset))"


section \<open>The block as eight words\<close>

fun block_index :: "block_field \<Rightarrow> nat" where
  "block_index Opcode = 0"
| "block_index Ptr1 = 1"
| "block_index Ptr2 = 2"
| "block_index Ptr3 = 3"
| "block_index Ptr4 = 4"
| "block_index Size1 = 5"
| "block_index Size2 = 6"

definition get_word :: "u64 \<Rightarrow> mem \<Rightarrow> nat \<Rightarrow> u64" where
  "get_word blk m i = ld64 m (blk + word_of_nat (8 * i))"

definition put_word :: "u64 \<Rightarrow> nat \<Rightarrow> u64 \<Rightarrow> mem \<Rightarrow> mem" where
  "put_word blk i v m = st64 m (blk + word_of_nat (8 * i)) v"

lemma words_sep:
  assumes "i \<noteq> j" "i < 8" "j < 8"
  shows "sep (blk + word_of_nat (8 * i)) 8 (blk + word_of_nat (8 * j)) 8"
proof (cases "i < j")
  case True
  with assms show ?thesis by (intro sep_offsets) simp_all
next
  case False
  with assms show ?thesis by (subst sep_sym) (intro sep_offsets; simp)
qed

interpretation block: keyed_store "get_word blk" "put_word blk" "\<lambda>_ i. i < 8" for blk
  by unfold_locales (simp_all add: get_word_def put_word_def ld64_st64_sep words_sep del: of_nat_mult)

lemma set_block_put: "set_block e f v m = put_word (e + 240) (block_index f) v m"
  by (cases f) (simp_all add: set_block_def put_word_def enclave_measurement_block_def
      enclave_hash_block_offset_def)

text \<open>The 64 bytes of the block are the bytes of its words.\<close>

definition block_bytes :: "u64 list \<Rightarrow> u8 list" where
  "block_bytes ws = concat (map word_bytes ws)"

lemma ld_bytes_words: "ld_bytes m a (8 * n) = block_bytes (map (get_word a m) [0..<n])"
proof (induction n)
  case (Suc n)
  have "ld_bytes m a (8 * Suc n) = ld_bytes m a (8 * n) @ ld_bytes m (a + word_of_nat (8 * n)) 8"
    using ld_bytes_append [of m a "8 * n" 8] by (simp add: ac_simps del: ld_bytes.simps)
  then show ?case
    by (simp only: Suc.IH) (simp add: block_bytes_def get_word_def word_bytes_ld64 del: ld_bytes.simps of_nat_mult)
qed (simp add: block_bytes_def)

text \<open>Between operations every word of the block but the opcode is zero.\<close>

definition clean_block :: "u64 \<Rightarrow> mem \<Rightarrow> bool" where
  "clean_block e m \<longleftrightarrow> (\<forall>i\<in>{1..<8}. get_word (e + 240) m i = 0)"

section \<open>The contract of the hash functions\<close>

text \<open>
  \<open>H m st\<close> is the abstract value of the hash state at \<open>st\<close> (160 bytes): it depends on those
  bytes only, the functions write there only, \<open>init_hash\<close> sets the initial value and
  \<open>extend_hash\<close> absorbs the 64 bytes of the block.
\<close>

definition hash_contract :: "hash_ops \<Rightarrow> (mem \<Rightarrow> u64 \<Rightarrow> 'h) \<Rightarrow> ('h \<Rightarrow> u8 list \<Rightarrow> 'h) \<Rightarrow> 'h \<Rightarrow> bool" where
  "hash_contract h H absorb start \<longleftrightarrow>
     (\<forall>m st. H (init_hash h m st) st = start) \<and>
     (\<forall>m st b. 160 \<le> unat (b - st) \<longrightarrow> init_hash h m st b = m b) \<and>
     (\<forall>m st blk. H (extend_hash h m st blk) st = absorb (H m st) (ld_bytes m blk 64)) \<and>
     (\<forall>m st blk b. 160 \<le> unat (b - st) \<longrightarrow> extend_hash h m st blk b = m b) \<and>
     (\<forall>m m' st. (\<forall>b. unat (b - st) < 160 \<longrightarrow> m b = m' b) \<longrightarrow> H m st = H m' st)"

lemma hash_contractD:
  assumes "hash_contract h H absorb start"
  shows "H (init_hash h m st) st = start"
    and "160 \<le> unat (b - st) \<Longrightarrow> init_hash h m st b = m b"
    and "H (extend_hash h m st blk) st = absorb (H m st) (ld_bytes m blk 64)"
    and "160 \<le> unat (b - st) \<Longrightarrow> extend_hash h m st blk b = m b"
    and "(\<And>b. unat (b - st) < 160 \<Longrightarrow> m b = m' b) \<Longrightarrow> H m st = H m' st"
  using assms by (simp_all add: hash_contract_def)

text \<open>The block lies right after the state: neither writes the other.\<close>

lemma block_outside_state:
  assumes "i < 8" "k < 8"
  shows "160 \<le> unat ((e :: u64) + 240 + word_of_nat (8 * i) + word_of_nat k - (e + 80))"
proof -
  have "e + 240 + word_of_nat (8 * i) + word_of_nat k - (e + 80) = (word_of_nat (160 + 8 * i + k) :: u64)"
    by simp
  moreover have "unat (word_of_nat (160 + 8 * i + k) :: u64) = 160 + 8 * i + k"
    using assms by (intro unat_of_nat64) simp
  ultimately show ?thesis by (metis (no_types) add.assoc le_add1)
qed

lemma get_word_frame:
  assumes "i < 8" "\<And>b. 160 \<le> unat (b - (e + 80)) \<Longrightarrow> m' b = m b"
  shows "get_word (e + 240) m' i = get_word (e + 240) m i"
proof -
  have "ldn 8 m' (e + 240 + word_of_nat (8 * i)) = ldn 8 m (e + 240 + word_of_nat (8 * i))"
    by (rule ldn_cong, rule assms(2), rule block_outside_state [OF assms(1)])
  then show ?thesis by (simp add: get_word_def ld64_def)
qed

lemma hash_put_word:
  assumes "hash_contract h H absorb start" "i < 8"
  shows "H (put_word (e + 240) i v m) (e + 80) = H m (e + 80)"
proof (rule hash_contractD(5) [OF assms(1)])
  fix b assume b: "unat (b - (e + 80)) < 160"
  have eq: "b - (e + 240 + word_of_nat (8 * i)) = (b - (e + 80)) - word_of_nat (160 + 8 * i)" by simp
  have o: "unat (word_of_nat (160 + 8 * i) :: u64) = 160 + 8 * i"
    using assms(2) by (intro unat_of_nat64) simp
  have "unat ((b - (e + 80)) - word_of_nat (160 + 8 * i)) = unat (b - (e + 80)) + 2 ^ 64 - (160 + 8 * i)"
    using b unat_sub_if_size [of "b - (e + 80)" "word_of_nat (160 + 8 * i)"]
    by (simp only: o) (simp add: word_size)
  then have "8 \<le> unat (b - (e + 240 + word_of_nat (8 * i)))"
    using assms(2) unfolding eq by simp
  then show "put_word (e + 240) i v m b = m b" by (simp add: put_word_def st64_outside)
qed


section \<open>What an operation absorbs\<close>

lemma clean_blockD:
  assumes "clean_block e m"
  shows "get_word (e + 240) m 1 = 0" "get_word (e + 240) m 2 = 0" "get_word (e + 240) m 3 = 0"
    "get_word (e + 240) m 4 = 0" "get_word (e + 240) m 5 = 0" "get_word (e + 240) m 6 = 0"
    "get_word (e + 240) m 7 = 0"
  using assms by (simp_all add: clean_block_def)

lemma clean_blockI:
  assumes "get_word (e + 240) m 1 = 0" "get_word (e + 240) m 2 = 0" "get_word (e + 240) m 3 = 0"
    "get_word (e + 240) m 4 = 0" "get_word (e + 240) m 5 = 0" "get_word (e + 240) m 6 = 0"
    "get_word (e + 240) m 7 = 0"
  shows "clean_block e m"
proof -
  have "{1..<8 :: nat} = {1, 2, 3, 4, 5, 6, 7}" by auto
  with assms show ?thesis by (simp add: clean_block_def)
qed

lemma upt_8: "[0..<8] = [0, 1, 2, 3, 4, 5, 6, 7]"
  by (simp add: upt_rec)

lemma extend_enclave_hash_absorbs:
  assumes "hash_contract h H absorb start"
  shows "H (extend_enclave_hash h e m) (e + 80) =
      absorb (H m (e + 80)) (block_bytes (map (get_word (e + 240) m) [0..<8]))"
    and "i < 8 \<Longrightarrow> get_word (e + 240) (extend_enclave_hash h e m) i = get_word (e + 240) m i"
proof -
  have "ld_bytes m (e + 240) 64 = block_bytes (map (get_word (e + 240) m) [0..<8])"
    using ld_bytes_words [of m "e + 240" 8] by simp
  then show "H (extend_enclave_hash h e m) (e + 80) =
      absorb (H m (e + 80)) (block_bytes (map (get_word (e + 240) m) [0..<8]))"
    using hash_contractD(3) [OF assms]
    by (simp add: extend_enclave_hash_def enclave_hash_offset_def enclave_hash_block_offset_def)
  show "i < 8 \<Longrightarrow> get_word (e + 240) (extend_enclave_hash h e m) i = get_word (e + 240) m i"
    using hash_contractD(4) [OF assms]
    by (intro get_word_frame)
      (simp_all add: extend_enclave_hash_def enclave_hash_offset_def enclave_hash_block_offset_def)
qed

lemmas absorb_simps = extend_enclave_hash_absorbs set_block_put block.get_put_same block.get_put_other
  hash_put_word upt_8

text \<open>The measured operations and the words of the block each one fills in.\<close>

datatype measured_op =
    Measure_init u64 u64 u64 bool
  | Measure_page_table u64 u64 u64
  | Measure_page u64 u64 u64
  | Measure_thread u64 u64 u64 u64

fun op_words :: "measured_op \<Rightarrow> u64 list" where
  "op_words (Measure_init ev_base ev_mask mailbox_count debug) =
     [0xAAAAAAAA, ev_base, ev_mask, 0, 0, mailbox_count, of_bool debug, 0]"
| "op_words (Measure_page_table virtual_addr level acl) =
     [0xBBBBBBBB, virtual_addr, acl, 0, 0, level, 0, 0]"
| "op_words (Measure_page virtual_addr acl phys_addr) =
     [0xCCCCCCCC, virtual_addr, acl, 0, 0, 0, 0, 0]"
| "op_words (Measure_thread entry_pc entry_stack fault_pc fault_stack) =
     [0xDDDDDDDD, entry_pc, entry_stack, fault_pc, fault_stack, 0, 0, 0]"

lemma page_table_absorbs:
  assumes "hash_contract h H absorb start" "clean_block e m"
    and t: "t = extend_enclave_hash_with_page_table h e virtual_addr level acl m"
  shows "H t (e + 80) = absorb (H m (e + 80)) (block_bytes (op_words (Measure_page_table virtual_addr level acl)))"
    and "clean_block e t"
  using clean_blockD [OF assms(2)] assms(1) unfolding t
  by (auto simp: extend_enclave_hash_with_page_table_def Let_def absorb_simps load_page_table_opcode_def
      intro!: clean_blockI)

lemma thread_absorbs:
  assumes "hash_contract h H absorb start" "clean_block e m"
    and t: "t = extend_enclave_hash_with_thread h e pc stk fpc fstk m"
  shows "H t (e + 80) = absorb (H m (e + 80)) (block_bytes (op_words (Measure_thread pc stk fpc fstk)))"
    and "clean_block e t"
  using clean_blockD [OF assms(2)] assms(1) unfolding t
  by (auto simp: extend_enclave_hash_with_thread_def Let_def absorb_simps load_thread_opcode_def
      intro!: clean_blockI)


lemma init_absorbs:
  assumes "hash_contract h H absorb start" "unat e + 304 < 2 ^ 64"
  obtains t where "init_enclave_hash h e ev_base ev_mask mailbox_count debug m = Some t"
    and "H t (e + 80) = absorb start (block_bytes (op_words (Measure_init ev_base ev_mask mailbox_count debug)))"
    and "clean_block e t"
proof -
  define z where "z = fill m (e + 240) 64 0"
  have "unat (e + 240) = unat e + 240" using assms(2) by (intro unat_of_pos) simp_all
  then have bz: "bzero m (e + enclave_hash_block_offset) hash_block_size = Some z"
    using assms(2) by (simp add: bzero_def memset_fill z_def enclave_hash_block_offset_def hash_block_size_def)
  have z0: "get_word (e + 240) z i = 0" if i: "i < 8" for i
  proof -
    have "z (e + 240 + word_of_nat (8 * i) + word_of_nat k) = 0" if k: "k < 8" for k
    proof -
      have "e + 240 + word_of_nat (8 * i) + word_of_nat k - (e + 240) = word_of_nat (8 * i + k)" by simp
      moreover have "unat (word_of_nat (8 * i + k) :: u64) = 8 * i + k"
        using i k by (intro unat_of_nat64) simp
      ultimately have "unat (e + 240 + word_of_nat (8 * i) + word_of_nat k - (e + 240)) < 64"
        using i k by (simp only:)
      then show ?thesis by (simp add: z_def fill_apply)
    qed
    then have "ldn 8 z (e + 240 + word_of_nat (8 * i)) = ldn 8 (\<lambda>_. 0) (e + 240 + word_of_nat (8 * i))"
      by (intro ldn_cong) simp
    then show ?thesis by (simp add: get_word_def ld64_def ldn_zero)
  qed
  define u where "u = init_hash h z (e + 80)"
  have u0: "get_word (e + 240) u i = 0" if "i < 8" for i
    using get_word_frame [OF that, of e u z] hash_contractD(2) [OF assms(1)] z0 [OF that] by (simp add: u_def)
  have "H u (e + 80) = start" using hash_contractD(1) [OF assms(1)] by (simp add: u_def)
  then have "\<exists>t. init_enclave_hash h e ev_base ev_mask mailbox_count debug m = Some t \<and>
      H t (e + 80) = absorb start (block_bytes (op_words (Measure_init ev_base ev_mask mailbox_count debug))) \<and>
      clean_block e t"
    using u0 assms(1)
    by (auto simp: init_enclave_hash_def bz u_def [symmetric] enclave_hash_offset_def Let_def absorb_simps
        enclave_init_opcode_def intro!: clean_blockI)
  with that show ?thesis by blast
qed

section \<open>Measuring a page\<close>

text \<open>The loop ends after as many steps as there are blocks and absorbs them in order.\<close>

lemma state_write_off_page:
  assumes "sep (e + 80) 160 p n" "n < 2 ^ 64" "i < n"
  shows "160 \<le> unat (p + word_of_nat i - (e + 80))"
proof (cases "p = e + 80")
  case True
  with assms show ?thesis by (simp add: sep_def)
next
  case False
  have "p - (e + 80) \<noteq> 0" using False by simp
  then have d: "unat ((e + 80) - p) = 2 ^ 64 - unat (p - (e + 80))"
    using unat_minus_nonzero [of "p - (e + 80)"] by simp
  have s: "160 \<le> unat (p - (e + 80))" "n \<le> unat ((e + 80) - p)"
    using assms(1) by (simp_all add: sep_def)
  then have lt: "unat (p - (e + 80)) + i < 2 ^ 64"
    using assms(3) unfolding d by linarith
  have "p + word_of_nat i - (e + 80) = word_of_nat (unat (p - (e + 80)) + i)" by simp
  then have "unat (p + word_of_nat i - (e + 80)) = unat (p - (e + 80)) + i" using lt by (rule unat_of_pos)
  with s show ?thesis by simp
qed

definition off_state :: "u64 \<Rightarrow> u64 \<Rightarrow> nat \<Rightarrow> bool" where
  "off_state e p n \<longleftrightarrow> (\<forall>i<n. 160 \<le> unat (p + word_of_nat i - (e + 80)))"

lemma extend_hash_blocks_absorbs:
  assumes "hash_contract h H absorb start" "64 * n < 2 ^ 64" "off_state e p (64 * n)"
  shows "\<exists>t. extend_hash_blocks h e p (p + word_of_nat (64 * n)) m = Some t \<and>
    H t (e + 80) = foldl absorb (H m (e + 80)) (map (\<lambda>k. ld_bytes m (p + word_of_nat (64 * k)) 64) [0..<n]) \<and>
    (\<forall>b. 160 \<le> unat (b - (e + 80)) \<longrightarrow> t b = m b)"
  using assms(2,3)
proof (induction n arbitrary: p m)
  case 0
  then show ?case by (subst extend_hash_blocks.simps) simp
next
  case (Suc n)
  define m1 where "m1 = extend_hash h m (e + 80) p"
  have frame: "m1 b = m b" if "160 \<le> unat (b - (e + 80))" for b
    unfolding m1_def by (rule hash_contractD(4) [OF assms(1) that])
  have ne: "word_of_nat (64 * Suc n) \<noteq> (0 :: u64)"
    using unat_of_nat64 [OF Suc.prems(1)] by (metis mult_is_0 nat.simps(3) unsigned_0 zero_neq_numeral)
  have off: "160 \<le> unat (p + 64 + word_of_nat i - (e + 80))" if "i < 64 * n" for i
  proof -
    have "p + 64 + word_of_nat i = p + word_of_nat (64 + i)" by simp
    moreover have "64 + i < 64 * Suc n" using that by simp
    ultimately show ?thesis using Suc.prems(2) unfolding off_state_def by (simp only:)
  qed
  then have "off_state e (p + 64) (64 * n)" by (simp add: off_state_def)
  from Suc.IH [OF _ this, of m1] Suc.prems(1) obtain t where
    t: "extend_hash_blocks h e (p + 64) (p + 64 + word_of_nat (64 * n)) m1 = Some t"
    "H t (e + 80) = foldl absorb (H m1 (e + 80))
        (map (\<lambda>k. ld_bytes m1 (p + 64 + word_of_nat (64 * k)) 64) [0..<n])"
    "\<forall>b. 160 \<le> unat (b - (e + 80)) \<longrightarrow> t b = m1 b"
    by auto
  have "ld_bytes m1 (p + 64 + word_of_nat (64 * k)) 64 = ld_bytes m (p + 64 + word_of_nat (64 * k)) 64"
    if "k < n" for k
  proof (rule ld_bytes_cong)
    fix i :: nat assume "i < 64"
    then have "64 * k + i < 64 * n" using that by linarith
    from off [OF this] have "160 \<le> unat (p + 64 + word_of_nat (64 * k) + word_of_nat i - (e + 80))"
      by (simp add: ac_simps)
    then show "m1 (p + 64 + word_of_nat (64 * k) + word_of_nat i) = m (p + 64 + word_of_nat (64 * k) + word_of_nat i)"
      by (rule frame)
  qed
  then have blocks: "map (\<lambda>k. ld_bytes m1 (p + 64 + word_of_nat (64 * k)) 64) [0..<n] =
      map (\<lambda>k. ld_bytes m (p + 64 + word_of_nat (64 * k)) 64) [0..<n]"
    by (intro map_cong) simp_all
  have first: "H m1 (e + 80) = absorb (H m (e + 80)) (ld_bytes m p 64)"
    unfolding m1_def by (rule hash_contractD(3) [OF assms(1)])
  have list: "map (\<lambda>k. ld_bytes m (p + word_of_nat (64 * k)) 64) [0..<Suc n] =
      ld_bytes m p 64 # map (\<lambda>k. ld_bytes m (p + 64 + word_of_nat (64 * k)) 64) [0..<n]"
    by (simp add: upt_conv_Cons map_Suc_upt [symmetric] comp_def ac_simps del: upt_Suc ld_bytes.simps)
  have "p + word_of_nat (64 * Suc n) = p + 64 + word_of_nat (64 * n)" by simp
  moreover have "p \<noteq> p + word_of_nat (64 * Suc n)" using ne by (simp del: of_nat_mult)
  ultimately have "extend_hash_blocks h e p (p + word_of_nat (64 * Suc n)) m = Some t"
    using t(1) by (subst extend_hash_blocks.simps) (simp add: hash_block_size_def enclave_hash_offset_def m1_def add.assoc)
  moreover have "H t (e + 80) = foldl absorb (H m (e + 80))
      (map (\<lambda>k. ld_bytes m (p + word_of_nat (64 * k)) 64) [0..<Suc n])"
    by (simp only: t(2) blocks first list foldl_Cons)
  ultimately show ?case using t(3) frame by auto
qed


text \<open>The header of a page, hashed before its contents, writes only the block and the state.\<close>

definition page_header :: "hash_ops \<Rightarrow> u64 \<Rightarrow> u64 \<Rightarrow> u64 \<Rightarrow> mem \<Rightarrow> mem" where
  "page_header h e virtual_addr acl m =
     (let m = set_block e Opcode load_page_opcode m;
          m = set_block e Ptr1 virtual_addr m;
          m = set_block e Ptr2 acl m;
          m = extend_enclave_hash h e m;
          m = set_block e Ptr1 0 m
      in set_block e Ptr2 0 m)"

lemma page_header_absorbs:
  assumes "hash_contract h H absorb start" "clean_block e m"
    and t: "t = page_header h e virtual_addr acl m"
  shows "H t (e + 80) = absorb (H m (e + 80)) (block_bytes (op_words (Measure_page virtual_addr acl p)))"
    and "clean_block e t"
  using clean_blockD [OF assms(2)] assms(1) unfolding t
  by (auto simp: page_header_def Let_def absorb_simps load_page_opcode_def intro!: clean_blockI)

lemma put_word_outside:
  assumes "i < 8" "64 \<le> unat (b - (e + 240))"
  shows "put_word (e + 240) i v m b = m b"
proof -
  have eq: "b - (e + 240 + word_of_nat (8 * i)) = (b - (e + 240)) - word_of_nat (8 * i)" by simp
  have o: "unat (word_of_nat (8 * i) :: u64) = 8 * i" using assms(1) by (intro unat_of_nat64) simp
  have "unat ((b - (e + 240)) - word_of_nat (8 * i)) = unat (b - (e + 240)) - 8 * i"
    using assms unat_sub_if_size [of "b - (e + 240)" "word_of_nat (8 * i)"] by (simp only: o) simp
  then have "8 \<le> unat (b - (e + 240 + word_of_nat (8 * i)))"
    using assms unfolding eq by simp
  then show ?thesis by (simp add: put_word_def st64_outside)
qed

lemma off_enclave:
  fixes e b :: u64
  assumes "224 \<le> unat (b - (e + 80))"
  shows "160 \<le> unat (b - (e + 80))" "64 \<le> unat (b - (e + 240))"
proof -
  show "160 \<le> unat (b - (e + 80))" using assms by simp
  have eq: "b - (e + 240) = (b - (e + 80)) - 160" by simp
  have "unat ((b - (e + 80)) - 160) = unat (b - (e + 80)) - 160"
    using assms unat_sub_if_size [of "b - (e + 80)" 160] by simp
  then show "64 \<le> unat (b - (e + 240))" using assms unfolding eq by simp
qed

lemma page_header_frame:
  assumes "hash_contract h H absorb start" "224 \<le> unat (b - (e + 80))"
  shows "page_header h e virtual_addr acl m b = m b"
  using hash_contractD(4) [OF assms(1)] off_enclave [OF assms(2)]
  by (simp add: page_header_def Let_def set_block_put put_word_outside extend_enclave_hash_def
      enclave_hash_offset_def)

definition page_off_enclave :: "u64 \<Rightarrow> u64 \<Rightarrow> bool" where
  "page_off_enclave e p \<longleftrightarrow> (\<forall>i<4096. 224 \<le> unat (p + word_of_nat i - (e + 80)))"

lemma page_off_enclaveI:
  assumes "unat e + 304 \<le> unat p" "unat p + 4096 < 2 ^ 64"
  shows "page_off_enclave e p"
  unfolding page_off_enclave_def
proof (intro allI impI)
  fix i :: nat assume i: "i < 4096"
  have "unat (e + 80) = unat e + 80" using assms by (intro unat_of_pos) simp_all
  moreover have "unat (p + word_of_nat i) = unat p + i" using assms i by (intro unat_of_pos) simp_all
  ultimately show "224 \<le> unat (p + word_of_nat i - (e + 80))"
    using assms unat_sub_if_size [of "p + word_of_nat i" "e + 80"] by (simp add: word_le_nat_alt)
qed

definition page_blocks :: "u64 \<Rightarrow> mem \<Rightarrow> u8 list list" where
  "page_blocks p m = map (\<lambda>k. ld_bytes m (p + word_of_nat (64 * k)) 64) [0..<64]"

lemma page_absorbs:
  assumes "hash_contract h H absorb start" "clean_block e m" "page_off_enclave e p"
  obtains t where "extend_enclave_hash_with_page h e virtual_addr acl p m = Some t"
    and "H t (e + 80) = foldl absorb (absorb (H m (e + 80))
           (block_bytes (op_words (Measure_page virtual_addr acl p)))) (page_blocks p m)"
    and "clean_block e t"
proof -
  define m1 where "m1 = page_header h e virtual_addr acl m"
  note h1 = page_header_absorbs(1) [OF assms(1,2) m1_def, of p] page_header_absorbs(2) [OF assms(1,2) m1_def]
  have "off_state e p (64 * 64)"
    using assms(3) by (auto simp: off_state_def page_off_enclave_def intro: order_trans [of 160 224])
  from extend_hash_blocks_absorbs [OF assms(1) _ this, of m1] obtain t where
    t: "extend_hash_blocks h e p (p + word_of_nat (64 * 64)) m1 = Some t"
    "H t (e + 80) = foldl absorb (H m1 (e + 80)) (page_blocks p m1)"
    "\<forall>b. 160 \<le> unat (b - (e + 80)) \<longrightarrow> t b = m1 b"
    by (auto simp: page_blocks_def)
  have "m1 (p + word_of_nat i) = m (p + word_of_nat i)" if "i < 4096" for i
    unfolding m1_def by (rule page_header_frame [OF assms(1)])
      (use assms(3) that in \<open>simp add: page_off_enclave_def\<close>)
  then have "ld_bytes m1 (p + word_of_nat (64 * k)) 64 = ld_bytes m (p + word_of_nat (64 * k)) 64"
    if "k < 64" for k
  proof (intro ld_bytes_cong)
    fix i :: nat assume i: "i < 64"
    then have "64 * k + i < 4096" using that by simp
    then have "m1 (p + word_of_nat (64 * k + i)) = m (p + word_of_nat (64 * k + i))"
      using \<open>\<And>i. i < 4096 \<Longrightarrow> m1 (p + word_of_nat i) = m (p + word_of_nat i)\<close> by blast
    then show "m1 (p + word_of_nat (64 * k) + word_of_nat i) = m (p + word_of_nat (64 * k) + word_of_nat i)"
      by (simp add: add.assoc)
  qed
  then have "page_blocks p m1 = page_blocks p m" by (simp add: page_blocks_def del: ld_bytes.simps of_nat_mult)
  moreover have "extend_enclave_hash_with_page h e virtual_addr acl p m = Some t"
    using t(1) by (simp add: extend_enclave_hash_with_page_def m1_def page_header_def Let_def)
  moreover have "clean_block e t"
  proof -
    have "get_word (e + 240) t i = get_word (e + 240) m1 i" if "i < 8" for i
      by (rule get_word_frame [OF that]) (use t(3) in simp)
    with h1(2) show ?thesis by (simp add: clean_block_def)
  qed
  ultimately show ?thesis using that t(2) h1(1) by simp
qed


section \<open>Transcripts\<close>

text \<open>One measured operation on a loading enclave, and the blocks it stands for.\<close>

fun measure :: "hash_ops \<Rightarrow> u64 \<Rightarrow> measured_op \<Rightarrow> mem \<Rightarrow> mem option" where
  "measure h e (Measure_init ev_base ev_mask mailbox_count debug) m =
     init_enclave_hash h e ev_base ev_mask mailbox_count debug m"
| "measure h e (Measure_page_table virtual_addr level acl) m =
     Some (extend_enclave_hash_with_page_table h e virtual_addr level acl m)"
| "measure h e (Measure_page virtual_addr acl phys_addr) m =
     extend_enclave_hash_with_page h e virtual_addr acl phys_addr m"
| "measure h e (Measure_thread entry_pc entry_stack fault_pc fault_stack) m =
     Some (extend_enclave_hash_with_thread h e entry_pc entry_stack fault_pc fault_stack m)"

fun op_blocks :: "measured_op \<Rightarrow> mem \<Rightarrow> u8 list list" where
  "op_blocks (Measure_page virtual_addr acl phys_addr) m =
     block_bytes (op_words (Measure_page virtual_addr acl phys_addr)) # page_blocks phys_addr m"
| "op_blocks k m = [block_bytes (op_words k)]"

fun op_ok :: "u64 \<Rightarrow> measured_op \<Rightarrow> mem \<Rightarrow> bool" where
  "op_ok e (Measure_init ev_base ev_mask mailbox_count debug) m \<longleftrightarrow> unat e + 304 < 2 ^ 64"
| "op_ok e (Measure_page virtual_addr acl phys_addr) m \<longleftrightarrow> clean_block e m \<and> page_off_enclave e phys_addr"
| "op_ok e k m \<longleftrightarrow> clean_block e m"

fun is_init :: "measured_op \<Rightarrow> bool" where
  "is_init (Measure_init ev_base ev_mask mailbox_count debug) \<longleftrightarrow> True"
| "is_init k \<longleftrightarrow> False"

lemma measure_absorbs:
  assumes "hash_contract h H absorb start" "op_ok e k m"
  shows "\<exists>t. measure h e k m = Some t \<and> clean_block e t \<and>
    H t (e + 80) = foldl absorb (if is_init k then start else H m (e + 80)) (op_blocks k m)"
proof (cases k)
  case (Measure_init ev_base ev_mask mailbox_count debug)
  with assms(2) init_absorbs [OF assms(1), of e ev_base ev_mask mailbox_count debug m]
  show ?thesis by fastforce
next
  case (Measure_page_table va level acl)
  with assms(2) page_table_absorbs [OF assms(1) _ refl, of e m va level acl] show ?thesis by simp
next
  case (Measure_page va acl p)
  with assms(2) page_absorbs [OF assms(1), of e m p va acl] show ?thesis by fastforce
next
  case (Measure_thread pc stk fpc fstk)
  with assms(2) thread_absorbs [OF assms(1) _ refl, of e m pc stk fpc fstk] show ?thesis by simp
qed

text \<open>A hash that keeps the contract: the sum of the bytes, in the first word of the state.\<close>

definition sum_hash :: hash_ops where
  "sum_hash = \<lparr>init_hash = \<lambda>m st. st64 m st 0,
     extend_hash = \<lambda>m st blk. st64 m st (ld64 m st + sum_list (map ucast (ld_bytes m blk 64))),
     finalize_hash = \<lambda>m st. m\<rparr>"

lemma sum_hash_contract: "hash_contract sum_hash ld64 (\<lambda>w bs. w + sum_list (map ucast bs)) 0"
proof -
  have "ld64 m st = ld64 m' st" if "\<forall>b. unat (b - st) < 160 \<longrightarrow> m b = m' b" for m m' :: mem and st
    using that by (intro ld64_cong) simp
  then show ?thesis
    by (simp add: hash_contract_def sum_hash_def st64_outside del: ld_bytes.simps)
qed

text \<open>Equal transcripts come from equal operations.\<close>

lemma word_bytes_inject: "word_bytes v = word_bytes w \<longleftrightarrow> v = w"
  by (metis ld64_st64_same st64_eq_st_bytes)

lemma block_bytes_inject:
  "length vs = length ws \<Longrightarrow> block_bytes vs = block_bytes ws \<longleftrightarrow> vs = ws"
proof (induction vs ws rule: list_induct2)
  case (Cons v vs w ws)
  then show ?case by (auto simp: block_bytes_def word_bytes_inject dest: append_eq_append_conv [THEN iffD1, rotated])
qed simp

lemma page_blocks_bytes: "concat (page_blocks p m) = ld_bytes m p 4096"
proof -
  have "concat (map (\<lambda>k. ld_bytes m (p + word_of_nat (64 * k)) 64) [0..<n]) = ld_bytes m p (64 * n)" for n
  proof (induction n)
    case (Suc n)
    have "ld_bytes m p (64 * Suc n) = ld_bytes m p (64 * n) @ ld_bytes m (p + word_of_nat (64 * n)) 64"
      using ld_bytes_append [of m p "64 * n" 64] by (simp add: ac_simps del: ld_bytes.simps)
    with Suc show ?case by (simp del: ld_bytes.simps of_nat_mult)
  qed simp
  from this [of 64] show ?thesis by (simp add: page_blocks_def)
qed

text \<open>The measurement of an enclave from its creation on: what the code does, the blocks it absorbs, and the
  initial contents, which are the arguments of every operation and the bytes of every page at the
  time it was loaded.\<close>

primrec measure_all :: "hash_ops \<Rightarrow> u64 \<Rightarrow> measured_op list \<Rightarrow> mem \<Rightarrow> mem option" where
  "measure_all h e [] m = Some m"
| "measure_all h e (k # ks) m = Option.bind (measure h e k m) (measure_all h e ks)"

primrec transcript :: "hash_ops \<Rightarrow> u64 \<Rightarrow> measured_op list \<Rightarrow> mem \<Rightarrow> u8 list list" where
  "transcript h e [] m = []"
| "transcript h e (k # ks) m =
     op_blocks k m @ (case measure h e k m of None \<Rightarrow> [] | Some m \<Rightarrow> transcript h e ks m)"

fun page_contents :: "measured_op \<Rightarrow> mem \<Rightarrow> u8 list" where
  "page_contents (Measure_page virtual_addr acl phys_addr) m = ld_bytes m phys_addr 4096"
| "page_contents k m = []"

primrec initial_contents :: "hash_ops \<Rightarrow> u64 \<Rightarrow> measured_op list \<Rightarrow> mem \<Rightarrow> (u64 list \<times> u8 list) list" where
  "initial_contents h e [] m = []"
| "initial_contents h e (k # ks) m =
     (op_words k, page_contents k m) #
     (case measure h e k m of None \<Rightarrow> [] | Some m \<Rightarrow> initial_contents h e ks m)"

fun op_fits :: "u64 \<Rightarrow> measured_op \<Rightarrow> bool" where
  "op_fits e (Measure_init ev_base ev_mask mailbox_count debug) \<longleftrightarrow> False"
| "op_fits e (Measure_page virtual_addr acl phys_addr) \<longleftrightarrow> page_off_enclave e phys_addr"
| "op_fits e k \<longleftrightarrow> True"

lemma measure_all_absorbs:
  assumes "hash_contract h H absorb start" "clean_block e m" "\<forall>k\<in>set ks. op_fits e k"
  shows "\<exists>t. measure_all h e ks m = Some t \<and>
    H t (e + 80) = foldl absorb (H m (e + 80)) (transcript h e ks m)"
  using assms(2,3)
proof (induction ks arbitrary: m)
  case (Cons k ks)
  then have "op_ok e k m" "\<not> is_init k" by (cases k; simp)+
  with measure_absorbs [OF assms(1), of e k m] obtain t where
    t: "measure h e k m = Some t" "clean_block e t" "H t (e + 80) = foldl absorb (H m (e + 80)) (op_blocks k m)"
    by auto
  then show ?case using Cons.IH [of t] Cons.prems(2) by simp
qed simp

lemma measured_enclave:
  assumes "hash_contract h H absorb start" "unat e + 304 < 2 ^ 64" "\<forall>k\<in>set ks. op_fits e k"
  shows "\<exists>t. measure_all h e (Measure_init ev_base ev_mask mailbox_count debug # ks) m = Some t \<and>
    H t (e + 80) = foldl absorb start (transcript h e (Measure_init ev_base ev_mask mailbox_count debug # ks) m)"
proof -
  let ?k = "Measure_init ev_base ev_mask mailbox_count debug"
  obtain u where u: "measure h e ?k m = Some u" "clean_block e u" "H u (e + 80) = foldl absorb start (op_blocks ?k m)"
    using measure_absorbs [OF assms(1), of e ?k m] assms(2) by fastforce
  then show ?thesis using measure_all_absorbs [OF assms(1) u(2) assms(3)] by auto
qed

text \<open>The transcript is a code of the contents that can be read back: the first word of a block tells whether the blocks
  of a page follow.\<close>

definition content_blocks :: "u64 list \<times> u8 list \<Rightarrow> u8 list list" where
  "content_blocks c = block_bytes (fst c) # map (\<lambda>k. take 64 (drop (64 * k) (snd c))) [0..<length (snd c) div 64]"

definition content_ok :: "u64 list \<times> u8 list \<Rightarrow> bool" where
  "content_ok c \<longleftrightarrow> length (fst c) = 8 \<and> length (snd c) = (if hd (fst c) = load_page_opcode then 4096 else 0)"

lemma page_contents_ok: "content_ok (op_words k, page_contents k m)"
  by (cases k) (simp_all add: content_ok_def load_page_opcode_def del: ld_bytes.simps)

lemma op_blocks_contents: "op_blocks k m = content_blocks (op_words k, page_contents k m)"
proof (cases k)
  case (Measure_page va acl p)
  have "take 64 (drop (64 * i) (ld_bytes m p 4096)) = ld_bytes m (p + word_of_nat (64 * i)) 64" if "i < 64" for i
    using that by (intro nth_equalityI) (auto simp: add.assoc simp del: ld_bytes.simps)
  then show ?thesis using Measure_page
    by (simp add: content_blocks_def page_blocks_def del: ld_bytes.simps of_nat_mult)
qed (simp_all add: content_blocks_def)

lemma transcript_contents:
  "transcript h e ks m = concat (map content_blocks (initial_contents h e ks m)) \<and>
   (\<forall>c\<in>set (initial_contents h e ks m). content_ok c)"
  by (induction ks arbitrary: m) (auto simp: op_blocks_contents page_contents_ok split: option.splits)

lemma slices_inject:
  assumes "length xs = length ys" "64 dvd length xs"
    and "map (\<lambda>k. take 64 (drop (64 * k) xs)) [0..<length xs div 64] = map (\<lambda>k. take 64 (drop (64 * k) ys)) [0..<length xs div 64]"
  shows "xs = ys"
proof (rule nth_equalityI [OF assms(1)])
  fix i assume i: "i < length xs"
  then have k: "i div 64 < length xs div 64" using assms(2) by (auto elim!: dvdE simp: less_mult_imp_div_less)
  then have "take 64 (drop (64 * (i div 64)) xs) ! (i mod 64) = take 64 (drop (64 * (i div 64)) ys) ! (i mod 64)"
    using assms(3) by (simp add: map_eq_conv)
  then show "xs ! i = ys ! i" using i assms(1) by simp
qed

lemma content_blocks_inject:
  assumes "content_ok c" "content_ok d" "content_blocks c @ rest = content_blocks d @ rest'"
  shows "c = d \<and> rest = rest'"
proof -
  have "block_bytes (fst c) = block_bytes (fst d)" using assms(3) by (simp add: content_blocks_def)
  then have w: "fst c = fst d" using assms(1,2) by (simp add: content_ok_def block_bytes_inject)
  then have n: "length (snd c) = length (snd d)" using assms(1,2) by (simp add: content_ok_def)
  then have "length (content_blocks c) = length (content_blocks d)" by (simp add: content_blocks_def)
  then have eq: "content_blocks c = content_blocks d" "rest = rest'"
    using assms(3) by simp_all
  have "64 dvd length (snd c)" using assms(1) by (auto simp: content_ok_def)
  moreover have "map (\<lambda>k. take 64 (drop (64 * k) (snd c))) [0..<length (snd c) div 64] =
      map (\<lambda>k. take 64 (drop (64 * k) (snd d))) [0..<length (snd c) div 64]"
    using eq(1) unfolding content_blocks_def list.inject n by blast
  ultimately have "snd c = snd d" by (rule slices_inject [OF n])
  with w eq(2) show ?thesis by (simp add: prod_eq_iff)
qed

lemma contents_inject:
  assumes "\<forall>c\<in>set cs. content_ok c" "\<forall>c\<in>set ds. content_ok c"
    and "concat (map content_blocks cs) = concat (map content_blocks ds)"
  shows "cs = ds"
  using assms
proof (induction cs arbitrary: ds)
  case Nil
  then show ?case by (cases ds) (simp_all add: content_blocks_def)
next
  case (Cons c cs)
  then obtain d ds' where ds: "ds = d # ds'" by (cases ds) (simp_all add: content_blocks_def)
  have "c = d \<and> concat (map content_blocks cs) = concat (map content_blocks ds')"
    using Cons.prems by (intro content_blocks_inject) (simp_all add: ds)
  then show ?case using Cons.IH [of ds'] Cons.prems by (simp add: ds)
qed

section \<open>Properties\<close>

text \<open>C5: Every measured operation returns and makes the enclave's hash absorb exactly the blocks of its
  transcript, in order: the opcode and the arguments, and for a page its 4096 bytes after them.
  \<open>init\<close> starts from the initial hash value, the others continue from the current one, and each
  leaves the block zero but for the opcode, ready for the next. (The hash functions are a
  parameter that keeps the contract of \<open>hash.h\<close>; a page lies off the enclave's metadata.)\<close>

theorem enclave_measurement_transcript:
  assumes "hash_contract h H absorb start" "op_ok e k m"
  shows "\<exists>t. measure h e k m = Some t \<and> clean_block e t \<and>
    H t (e + 80) = foldl absorb (if is_init k then start else H m (e + 80)) (op_blocks k m)"
  using assms by (rule measure_absorbs)

theorem enclave_measurement_transcript_witness:
  "\<exists>t. measure sum_hash 0x1000 (Measure_page 5 6 0x3000) (\<lambda>_. 0) = Some t"
proof -
  have "get_word (0x1000 + 240) (\<lambda>_. 0) i = 0" for i by (simp add: get_word_def ld64_def ldn_zero)
  then have "clean_block 0x1000 (\<lambda>_. 0)" by (simp add: clean_block_def)
  moreover have "page_off_enclave 0x1000 0x3000" by (rule page_off_enclaveI) simp_all
  ultimately have "op_ok 0x1000 (Measure_page 5 6 0x3000) (\<lambda>_. 0)" by simp
  from enclave_measurement_transcript [OF sum_hash_contract this] show ?thesis by blast
qed

text \<open>C6: The measurement is unambiguous. Two enclaves are created and loaded by any sequences of measured calls, each in its
  own memory. All calls return, and if the hash has no collision between the two transcripts, the two hashes
  are equal exactly when the initial contents are: the same calls in the same order with the same arguments, and
  pages with the same 4096 bytes at the time they were loaded (their physical addresses may differ). The hash functions
  keep the contract of \<open>hash.h\<close>, and pages lie off the enclave's metadata.\<close>

theorem measurement_unambiguous:
  fixes m m' :: mem
  assumes "hash_contract h H absorb start"
    and "unat e + 304 < 2 ^ 64" "\<forall>k\<in>set ks. op_fits e k" "unat e' + 304 < 2 ^ 64" "\<forall>k\<in>set ks'. op_fits e' k"
    and "k = Measure_init ev_base ev_mask mailbox_count debug" "k' = Measure_init ev_base' ev_mask' mailbox_count' debug'"
    and "foldl absorb start (transcript h e (k # ks) m) = foldl absorb start (transcript h e' (k' # ks') m') \<Longrightarrow>
      transcript h e (k # ks) m = transcript h e' (k' # ks') m'"
  shows "\<exists>t t'. measure_all h e (k # ks) m = Some t \<and> measure_all h e' (k' # ks') m' = Some t' \<and>
    (H t (e + 80) = H t' (e' + 80) \<longleftrightarrow> initial_contents h e (k # ks) m = initial_contents h e' (k' # ks') m')"
proof -
  obtain t where t: "measure_all h e (k # ks) m = Some t" "H t (e + 80) = foldl absorb start (transcript h e (k # ks) m)"
    using measured_enclave [OF assms(1,2,3)] assms(6) by blast
  obtain t' where t': "measure_all h e' (k' # ks') m' = Some t'"
    "H t' (e' + 80) = foldl absorb start (transcript h e' (k' # ks') m')"
    using measured_enclave [OF assms(1,4,5)] assms(7) by blast
  note c = transcript_contents [of h e "k # ks" m] and c' = transcript_contents [of h e' "k' # ks'" m']
  have "transcript h e (k # ks) m = transcript h e' (k' # ks') m' \<longleftrightarrow>
      initial_contents h e (k # ks) m = initial_contents h e' (k' # ks') m'"
    using c c' contents_inject by metis
  with t t' assms(8) show ?thesis by metis
qed

text \<open>Two enclaves that differ in one page table call, under the byte sum.\<close>

theorem measurement_unambiguous_witness:
  "\<exists>t t'. measure_all sum_hash 0x1000 [Measure_init 1 2 3 True, Measure_page_table 5 1 7] (\<lambda>_. 0) = Some t \<and>
    measure_all sum_hash 0x1000 [Measure_init 1 2 3 True, Measure_page_table 6 1 7] (\<lambda>_. 0) = Some t' \<and>
    ld64 t 0x1050 \<noteq> ld64 t' 0x1050"
proof -
  let ?i = "Measure_init 1 2 3 True" and ?a = "Measure_page_table 5 1 7" and ?b = "Measure_page_table 6 1 7"
  obtain u where u: "measure sum_hash 0x1000 ?i (\<lambda>_. 0) = Some u"
    using measure_absorbs [OF sum_hash_contract, of "0x1000" ?i "\<lambda>_. 0"] by auto
  have T: "transcript sum_hash 0x1000 [?i, Measure_page_table v 1 7] (\<lambda>_. 0) =
      [block_bytes (op_words ?i), block_bytes (op_words (Measure_page_table v 1 7))]" for v
    by (simp only: transcript.simps u option.case op_blocks.simps append.simps measure.simps(2))
  have "word_bytes 5 = [5, 0, 0, 0, 0, 0, 0, 0]" "word_bytes 6 = [6, 0, 0, 0, 0, 0, 0, 0]"
    by (simp_all add: word_bytes_def upt_8 drop_bit_eq_div word_div_def)
  then have "sum_list (map ucast (block_bytes (op_words ?a))) \<noteq> (sum_list (map ucast (block_bytes (op_words ?b))) :: u64)"
    by (simp only: op_words.simps block_bytes_def list.map concat.simps map_append sum_list.append) simp
  then have ne: "foldl (\<lambda>w bs. w + sum_list (map ucast bs)) (0 :: u64) (transcript sum_hash 0x1000 [?i, ?a] (\<lambda>_. 0)) \<noteq>
      foldl (\<lambda>w bs. w + sum_list (map ucast bs)) 0 (transcript sum_hash 0x1000 [?i, ?b] (\<lambda>_. 0))"
    by (simp only: T foldl.simps add_left_cancel not_False_eq_True)
  have "op_words ?a \<noteq> op_words ?b" by simp
  then have "initial_contents sum_hash 0x1000 [?i, ?a] (\<lambda>_. 0) \<noteq> initial_contents sum_hash 0x1000 [?i, ?b] (\<lambda>_. 0)"
    by (simp only: initial_contents.simps u option.case list.inject prod.inject simp_thms measure.simps(2))
  moreover have "0x1000 + 80 = (0x1050 :: u64)" by simp
  ultimately show ?thesis
    using measurement_unambiguous [OF sum_hash_contract, of "0x1000" "[?a]" "0x1000" "[?b]" ?i 1 2 3 True ?i 1 2 3 True
        "\<lambda>_. 0" "\<lambda>_. 0"] ne
    by (simp del: measure_all.simps transcript.simps initial_contents.simps op_words.simps)
qed

end
