(* ===== verification/Metadata.thy ===== *)
theory Metadata
  imports Measure
begin

text \<open>
  Metadata pages and the calls that create enclaves and threads (\<open>sm/monitor/metadata\_inl.h\<close>,
  \<open>init_enclave_info\<close> of \<open>enclave_inl.h\<close>, \<open>sm/monitor/metadata.c\<close>). Where the source reads a
  local that no statement sets (the region index that \<open>lock_metadata_region_for\<close> takes by value),
  the value found there is the parameter \<open>dram_region\<close>.
\<close>

section \<open>The metadata page map\<close>

definition metadata_page_type_mask :: u64 where "metadata_page_type_mask = 3"
definition empty_metadata_page_type :: u64 where "empty_metadata_page_type = 0"
definition inner_metadata_page_type :: u64 where "inner_metadata_page_type = 1"
definition enclave_metadata_page_type :: u64 where "enclave_metadata_page_type = 2"
definition thread_metadata_page_type :: u64 where "thread_metadata_page_type = 3"

definition metadata_page_info :: "u64 \<Rightarrow> u64 \<Rightarrow> u64" where
  "metadata_page_info owner page_type = owner OR page_type"

definition empty_metadata_page_info :: u64 where
  "empty_metadata_page_info = null_enclave_id OR empty_metadata_page_type"

definition metadata_page_info_type :: "u64 \<Rightarrow> u64" where
  "metadata_page_info_type info = info AND metadata_page_type_mask"

definition lock_metadata_region_for :: "u64 \<Rightarrow> mstate \<Rightarrow> api_result \<times> mstate" where
  "lock_metadata_region_for phys_addr s0 =
     (if \<not> is_page_aligned phys_addr \<or> \<not> is_dram_address s0 phys_addr then (monitor_invalid_value, s0)
      else
       (let dram_region = dram_region_for s0 phys_addr;
            (held, s) = test_and_set_dram_region_lock dram_region s0 in
        if held then (monitor_concurrent_call, s)
        else if region_owner s dram_region \<noteq> metadata_enclave_id
        then (monitor_invalid_state, clear_dram_region_lock dram_region s)
        else (monitor_ok, s)))"

text \<open>The integer sum is converted to a pointer: the page number is not scaled by the entry size.\<close>

definition metadata_page_info_for :: "mstate \<Rightarrow> u64 \<Rightarrow> u64" where
  "metadata_page_info_for s phys_addr =
     (phys_addr AND g_dram_region_mask s) + dram_region_page_for s phys_addr"

text \<open>The second loop of \<open>assign_metadata_pages\<close>: \<open>n\<close> iterations from the first entry on.\<close>

fun write_inner :: "nat \<Rightarrow> u64 \<Rightarrow> mem \<Rightarrow> mem" where
  "write_inner 0 page_info m = m"
| "write_inner (Suc n) page_info m = write_inner n (page_info + 8) (st64 m page_info inner_metadata_page_type)"

definition assign_metadata_pages ::
    "u64 \<Rightarrow> u64 \<Rightarrow> u64 \<Rightarrow> u64 \<Rightarrow> u64 \<Rightarrow> mstate \<Rightarrow> api_result \<times> mstate" where
  "assign_metadata_pages phys_addr page_count owner type free_info s =
     (if dram_stripe_page_for s phys_addr + page_count > g_dram_stripe_pages s
      then (monitor_invalid_value, s)
      else
       (let page_info = metadata_page_info_for s phys_addr in
        if list_ex (\<lambda>i. ld64 (mem s) (page_info + 8 * i) \<noteq> 0) (indices page_count)
        then (monitor_invalid_state, s)
        else
         (let m = st64 (mem s) page_info (metadata_page_info owner type);
              inner_page_info = metadata_page_info owner inner_metadata_page_type;
              m = write_inner (unat page_count - 1) page_info m
          in (monitor_ok, s\<lparr>mem := m\<rparr>))))"

definition reserve_metadata_pages :: "u64 \<Rightarrow> u64 \<Rightarrow> u64 \<Rightarrow> u64 \<Rightarrow> mstate \<Rightarrow> api_result \<times> mstate" where
  "reserve_metadata_pages phys_addr page_count owner type s =
     assign_metadata_pages phys_addr page_count owner type empty_metadata_page_type s"

definition accept_metadata_pages :: "u64 \<Rightarrow> u64 \<Rightarrow> u64 \<Rightarrow> u64 \<Rightarrow> mstate \<Rightarrow> api_result \<times> mstate" where
  "accept_metadata_pages phys_addr page_count owner type s =
     assign_metadata_pages phys_addr page_count owner type
       (metadata_page_info owner empty_metadata_page_type) s"

section \<open>Enclave and thread structures\<close>

definition lock_flag :: "mstate \<Rightarrow> u64 \<Rightarrow> u32" where
  "lock_flag s a = ld32 (mem s) a"

definition lock_enclave :: "u64 \<Rightarrow> u64 \<Rightarrow> mstate \<Rightarrow> api_result \<times> mstate" where
  "lock_enclave dram_region enclave_id s0 =
     (if \<not> is_dram_address s0 enclave_id \<or> \<not> is_page_aligned enclave_id then (monitor_invalid_value, s0)
      else
       (let (result, s) = lock_metadata_region_for enclave_id s0 in
        if result \<noteq> monitor_ok then (result, s)
        else
         (let page_info = metadata_page_info_for s enclave_id;
              result =
               (if ld64 (mem s) page_info \<noteq> metadata_page_info enclave_id enclave_metadata_page_type
                then monitor_invalid_value
                else if fst (atomic_flag_test_and_set (lock_flag s enclave_id))
                then monitor_concurrent_call else result)
          in (result, clear_dram_region_lock dram_region s))))"

definition unlock_enclave :: "u64 \<Rightarrow> mstate \<Rightarrow> mstate" where
  "unlock_enclave enclave_id s =
     (let copy = atomic_flag_clear (lock_flag s enclave_id) in s)"

definition enclave_mailboxes :: "mstate \<Rightarrow> u64 \<Rightarrow> u64" where
  "enclave_mailboxes s enclave_id = enclave_region_bitmap enclave_id + 8 * g_dram_region_bitmap_words s"

definition enclave_mailbox :: "mstate \<Rightarrow> u64 \<Rightarrow> u64 \<Rightarrow> u64" where
  "enclave_mailbox s enclave_id mailbox_id = enclave_mailboxes s enclave_id + sizeof_mailbox * mailbox_id"

definition enclave_info_size :: "mstate \<Rightarrow> u64 \<Rightarrow> u64" where
  "enclave_info_size s mailbox_count = enclave_mailbox s 0 mailbox_count"

definition enclave_info_pages :: "mstate \<Rightarrow> u64 \<Rightarrow> u64" where
  "enclave_info_pages s mailbox_count = pages_needed_for (enclave_info_size s mailbox_count)"

definition thread_metadata_size :: u64 where "thread_metadata_size = 552"

definition thread_metadata_pages :: u64 where
  "thread_metadata_pages = pages_needed_for thread_metadata_size"

datatype thread_field = Entry_pc | Entry_stack | Fault_pc | Fault_stack | Eptbr

fun thread_offset :: "thread_field \<Rightarrow> u64" where
  "thread_offset Entry_pc = 8"
| "thread_offset Entry_stack = 16"
| "thread_offset Fault_pc = 24"
| "thread_offset Fault_stack = 32"
| "thread_offset Eptbr = 40"

definition thread_put :: "u64 \<Rightarrow> thread_field \<Rightarrow> u64 \<Rightarrow> mstate \<Rightarrow> mstate" where
  "thread_put thread_id f v s = s\<lparr>mem := st64 (mem s) (thread_id + thread_offset f) v\<rparr>"

text \<open>The fields of \<open>thread_init_info_t\<close>, five words.\<close>

fun init_offset :: "thread_field \<Rightarrow> u64" where
  "init_offset Entry_pc = 0"
| "init_offset Entry_stack = 8"
| "init_offset Fault_pc = 16"
| "init_offset Fault_stack = 24"
| "init_offset Eptbr = 32"

definition init_info_get :: "mstate \<Rightarrow> u64 \<Rightarrow> thread_field \<Rightarrow> u64" where
  "init_info_get s thread_info f = ld64 (mem s) (thread_info + init_offset f)"

definition init_enclave_info ::
    "hash_ops \<Rightarrow> u64 \<Rightarrow> u64 \<Rightarrow> u64 \<Rightarrow> u64 \<Rightarrow> bool \<Rightarrow> mstate \<Rightarrow> mstate option" where
  "init_enclave_info h enclave_info ev_base ev_mask mailbox_count debug s =
     (let copy = atomic_flag_clear (lock_flag s enclave_info);
          s = enclave_put enclave_info Mailbox_count mailbox_count s;
          s = enclave_put enclave_info Is_initialized 0 s;
          s = enclave_put enclave_info Is_debug (of_bool debug) s;
          s = enclave_put enclave_info Ev_base ev_base s;
          s = enclave_put enclave_info Ev_mask ev_mask s;
          s = enclave_put enclave_info Load_eptbr 0 s;
          s = enclave_put enclave_info Last_load_addr 0 s;
          s = enclave_put enclave_info Thread_count 0 s;
          s = enclave_put enclave_info Dram_region_count 0 s
      in map_option (\<lambda>m. s\<lparr>mem := m\<rparr>)
           (init_enclave_hash h enclave_info ev_base ev_mask mailbox_count debug (mem s)))"

section \<open>metadata.c\<close>

definition metadata_region_pages :: "mstate \<Rightarrow> u64" where
  "metadata_region_pages s = g_metadata_region_pages s"

definition metadata_region_start :: "mstate \<Rightarrow> u64" where
  "metadata_region_start s = g_metadata_region_start s"

definition enclave_metadata_pages :: "mstate \<Rightarrow> u64 \<Rightarrow> u64" where
  "enclave_metadata_pages s mailbox_count = enclave_info_pages s mailbox_count"

definition create_enclave ::
    "hash_ops \<Rightarrow> u64 \<Rightarrow> u64 \<Rightarrow> u64 \<Rightarrow> u64 \<Rightarrow> u64 \<Rightarrow> bool \<Rightarrow> mstate \<Rightarrow> (api_result \<times> mstate) option" where
  "create_enclave h dram_region enclave_id ev_base ev_mask mailbox_count debug s0 =
     (if \<not> is_valid_range ev_base ev_mask then Some (monitor_invalid_value, s0)
      else if ev_mask + 1 < page_size then Some (monitor_invalid_value, s0)
      else
       (let (result, s) = lock_metadata_region_for enclave_id s0 in
        if result \<noteq> monitor_ok then Some (result, s)
        else if region_owner s dram_region \<noteq> metadata_enclave_id
        then Some (monitor_invalid_value, clear_dram_region_lock dram_region s)
        else
         (let (result, s) = reserve_metadata_pages enclave_id (enclave_info_pages s mailbox_count)
                              enclave_id enclave_metadata_page_type s in
          if result \<noteq> monitor_ok then Some (result, clear_dram_region_lock dram_region s)
          else
           (case init_enclave_info h enclave_id ev_base ev_mask mailbox_count debug s of
              None \<Rightarrow> None
            | Some s \<Rightarrow> Some (monitor_ok, clear_dram_region_lock dram_region s)))))"

definition assign_thread :: "u64 \<Rightarrow> u64 \<Rightarrow> u64 \<Rightarrow> u64 \<Rightarrow> mstate \<Rightarrow> api_result \<times> mstate" where
  "assign_thread dram_region0 dram_region enclave_id thread_id s0 =
     (let (result, s) = lock_enclave dram_region0 enclave_id s0 in
      if result \<noteq> monitor_ok then (result, s)
      else
       (let (result, s) = lock_metadata_region_for thread_id s in
        if result \<noteq> monitor_ok then (result, unlock_enclave enclave_id s)
        else
         (let (result, s) =
             (if enclave_get s enclave_id Is_initialized \<noteq> 0
              then reserve_metadata_pages enclave_id thread_metadata_pages enclave_id
                     thread_metadata_page_type s
              else (monitor_invalid_state, s)) in
          if result \<noteq> monitor_ok
          then (result, unlock_enclave enclave_id (clear_dram_region_lock dram_region s))
          else
           (let s = enclave_put enclave_id Thread_count (enclave_get s enclave_id Thread_count + 1) s
            in (monitor_ok, unlock_enclave enclave_id (clear_dram_region_lock dram_region s))))))"

definition load_thread ::
    "hash_ops \<Rightarrow> u64 \<Rightarrow> u64 \<Rightarrow> u64 \<Rightarrow> u64 \<Rightarrow> u64 \<Rightarrow> u64 \<Rightarrow> u64 \<Rightarrow> u64 \<Rightarrow> mstate \<Rightarrow> api_result \<times> mstate" where
  "load_thread h dram_region0 thread_dram_region enclave_id thread_id entry_pc entry_stack fault_pc fault_stack s0 =
     (let (result, s) = lock_enclave dram_region0 enclave_id s0 in
      if result \<noteq> monitor_ok then (result, s)
      else
       (let (result, s) = lock_metadata_region_for thread_id s in
        if result \<noteq> monitor_ok then (result, unlock_enclave enclave_id s)
        else
         (let (result, s) =
             (if enclave_get s enclave_id Is_initialized \<noteq> 0 \<or> enclave_get s enclave_id Load_eptbr = 0
              then (monitor_invalid_state, s)
              else reserve_metadata_pages enclave_id thread_metadata_pages enclave_id
                     thread_metadata_page_type s) in
          if result \<noteq> monitor_ok
          then (result, unlock_enclave enclave_id (clear_dram_region_lock thread_dram_region s))
          else
           (let s = enclave_put enclave_id Thread_count (enclave_get s enclave_id Thread_count + 1) s;
                copy = atomic_flag_clear (lock_flag s thread_id);
                s = thread_put thread_id Entry_pc entry_pc s;
                s = thread_put thread_id Entry_stack entry_stack s;
                s = thread_put thread_id Fault_pc fault_pc s;
                s = thread_put thread_id Fault_stack fault_stack s;
                s = thread_put thread_id Eptbr (enclave_get s enclave_id Load_eptbr) s;
                s = s\<lparr>mem := extend_enclave_hash_with_thread h enclave_id entry_pc entry_stack
                                fault_pc fault_stack (mem s)\<rparr>
            in (monitor_ok,
                unlock_enclave enclave_id (clear_dram_region_lock thread_dram_region s))))))"

text \<open>The lock taken is that of the region whose index is the address \<open>thread_info_addr\<close>.\<close>

definition accept_thread :: "u64 \<Rightarrow> u64 \<Rightarrow> mstate \<Rightarrow> api_result \<times> mstate" where
  "accept_thread thread_id thread_info_addr s0 =
     (if \<not> is_dram_address s0 thread_info_addr \<or> \<not> is_page_aligned thread_info_addr
      then (monitor_invalid_value, s0)
      else
       (let enclave_id = current_enclave s0;
            thread_dram_region = dram_region_for s0 thread_info_addr;
            (held, s) = test_and_set_dram_region_lock thread_info_addr s0 in
        if held then (monitor_concurrent_call, s)
        else if read_dram_region_owner s thread_dram_region \<noteq> enclave_id
        then (monitor_invalid_value, clear_dram_region_lock thread_dram_region s)
        else
         (let enclave_dram_region = dram_region_for s enclave_id;
              (held, s) = test_and_set_dram_region_lock enclave_dram_region s in
          if held then (monitor_concurrent_call, clear_dram_region_lock thread_dram_region s)
          else
           (let (result, s) = accept_metadata_pages thread_id thread_metadata_pages enclave_id
                                thread_metadata_page_type s in
            if result \<noteq> monitor_ok
            then (result, clear_dram_region_lock thread_dram_region
                            (clear_dram_region_lock enclave_dram_region s))
            else
             (let copy = atomic_flag_clear (lock_flag s thread_id);
                  entry_pc = init_info_get s thread_info_addr Entry_pc;
                  entry_stack = init_info_get s thread_info_addr Entry_stack;
                  fault_pc = init_info_get s thread_info_addr Fault_pc;
                  fault_stack = init_info_get s thread_info_addr Fault_stack;
                  eptbr = init_info_get s thread_info_addr Eptbr;
                  s = thread_put thread_id Entry_pc entry_pc s;
                  s = thread_put thread_id Entry_stack entry_stack s;
                  s = thread_put thread_id Fault_pc fault_pc s;
                  s = thread_put thread_id Fault_stack fault_stack s;
                  s = thread_put thread_id Eptbr eptbr s
              in (monitor_ok, clear_dram_region_lock thread_dram_region
                                (clear_dram_region_lock enclave_dram_region s)))))))"


section \<open>Enclave and thread fields as stores\<close>

fun enclave_pos :: "enclave_field \<Rightarrow> nat" where
  "enclave_pos Mailbox_count = 8"
| "enclave_pos Is_initialized = 16"
| "enclave_pos Is_debug = 24"
| "enclave_pos Thread_count = 32"
| "enclave_pos Dram_region_count = 40"
| "enclave_pos Ev_base = 48"
| "enclave_pos Ev_mask = 56"
| "enclave_pos Load_eptbr = 64"
| "enclave_pos Last_load_addr = 72"

lemma enclave_offset_pos: "enclave_offset f = word_of_nat (enclave_pos f)"
  by (cases f) simp_all

lemma enclave_pos_bounds: "8 \<le> enclave_pos f" "enclave_pos f \<le> 72"
  by (cases f; simp)+

lemma enclave_pos_apart: "f \<noteq> g \<Longrightarrow> enclave_pos f + 8 \<le> enclave_pos g \<or> enclave_pos g + 8 \<le> enclave_pos f"
  by (cases f; cases g) simp_all

lemma field_sep:
  assumes "x + 8 \<le> y \<or> y + 8 \<le> x" "x \<le> 1000" "y \<le> 1000"
  shows "sep (a + word_of_nat x) 8 (a + word_of_nat y) 8"
proof (cases "x + 8 \<le> y")
  case True
  with assms show ?thesis by (intro sep_offsets) simp_all
next
  case False
  with assms show ?thesis by (subst sep_sym) (intro sep_offsets; simp)
qed

interpretation enclave: keyed_store "\<lambda>s. enclave_get s e" "enclave_put e" "\<lambda>_ _. True" for e
proof
  fix s :: mstate and f g v
  show "enclave_get (enclave_put e f v s) e f = v" by (simp add: enclave_get_def enclave_put_def)
  assume "g \<noteq> f"
  then have "sep (e + enclave_offset f) 8 (e + enclave_offset g) 8"
    unfolding enclave_offset_pos using enclave_pos_apart enclave_pos_bounds
    by (intro field_sep) (auto intro: order_trans [of _ 72])
  then show "enclave_get (enclave_put e f v s) e g = enclave_get s e g"
    by (simp add: enclave_get_def enclave_put_def ld64_st64_sep)
qed simp

definition thread_get :: "mstate \<Rightarrow> u64 \<Rightarrow> thread_field \<Rightarrow> u64" where
  "thread_get s thread_id f = ld64 (mem s) (thread_id + thread_offset f)"

fun thread_pos :: "thread_field \<Rightarrow> nat" where
  "thread_pos Entry_pc = 8"
| "thread_pos Entry_stack = 16"
| "thread_pos Fault_pc = 24"
| "thread_pos Fault_stack = 32"
| "thread_pos Eptbr = 40"

lemma thread_offset_pos: "thread_offset f = word_of_nat (thread_pos f)"
  by (cases f) simp_all

lemma thread_pos_bounds: "8 \<le> thread_pos f" "thread_pos f \<le> 40"
  by (cases f; simp)+

lemma thread_pos_apart: "f \<noteq> g \<Longrightarrow> thread_pos f + 8 \<le> thread_pos g \<or> thread_pos g + 8 \<le> thread_pos f"
  by (cases f; cases g) simp_all

interpretation thread: keyed_store "\<lambda>s. thread_get s a" "thread_put a" "\<lambda>_ _. True" for a
proof
  fix s :: mstate and f g v
  show "thread_get (thread_put a f v s) a f = v" by (simp add: thread_get_def thread_put_def)
  assume "g \<noteq> f"
  then have "sep (a + thread_offset f) 8 (a + thread_offset g) 8"
    unfolding thread_offset_pos using thread_pos_apart thread_pos_bounds
    by (intro field_sep) (auto intro: order_trans [of _ 40])
  then show "thread_get (thread_put a f v s) a g = thread_get s a g"
    by (simp add: thread_get_def thread_put_def ld64_st64_sep)
qed simp

section \<open>Outcomes\<close>

lemma unlock_enclave_eq [simp]: "unlock_enclave e s = s"
  by (simp add: unlock_enclave_def)

lemma lock_metadata_outcome:
  assumes "lock_metadata_region_for a s = (code, t)"
  shows "t = s \<and> (code = monitor_ok \<longrightarrow> is_page_aligned a \<and> is_dram_address s a \<and>
    region_lock s (dram_region_for s a) = 0 \<and> region_owner s (dram_region_for s a) = metadata_enclave_id)"
  using assms by (auto simp: lock_metadata_region_for_def Let_def split: if_splits)

lemma lock_enclave_outcome:
  assumes "lock_enclave g e s = (code, t)"
  shows "t = s \<and> (code = monitor_ok \<longrightarrow> is_page_aligned e \<and> is_dram_address s e \<and>
    region_owner s (dram_region_for s e) = metadata_enclave_id \<and>
    ld64 (mem s) (metadata_page_info_for s e) = e OR 2 \<and> lock_flag s e = 0)"
  using assms
  by (auto simp: lock_enclave_def Let_def metadata_page_info_def enclave_metadata_page_type_def
      atomic_flag_test_and_set_def split: if_splits prod.splits dest!: lock_metadata_outcome)

lemma or_2_nonzero: "e OR 2 \<noteq> (0 :: u64)"
proof -
  have "bit (e OR 2) 1" by (simp add: bit_or_iff bit_2_iff)
  then show ?thesis by auto
qed

lemma thread_metadata_pages_1: "thread_metadata_pages = 1"
  by (simp add: thread_metadata_pages_def thread_metadata_size_def pages_needed_for_def srl64_small)

text \<open>Reserving pages at the enclave's own address fails whenever the enclave can be locked.\<close>

lemma reserve_own_page_fails:
  assumes "ld64 (mem s) (metadata_page_info_for s e) = e OR 2"
  shows "fst (reserve_metadata_pages e thread_metadata_pages w ty s) \<noteq> monitor_ok"
proof -
  have "indices 1 = [0]" by (simp add: indices_def)
  then show ?thesis using assms or_2_nonzero [of e]
    by (simp add: reserve_metadata_pages_def assign_metadata_pages_def thread_metadata_pages_1 Let_def)
qed


section \<open>The page map\<close>

text \<open>The loop over the inner pages writes the entries from the first on.\<close>

lemma write_inner_outside:
  assumes "8 * n < 2 ^ 64" "8 * n + 8 \<le> 2 ^ 64" "8 * n \<le> unat (b - p)"
  shows "write_inner n p m b = m b"
  using assms
proof (induction n arbitrary: p m)
  case (Suc n)
  have "unat (b - (p + 8)) = unat (b - p) - 8"
    using Suc.prems(3) by (subst unat_sub_offset) simp_all
  then have "write_inner n (p + 8) (st64 m p inner_metadata_page_type) b = st64 m p inner_metadata_page_type b"
    using Suc.prems by (intro Suc.IH) simp_all
  then show ?case using Suc.prems(3) by (simp add: st64_outside)
qed simp

lemma write_inner_entry:
  assumes "8 * n + 8 \<le> 2 ^ 64" "i < n"
  shows "ld64 (write_inner n p m) (p + word_of_nat (8 * i)) = inner_metadata_page_type"
  using assms
proof (induction n arbitrary: p m i)
  case (Suc n)
  show ?case
  proof (cases i)
    case 0
    have "write_inner n (p + 8) (st64 m p inner_metadata_page_type) b = st64 m p inner_metadata_page_type b"
      if "unat (b - p) < 8" for b
    proof (rule write_inner_outside)
      have "unat (b - (p + 8)) = unat (b - p) + 2 ^ 64 - 8"
        using that by (subst unat_sub_wrap) simp_all
      then show "8 * n \<le> unat (b - (p + 8))" using Suc.prems by simp
    qed (use Suc.prems in simp_all)
    then have "ld64 (write_inner n (p + 8) (st64 m p inner_metadata_page_type)) p =
        ld64 (st64 m p inner_metadata_page_type) p" by (rule ld64_cong)
    then show ?thesis by (simp add: 0)
  next
    case (Suc j)
    then have "ld64 (write_inner n (p + 8) (st64 m p inner_metadata_page_type)) (p + 8 + word_of_nat (8 * j)) =
        inner_metadata_page_type"
      using Suc.prems Suc.IH [of j "p + 8"] by simp
    then show ?thesis by (simp add: Suc add.assoc)
  qed
qed simp

lemma write_inner_last:
  assumes "8 * n + 8 \<le> 2 ^ 64"
  shows "ld64 (write_inner n p m) (p + word_of_nat (8 * n)) = ld64 m (p + word_of_nat (8 * n))"
proof (rule ld64_cong)
  fix b assume b: "unat (b - (p + word_of_nat (8 * n))) < 8"
  have "b - p = word_of_nat (8 * n + unat (b - (p + word_of_nat (8 * n))))" by simp
  then have "unat (b - p) = 8 * n + unat (b - (p + word_of_nat (8 * n)))"
    using assms b by (intro unat_of_pos) simp_all
  then show "write_inner n p m b = m b" using assms by (intro write_inner_outside) simp_all
qed

lemma assign_pages_outcome:
  assumes "assign_metadata_pages a n w ty fi s = (monitor_ok, t)"
  shows "dram_stripe_page_for s a + n \<le> g_dram_stripe_pages s"
    and "\<forall>i<n. ld64 (mem s) (metadata_page_info_for s a + 8 * i) = 0"
    and "t = s\<lparr>mem := write_inner (unat n - 1) (metadata_page_info_for s a)
           (st64 (mem s) (metadata_page_info_for s a) (w OR ty))\<rparr>"
  using assms
  by (auto simp: assign_metadata_pages_def Let_def metadata_page_info_def list_ex_iff not_less
      split: if_splits)

section \<open>What init_enclave_info leaves\<close>

lemma init_enclave_hash_frame:
  assumes "hash_contract h H absorb start" "unat e + 304 < 2 ^ 64"
    and "init_enclave_hash h e b0 b1 n d m = Some t" "224 \<le> unat (b - (e + 80))"
  shows "t b = m b"
proof -
  have "unat (e + 240) = unat e + 240" using assms(2) by (intro unat_of_pos) simp_all
  then have bz: "bzero m (e + enclave_hash_block_offset) hash_block_size = Some (fill m (e + 240) 64 0)"
    using assms(2) by (simp add: bzero_def memset_fill enclave_hash_block_offset_def hash_block_size_def)
  note off = off_enclave [OF assms(4)]
  show ?thesis
    using assms(3) off hash_contractD(2,4) [OF assms(1)]
    by (auto simp: init_enclave_hash_def bz Let_def set_block_put put_word_outside extend_enclave_hash_def
        enclave_hash_offset_def fill_apply)
qed

lemma field_off_hash:
  assumes "unat (b - (e + enclave_offset f)) < 8"
  shows "224 \<le> unat (b - (e + 80))"
proof -
  define d where "d = unat (b - (e + enclave_offset f))"
  have pos: "enclave_pos f \<le> 72" "d < 8" using enclave_pos_bounds assms by (simp_all add: d_def)
  have "b - (e + enclave_offset f) = word_of_nat d" by (simp add: d_def)
  then have eq: "b - (e + 80) = word_of_nat (enclave_pos f + d) - word_of_nat 80"
    by (simp add: enclave_offset_pos algebra_simps)
  have u: "unat (word_of_nat (enclave_pos f + d) :: u64) = enclave_pos f + d" "unat (word_of_nat 80 :: u64) = 80"
    using pos by (intro unat_of_nat64; simp)+
  then have "unat (word_of_nat (enclave_pos f + d) - word_of_nat 80 :: u64) = enclave_pos f + d + 2 ^ 64 - 80"
    using pos unat_sub_if_size [of "word_of_nat (enclave_pos f + d) :: u64" "word_of_nat 80"]
    by (simp only: u word_size) simp
  then show ?thesis unfolding eq by simp
qed

fun initial_field :: "u64 \<Rightarrow> u64 \<Rightarrow> u64 \<Rightarrow> bool \<Rightarrow> enclave_field \<Rightarrow> u64" where
  "initial_field ev_base ev_mask mailbox_count debug Mailbox_count = mailbox_count"
| "initial_field ev_base ev_mask mailbox_count debug Is_debug = of_bool debug"
| "initial_field ev_base ev_mask mailbox_count debug Ev_base = ev_base"
| "initial_field ev_base ev_mask mailbox_count debug Ev_mask = ev_mask"
| "initial_field ev_base ev_mask mailbox_count debug f = 0"

lemma init_enclave_info_effect:
  assumes "hash_contract h H absorb start" "unat e + 304 < 2 ^ 64"
  obtains t where "init_enclave_info h e ev_base ev_mask mailbox_count debug s = Some t"
    and "\<And>f. enclave_get t e f = initial_field ev_base ev_mask mailbox_count debug f"
    and "H (mem t) (e + 80) = absorb start (block_bytes (op_words (Measure_init ev_base ev_mask mailbox_count debug)))"
    and "clean_block e (mem t)"
proof -
  define u where "u = enclave_put e Dram_region_count 0 (enclave_put e Thread_count 0
    (enclave_put e Last_load_addr 0 (enclave_put e Load_eptbr 0 (enclave_put e Ev_mask ev_mask
    (enclave_put e Ev_base ev_base (enclave_put e Is_debug (of_bool debug)
    (enclave_put e Is_initialized 0 (enclave_put e Mailbox_count mailbox_count s))))))))"
  obtain m where m: "init_enclave_hash h e ev_base ev_mask mailbox_count debug (mem u) = Some m"
    "H m (e + 80) = absorb start (block_bytes (op_words (Measure_init ev_base ev_mask mailbox_count debug)))"
    "clean_block e m"
    using init_absorbs [OF assms] by metis
  have "enclave_get (u\<lparr>mem := m\<rparr>) e f = enclave_get u e f" for f
    unfolding enclave_get_def
    by (simp, rule ld64_cong, rule init_enclave_hash_frame [OF assms m(1)], erule field_off_hash)
  moreover have "enclave_get u e f = initial_field ev_base ev_mask mailbox_count debug f" for f
    by (cases f) (simp_all add: u_def enclave.get_put)
  moreover have "init_enclave_info h e ev_base ev_mask mailbox_count debug s = Some (u\<lparr>mem := m\<rparr>)"
    using m(1) by (simp add: init_enclave_info_def Let_def u_def)
  ultimately show ?thesis using that m(2,3) by simp
qed


section \<open>Properties\<close>

lemma threads_refused:
  "fst (assign_thread g1 g2 e tid s) \<noteq> monitor_ok \<and> snd (assign_thread g1 g2 e tid s) = s \<and>
   fst (load_thread h g1 g2 e tid pc stk fpc fstk s) \<noteq> monitor_ok \<and>
   snd (load_thread h g1 g2 e tid pc stk fpc fstk s) = s"
proof -
  obtain c1 t1 where l1: "lock_enclave g1 e s = (c1, t1)" by fastforce
  obtain c2 t2 where l2: "lock_metadata_region_for tid s = (c2, t2)" by fastforce
  obtain c3 t3 where l3: "reserve_metadata_pages e thread_metadata_pages e thread_metadata_page_type s = (c3, t3)"
    by fastforce
  have t: "t1 = s" "t2 = s" using lock_enclave_outcome [OF l1] lock_metadata_outcome [OF l2] by auto
  have r: "c3 \<noteq> monitor_ok \<and> t3 = s" if "c1 = monitor_ok"
  proof -
    have "ld64 (mem s) (metadata_page_info_for s e) = e OR 2"
      using lock_enclave_outcome [OF l1] that by simp
    from reserve_own_page_fails [OF this] have "c3 \<noteq> monitor_ok" using l3 by (metis fst_conv)
    moreover have "c3 = monitor_ok \<or> t3 = s" using l3
      by (auto simp: reserve_metadata_pages_def assign_metadata_pages_def Let_def split: if_splits)
    ultimately show ?thesis by blast
  qed
  show ?thesis
    using l1 l2 l3 r t by (auto simp: assign_thread_def load_thread_def Let_def)
qed

text \<open>No thread can ever be given to an enclave: \<open>assign_thread\<close> and \<open>load_thread\<close> reserve the
  page of the enclave instead of the thread's, and that page is in use whenever the enclave can
  be locked, so neither call ever succeeds, whatever the state, the arguments and the
  uninitialised locals, and neither changes the state.\<close>

theorem threads_cannot_be_added:
  "fst (assign_thread g1 g2 e tid s) \<noteq> monitor_ok \<and> snd (assign_thread g1 g2 e tid s) = s \<and>
   fst (load_thread h g1 g2 e tid pc stk fpc fstk s) \<noteq> monitor_ok \<and>
   snd (load_thread h g1 g2 e tid pc stk fpc fstk s) = s"
  by (rule threads_refused)

text \<open>C37: A successful \<open>create_enclave\<close> had a valid virtual range of at least a page and a page-aligned
  identifier in a metadata region; it leaves the nine words of \<open>enclave_field\<close> with the arguments and zeros
  and its measurement with the block of the creation absorbed into the initial hash. This is for hash functions
  that keep the contract of \<open>hash.h\<close> and a structure that ends below \<open>2^64\<close>. The structure's lock is not among
  the words: the code clears a copy of it.\<close>

theorem create_enclave_effect:
  assumes "hash_contract h H absorb start" "unat e + 304 < 2 ^ 64"
    and "create_enclave h g e ev_base ev_mask mailbox_count debug s = Some (monitor_ok, t)"
  shows "is_valid_range ev_base ev_mask \<and> \<not> ev_mask + 1 < page_size \<and> is_page_aligned e \<and>
    region_owner s (dram_region_for s e) = metadata_enclave_id \<and>
    (\<forall>f. enclave_get t e f = initial_field ev_base ev_mask mailbox_count debug f) \<and>
    H (mem t) (e + 80) = absorb start (block_bytes (op_words (Measure_init ev_base ev_mask mailbox_count debug)))"
proof -
  obtain c1 t1 where l1: "lock_metadata_region_for e s = (c1, t1)" by fastforce
  note o = lock_metadata_outcome [OF l1]
  have g: "is_valid_range ev_base ev_mask" "\<not> ev_mask + 1 < page_size" "c1 = monitor_ok"
    using assms(3) l1 by (auto simp: create_enclave_def split: if_splits)
  obtain c2 u where r: "reserve_metadata_pages e (enclave_info_pages s mailbox_count) e
      enclave_metadata_page_type s = (c2, u)" by fastforce
  obtain v where v: "init_enclave_info h e ev_base ev_mask mailbox_count debug u = Some v"
    "\<And>f. enclave_get v e f = initial_field ev_base ev_mask mailbox_count debug f"
    "H (mem v) (e + 80) = absorb start (block_bytes (op_words (Measure_init ev_base ev_mask mailbox_count debug)))"
    using init_enclave_info_effect [OF assms(1,2)] by metis
  have "t = v"
    using assms(3) l1 o g r v(1) by (auto simp: create_enclave_def split: if_splits)
  with g o v show ?thesis by simp
qed

text \<open>A metadata region in the concrete machine, and an enclave created there.\<close>

definition demo_meta :: mstate where
  "demo_meta = demo [(Region Owner 7, 2)]"

lemma demo_page_zero:
  assumes "i < 4096"
  shows "mem (demo [(Region Owner 7, w)]) (0x7000 + word_of_nat i) = 0"
proof -
  have u: "unat (0x7000 + word_of_nat i :: u64) = 0x7000 + i" using assms by (intro unat_of_pos) simp_all
  have d: "8 \<le> unat (0x7000 + word_of_nat i - (k :: u64))" if "k \<le> 0x6FF0" for k
    using u that unat_sub_if_size [of "0x7000 + word_of_nat i" k] by (simp add: word_le_nat_alt)
  show ?thesis using d [of 320] d [of 24]
    by (simp add: demo_def put_cell_def demo0_def reset_state_def region_ptr_def core_ptr_def st64_outside)
qed

lemma demo_word_zero:
  assumes "k < 4080"
  shows "ld64 (mem (demo [(Region Owner 7, w)])) (0x7000 + word_of_nat k) = 0"
proof -
  have "mem (demo [(Region Owner 7, w)]) (0x7000 + word_of_nat k + word_of_nat i) = 0" if "i < 8" for i
    using demo_page_zero [of "k + i"] assms that by (simp add: add.assoc)
  then have "ldn 8 (mem (demo [(Region Owner 7, w)])) (0x7000 + word_of_nat k) =
      ldn 8 (\<lambda>_. 0) (0x7000 + word_of_nat k)"
    by (intro ldn_cong) simp
  then show ?thesis by (simp add: ld64_def ldn_zero)
qed

lemma demo_meta_zero: "k < 4080 \<Longrightarrow> ld64 (mem demo_meta) (0x7000 + word_of_nat k) = 0"
  by (simp add: demo_meta_def demo_word_zero)

lemma demo_meta_create:
  "\<exists>t. create_enclave sum_hash 7 0x7000 0x10000 0xFFF 0 True demo_meta = Some (monitor_ok, t)"
proof -
  have reg: "dram_region_for demo_meta 0x7000 = 7"
    by (simp add: demo_meta_def dram_region_for_def srl64_small)
  have own: "region_owner demo_meta 7 = 2" "region_lock demo_meta 7 = 0"
    by (simp_all add: demo_meta_def demo_cell demo_lock)
  have lock: "lock_metadata_region_for 0x7000 demo_meta = (monitor_ok, demo_meta)"
    using reg own by (simp add: lock_metadata_region_for_def is_page_aligned_def is_aligned_to_mask_def
        is_dram_address_def demo_meta_def)
  have g: "g_dram_stripe_pages demo_meta = 1" "g_dram_stripe_page_mask demo_meta = 0"
    "g_dram_stripe_shift demo_meta = 18" "g_dram_region_bitmap_words demo_meta = 1"
    "g_dram_region_shift demo_meta = 12" "g_dram_region_mask demo_meta = 0x3F000"
    by (simp_all add: demo_meta_def demo_def put_cell_def demo0_def reset_state_def)
  have pages: "enclave_info_pages demo_meta 0 = 1"
    by (simp add: enclave_info_pages_def enclave_info_size_def enclave_mailbox_def enclave_mailboxes_def
        enclave_region_bitmap_def sizeof_enclave_info_def g pages_needed_for_def srl64_small)
  have info: "metadata_page_info_for demo_meta 0x7000 = 0x7000"
    by (simp add: metadata_page_info_for_def dram_region_page_for_def dram_stripe_page_for_def
        dram_stripe_for_def g srl64_small sll64_def srl64_def)
  have z: "ld64 (mem demo_meta) 0x7000 = 0" using demo_meta_zero [of 0] by simp
  have "indices 1 = [0]" by (simp add: indices_def)
  then have res: "fst (reserve_metadata_pages 0x7000 1 0x7000 enclave_metadata_page_type demo_meta) = monitor_ok"
    using z by (simp add: reserve_metadata_pages_def assign_metadata_pages_def Let_def info g
        dram_stripe_page_for_def srl64_def)
  obtain u where u: "reserve_metadata_pages 0x7000 1 0x7000 enclave_metadata_page_type demo_meta = (monitor_ok, u)"
    using res by (metis prod.collapse)
  obtain t where "init_enclave_info sum_hash 0x7000 0x10000 0xFFF 0 True u = Some t"
    by (rule init_enclave_info_effect [OF sum_hash_contract, of "0x7000" "0x10000" "0xFFF" 0 True u])
      simp_all
  then show ?thesis using lock own u pages
    by (simp add: create_enclave_def is_valid_range_def is_valid_range_mask_def is_aligned_to_mask_def)
qed

theorem create_enclave_effect_witness:
  "\<exists>t. create_enclave sum_hash 7 0x7000 0x10000 0xFFF 0 True demo_meta = Some (monitor_ok, t) \<and>
       enclave_get t 0x7000 Ev_mask = 0xFFF"
proof -
  obtain t where t: "create_enclave sum_hash 7 0x7000 0x10000 0xFFF 0 True demo_meta = Some (monitor_ok, t)"
    using demo_meta_create by blast
  from create_enclave_effect [OF sum_hash_contract _ t] show ?thesis using t by simp
qed


text \<open>On the booted platform's geometry the map entry of a metadata page lies outside DRAM for every
  page of a stripe whose index is not a multiple of 512: \<open>dram_region_page_for\<close> shifts the stripe
  index left by a negative amount, and the entry's address is at or above \<open>2 ^ 55\<close>.\<close>

theorem metadata_entry_outside_dram:
  assumes "g_dram_region_shift s = 12" "g_dram_stripe_shift s = 21" "g_dram_stripe_page_mask s = 0"
    and "g_dram_region_mask s = 0x1FF000" "unat a div 2 ^ 21 mod 512 \<noteq> 0"
  shows "2 ^ 55 \<le> unat (metadata_page_info_for s a)"
proof -
  define x where "x = unat a div 2 ^ 21"
  have "metadata_page_info_for s a = (a AND 0x1FF000) + push_bit 55 (drop_bit 21 a)"
    by (simp add: metadata_page_info_for_def dram_region_page_for_def dram_stripe_page_for_def
        dram_stripe_for_def assms(1-4) srl64_def sll64_def)
  moreover have "unat (push_bit 55 (drop_bit 21 a)) = 2 ^ 55 * (x mod 512)"
  proof -
    have "unat (push_bit 55 (drop_bit 21 a)) = (x * 2 ^ 55) mod 2 ^ 64"
      by (simp add: push_bit_eq_mult unat_word_ariths drop_bit_eq_div unat_div x_def mod_mult_left_eq)
    also have "\<dots> = (2 ^ 55 * x) mod (2 ^ 55 * 512)" by (simp add: mult.commute)
    also have "\<dots> = 2 ^ 55 * (x mod 512)" by (rule mult_mod_right [symmetric])
    finally show ?thesis .
  qed
  moreover have "unat (a AND 0x1FF000) < 2 ^ 21"
  proof -
    have "a AND 0x1FF000 \<le> 0x1FF000" by (rule word_and_le1)
    then show ?thesis by (simp add: word_le_nat_alt)
  qed
  moreover have "2 ^ 55 * (x mod 512) \<le> 2 ^ 55 * 511" by simp
  ultimately have "unat (metadata_page_info_for s a) = unat (a AND 0x1FF000) + 2 ^ 55 * (x mod 512)"
    using unat_add_lem [of "a AND 0x1FF000" "push_bit 55 (drop_bit 21 a)"] by simp
  then show ?thesis using assms(5) by (simp add: x_def)
qed

theorem metadata_entry_outside_dram_witness:
  "2 ^ 55 \<le> unat (metadata_page_info_for
      (demo0\<lparr>g_dram_stripe_shift := 21, g_dram_stripe_page_mask := 0, g_dram_region_mask := 0x1FF000\<rparr>) 0x207000)"
  by (rule metadata_entry_outside_dram) (simp_all add: demo0_globals)

text \<open>A granted reservation of two or more pages loses its type: the loop meant to mark the inner
  pages overwrites the first entry with the inner type and leaves the last entry zero, so the
  structure is not found under its own type and its last page can be reserved again.\<close>

theorem multi_page_reservation_loses_type:
  assumes "assign_metadata_pages a n w ty fi s = (monitor_ok, t)" "2 \<le> unat n" "8 * unat n < 2 ^ 64"
  shows "ld64 (mem t) (metadata_page_info_for s a) = inner_metadata_page_type \<and>
    ld64 (mem t) (metadata_page_info_for s a + 8 * (n - 1)) = 0"
proof -
  let ?p = "metadata_page_info_for s a" and ?k = "unat n - 1"
  note o = assign_pages_outcome [OF assms(1)]
  have k: "8 * ?k + 8 \<le> 2 ^ 64" "0 < ?k" using assms(2,3) by linarith+
  have n1: "n - 1 = word_of_nat ?k"
    using assms(2) unat_pred [of n] by (metis of_nat_unat ucast_id unat_gt_0 word_gt_0 less_le_trans zero_less_numeral)
  have e: "8 * (n - 1) = word_of_nat (8 * ?k)" by (simp add: n1)
  have "sep ?p 8 (?p + word_of_nat (8 * ?k)) 8"
    using sep_offsets [of 0 8 "8 * ?k" 8 ?p] k by simp
  moreover have "n - 1 < n" using assms(2) by (simp add: word_less_nat_alt unat_pred word_gt_0_no)
  then have "ld64 (mem s) (?p + word_of_nat (8 * ?k)) = 0" using o(2) unfolding e [symmetric] by blast
  ultimately have "ld64 (mem t) (?p + 8 * (n - 1)) = 0"
    unfolding e using write_inner_last [OF k(1)] by (simp add: o(3) ld64_st64_sep del: of_nat_mult)
  moreover have "ld64 (mem t) ?p = inner_metadata_page_type"
    using write_inner_entry [OF k(1) k(2), of ?p] by (simp add: o(3))
  ultimately show ?thesis by simp
qed

text \<open>\<open>accept_thread\<close> checks the address it reads from and never the one it writes to: when it
  succeeds the thread fields at \<open>thread_id\<close>, an address no guard mentions, hold the five
  words of the caller's page as they were read after the page map was written.\<close>

theorem accept_thread_writes_unchecked_address:
  assumes "accept_thread tid info s = (monitor_ok, t)"
  shows "is_dram_address s info \<and> is_page_aligned info \<and>
    region_owner s (dram_region_for s info) = current_enclave s \<and>
    (\<exists>u. accept_metadata_pages tid thread_metadata_pages (current_enclave s) thread_metadata_page_type s =
           (monitor_ok, u) \<and> (\<forall>f. thread_get t tid f = init_info_get u info f))"
proof -
  obtain c u where a: "accept_metadata_pages tid thread_metadata_pages (current_enclave s)
      thread_metadata_page_type s = (c, u)" by fastforce
  have "is_dram_address s info \<and> is_page_aligned info \<and>
    region_owner s (dram_region_for s info) = current_enclave s \<and> c = monitor_ok \<and>
    t = thread_put tid Eptbr (init_info_get u info Eptbr)
       (thread_put tid Fault_stack (init_info_get u info Fault_stack)
       (thread_put tid Fault_pc (init_info_get u info Fault_pc)
       (thread_put tid Entry_stack (init_info_get u info Entry_stack)
       (thread_put tid Entry_pc (init_info_get u info Entry_pc) u))))"
    using assms a by (auto simp: accept_thread_def Let_def read_dram_region_owner_def split: if_splits)
  moreover from this have "thread_get t tid f = init_info_get u info f" for f
    by (cases f) (simp_all add: thread.get_put)
  ultimately show ?thesis using a by blast
qed


lemma demo_page_free: "ld64 (mem (demo [])) 0 = 0"
proof -
  have "get_cell (demo []) (Core Enclave_id 0) = 0" by (simp add: demo_cell)
  then show ?thesis
    by (simp add: get_cell_def core_ptr_def)
qed

theorem accept_thread_writes_unchecked_address_witness:
  "\<exists>t u. accept_thread 232 0x5000 (demo []) = (monitor_ok, t) \<and>
    (\<forall>f. thread_get t 232 f = init_info_get u 0x5000 f)"
proof -
  have c: "current_enclave (demo []) = 0" by (rule demo_current, rule region_cell_list_owners(1))
  have g: "g_dram_stripe_pages (demo []) = 1" "g_dram_stripe_page_mask (demo []) = 0"
    "g_dram_stripe_shift (demo []) = 18"
    by (simp_all add: demo_def put_cell_def demo0_def reset_state_def)
  have info: "metadata_page_info_for (demo []) 232 = 0"
    by (simp add: metadata_page_info_for_def dram_region_page_for_def dram_stripe_page_for_def
        dram_stripe_for_def g srl64_small sll64_def srl64_def)
  have "indices 1 = [0]" by (simp add: indices_def)
  then obtain u where u: "accept_metadata_pages 232 1 0 thread_metadata_page_type (demo []) = (monitor_ok, u)"
    using demo_page_free
    by (simp add: accept_metadata_pages_def assign_metadata_pages_def Let_def info g dram_stripe_page_for_def
        srl64_def)
  have lk: "region_lock (demo []) 0x5000 = 0"
    by (simp add: region_lock_def region_ptr_def demo_def put_cell_def demo0_def reset_state_def
        core_ptr_def ld32_st64_sep sep_def) (simp add: ld32_def ldn_zero)
  have r5: "dram_region_for (demo []) 0x5000 = 5" "dram_region_for (demo []) 0 = 0"
    by (simp_all add: dram_region_for_def srl64_small)
  obtain t where t: "accept_thread 232 0x5000 (demo []) = (monitor_ok, t)"
    using u lk by (simp add: accept_thread_def Let_def c r5 demo_cell demo_lock is_dram_address_def
        is_page_aligned_def is_aligned_to_mask_def read_dram_region_owner_def thread_metadata_pages_1)
  then show ?thesis using accept_thread_writes_unchecked_address [OF t] by blast
qed


theorem multi_page_reservation_loses_type_witness:
  "\<exists>t. assign_metadata_pages 0x7000 2 0x7000 2 0 (demo_meta\<lparr>g_dram_stripe_pages := 4\<rparr>) = (monitor_ok, t) \<and>
    ld64 (mem t) 0x7000 = 1 \<and> ld64 (mem t) 0x7008 = 0"
proof -
  let ?s = "demo_meta\<lparr>g_dram_stripe_pages := 4\<rparr>"
  have g: "g_dram_stripe_page_mask ?s = 0" "g_dram_stripe_shift ?s = 18" "g_dram_region_shift ?s = 12"
    "g_dram_region_mask ?s = 0x3F000"
    by (simp_all add: demo_meta_def demo_def put_cell_def demo0_def reset_state_def)
  have info: "metadata_page_info_for ?s 0x7000 = 0x7000"
    by (simp add: metadata_page_info_for_def dram_region_page_for_def dram_stripe_page_for_def
        dram_stripe_for_def g srl64_small sll64_def srl64_def)
  have z: "ld64 (mem ?s) (0x7000 + word_of_nat k) = 0" if "k < 4080" for k
    using demo_meta_zero [OF that] by simp
  have "indices 2 = [0, 1]" by (simp add: indices_def upt_rec)
  then obtain t where t: "assign_metadata_pages 0x7000 2 0x7000 2 0 ?s = (monitor_ok, t)"
    using z [of 0] z [of 8] by (simp add: assign_metadata_pages_def Let_def info g dram_stripe_page_for_def
        srl64_def)
  from multi_page_reservation_loses_type [OF t] show ?thesis
    using t info by (simp add: inner_metadata_page_type_def)
qed

end
