(* ===== verification/Page_Tables.thy ===== *)
theory Page_Tables
  imports Metadata
begin

text \<open>
  Page tables (\<open>sm/arch/page\_tables.h\<close>) and the monitor's software walk (\<open>enclave\_inl.h\<close>):
  three levels of 512 eight-byte entries, Sv39. The walk is compared with the direct reading of
  the three virtual page numbers of an address.
\<close>

section \<open>page\_tables.h\<close>

definition page_table_levels :: u64 where "page_table_levels = 3"
definition page_table_shift :: "u64 \<Rightarrow> u64" where "page_table_shift level = 9"
definition page_table_entry_shift :: "u64 \<Rightarrow> u64" where "page_table_entry_shift level = 3"

text \<open>The entry's first byte is loaded as a \<open>bool\<close> and masked with 1.\<close>

definition is_valid_page_table_entry :: "mem \<Rightarrow> u64 \<Rightarrow> u64 \<Rightarrow> bool" where
  "is_valid_page_table_entry m entry_addr level \<longleftrightarrow> m entry_addr AND 1 \<noteq> 0"

definition page_table_entry_target :: "mem \<Rightarrow> u64 \<Rightarrow> u64 \<Rightarrow> u64" where
  "page_table_entry_target m entry_addr level =
     (let target_mask = NOT (int_shl1 page_shift - 1) in ld64 m entry_addr AND target_mask)"

definition write_page_table_entry :: "u64 \<Rightarrow> u64 \<Rightarrow> u64 \<Rightarrow> u64 \<Rightarrow> mem \<Rightarrow> mem" where
  "write_page_table_entry entry_addr level target acl m =
     (let acl_mask = int_shl1 page_shift - 1;
          acl = acl AND acl_mask;
          acl = acl OR 1
      in st64 m entry_addr (target OR acl))"

definition page_table_entry_size :: "u64 \<Rightarrow> u64" where
  "page_table_entry_size level = int_shl1 (page_table_entry_shift level)"

definition page_table_entries :: "u64 \<Rightarrow> u64" where
  "page_table_entries level = int_shl1 (page_table_shift level)"

definition page_table_size :: "u64 \<Rightarrow> u64" where
  "page_table_size level = page_table_entries level * page_table_entry_size level"

definition page_table_pages :: "u64 \<Rightarrow> u64" where
  "page_table_pages level = srl64 (page_table_size level) page_shift"

partial_function (option) page_table_translated_bits_from :: "u64 \<Rightarrow> u64 \<Rightarrow> u64 option" where
  "page_table_translated_bits_from level acc =
     (if level = page_table_levels then Some acc
      else page_table_translated_bits_from (level + 1) (acc + page_table_shift level))"

definition page_table_translated_bits :: "u64 option" where
  "page_table_translated_bits = page_table_translated_bits_from 0 page_shift"

section \<open>The walk\<close>

definition is_enclave_virtual_address :: "mstate \<Rightarrow> u64 \<Rightarrow> u64 \<Rightarrow> bool" where
  "is_enclave_virtual_address s virtual_addr enclave_id \<longleftrightarrow>
     virtual_addr AND enclave_get s enclave_id Ev_mask = enclave_get s enclave_id Ev_base"

partial_function (option) walk_loop ::
    "mem \<Rightarrow> u64 \<Rightarrow> u64 \<Rightarrow> u64 \<Rightarrow> u64 \<Rightarrow> u64 \<Rightarrow> u64 option" where
  "walk_loop m virtual_addr level table_addr addr_shift walk_level0 =
     (let walk_level = walk_level0 - 1;
          level_addr_shift = page_table_shift walk_level;
          addr_shift = addr_shift - level_addr_shift;
          addr_mask = int_shl1 level_addr_shift - 1;
          entry_offset = srl64 virtual_addr addr_shift AND addr_mask;
          entry_addr = table_addr + sll64 entry_offset (page_table_entry_shift walk_level)
      in if walk_level = level then Some entry_addr
         else if \<not> is_valid_page_table_entry m entry_addr walk_level then Some 0
         else walk_loop m virtual_addr level (page_table_entry_target m entry_addr walk_level)
                addr_shift walk_level)"

definition walk_page_tables_to_entry :: "mem \<Rightarrow> u64 \<Rightarrow> u64 \<Rightarrow> u64 \<Rightarrow> u64 option" where
  "walk_page_tables_to_entry m ptb virtual_addr level =
     (case page_table_translated_bits of
        None \<Rightarrow> None
      | Some addr_shift \<Rightarrow>
         if ptb = 0 then Some 0
         else walk_loop m virtual_addr level ptb addr_shift page_table_levels)"

definition walk_page_tables :: "mem \<Rightarrow> u64 \<Rightarrow> u64 \<Rightarrow> u64 option" where
  "walk_page_tables m ptb virtual_addr =
     (case walk_page_tables_to_entry m ptb virtual_addr 0 of
        None \<Rightarrow> None
      | Some entry_addr \<Rightarrow>
         Some (if entry_addr = 0 then 0
               else if \<not> is_valid_page_table_entry m entry_addr 0 then 0
               else page_table_entry_target m entry_addr 0))"

section \<open>The specification of the walk\<close>

text \<open>The virtual page number of a level: nine bits from bit \<open>12 + 9 * level\<close>.\<close>

definition vpn :: "nat \<Rightarrow> u64 \<Rightarrow> u64" where
  "vpn level va = take_bit 9 (drop_bit (12 + 9 * level) va)"

definition entry_at :: "u64 \<Rightarrow> nat \<Rightarrow> u64 \<Rightarrow> u64" where
  "entry_at table level va = table + 8 * vpn level va"

text \<open>The entry that a walk down to a level reaches: the table below a valid entry is at its target.\<close>

fun entry_spec :: "mem \<Rightarrow> u64 \<Rightarrow> u64 \<Rightarrow> nat \<Rightarrow> nat \<Rightarrow> u64" where
  "entry_spec m table va level 0 = entry_at table level va"
| "entry_spec m table va level (Suc n) =
     (let e = entry_at table (level + Suc n) va
      in if bit (m e) 0 then entry_spec m (ld64 m e AND NOT 0xFFF) va level n else 0)"

definition translate_spec :: "mem \<Rightarrow> u64 \<Rightarrow> u64 \<Rightarrow> u64" where
  "translate_spec m ptb va =
     (let e = entry_spec m ptb va 0 2
      in if ptb = 0 \<or> e = 0 \<or> \<not> bit (m e) 0 then 0 else ld64 m e AND NOT 0xFFF)"

lemma translated_bits: "page_table_translated_bits = Some 39"
  by (simp add: page_table_translated_bits_def page_table_translated_bits_from.simps
      page_table_levels_def page_table_shift_def)

lemma valid_bit: "is_valid_page_table_entry m a l \<longleftrightarrow> bit (m a) 0"
  by (simp add: is_valid_page_table_entry_def and_one_eq bit_0 mod_2_eq_odd)

lemma target_eq: "page_table_entry_target m a l = ld64 m a AND NOT 0xFFF"
  by (simp add: page_table_entry_target_def int_shl1_small)

lemma walk_step:
  assumes "l < 3" "walk_level = word_of_nat (Suc l)" "sh = word_of_nat (12 + 9 * l + 9)"
  shows "walk_loop m va level table sh walk_level =
    (if level = word_of_nat l then Some (entry_at table l va)
     else if \<not> bit (m (entry_at table l va)) 0 then Some 0
     else walk_loop m va level (ld64 m (entry_at table l va) AND NOT 0xFFF) (word_of_nat (12 + 9 * l))
            (word_of_nat l))"
proof -
  have "(512 :: u64) - 1 = mask 9" by (simp add: mask_eq_exp_minus_1)
  moreover have "unat (word_of_nat (12 + 9 * l) :: u64) = 12 + 9 * l"
    using assms(1) by (intro unat_of_nat64) simp
  ultimately have "srl64 va (word_of_nat (12 + 9 * l)) AND (int_shl1 9 - 1) = vpn l va"
    using assms(1) by (simp add: vpn_def srl64_small int_shl1_platform take_bit_eq_mask del: of_nat_add of_nat_mult)
  moreover have "sll64 (vpn l va) 3 = 8 * vpn l va" by (simp add: sll64_small push_bit_eq_mult)
  moreover have "sh - 9 = word_of_nat (12 + 9 * l)" "walk_level - 1 = word_of_nat l"
    using assms by simp_all
  ultimately show ?thesis
    by (subst walk_loop.simps)
      (auto simp: Let_def page_table_shift_def page_table_entry_shift_def valid_bit target_eq entry_at_def
        simp del: of_nat_add of_nat_mult)
qed


text \<open>The loop from the top follows the specification.\<close>

lemma walk_loop_spec:
  assumes "level + n \<le> 2"
  shows "walk_loop m va (word_of_nat level) table (word_of_nat (12 + 9 * (level + n) + 9))
      (word_of_nat (Suc (level + n))) = Some (entry_spec m table va level n)"
  using assms
proof (induction n arbitrary: table)
  case 0
  then show ?case by (subst walk_step [of level]) simp_all
next
  case (Suc n)
  let ?l = "level + Suc n"
  have ne: "(word_of_nat level :: u64) \<noteq> word_of_nat ?l"
  proof
    assume "(word_of_nat level :: u64) = word_of_nat ?l"
    then have "unat (word_of_nat level :: u64) = unat (word_of_nat ?l :: u64)" by (rule arg_cong)
    moreover have "unat (word_of_nat level :: u64) = level" "unat (word_of_nat ?l :: u64) = ?l"
      using Suc.prems by (intro unat_of_nat64; simp)+
    ultimately show False by simp
  qed
  have sh: "(word_of_nat (12 + 9 * ?l) :: u64) = word_of_nat (12 + 9 * (level + n) + 9)"
    "(word_of_nat ?l :: u64) = word_of_nat (Suc (level + n))" by simp_all
  show ?case
    using Suc.IH Suc.prems ne
    by (subst walk_step [of ?l]) (simp_all only: sh entry_spec.simps Let_def, simp_all)
qed

lemma walk_to_entry_spec:
  assumes "level \<le> 2"
  shows "walk_page_tables_to_entry m ptb va (word_of_nat level) =
    Some (if ptb = 0 then 0 else entry_spec m ptb va level (2 - level))"
proof -
  have "walk_loop m va (word_of_nat level) ptb 39 3 = Some (entry_spec m ptb va level (2 - level))"
    using walk_loop_spec [of level "2 - level" m va ptb] assms by simp
  then show ?thesis by (simp add: walk_page_tables_to_entry_def translated_bits page_table_levels_def)
qed

lemma walk_spec: "walk_page_tables m ptb va = Some (translate_spec m ptb va)"
  using walk_to_entry_spec [of 0 m ptb va]
  by (simp add: walk_page_tables_def translate_spec_def Let_def valid_bit target_eq)

section \<open>Properties\<close>

text \<open>C7: The software walk returns for every root, address and level below 3, and gives what reading
  the three virtual page numbers directly gives: the address of the level's entry, or 0 if
  the root is unset or a table on the way is not present; the full walk gives the page the leaf
  entry points to, or 0.\<close>

theorem walk_equals_sv39_spec:
  assumes "level \<le> 2"
  shows "walk_page_tables_to_entry m ptb va (word_of_nat level) =
      Some (if ptb = 0 then 0 else entry_spec m ptb va level (2 - level)) \<and>
    walk_page_tables m ptb va = Some (translate_spec m ptb va)"
  using walk_to_entry_spec [OF assms] walk_spec by simp

theorem walk_equals_sv39_spec_witness:
  "walk_page_tables_to_entry (\<lambda>_. 1) 0x2000 0 (word_of_nat 1) = Some (entry_spec (\<lambda>_. 1) 0x2000 0 1 (2 - 1))"
  using walk_equals_sv39_spec [of 1 "\<lambda>_. 1" "0x2000" 0] by simp

text \<open>The entries a full walk reads.\<close>

definition walk_entry :: "mem \<Rightarrow> u64 \<Rightarrow> nat \<Rightarrow> u64 \<Rightarrow> u64" where
  "walk_entry m ptb level va = entry_spec m ptb va level (2 - level)"

lemma byte_of_word: "ld64 m a = w \<Longrightarrow> m a = ucast w"
proof -
  assume "ld64 m a = w"
  then have "word_bytes w ! 0 = ld_bytes m a 8 ! 0" by (simp add: word_bytes_ld64 [symmetric])
  then show ?thesis by (simp add: word_bytes_def)
qed

lemma entry_first_byte: "bit (m a) 0 \<longleftrightarrow> bit (ld64 m a) 0"
proof -
  have "bit (ucast (ld64 m a) :: u8) 0 \<longleftrightarrow> bit (ld64 m a) 0" by (simp add: bit_simps)
  with byte_of_word [of m a "ld64 m a"] show ?thesis by metis
qed

text \<open>C8: Installing a leaf makes the walk find it: if the upper two levels are present and the leaf
  entry shares no byte with them, then after \<open>write_page_table_entry\<close> of a page-aligned target
  the walk of the address returns that target, whatever the access bits.\<close>

theorem write_then_walk:
  assumes "ptb \<noteq> 0" "walk_entry m ptb 0 va = e" "e \<noteq> 0" "target AND 0xFFF = 0"
    and "bit (m (walk_entry m ptb 1 va)) 0" "bit (m (walk_entry m ptb 2 va)) 0"
    and "sep e 8 (walk_entry m ptb 1 va) 8" "sep e 8 (walk_entry m ptb 2 va) 8"
  shows "walk_page_tables (write_page_table_entry e 0 target acl m) ptb va = Some target"
proof -
  define m' where "m' = write_page_table_entry e 0 target acl m"
  define e2 where "e2 = entry_at ptb 2 va"
  define e1 where "e1 = entry_at (ld64 m e2 AND NOT 0xFFF) 1 va"
  have w2: "walk_entry m ptb 2 va = e2" by (simp add: walk_entry_def e2_def)
  have w1: "walk_entry m ptb 1 va = e1"
    using assms(6) w2 by (simp add: walk_entry_def e1_def e2_def Let_def numeral_2_eq_2)
  have w0: "e = entry_at (ld64 m e1 AND NOT 0xFFF) 0 va"
    using assms(2,5,6) w1 w2
    by (simp add: walk_entry_def e1_def e2_def Let_def numeral_2_eq_2)
  have leaf: "ld64 m' e = target OR (acl AND 0xFFF OR 1)"
    by (simp add: m'_def write_page_table_entry_def Let_def int_shl1_platform)
  have keep: "ld64 m' e1 = ld64 m e1" "ld64 m' e2 = ld64 m e2"
    using assms(7,8) w1 w2 by (simp_all add: m'_def write_page_table_entry_def Let_def ld64_st64_sep)
  have present: "bit (m' e1) 0" "bit (m' e2) 0"
    using assms(5,6) w1 w2 by (simp_all add: entry_first_byte keep)
  have "entry_spec m' ptb va 0 2 = e"
  proof -
    have "entry_at ptb (Suc (Suc 0)) va = e2" "entry_at (ld64 m e2 AND NOT 0xFFF) (Suc 0) va = e1"
      by (simp_all add: e2_def e1_def numeral_2_eq_2)
    then show ?thesis using present keep w0 by (simp only: numeral_2_eq_2 entry_spec.simps Let_def add_0 if_True)
  qed
  moreover have "bit (m' e) 0" by (simp add: entry_first_byte leaf bit_simps)
  moreover have "ld64 m' e AND NOT 0xFFF = target"
  proof (rule bit_word_eqI)
    fix n assume n: "n < LENGTH(64)"
    have m: "0xFFF = (mask 12 :: u64)" by (simp add: mask_eq_exp_minus_1)
    have b: "bit (0xFFF :: u64) n \<longleftrightarrow> n < 12" using n by (subst m) (simp add: bit_mask_iff)
    have c: "bit (- 4096 :: u64) n \<longleftrightarrow> \<not> n < 12"
    proof -
      have "- 4096 = NOT (mask 12 :: u64)" by (simp add: mask_eq_exp_minus_1)
      then have "bit (- 4096 :: u64) n \<longleftrightarrow> bit (NOT (mask 12 :: u64)) n" by (rule arg_cong)
      also have "\<dots> \<longleftrightarrow> \<not> n < 12" using n by (auto simp: bit_not_iff bit_mask_iff)
      finally show ?thesis .
    qed
    have "\<not> bit (target AND 0xFFF) n" by (simp add: assms(4))
    then have "n < 12 \<Longrightarrow> \<not> bit target n" using b by (simp add: bit_and_iff)
    then show "bit (ld64 m' e AND NOT 0xFFF) n = bit target n"
      using n b c by (auto simp: leaf bit_and_iff bit_or_iff bit_1_iff)
  qed
  ultimately show ?thesis
    using assms(1,3) by (simp add: walk_spec translate_spec_def Let_def m'_def [symmetric])
qed


text \<open>Three tables in the concrete memory: the root at 0x1000, then 0x2000, then 0x3000.\<close>

definition demo_tables :: mem where
  "demo_tables = st64 (st64 (\<lambda>_. 0) 0x1000 0x2001) 0x2000 0x3001"

theorem write_then_walk_witness:
  "walk_page_tables (write_page_table_entry 0x3000 0 0x5000 7 demo_tables) 0x1000 0 = Some 0x5000"
proof -
  have l: "ld64 demo_tables 0x1000 = 0x2001" "ld64 demo_tables 0x2000 = 0x3001"
    by (simp_all add: demo_tables_def ld64_st64_sep sep_def)
  have b: "bit (demo_tables 0x1000) 0" "bit (demo_tables 0x2000) 0"
    by (simp_all add: entry_first_byte l bit_0)
  have e: "entry_at t l 0 = t" for t l by (simp add: entry_at_def vpn_def)
  have w: "walk_entry demo_tables 0x1000 2 0 = 0x1000" "walk_entry demo_tables 0x1000 1 0 = 0x2000"
    "walk_entry demo_tables 0x1000 0 0 = 0x3000"
    using b by (simp_all add: walk_entry_def e numeral_2_eq_2 Let_def l)
  show ?thesis
    by (rule write_then_walk [OF _ w(3)]) (simp_all only: w b, simp_all add: sep_def)
qed

end
