(* ===== verification/Vm.thy ===== *)
theory Vm
  imports Page_Tables
begin

text \<open>
  The translation of virtual addresses in software (\<open>sm/machine/vm.c\<close>) and what it has to do with the
  hardware's: the translation algorithm of the privileged architecture, Sv39, over the same memory. The
  algorithm is written from the manual; \<open>virt_to_phys\<close> is compared with it, and with the monitor's own
  reading of page table entries (\<open>sm/arch/page_tables.h\<close>).
\<close>

section \<open>virt\_to\_phys\<close>

abbreviation "CSR_satp \<equiv> 0x180 :: u64"

text \<open>The result and the memory, in which the entry used is marked dirty.\<close>

definition virt_to_phys :: "u64 \<Rightarrow> mstate \<Rightarrow> u64 \<times> mstate" where
  "virt_to_phys va s =
     (let PT2 = push_bit 12 (csr s CSR_satp AND 0xFFFFFFFFFFF);
          vpn2 = drop_bit 30 va AND 0x1FF;
          pte2 = ld64 (mem s) (PT2 + 8 * vpn2);
          ppn2 = drop_bit 10 pte2;
          xwrv2 = pte2 AND 0xF
      in if xwrv2 AND 1 = 0 then (0, s)
         else if xwrv2 \<noteq> 1 then
           let pte2 = pte2 OR 0x80;
               s = s\<lparr>mem := st64 (mem s) (PT2 + 8 * vpn2) pte2\<rparr>;
               mask2 = push_bit 12 0xFFFFFFC0000;
               pa = (va AND NOT mask2) OR (push_bit 12 ppn2 AND mask2)
           in (pa, s)
         else
           let PT1 = push_bit 12 ppn2;
               vpn1 = drop_bit 21 va AND 0x1FF;
               pte1 = ld64 (mem s) (PT1 + 8 * vpn1);
               ppn1 = drop_bit 10 pte1;
               xwrv1 = pte1 AND 0xF
           in if xwrv1 AND 1 = 0 then (0, s)
              else if xwrv1 \<noteq> 1 then
                let pte1 = pte1 OR 0x80;
                    s = s\<lparr>mem := st64 (mem s) (PT1 + 8 * vpn1) pte1\<rparr>;
                    mask1 = push_bit 12 0xFFFFFFFFE00;
                    pa = (va AND NOT mask1) OR (push_bit 12 ppn1 AND mask1)
                in (pa, s)
              else
                let PT0 = push_bit 12 ppn1;
                    vpn0 = drop_bit 12 va AND 0x1FF;
                    pte0 = ld64 (mem s) (PT0 + 8 * vpn0);
                    ppn0 = drop_bit 10 pte0;
                    xwrv0 = pte0 AND 0xF
                in if xwrv0 AND 1 = 0 then (0, s)
                   else
                     let pte0 = pte0 OR 0x80;
                         s = s\<lparr>mem := st64 (mem s) (PT0 + 8 * vpn0) pte0\<rparr>;
                         mask0 = push_bit 12 0xFFFFFFFFFFF;
                         pa = (va AND NOT mask0) OR (push_bit 12 ppn0 AND mask0)
                     in (pa, s))"

section \<open>Sv39\<close>

text \<open>
  The fields of an entry: a 44-bit page number from bit 10, the valid bit, the permissions; the top ten bits
  are reserved and zero. A valid entry with a permission is a leaf, one without is a pointer to the table of
  the next level.
\<close>

definition pte_ppn :: "u64 \<Rightarrow> u64" where "pte_ppn e = take_bit 44 (drop_bit 10 e)"

definition pte_valid :: "u64 \<Rightarrow> bool" where "pte_valid e \<longleftrightarrow> bit e 0 \<and> drop_bit 54 e = 0"

definition pte_leaf :: "u64 \<Rightarrow> bool" where "pte_leaf e \<longleftrightarrow> bit e 1 \<or> bit e 2 \<or> bit e 3"

text \<open>The leaf's address and level that the walk finds in the table at page \<open>ppn\<close>.\<close>

fun sv39_walk :: "mem \<Rightarrow> u64 \<Rightarrow> nat \<Rightarrow> u64 \<Rightarrow> (u64 \<times> nat) option" where
  "sv39_walk m va l ppn =
     (let a = push_bit 12 ppn + 8 * vpn l va; e = ld64 m a
      in if \<not> pte_valid e then None
         else if pte_leaf e then Some (a, l)
         else case l of 0 \<Rightarrow> None | Suc l \<Rightarrow> sv39_walk m va l (pte_ppn e))"

declare sv39_walk.simps [simp del]

lemmas walk_levels = sv39_walk.simps [of _ _ 2, simplified] sv39_walk.simps [of _ _ "Suc 0", simplified]
  sv39_walk.simps [of _ _ 0, simplified]

text \<open>A leaf of level \<open>l\<close> maps \<open>2^(12 + 9 l)\<close> bytes; its page number is a multiple of that size.\<close>

definition sv39_pa :: "u64 \<Rightarrow> nat \<Rightarrow> u64 \<Rightarrow> u64" where
  "sv39_pa e l va = push_bit 12 (pte_ppn e) + take_bit (12 + 9 * l) va"

definition aligned_leaf :: "u64 \<Rightarrow> nat \<Rightarrow> bool" where
  "aligned_leaf e l \<longleftrightarrow> take_bit (9 * l) (pte_ppn e) = 0"

definition satp_ppn :: "mstate \<Rightarrow> u64" where "satp_ppn s = take_bit 44 (csr s CSR_satp)"


section \<open>Bits of an address\<close>

text \<open>The page number of a leaf of level \<open>l\<close> as a mask over addresses.\<close>

definition frame_mask :: "nat \<Rightarrow> u64" where "frame_mask l = push_bit (12 + 9 * l) (mask (44 - 9 * l))"

lemma frame_masks:
  "push_bit 12 0xFFFFFFFFFFF = frame_mask 0" "push_bit 12 0xFFFFFFFFE00 = frame_mask 1"
  "push_bit 12 0xFFFFFFC0000 = frame_mask 2"
  by (simp_all add: frame_mask_def mask_eq_exp_minus_1 push_bit_eq_mult)

lemma bit_frame_mask: "l \<le> 2 \<Longrightarrow> bit (frame_mask l) n \<longleftrightarrow> 12 + 9 * l \<le> n \<and> n < 56"
  by (auto simp: frame_mask_def bit_push_bit_iff bit_mask_iff)

lemma bit_pte_ppn: "bit (pte_ppn e) n \<longleftrightarrow> n < 44 \<and> bit e (10 + n)"
  by (simp add: pte_ppn_def bit_take_bit_iff bit_drop_bit_eq)

lemma valid_bits: "pte_valid e \<Longrightarrow> bit e n \<Longrightarrow> n < 54"
proof (rule ccontr)
  assume a: "pte_valid e" "bit e n" "\<not> n < 54"
  then have "bit (drop_bit 54 e) (n - 54)" by (simp add: bit_drop_bit_eq)
  with a(1) show False by (simp add: pte_valid_def)
qed

lemma table_of: "pte_valid e \<Longrightarrow> push_bit 12 (drop_bit 10 e) = push_bit 12 (pte_ppn e)"
  by (rule bit_word_eqI) (auto simp: bit_push_bit_iff bit_pte_ppn bit_drop_bit_eq dest: valid_bits)

definition high_byte :: "u64 \<Rightarrow> u64" where "high_byte va = va AND push_bit 56 (mask 8)"

lemma pa_bits:
  assumes "pte_valid e" "l \<le> 2" "aligned_leaf e l"
  shows "(va AND NOT (frame_mask l)) OR (push_bit 12 (drop_bit 10 e) AND frame_mask l) =
    sv39_pa e l va OR high_byte va"
proof -
  have low: "\<not> bit (pte_ppn e) n" if "n < 9 * l" for n
  proof -
    have "\<not> bit (take_bit (9 * l) (pte_ppn e)) n" using assms(3) by (simp add: aligned_leaf_def)
    then show ?thesis using that by (simp add: bit_take_bit_iff)
  qed
  have disj: "push_bit 12 (pte_ppn e) + take_bit (12 + 9 * l) va = push_bit 12 (pte_ppn e) OR take_bit (12 + 9 * l) va"
  proof (rule disjunctive_add)
    fix n
    have "n < 12 + 9 * l \<Longrightarrow> 12 \<le> n \<Longrightarrow> \<not> bit (pte_ppn e) (n - 12)" by (rule low) linarith
    then show "\<not> bit (push_bit 12 (pte_ppn e)) n \<or> \<not> bit (take_bit (12 + 9 * l) va) n"
      by (auto simp: bit_push_bit_iff bit_take_bit_iff)
  qed
  have top: "bit (push_bit 56 (mask 8) :: u64) n \<longleftrightarrow> 56 \<le> n \<and> n < 64" for n
    by (auto simp: bit_push_bit_iff bit_mask_iff)
  have ppn: "bit (pte_ppn e) (n - 12) \<longleftrightarrow> n < 56 \<and> bit e (n - 2)" if "12 \<le> n" for n
  proof -
    have "10 + (n - 12) = n - 2" "n - 12 < 44 \<longleftrightarrow> n < 56" using that by linarith+
    then show ?thesis by (simp only: bit_pte_ppn)
  qed
  show ?thesis
  proof (rule bit_word_eqI)
    fix n assume n: "n < LENGTH(64)"
    have "12 + 9 * l \<le> n" if "12 \<le> n" "bit (pte_ppn e) (n - 12)"
      using low [of "n - 12"] that by linarith
    then show "bit ((va AND NOT (frame_mask l)) OR (push_bit 12 (drop_bit 10 e) AND frame_mask l)) n =
        bit (sv39_pa e l va OR high_byte va) n"
      unfolding sv39_pa_def high_byte_def disj table_of [OF assms(1)] using n assms(2)
      by (auto simp only: top bit_or_iff bit_and_iff) (auto simp: bit_or_iff bit_and_iff bit_not_iff bit_push_bit_iff bit_take_bit_iff bit_frame_mask top ppn)
  qed
qed

lemma vpn_eq: "drop_bit (12 + 9 * l) va AND 0x1FF = vpn l va"
proof -
  have "(0x1FF :: u64) = mask 9" by (simp add: mask_eq_exp_minus_1)
  then show ?thesis by (simp only: vpn_def take_bit_eq_mask)
qed

lemma xwrv:
  "(e AND 0xF) AND 1 = 0 \<longleftrightarrow> \<not> bit (e :: u64) 0"
  "bit e 0 \<Longrightarrow> e AND 0xF \<noteq> 1 \<longleftrightarrow> pte_leaf e"
proof -
  have f: "(0xF :: u64) = mask 4" by (simp add: mask_eq_exp_minus_1)
  have b: "bit (e AND 0xF) n \<longleftrightarrow> n < 4 \<and> bit e n" for n
    unfolding f by (auto simp: bit_and_iff bit_mask_iff dest: bit_imp_le_length)
  have one: "bit (1 :: u64) n \<longleftrightarrow> n = 0" for n by (simp add: bit_1_iff)
  show "(e AND 0xF) AND 1 = 0 \<longleftrightarrow> \<not> bit e 0"
    by (simp add: and_one_eq bit_0 even_and_iff flip: even_iff_mod_2_eq_zero)
  assume e: "bit e 0"
  have "e AND 0xF = 1" if all: "\<forall>n. bit (e AND 0xF) n \<longleftrightarrow> n = 0"
  proof (rule bit_word_eqI)
    fix n
    show "bit (e AND 0xF) n = bit (1 :: u64) n" by (simp only: all [rule_format] one)
  qed
  moreover have "e AND 0xF = 1 \<Longrightarrow> \<forall>n. bit (e AND 0xF) n \<longleftrightarrow> n = 0"
    by (erule ssubst) (simp add: one)
  ultimately have "e AND 0xF = 1 \<longleftrightarrow> (\<forall>n. bit (e AND 0xF) n \<longleftrightarrow> n = 0)" by (rule iffI [rotated])
  also have "\<dots> \<longleftrightarrow> \<not> bit e 1 \<and> \<not> bit e 2 \<and> \<not> bit e 3"
  proof
    assume all: "\<forall>n. bit (e AND 0xF) n \<longleftrightarrow> n = 0"
    show "\<not> bit e 1 \<and> \<not> bit e 2 \<and> \<not> bit e 3"
      using all [rule_format, of 1] all [rule_format, of 2] all [rule_format, of 3] by (simp add: b)
  next
    assume no: "\<not> bit e 1 \<and> \<not> bit e 2 \<and> \<not> bit e 3"
    have "n = 0 \<or> n = 1 \<or> n = 2 \<or> n = 3" if "n < 4" for n :: nat using that by linarith
    then show "\<forall>n. bit (e AND 0xF) n \<longleftrightarrow> n = 0" using no e by (metis b zero_less_numeral)
  qed
  finally show "e AND 0xF \<noteq> 1 \<longleftrightarrow> pte_leaf e" by (simp add: pte_leaf_def)
qed

section \<open>Properties\<close>

text \<open>C29: When the hardware's translation of an address succeeds, \<open>virt_to_phys\<close> finds the same leaf, marks it
  dirty, and returns the hardware's physical address, except that bits 56 to 63 of the virtual address are
  copied into it: the result is right for the addresses below \<open>2^56\<close> and never for those of the upper
  half, where the operating system's kernel lives.\<close>

theorem virt_to_phys_is_sv39:
  assumes "sv39_walk (mem s) va 2 (satp_ppn s) = Some (a, l)" "aligned_leaf (ld64 (mem s) a) l"
  shows "virt_to_phys va s =
    (sv39_pa (ld64 (mem s) a) l va OR high_byte va, s\<lparr>mem := st64 (mem s) a (ld64 (mem s) a OR 0x80)\<rparr>)"
proof -
  have satp: "csr s CSR_satp AND 0xFFFFFFFFFFF = satp_ppn s"
  proof -
    have "(0xFFFFFFFFFFF :: u64) = mask 44" by (simp add: mask_eq_exp_minus_1)
    then show ?thesis by (simp only: satp_ppn_def take_bit_eq_mask)
  qed
  note vpns = vpn_eq [of 0 va, simplified] vpn_eq [of 1 va, simplified] vpn_eq [of 2 va, simplified]
  have v: "pte_valid e \<Longrightarrow> bit e 0" for e by (simp add: pte_valid_def)
  define e2 where "e2 = ld64 (mem s) (push_bit 12 (satp_ppn s) + 8 * vpn 2 va)"
  define e1 where "e1 = ld64 (mem s) (push_bit 12 (pte_ppn e2) + 8 * vpn (Suc 0) va)"
  define e0 where "e0 = ld64 (mem s) (push_bit 12 (pte_ppn e1) + 8 * vpn 0 va)"
  note code = Let_def satp vpns e2_def [symmetric]
  have e2: "pte_valid e2" using assms(1) by (auto simp: walk_levels Let_def e2_def split: if_splits)
  show ?thesis
  proof (cases "pte_leaf e2")
    case True
    then have "a = push_bit 12 (satp_ppn s) + 8 * vpn 2 va" "l = 2" "ld64 (mem s) a = e2"
      using assms(1) e2 by (simp_all add: walk_levels Let_def e2_def)
    then show ?thesis using True e2 assms(2) v [OF e2] unfolding virt_to_phys_def frame_masks by (simp add: code xwrv pa_bits)
  next
    case False
    then have w1: "sv39_walk (mem s) va 1 (pte_ppn e2) = Some (a, l)"
      using assms(1) e2 by (simp add: walk_levels Let_def e2_def)
    then have e1: "pte_valid e1" by (auto simp: walk_levels Let_def e1_def split: if_splits)
    note code = code table_of [OF e2] e1_def [symmetric]
    show ?thesis
    proof (cases "pte_leaf e1")
      case leaf: True
      then have "a = push_bit 12 (pte_ppn e2) + 8 * vpn (Suc 0) va" "l = 1"
        using w1 e1 by (auto simp: walk_levels Let_def e1_def)
      then have "a = push_bit 12 (pte_ppn e2) + 8 * vpn (Suc 0) va" "l = 1" "ld64 (mem s) a = e1"
        by (simp_all add: e1_def)
      then show ?thesis using False leaf e1 assms(2) v [OF e2] v [OF e1] unfolding virt_to_phys_def frame_masks by (simp add: code xwrv pa_bits)
    next
      case inner: False
      then have w0: "sv39_walk (mem s) va 0 (pte_ppn e1) = Some (a, l)"
        using w1 e1 by (simp add: walk_levels Let_def e1_def)
      then have e0: "pte_valid e0" by (auto simp: walk_levels Let_def e0_def split: if_splits)
      then have "a = push_bit 12 (pte_ppn e1) + 8 * vpn 0 va" "l = 0" "ld64 (mem s) a = e0"
        using w0 by (auto simp: walk_levels Let_def e0_def split: if_splits)
      then show ?thesis using False inner e0 assms(2) v [OF e2] v [OF e1] v [OF e0]
        unfolding virt_to_phys_def frame_masks by (simp add: code table_of [OF e1] e0_def [symmetric] xwrv pa_bits)
    qed
  qed
qed


text \<open>A gigabyte mapped at the bottom of the upper half.\<close>

lemma virt_to_phys_is_sv39_witness:
  "\<forall>s. let s = s\<lparr>csr := \<lambda>_. 1, mem := st64 (\<lambda>_. 0) 0x1800 0x1000000F\<rparr>
    in virt_to_phys 0xFFFFFFC000000123 s = (0xFF00000040000123, s\<lparr>mem := st64 (mem s) 0x1800 0x1000008F\<rparr>)"
proof
  fix s :: mstate
  define t where "t = s\<lparr>csr := \<lambda>_. 1, mem := st64 (\<lambda>_. 0) 0x1800 0x1000000F\<rparr>"
  have a: "push_bit 12 (satp_ppn t) + 8 * vpn 2 0xFFFFFFC000000123 = 0x1800"
    by (simp add: t_def satp_ppn_def vpn_def take_bit_eq_mask mask_eq_exp_minus_1 drop_bit_eq_div)
  have e: "ld64 (mem t) 0x1800 = 0x1000000F" by (simp add: t_def)
  have leaf: "pte_valid 0x1000000F" "pte_leaf 0x1000000F" by (simp_all add: pte_valid_def pte_leaf_def drop_bit_eq_div)
  have walk: "sv39_walk (mem t) 0xFFFFFFC000000123 2 (satp_ppn t) = Some (0x1800, 2)"
    unfolding walk_levels(1) Let_def a e using leaf by simp
  have "aligned_leaf (ld64 (mem t) 0x1800) 2"
    by (simp add: e aligned_leaf_def pte_ppn_def take_bit_eq_mask mask_eq_exp_minus_1 drop_bit_eq_div)
  from virt_to_phys_is_sv39 [OF walk this]
  have "virt_to_phys 0xFFFFFFC000000123 t = (0xFF00000040000123, t\<lparr>mem := st64 (mem t) 0x1800 0x1000008F\<rparr>)"
    unfolding e by (simp add: sv39_pa_def pte_ppn_def high_byte_def take_bit_eq_mask mask_eq_exp_minus_1 drop_bit_eq_div
      push_bit_eq_mult)
  then show "let s = s\<lparr>csr := \<lambda>_. 1, mem := st64 (\<lambda>_. 0) 0x1800 0x1000000F\<rparr>
    in virt_to_phys 0xFFFFFFC000000123 s = (0xFF00000040000123, s\<lparr>mem := st64 (mem s) 0x1800 0x1000008F\<rparr>)"
    by (simp only: Let_def t_def)
qed

text \<open>C30: The monitor and the hardware disagree on the entries the monitor writes: the entry for a page
  reads back as that page in the monitor's own walk, and as another page by the rules of Sv39, for every
  page below \<open>2^54\<close> but the first one.\<close>

theorem monitor_entries_are_not_sv39:
  assumes "pa AND 0xFFF = 0" "pa \<noteq> 0" "drop_bit 54 pa = 0" "m' = write_page_table_entry e 0 pa acl m"
  shows "page_table_entry_target m' e 0 = pa \<and> push_bit 12 (pte_ppn (ld64 m' e)) \<noteq> pa"
proof -
  have m12: "(0xFFF :: u64) = mask 12" by (simp add: mask_eq_exp_minus_1)
  define flags where "flags = acl AND mask 12 OR 1"
  have flags: "\<not> bit flags n" if "12 \<le> n" for n
    using that by (auto simp: flags_def bit_or_iff bit_and_iff bit_mask_iff bit_1_iff)
  have entry: "ld64 m' e = pa OR flags"
    using m12 by (simp add: assms(4) write_page_table_entry_def Let_def int_shl1_platform flags_def)
  have low: "\<not> bit pa n" if "n < 12" for n
  proof -
    have "take_bit 12 pa = 0" using assms(1) by (simp only: m12 take_bit_eq_mask)
    then have "\<not> bit (take_bit 12 pa) n" by simp
    then show ?thesis using that by (simp add: bit_take_bit_iff)
  qed
  have high: "n < 54" if "bit pa n" for n
  proof (rule ccontr)
    assume "\<not> n < 54"
    then have "bit (drop_bit 54 pa) (n - 54)" using that by (simp add: bit_drop_bit_eq)
    then show False using assms(3) by simp
  qed
  have target: "page_table_entry_target m' e 0 = pa"
  proof (rule bit_word_eqI)
    fix n assume "n < LENGTH(64)"
    then show "bit (page_table_entry_target m' e 0) n = bit pa n"
      using low [of n] flags [of n]
      by (auto simp: target_eq entry m12 bit_and_iff bit_not_iff bit_mask_iff bit_or_iff)
  qed
  define h where "h = Max {n. bit pa n}"
  have fin: "finite {n. bit pa n}" by (rule finite_subset [of _ "{..<54}"]) (auto dest: high)
  moreover have "{n. bit pa n} \<noteq> {}" using assms(2) by (auto simp: bit_eq_iff)
  ultimately have "bit pa h" using Max_in [of "{n. bit pa n}"] by (simp add: h_def)
  moreover have "\<not> bit pa (h + 2)"
  proof
    assume "bit pa (h + 2)"
    then have "h + 2 \<le> h" unfolding h_def using Max_ge [OF fin] by blast
    then show False by simp
  qed
  ultimately have h: "bit pa h" "\<not> bit pa (h + 2)" by blast+
  have "bit (push_bit 12 (pte_ppn (ld64 m' e))) (h + 2)"
  proof -
    have "12 \<le> h" "10 + (h + 2 - 12) = h" using h(1) low [of h] by (cases "h < 12"; simp)+
    then show ?thesis using h(1) high [OF h(1)] by (simp add: bit_push_bit_iff bit_pte_ppn entry bit_or_iff)
  qed
  then show ?thesis using h(2) target by metis
qed

lemma monitor_entries_are_not_sv39_witness:
  "push_bit 12 (pte_ppn (ld64 (write_page_table_entry 0 0 0x80000000 7 (\<lambda>_. 0)) 0)) \<noteq> 0x80000000"
proof -
  have "drop_bit 54 (0x80000000 :: u64) = 0" by (simp add: drop_bit_eq_div)
  then show ?thesis
    using monitor_entries_are_not_sv39 [where pa = "0x80000000" and e = 0 and acl = 7 and m = "\<lambda>_. 0", OF _ _ _ refl] by simp
qed

end
