(* ===== verification/Enclave_Calls.thy ===== *)
theory Enclave_Calls
  imports Page_Tables
begin

text \<open>
  The enclave calls of \<open>sm/monitor/enclave.c\<close> and \<open>sm/monitor/enclave_init.c\<close>, as the
  compiler sees them: the statements inside C comments are not part of the program.
\<close>

section \<open>enclave\_init.c\<close>

definition load_page_table :: "u64 \<Rightarrow> u64 \<Rightarrow> u64 \<Rightarrow> u64 \<Rightarrow> u64 \<Rightarrow> mstate \<Rightarrow> api_result \<times> mstate" where
  "load_page_table enclave_id phys_addr virtual_addr level acl s0 =
     (if \<not> is_dram_address s0 phys_addr then (monitor_invalid_value, s0)
      else if \<not> is_page_aligned phys_addr then (monitor_invalid_value, s0)
      else if level \<ge> page_table_levels then (monitor_invalid_value, s0)
      else
       (let dram_region = clamped_dram_region_for s0 enclave_id;
            (held, s) = test_and_set_dram_region_lock dram_region s0 in
        if held then (monitor_concurrent_call, s)
        else if enclave_id = null_enclave_id \<or> \<not> is_valid_enclave_id s enclave_id
        then (monitor_invalid_value, clear_dram_region_lock dram_region s)
        else if enclave_get s enclave_id Is_initialized \<noteq> 0
        then (monitor_invalid_state, clear_dram_region_lock dram_region s)
        else if phys_addr \<le> enclave_get s enclave_id Last_load_addr
        then (monitor_invalid_value, clear_dram_region_lock dram_region s)
        else if level \<noteq> page_table_levels - 1 \<and> \<not> is_enclave_virtual_address s virtual_addr enclave_id
        then (monitor_invalid_value, clear_dram_region_lock dram_region s)
        else (monitor_ok, clear_dram_region_lock dram_region s)))"

definition load_page :: "u64 \<Rightarrow> u64 \<Rightarrow> u64 \<Rightarrow> u64 \<Rightarrow> u64 \<Rightarrow> mstate \<Rightarrow> api_result \<times> mstate" where
  "load_page enclave_id phys_addr virtual_addr os_addr acl s0 =
     (if \<not> is_dram_address s0 phys_addr \<or> \<not> is_dram_address s0 os_addr then (monitor_invalid_value, s0)
      else if \<not> is_page_aligned phys_addr \<or> \<not> is_page_aligned os_addr then (monitor_invalid_value, s0)
      else
       (let dram_region = clamped_dram_region_for s0 enclave_id;
            (held, s) = test_and_set_dram_region_lock dram_region s0 in
        if held then (monitor_concurrent_call, s)
        else if enclave_id = null_enclave_id \<or> \<not> is_valid_enclave_id s enclave_id
        then (monitor_invalid_value, clear_dram_region_lock dram_region s)
        else if enclave_get s enclave_id Is_initialized \<noteq> 0
        then (monitor_invalid_state, clear_dram_region_lock dram_region s)
        else if phys_addr \<le> enclave_get s enclave_id Last_load_addr
        then (monitor_invalid_value, clear_dram_region_lock dram_region s)
        else if \<not> is_enclave_virtual_address s virtual_addr enclave_id
        then (monitor_invalid_value, clear_dram_region_lock dram_region s)
        else (monitor_ok, clear_dram_region_lock dram_region s)))"

definition init_enclave :: "hash_ops \<Rightarrow> u64 \<Rightarrow> mstate \<Rightarrow> api_result \<times> mstate" where
  "init_enclave h enclave_id s0 =
     (let dram_region = clamped_dram_region_for s0 enclave_id;
          (held, s) = test_and_set_dram_region_lock dram_region s0 in
      if held then (monitor_concurrent_call, s)
      else if enclave_id = null_enclave_id \<or> \<not> is_valid_enclave_id s enclave_id
      then (monitor_invalid_value, clear_dram_region_lock dram_region s)
      else if enclave_get s enclave_id Is_initialized \<noteq> 0
      then (monitor_invalid_state, clear_dram_region_lock dram_region s)
      else
       (let s = s\<lparr>mem := finalize_enclave_hash h enclave_id (mem s)\<rparr>;
            s = enclave_put enclave_id Is_initialized 1 s
        in (monitor_ok, clear_dram_region_lock dram_region s)))"

section \<open>enclave.c\<close>

text \<open>
  The loop in which \<open>delete_enclave\<close> locks the regions of the bitmap returns its iterator: the
  region that was locked already, or the region count. The unlocking loop runs up to a bound.
\<close>

fun lock_bitmap_regions :: "u64 list \<Rightarrow> u64 \<Rightarrow> u64 \<Rightarrow> mstate \<Rightarrow> u64 \<times> mstate" where
  "lock_bitmap_regions [] region_bitmap dram_region s = (g_dram_region_count s, s)"
| "lock_bitmap_regions (i # is) region_bitmap dram_region s =
     (if i = dram_region then lock_bitmap_regions is region_bitmap dram_region s
      else if \<not> read_bitmap_bit (mem s) region_bitmap i
      then lock_bitmap_regions is region_bitmap dram_region s
      else
       (let (held, s) = test_and_set_dram_region_lock i s in
        if held then (i, s) else lock_bitmap_regions is region_bitmap dram_region s))"

definition unlock_bitmap_regions :: "u64 \<Rightarrow> u64 \<Rightarrow> u64 \<Rightarrow> mstate \<Rightarrow> mstate" where
  "unlock_bitmap_regions bound region_bitmap dram_region s =
     fold (\<lambda>i s. if i = dram_region then s
                 else if \<not> read_bitmap_bit (mem s) region_bitmap i then s
                 else clear_dram_region_lock i s)
       (indices bound) s"

text \<open>
  The loop that frees the regions. Its test reads the bit \<open>region_iterator\<close>, the value the
  locking loop ended with, and not the bit \<open>i\<close>.
\<close>

fun free_enclave_regions :: "u64 list \<Rightarrow> u64 \<Rightarrow> u64 \<Rightarrow> mstate \<Rightarrow> mstate option" where
  "free_enclave_regions [] region_bitmap region_iterator s = Some s"
| "free_enclave_regions (i # is) region_bitmap region_iterator s =
     (if \<not> read_bitmap_bit (mem s) region_bitmap region_iterator
      then free_enclave_regions is region_bitmap region_iterator s
      else
       (let s = put_cell (Region Owner i) free_enclave_id s;
            s = put_cell (Region Pinned_pages i) 0 s
        in case bzero_dram_region i s of
             None \<Rightarrow> None
           | Some s \<Rightarrow> free_enclave_regions is region_bitmap region_iterator s))"

definition delete_enclave :: "u64 \<Rightarrow> mstate \<Rightarrow> (api_result \<times> mstate) option" where
  "delete_enclave enclave_id s0 =
     (let dram_region = clamped_dram_region_for s0 enclave_id;
          (held, s) = test_and_set_dram_region_lock dram_region s0 in
      if held then Some (monitor_concurrent_call, s)
      else if enclave_id = null_enclave_id \<or> \<not> is_valid_enclave_id s enclave_id
      then Some (monitor_invalid_value, clear_dram_region_lock dram_region s)
      else if enclave_get s enclave_id Thread_count \<noteq> 0
      then Some (monitor_invalid_state, clear_dram_region_lock dram_region s)
      else
       (let region_bitmap = enclave_region_bitmap enclave_id;
            (region_iterator, s) =
              lock_bitmap_regions (indices (g_dram_region_count s)) region_bitmap dram_region s in
        if region_iterator < g_dram_region_count s
        then Some (monitor_concurrent_call,
                   clear_dram_region_lock dram_region
                     (unlock_bitmap_regions region_iterator region_bitmap dram_region s))
        else
         (case free_enclave_regions (indices (g_dram_region_count s)) region_bitmap region_iterator s of
            None \<Rightarrow> None
          | Some s \<Rightarrow>
              Some (monitor_ok,
                    clear_dram_region_lock dram_region
                      (unlock_bitmap_regions (g_dram_region_count s) region_bitmap dram_region s)))))"

definition enter_enclave :: "u64 \<Rightarrow> u64 \<Rightarrow> mstate \<Rightarrow> api_result \<times> mstate" where
  "enter_enclave enclave_id thread_id s0 =
     (let dram_region = clamped_dram_region_for s0 enclave_id;
          (held, s) = test_and_set_dram_region_lock dram_region s0 in
      if held then (monitor_concurrent_call, s)
      else if enclave_id = null_enclave_id \<or> \<not> is_valid_enclave_id s enclave_id
      then (monitor_invalid_value, clear_dram_region_lock dram_region s)
      else if enclave_get s enclave_id Is_initialized = 0
      then (monitor_invalid_state, clear_dram_region_lock dram_region s)
      else (monitor_ok, s))"

text \<open>The two copy loops of \<open>copy_debug_enclave_page\<close>, a word at a time until the end pointer.\<close>

partial_function (option) copy_page_words :: "bool \<Rightarrow> u64 \<Rightarrow> u64 \<Rightarrow> u64 \<Rightarrow> mem \<Rightarrow> mem option" where
  "copy_page_words read_from_enclave enclave_ptr enclave_end os_ptr m =
     (if enclave_ptr \<noteq> enclave_end
      then copy_page_words read_from_enclave (enclave_ptr + 8) enclave_end (os_ptr + 8)
             (if read_from_enclave then st64 m os_ptr (ld64 m enclave_ptr)
              else st64 m enclave_ptr (ld64 m os_ptr))
      else Some m)"

definition copy_debug_enclave_page ::
    "u64 \<Rightarrow> u64 \<Rightarrow> u64 \<Rightarrow> bool \<Rightarrow> mstate \<Rightarrow> (api_result \<times> mstate) option" where
  "copy_debug_enclave_page enclave_id enclave_addr os_addr read_from_enclave s0 =
     (if \<not> is_page_aligned enclave_addr \<or> \<not> is_page_aligned os_addr then Some (monitor_invalid_value, s0)
      else if \<not> is_dram_address s0 enclave_addr \<or> \<not> is_dram_address s0 os_addr
      then Some (monitor_invalid_value, s0)
      else
       (let enclave_dram_region = clamped_dram_region_for s0 enclave_id;
            enclave_addr_dram_region = dram_region_for s0 enclave_addr;
            os_addr_dram_region = dram_region_for s0 os_addr;
            (held, s) = test_and_set_dram_region_lock enclave_dram_region s0 in
        if held then Some (monitor_concurrent_call, s)
        else
         (let (held, s) = test_and_set_dram_region_lock os_addr_dram_region s in
          if held then Some (monitor_concurrent_call, clear_dram_region_lock enclave_dram_region s)
          else
           (let result = monitor_ok;
                result = (if read_dram_region_owner s enclave_dram_region \<noteq> enclave_id
                          then monitor_invalid_value else result);
                result = (if read_dram_region_owner s os_addr_dram_region \<noteq> null_enclave_id
                          then monitor_invalid_value else result);
                result = (if \<not> read_enclave_region_bitmap_bit s enclave_id enclave_addr_dram_region
                          then monitor_invalid_value else result);
                result = (if enclave_get s enclave_id Is_debug = 0
                          then monitor_invalid_state else result);
                copied = (if result = monitor_ok
                          then map_option (\<lambda>m. s\<lparr>mem := m\<rparr>)
                                 (copy_page_words read_from_enclave enclave_addr
                                    (enclave_addr + page_size) os_addr (mem s))
                          else Some s)
            in map_option (\<lambda>s. (result, clear_dram_region_lock enclave_dram_region
                                   (clear_dram_region_lock os_addr_dram_region s))) copied))))"

text \<open>The loop of \<open>create_thread\<close>: do all pages of the structure lie in one region?\<close>

partial_function (option) thread_pages_in_region :: "mstate \<Rightarrow> u64 \<Rightarrow> u64 \<Rightarrow> u64 \<Rightarrow> bool option" where
  "thread_pages_in_region s page_addr phys_end thread_dram_region =
     (if page_addr < phys_end
      then if dram_region_for s page_addr \<noteq> thread_dram_region then Some False
           else thread_pages_in_region s (page_addr + page_size) phys_end thread_dram_region
      else Some True)"

definition create_thread :: "u64 \<Rightarrow> u64 \<Rightarrow> mstate \<Rightarrow> (api_result \<times> mstate) option" where
  "create_thread thread_id phys_addr s0 =
     (if \<not> is_page_aligned phys_addr then Some (monitor_invalid_value, s0)
      else if \<not> is_dram_address s0 phys_addr then Some (monitor_invalid_value, s0)
      else
       (let phys_end = phys_addr + thread_metadata_size in
        if \<not> is_dram_address s0 (phys_end - 1) then Some (monitor_invalid_value, s0)
        else
         (let enclave_id = current_enclave s0;
              dram_region = dram_region_for s0 enclave_id;
              (held, s) = test_and_set_dram_region_lock dram_region s0 in
          if held then Some (monitor_concurrent_call, s)
          else
           (let thread_dram_region = dram_region_for s phys_addr in
            if \<not> read_bitmap_bit (mem s) (enclave_region_bitmap enclave_id) thread_dram_region
            then Some (monitor_invalid_state, clear_dram_region_lock dram_region s)
            else
             (case thread_pages_in_region s phys_addr phys_end thread_dram_region of
                None \<Rightarrow> None
              | Some False \<Rightarrow> Some (monitor_unsupported, clear_dram_region_lock dram_region s)
              | Some True \<Rightarrow> Some (monitor_ok, s))))))"

definition delete_thread :: "u64 \<Rightarrow> mstate \<Rightarrow> api_result \<times> mstate" where
  "delete_thread thread_id s0 =
     (let enclave_id = current_enclave s0;
          dram_region = dram_region_for s0 enclave_id;
          (held, s) = test_and_set_dram_region_lock dram_region s0 in
      if held then (monitor_concurrent_call, s) else (monitor_ok, s))"

definition exit_enclave :: "mstate \<Rightarrow> api_result \<times> mstate" where
  "exit_enclave s =
     (let enclave_id = get_cell s (Core Enclave_id (current_core s));
          thread_id = get_cell s (Core Thread_id (current_core s));
          private_thread = get_cell s (Core Thread (current_core s))
      in (monitor_ok, s))"


section \<open>The page copy\<close>

text \<open>One step of the copy, source and destination named by the direction.\<close>

lemma copy_page_words_correct:
  assumes "8 * k < 2 ^ 64"
  defines "src \<equiv> \<lambda>rd e os. if rd then e else (os :: u64)" and "dst \<equiv> \<lambda>rd e os. if rd then os else (e :: u64)"
  shows "sep (dst rd e os) (8 * k) (src rd e os) (8 * k) \<Longrightarrow>
    copy_page_words rd e (e + word_of_nat (8 * k)) os m =
      Some (st_bytes m (dst rd e os) (ld_bytes m (src rd e os) (8 * k)))"
  using assms(1)
proof (induction k arbitrary: m e os)
  case 0
  then show ?case by (subst copy_page_words.simps) simp
next
  case (Suc k)
  let ?d = "dst rd e os" and ?s = "src rd e os"
  let ?m = "st64 m ?d (ld64 m ?s)"
  have m: "?m = st_bytes m ?d (ld_bytes m ?s 8)" by (simp add: st64_eq_st_bytes word_bytes_ld64)
  have ne: "word_of_nat (8 * Suc k) \<noteq> (0 :: u64)"
    using unat_of_nat64 [OF Suc.prems(2)] by (metis mult_is_0 nat.simps(3) unsigned_0 zero_neq_numeral)
  have sp: "sep ?d (8 + 8 * k) ?s (8 + 8 * k)" using Suc.prems(1) by simp
  have nxt: "dst rd (e + 8) (os + 8) = ?d + 8" "src rd (e + 8) (os + 8) = ?s + 8"
    by (simp_all add: dst_def src_def)
  have "copy_page_words rd (e + 8) (e + 8 + word_of_nat (8 * k)) (os + 8) ?m =
      Some (st_bytes ?m (?d + 8) (ld_bytes ?m (?s + 8) (8 * k)))"
    using Suc.IH [of "e + 8" "os + 8" ?m] sep_step [OF sp, of 8] Suc.prems(2) by (simp add: nxt)
  moreover have "ld_bytes ?m (?s + 8) (8 * k) = ld_bytes m (?s + 8) (8 * k)"
    using ld_bytes_st_bytes_sep [OF sp, of "ld_bytes m ?s 8" m] Suc.prems by (simp add: m)
  moreover have "st_bytes ?m (?d + 8) (ld_bytes m (?s + 8) (8 * k)) = st_bytes m ?d (ld_bytes m ?s (8 * Suc k))"
    using ld_bytes_append [of m ?s 8 "8 * k"] by (simp add: m st_bytes_append)
  moreover have "e + 8 + word_of_nat (8 * k) = e + word_of_nat (8 * Suc k)" by simp
  moreover have "e \<noteq> e + word_of_nat (8 * Suc k)" using ne by (simp del: of_nat_mult)
  moreover have "(if rd then st64 m os (ld64 m e) else st64 m e (ld64 m os)) = ?m"
    by (simp add: dst_def src_def)
  ultimately show ?case by (subst copy_page_words.simps) (simp only: if_True simp_thms)
qed

lemma debug_copy_outcome:
  assumes "copy_debug_enclave_page e a b rd s = Some (monitor_ok, t)"
  shows "is_page_aligned a \<and> is_page_aligned b \<and> is_dram_address s a \<and> is_dram_address s b \<and>
    region_owner s (clamped_dram_region_for s e) = e \<and> region_owner s (dram_region_for s b) = null_enclave_id \<and>
    read_enclave_region_bitmap_bit s e (dram_region_for s a) \<and> enclave_get s e Is_debug \<noteq> 0 \<and>
    (\<exists>m. copy_page_words rd a (a + 4096) b (mem s) = Some m \<and> t = s\<lparr>mem := m\<rparr>)"
  using assms
  by (auto simp: copy_debug_enclave_page_def Let_def read_dram_region_owner_def split: if_splits)

section \<open>Properties\<close>

lemma lifecycle_refused:
  assumes "no_enclave_owner s"
  shows "fst (load_page_table e p va lvl acl s) \<noteq> monitor_ok \<and> snd (load_page_table e p va lvl acl s) = s \<and>
    fst (load_page e p va os acl s) \<noteq> monitor_ok \<and> snd (load_page e p va os acl s) = s \<and>
    fst (init_enclave h e s) \<noteq> monitor_ok \<and> snd (init_enclave h e s) = s \<and>
    fst (enter_enclave e tid s) \<noteq> monitor_ok \<and> snd (enter_enclave e tid s) = s \<and>
    (\<exists>c. delete_enclave e s = Some (c, s) \<and> c \<noteq> monitor_ok)"
proof -
  have "e = 0 \<or> \<not> is_valid_enclave_id s e" using valid_enclave_id_null [OF assms] by blast
  then show ?thesis
    by (auto simp: load_page_table_def load_page_def init_enclave_def enter_enclave_def delete_enclave_def Let_def)
qed

text \<open>C4: In every state in which region 0 is the OS's and no region's owner is an enclave identifier, no enclave can
  be loaded, initialised, entered or deleted: each of these calls refuses every argument and leaves the state as it
  is, because \<open>is_valid_enclave_id\<close> asks that the enclave own the region its metadata lies in. The booted monitor is
  such a state, and region calls lead from one to another as long as flushes write above the
  tables. (A debug copy into the region table can leave these states.)\<close>

theorem enclave_lifecycle_unreachable:
  assumes "no_enclave_owner s"
  shows "fst (load_page_table e p va lvl acl s) \<noteq> monitor_ok \<and> snd (load_page_table e p va lvl acl s) = s \<and>
    fst (load_page e p va os acl s) \<noteq> monitor_ok \<and> snd (load_page e p va os acl s) = s \<and>
    fst (init_enclave h e s) \<noteq> monitor_ok \<and> snd (init_enclave h e s) = s \<and>
    fst (enter_enclave e tid s) \<noteq> monitor_ok \<and> snd (enter_enclave e tid s) = s \<and>
    (\<exists>c. delete_enclave e s = Some (c, s) \<and> c \<noteq> monitor_ok)"
  using assms by (rule lifecycle_refused)

lemma booted_no_enclave_owner: "no_enclave_owner (booted reset_state)"
  using booted_region_zero [OF reset_core, of _ Owner] booted_wf(2)
  by (simp add: no_enclave_owner_def booted_globals os_owner_def)

theorem enclave_lifecycle_unreachable_witness:
  "\<exists>t. boot_tables reset_state = Some t \<and> fst (enter_enclave 0x7000 0 t) \<noteq> monitor_ok \<and>
    (\<exists>c. delete_enclave 0x7000 t = Some (c, t) \<and> c \<noteq> monitor_ok)"
  using enclave_lifecycle_unreachable [OF booted_no_enclave_owner, where e = "0x7000" and tid = 0]
  by (intro exI [of _ "booted reset_state"]) (simp add: boot_tables_booted)

text \<open>\<open>delete_enclave\<close> releases none of the enclave's regions when the bit after the last region's
  bit is clear: its loop tests that one bit for every region, so the call reports success and
  changes nothing, whatever regions the bitmap holds.\<close>

theorem delete_enclave_releases_nothing:
  assumes "e \<noteq> null_enclave_id" "is_valid_enclave_id s e" "enclave_get s e Thread_count = 0"
    and "region_lock s (clamped_dram_region_for s e) = 0"
    and "\<forall>i < g_dram_region_count s. read_bitmap_bit (mem s) (enclave_region_bitmap e) i \<longrightarrow> region_lock s i = 0"
    and "\<not> read_bitmap_bit (mem s) (enclave_region_bitmap e) (g_dram_region_count s)"
  shows "delete_enclave e s = Some (monitor_ok, s)"
proof -
  have "free_enclave_regions is (enclave_region_bitmap e) (g_dram_region_count s) s = Some s" for "is"
    by (induction "is") (simp_all add: assms(6))
  moreover have "lock_bitmap_regions is (enclave_region_bitmap e) r s = (g_dram_region_count s, s)"
    if "set is \<subseteq> set (indices (g_dram_region_count s))" for "is" r
    using that assms(5) by (induction "is") (auto simp: Let_def)
  moreover have "unlock_bitmap_regions n bm r s = s" for n bm r
  proof -
    have "fold (\<lambda>i s. if i = r then s else if \<not> read_bitmap_bit (mem s) bm i then s
        else clear_dram_region_lock i s) is s = s" for "is"
      by (induction "is") simp_all
    then show ?thesis by (simp add: unlock_bitmap_regions_def)
  qed
  ultimately show ?thesis using assms by (simp add: delete_enclave_def Let_def)
qed

theorem delete_enclave_releases_nothing_witness:
  "delete_enclave 0x7000 (demo [(Region Owner 7, 0x7000)]) = Some (monitor_ok, demo [(Region Owner 7, 0x7000)])"
proof -
  let ?s = "demo [(Region Owner 7, 0x7000)]"
  have reg: "clamped_dram_region_for ?s 0x7000 = 7"
    by (simp add: clamped_dram_region_for_def is_dram_address_def dram_region_for_def srl64_small)
  have z: "ld64 (mem ?s) (enclave_region_bitmap 0x7000 + 8 * (i div 64)) = 0" if "i \<le> 64" for i
  proof -
    have "unat i div 64 \<le> 1" using that by (simp add: word_le_nat_alt)
    then have "304 + 8 * (unat i div 64) < 4080" by simp
    from demo_word_zero [OF this, of "0x7000"] show ?thesis
      by (simp add: enclave_region_bitmap_def sizeof_enclave_info_def word_of_nat_unat_div_64)
  qed
  then have nobit: "\<not> read_bitmap_bit (mem ?s) (enclave_region_bitmap 0x7000) i" if "i \<le> 64" for i
    using that by (simp add: read_bitmap_bit_def Let_def)
  have "enclave_get ?s 0x7000 Thread_count = 0"
    using demo_word_zero [of 32 "0x7000"] by (simp add: enclave_get_def)
  moreover have "is_valid_enclave_id ?s 0x7000" by (simp add: is_valid_enclave_id_def reg demo_cell)
  ultimately show ?thesis
    by (intro delete_enclave_releases_nothing) (simp_all add: reg demo_lock nobit)
qed

lemma debug_copy_bytes:
  assumes "copy_debug_enclave_page e a b rd s = Some (monitor_ok, t)" "sep a 4096 b 4096"
  shows "mem t = (if rd then st_bytes (mem s) b (ld_bytes (mem s) a 4096)
                  else st_bytes (mem s) a (ld_bytes (mem s) b 4096)) \<and>
    is_page_aligned a \<and> is_page_aligned b \<and> enclave_get s e Is_debug \<noteq> 0 \<and>
    read_enclave_region_bitmap_bit s e (dram_region_for s a) \<and>
    region_owner s (dram_region_for s b) = null_enclave_id"
proof -
  obtain m where m: "copy_page_words rd a (a + 4096) b (mem s) = Some m" "t = s\<lparr>mem := m\<rparr>"
    using debug_copy_outcome [OF assms(1)] by blast
  have "sep (if rd then b else a) (8 * 512) (if rd then a else b) (8 * 512)"
    using assms(2) by (simp add: sep_sym)
  then have "copy_page_words rd a (a + word_of_nat (8 * 512)) b (mem s) =
      Some (st_bytes (mem s) (if rd then b else a) (ld_bytes (mem s) (if rd then a else b) (8 * 512)))"
    by (intro copy_page_words_correct) simp_all
  then have "m = st_bytes (mem s) (if rd then b else a) (ld_bytes (mem s) (if rd then a else b) 4096)"
    using m(1) by (simp del: ld_bytes.simps)
  then show ?thesis using debug_copy_outcome [OF assms(1)] m(2) by (simp del: ld_bytes.simps)
qed

text \<open>A debug copy between pages that share no byte returns and copies the 4096 bytes in the
  direction asked for; it was granted only for page-aligned DRAM addresses, an enclave with the
  debug flag whose bitmap holds the enclave page's region, and an OS-owned region on the other
  side.\<close>

theorem debug_copy_effect:
  assumes "copy_debug_enclave_page e a b rd s = Some (monitor_ok, t)" "sep a 4096 b 4096"
  shows "mem t = (if rd then st_bytes (mem s) b (ld_bytes (mem s) a 4096)
                  else st_bytes (mem s) a (ld_bytes (mem s) b 4096)) \<and>
    is_page_aligned a \<and> is_page_aligned b \<and> enclave_get s e Is_debug \<noteq> 0 \<and>
    read_enclave_region_bitmap_bit s e (dram_region_for s a) \<and>
    region_owner s (dram_region_for s b) = null_enclave_id"
  using assms by (rule debug_copy_bytes)

text \<open>When a debug copy is granted.\<close>

lemma debug_copy_granted:
  assumes "is_page_aligned a" "is_page_aligned b" "is_dram_address s a" "is_dram_address s b"
    and "region_lock s (clamped_dram_region_for s e) = 0" "region_lock s (dram_region_for s b) = 0"
    and "region_owner s (clamped_dram_region_for s e) = e" "region_owner s (dram_region_for s b) = null_enclave_id"
    and "read_enclave_region_bitmap_bit s e (dram_region_for s a)" "enclave_get s e Is_debug \<noteq> 0"
  shows "copy_debug_enclave_page e a b rd s =
    map_option (\<lambda>m. (monitor_ok, s\<lparr>mem := m\<rparr>)) (copy_page_words rd a (a + 4096) b (mem s))"
  using assms by (simp add: copy_debug_enclave_page_def Let_def read_dram_region_owner_def option.map_comp o_def)

text \<open>In the concrete machine the OS is granted the copy of page 0x5000, which its bitmap holds.\<close>

abbreviation "demo_copy \<equiv> demo [(Os_bitmap_word 0, 0x20)]"

lemma demo_copy_granted: "\<exists>t. copy_debug_enclave_page 0 0x5000 0x6000 True demo_copy = Some (monitor_ok, t)"
proof -
  have r: "clamped_dram_region_for demo_copy 0 = 0" "dram_region_for demo_copy 0x5000 = 5" "dram_region_for demo_copy 0x6000 = 6"
    by (simp_all add: clamped_dram_region_for_def is_dram_address_def dram_region_for_def srl64_small)
  have "os_bit demo_copy 5" by (simp add: os_bit_cell demo_cell bitmap_mask_def int_shl1_small)
  then have bit5: "read_enclave_region_bitmap_bit demo_copy 0 5"
    by (simp add: read_enclave_region_bitmap_bit_def os_bit_def)
  have "get_cell demo_copy (Core Flushed_at 0) = 8192" by (simp add: demo_cell)
  then have dbg: "enclave_get demo_copy 0 Is_debug = 8192"
    by (simp add: get_cell_def enclave_get_def core_ptr_def)
  obtain m where "copy_page_words True 0x5000 (0x5000 + word_of_nat (8 * 512)) 0x6000 (mem demo_copy) = Some m"
    using copy_page_words_correct [of 512 True "0x6000" "0x5000" "mem demo_copy"] by (auto simp: sep_def)
  then show ?thesis
    using debug_copy_granted [of "0x5000" "0x6000" demo_copy 0 True]
    by (simp add: r bit5 dbg demo_lock demo_cell is_dram_address_def is_page_aligned_def is_aligned_to_mask_def)
qed

theorem debug_copy_effect_witness:
  "\<exists>t. copy_debug_enclave_page 0 0x5000 0x6000 True demo_copy = Some (monitor_ok, t) \<and>
    mem t = st_bytes (mem demo_copy) 0x6000 (ld_bytes (mem demo_copy) 0x5000 4096)"
proof -
  have sp: "sep (0x5000 :: u64) 4096 0x6000 4096" by (simp add: sep_def)
  obtain t where t: "copy_debug_enclave_page 0 0x5000 0x6000 True demo_copy = Some (monitor_ok, t)"
    using demo_copy_granted by blast
  then show ?thesis using debug_copy_effect [OF t sp] by simp
qed

text \<open>C40: A debug copy into the monitor's tables is granted. The call asks for two page-aligned DRAM addresses, an
  unlocked region of the OS's behind the target, and an identifier that owns its own region, whose bitmap holds
  the source's region and whose debug word is not zero: the OS's own identifier 0 will do, and nothing asks where the
  target lies. If source and target share no byte, every cell of the tables in the target page then
  holds the word at the same place of the source page.\<close>

theorem debug_copy_rewrites_tables:
  assumes "is_page_aligned a" "is_page_aligned b" "is_dram_address s a" "is_dram_address s b"
    and "region_lock s (clamped_dram_region_for s e) = 0" "region_lock s (dram_region_for s b) = 0"
    and "region_owner s (clamped_dram_region_for s e) = e" "region_owner s (dram_region_for s b) = null_enclave_id"
    and "read_enclave_region_bitmap_bit s e (dram_region_for s a)" "enclave_get s e Is_debug \<noteq> 0"
    and "sep a 4096 b 4096"
  shows "\<exists>t. copy_debug_enclave_page e a b True s = Some (monitor_ok, t) \<and>
    (\<forall>k off. cell_addr s k = b + word_of_nat off \<and> off + 8 \<le> 4096 \<longrightarrow>
       get_cell t k = ld64 (mem s) (a + word_of_nat off))"
proof -
  let ?m = "st_bytes (mem s) b (ld_bytes (mem s) a 4096)"
  have "copy_page_words True a (a + word_of_nat (8 * 512)) b (mem s) = Some ?m"
    using copy_page_words_correct [of 512 True b a "mem s"] assms(11) by (simp add: sep_sym del: ld_bytes.simps)
  then have t: "copy_debug_enclave_page e a b True s = Some (monitor_ok, s\<lparr>mem := ?m\<rparr>)"
    using debug_copy_granted [OF assms(1-10), of True] by (simp del: ld_bytes.simps)
  moreover have "get_cell (s\<lparr>mem := ?m\<rparr>) k = ld64 (mem s) (a + word_of_nat off)"
    if "cell_addr s k = b + word_of_nat off" "off + 8 \<le> 4096" for k off
  proof -
    have "?m (b + word_of_nat off + word_of_nat i) = mem s (a + word_of_nat off + word_of_nat i)" if "i < 8" for i
      using st_bytes_inside [of "ld_bytes (mem s) a 4096" "off + i" "mem s" b] that \<open>off + 8 \<le> 4096\<close>
      by (simp add: add.assoc del: ld_bytes.simps)
    then show ?thesis
      unfolding get_cell_def cell_addr_mem that(1) mstate.simps by (intro ld64_eq_of_bytes) simp
  qed
  ultimately show ?thesis by blast
qed

text \<open>A machine with its tables at 0x1020, in region 1 of the OS, whose page 0x5000 holds a forged owner for region 7.
  After the copy that owner is an enclave identifier that \<open>is_valid_enclave_id\<close> accepts.\<close>

definition demo_forge :: mstate where
  "demo_forge = demo0\<lparr>g_dram_region := 0x1020, g_dram_regions := 0x1A20, g_os_region_bitmap := 0x1A28,
     g_monitor_top := 0x1A30, mem := st64 (st64 (st64 (\<lambda>_. 0) 24 1) 0x1A28 0x20) 0x5140 0x7000\<rparr>"

lemma demo_forge_layout: "wf_layout demo_forge"
  by (simp add: demo_forge_def demo0_def reset_state_def wf_layout_def current_core_def)

lemma demo_forge_ld:
  "ld64 (mem demo_forge) 24 = 1" "ld64 (mem demo_forge) 0x1A28 = 0x20" "ld64 (mem demo_forge) 0x5140 = 0x7000"
  "ld64 (mem demo_forge) 0x1028 = 0" "ld64 (mem demo_forge) 0x1050 = 0" "ld32 (mem demo_forge) 0x1020 = 0"
  "ld32 (mem demo_forge) 0x1048 = 0" "ld64 (mem demo_forge) 0x1140 = 0"
proof -
  have z: "ld64 (\<lambda>_. 0) a = 0" "ld32 (\<lambda>_. 0) a = 0" for a by (simp_all add: ld64_def ld32_def ldn_zero)
  show "ld64 (mem demo_forge) 24 = 1" "ld64 (mem demo_forge) 0x1A28 = 0x20" "ld64 (mem demo_forge) 0x5140 = 0x7000"
    "ld64 (mem demo_forge) 0x1028 = 0" "ld64 (mem demo_forge) 0x1050 = 0" "ld32 (mem demo_forge) 0x1020 = 0"
    "ld32 (mem demo_forge) 0x1048 = 0" "ld64 (mem demo_forge) 0x1140 = 0"
    by (simp_all add: demo_forge_def z ld64_st64_same ld64_st64_sep ld32_st64_sep sep_def)
qed

lemma demo_forge_globals:
  "g_core demo_forge = 0" "g_dram_region demo_forge = 0x1020" "g_os_region_bitmap demo_forge = 0x1A28"
  "g_dram_base demo_forge = 0" "g_dram_size demo_forge = 0x80000000" "g_dram_region_shift demo_forge = 12"
  "g_dram_region_mask demo_forge = 0x3F000"
  by (simp_all add: demo_forge_def demo0_def reset_state_def)

lemma demo_forge_regions:
  "clamped_dram_region_for demo_forge 0 = 0" "clamped_dram_region_for demo_forge 0x7000 = 7"
  "dram_region_for demo_forge 0x1000 = 1" "dram_region_for demo_forge 0x5000 = 5"
  by (simp_all add: clamped_dram_region_for_def is_dram_address_def dram_region_for_def srl64_small demo_forge_globals)

theorem debug_copy_rewrites_tables_witness:
  "wf_layout demo_forge \<and> clamped_dram_region_for demo_forge 0x7000 = 7 \<and> region_owner demo_forge 7 = 0 \<and>
   (\<exists>t. copy_debug_enclave_page 0 0x5000 0x1000 True demo_forge = Some (monitor_ok, t) \<and> region_owner t 7 = 0x7000)"
proof (intro conjI demo_forge_layout demo_forge_regions)
  show "region_owner demo_forge 7 = 0"
    by (simp add: get_cell_def region_ptr_def demo_forge_globals demo_forge_ld)
  have bit: "read_enclave_region_bitmap_bit demo_forge 0 5"
    by (simp add: read_enclave_region_bitmap_bit_def read_bitmap_bit_def Let_def demo_forge_globals demo_forge_ld
        bitmap_mask_def int_shl1_small)
  have "\<exists>t. copy_debug_enclave_page 0 0x5000 0x1000 True demo_forge = Some (monitor_ok, t) \<and>
      (\<forall>k off. cell_addr demo_forge k = 0x1000 + word_of_nat off \<and> off + 8 \<le> 4096 \<longrightarrow>
         get_cell t k = ld64 (mem demo_forge) (0x5000 + word_of_nat off))"
    by (rule debug_copy_rewrites_tables)
      (simp_all add: demo_forge_regions demo_forge_globals demo_forge_ld bit is_page_aligned_def is_aligned_to_mask_def
        is_dram_address_def region_lock_def get_cell_def region_ptr_def enclave_get_def sep_def)
  then obtain t where t: "copy_debug_enclave_page 0 0x5000 0x1000 True demo_forge = Some (monitor_ok, t)"
    "\<And>k off. cell_addr demo_forge k = 0x1000 + word_of_nat off \<Longrightarrow> off + 8 \<le> 4096 \<Longrightarrow>
         get_cell t k = ld64 (mem demo_forge) (0x5000 + word_of_nat off)" by blast
  have "cell_addr demo_forge (Region Owner 7) = 0x1000 + word_of_nat 0x140"
    by (simp add: region_ptr_def demo_forge_globals)
  from t(2) [OF this] have "region_owner t 7 = 0x7000" by (simp add: demo_forge_ld)
  with t(1) show "\<exists>t. copy_debug_enclave_page 0 0x5000 0x1000 True demo_forge = Some (monitor_ok, t) \<and> region_owner t 7 = 0x7000"
    by blast
qed

end
