(* ===== verification/Traps.thy ===== *)
theory Traps
  imports Enclave_Calls
begin

text \<open>
  The trap handlers of \<open>sm/os\_trap.c\<close> and \<open>sm/enclave\_trap.c\<close>: the dispatch of the calls the OS
  and the enclaves make, the SBI services that live in these files, and the redirection of
  traps to supervisor mode. The saved registers are a function from their index; a handler
  that does not return (\<open>die\<close>, \<open>poweroff\<close>) has the value \<open>None\<close>.
\<close>

type_synonym uregs = "nat \<Rightarrow> u64"

text \<open>
  What the handlers take from outside these files: the hash, the devices (console, and the
  unprivileged load done in assembly), the platform's globals, the stack top of the running
  hart, the calls that have a prototype and no body in the repository, and the contents of the
  locals that \<open>create\_enclave\<close>, \<open>assign\_thread\<close>, \<open>load\_thread\<close> and \<open>accept\_thread\<close> read without
  having written them.
\<close>

record trap_env =
  hashing :: hash_ops
  uart :: u64
  use_htif :: bool
  uart_putchar :: "u8 \<Rightarrow> mstate \<Rightarrow> mstate"
  htif_console_putchar :: "u8 \<Rightarrow> mstate \<Rightarrow> mstate"
  uart_getchar :: "mstate \<Rightarrow> u64 \<times> mstate"
  htif_console_getchar :: "mstate \<Rightarrow> u64 \<times> mstate"
  load_uintptr :: "u64 \<Rightarrow> u64 \<Rightarrow> mstate \<Rightarrow> u64"
  machine_stack_top :: u64
  hart_mask :: u64
  disabled_hart_mask :: u64
  ENOSYS :: u64
  get_attestation_key :: "u64 \<Rightarrow> mstate \<Rightarrow> u64 \<times> mstate"
  accept_message :: "u64 \<Rightarrow> u64 \<Rightarrow> mstate \<Rightarrow> u64 \<times> mstate"
  read_message :: "u64 \<Rightarrow> u64 \<Rightarrow> mstate \<Rightarrow> u64 \<times> mstate"
  send_message :: "u64 \<Rightarrow> u64 \<Rightarrow> u64 \<Rightarrow> mstate \<Rightarrow> u64 \<times> mstate"
  unset1 :: u64
  unset2 :: u64

section \<open>Control registers and hart-local storage (encoding.h, mtrap.h)\<close>

abbreviation "CSR_stvec \<equiv> 0x105 :: u64"
abbreviation "CSR_sepc \<equiv> 0x141 :: u64"
abbreviation "CSR_scause \<equiv> 0x142 :: u64"
abbreviation "CSR_sbadaddr \<equiv> 0x143 :: u64"
abbreviation "CSR_mstatus \<equiv> 0x300 :: u64"
abbreviation "CSR_mie \<equiv> 0x304 :: u64"
abbreviation "CSR_mepc \<equiv> 0x341 :: u64"
abbreviation "CSR_mcause \<equiv> 0x342 :: u64"
abbreviation "CSR_mbadaddr \<equiv> 0x343 :: u64"
abbreviation "CSR_mip \<equiv> 0x344 :: u64"

abbreviation "MSTATUS_SIE \<equiv> 0x2 :: u64"
abbreviation "MSTATUS_SPIE \<equiv> 0x20 :: u64"
abbreviation "MSTATUS_SPP \<equiv> 0x100 :: u64"
abbreviation "MSTATUS_MPP \<equiv> 0x1800 :: u64"
abbreviation "MSTATUS_MPRV \<equiv> 0x20000 :: u64"
abbreviation "MIP_SSIP \<equiv> 0x2 :: u64"
abbreviation "MIP_STIP \<equiv> 0x20 :: u64"
abbreviation "MIP_MTIP \<equiv> 0x80 :: u64"

definition clear_csr :: "u64 \<Rightarrow> u64 \<Rightarrow> mstate \<Rightarrow> u64 \<times> mstate" where
  "clear_csr n m s = (csr s n, write_csr n (csr s n AND NOT m) s)"

definition set_csr :: "u64 \<Rightarrow> u64 \<Rightarrow> mstate \<Rightarrow> u64 \<times> mstate" where
  "set_csr n m s = (csr s n, write_csr n (csr s n OR m) s)"

definition HLS :: "trap_env \<Rightarrow> u64" where
  "HLS env = machine_stack_top env - 64"

definition OTHER_HLS :: "trap_env \<Rightarrow> u64 \<Rightarrow> mstate \<Rightarrow> u64" where
  "OTHER_HLS env i s = HLS env + 4096 * (i - csr s 0xF14)"

datatype hls_field = Ipi | Mipi_pending | Timecmp

fun hls_offset :: "hls_field \<Rightarrow> u64" where
  "hls_offset Ipi = 0"
| "hls_offset Mipi_pending = 8"
| "hls_offset Timecmp = 16"

definition ipi_ptr :: "trap_env \<Rightarrow> u64 \<Rightarrow> mstate \<Rightarrow> u64" where
  "ipi_ptr env i s = ld64 (mem s) (OTHER_HLS env i s + hls_offset Ipi)"

section \<open>SBI services (os\_trap.c)\<close>

definition mcall_console_putchar :: "trap_env \<Rightarrow> u8 \<Rightarrow> mstate \<Rightarrow> u64 \<times> mstate" where
  "mcall_console_putchar env ch s =
     (if uart env \<noteq> 0 then (0, uart_putchar env ch s)
      else if use_htif env then (0, htif_console_putchar env ch s)
      else (0, s))"

definition poweroff :: "mstate \<Rightarrow> 'a option" where
  "poweroff s = None"

definition send_ipi :: "trap_env \<Rightarrow> u64 \<Rightarrow> u32 \<Rightarrow> mstate \<Rightarrow> mstate" where
  "send_ipi env recipient event s =
     (if srl64 (disabled_hart_mask env) recipient AND 1 \<noteq> 0 then s
      else
       (let pending = OTHER_HLS env recipient s + hls_offset Mipi_pending;
            s = s\<lparr>mem := st32 (mem s) pending (ld32 (mem s) pending OR event)\<rparr>
        in s\<lparr>mem := st32 (mem s) (ipi_ptr env recipient s) 1\<rparr>))"

definition mcall_console_getchar :: "trap_env \<Rightarrow> mstate \<Rightarrow> u64 \<times> mstate" where
  "mcall_console_getchar env s =
     (if uart env \<noteq> 0 then uart_getchar env s
      else if use_htif env then htif_console_getchar env s
      else (0, s))"

definition mcall_clear_ipi :: "mstate \<Rightarrow> u64 \<times> mstate" where
  "mcall_clear_ipi s = (let (old, s) = clear_csr CSR_mip MIP_SSIP s in (old AND MIP_SSIP, s))"

definition mcall_shutdown :: "mstate \<Rightarrow> (u64 \<times> mstate) option" where
  "mcall_shutdown s = poweroff s"

definition mcall_set_timer :: "trap_env \<Rightarrow> u64 \<Rightarrow> mstate \<Rightarrow> u64 \<times> mstate" where
  "mcall_set_timer env when s =
     (let s = s\<lparr>mem := st64 (mem s) (ld64 (mem s) (HLS env + hls_offset Timecmp)) when\<rparr>;
          s = snd (clear_csr CSR_mip MIP_STIP s);
          s = snd (set_csr CSR_mie MIP_MTIP s)
      in (0, s))"

text \<open>The loop over the mask: \<open>i\<close> counts up while \<open>m\<close> is shifted down to zero.\<close>

function send_ipi_loop :: "trap_env \<Rightarrow> u32 \<Rightarrow> u64 \<Rightarrow> u64 \<Rightarrow> mstate \<Rightarrow> mstate" where
  "send_ipi_loop env event i m s =
     (if m = 0 then s
      else send_ipi_loop env event (i + 1) (drop_bit 1 m)
             (if m AND 1 \<noteq> 0 then send_ipi env i event s else s))"
  by pat_completeness auto

termination
  by (relation "Wellfounded.measure (\<lambda>(env, event, i, m, s). unat m)")
    (auto simp: unat_drop_bit_1 unat_gt_0)

text \<open>Waiting for one hart, with the hart's own interrupt consumed on every turn.\<close>

partial_function (option) wait_ipi ::
    "trap_env \<Rightarrow> u64 \<Rightarrow> u32 \<Rightarrow> mstate \<Rightarrow> (u32 \<times> mstate) option" where
  "wait_ipi env i incoming_ipi s =
     (if ld32 (mem s) (ipi_ptr env i s) = 0 then Some (incoming_ipi, s)
      else
       (let own = ld64 (mem s) (HLS env + hls_offset Ipi)
        in wait_ipi env i (incoming_ipi OR ld32 (mem s) own) (s\<lparr>mem := st32 (mem s) own 0\<rparr>)))"

function wait_ipi_loop ::
    "trap_env \<Rightarrow> u64 \<Rightarrow> u64 \<Rightarrow> u32 \<times> mstate \<Rightarrow> (u32 \<times> mstate) option" where
  "wait_ipi_loop env i m (incoming_ipi, s) =
     (if m = 0 then Some (incoming_ipi, s)
      else
       (case (if m AND 1 \<noteq> 0 then wait_ipi env i incoming_ipi s else Some (incoming_ipi, s)) of
          None \<Rightarrow> None
        | Some st \<Rightarrow> wait_ipi_loop env (i + 1) (drop_bit 1 m) st))"
  by pat_completeness auto

termination
  by (relation "Wellfounded.measure (\<lambda>(env, i, m, st). unat m)")
    (auto simp: unat_drop_bit_1 unat_gt_0)

abbreviation "IPI_SOFT \<equiv> 1 :: u32"
abbreviation "IPI_FENCE_I \<equiv> 2 :: u32"
abbreviation "IPI_SFENCE_VMA \<equiv> 4 :: u32"

definition send_ipi_many :: "trap_env \<Rightarrow> u64 \<Rightarrow> u32 \<Rightarrow> mstate \<Rightarrow> mstate option" where
  "send_ipi_many env pmask event s =
     (let msk = hart_mask env;
          msk = (if pmask \<noteq> 0 then msk AND load_uintptr env pmask (csr s CSR_mepc) s else msk);
          s = send_ipi_loop env event 0 msk s
      in if event = IPI_SOFT then Some s
         else
          (case wait_ipi_loop env 0 msk (0, s) of
             None \<Rightarrow> None
           | Some (incoming_ipi, s) \<Rightarrow>
               Some (if incoming_ipi \<noteq> 0
                     then s\<lparr>mem := st32 (mem s) (ld64 (mem s) (HLS env + hls_offset Ipi)) incoming_ipi\<rparr>
                     else s)))"

section \<open>Calls from the OS (os\_trap.c)\<close>

text \<open>The result of a handler's call, as the register value the switch assigns.\<close>

definition ret_code :: "api_result \<times> mstate \<Rightarrow> (u64 \<times> mstate) option" where
  "ret_code p = Some (api_code (fst p), snd p)"

definition ret_code_option :: "(api_result \<times> mstate) option \<Rightarrow> (u64 \<times> mstate) option" where
  "ret_code_option p = map_option (map_prod api_code id) p"

text \<open>
  The switch of \<open>ecall\_from\_s\_trap\<close>, on the call numbers of \<open>machine/mcall.h\<close>. There is no case
  for 2000, \<open>SBI\_SM\_OS\_BLOCK\_DRAM\_REGION\<close>; the sixth argument of \<open>load\_thread\<close> is register 16.
\<close>

definition os_call :: "trap_env \<Rightarrow> uregs \<Rightarrow> mstate \<Rightarrow> (u64 \<times> mstate) option" where
  "os_call env regs s =
     (let n = regs 17; arg0 = regs 10; arg1 = regs 11; arg2 = regs 12; arg3 = regs 13;
          arg4 = regs 14; arg5 = regs 16; h = hashing env; u1 = unset1 env; u2 = unset2 env in
      if n = 2001 then ret_code_option (set_dma_range arg0 arg1 s)
      else if n = 2002 then Some (map_prod dram_region_state_code id (dram_region_state arg0 s))
      else if n = 2003 then Some (dram_region_owner arg0 s)
      else if n = 2004 then ret_code (assign_dram_region arg0 arg1 s)
      else if n = 2005 then ret_code (free_dram_region arg0 s)
      else if n = 2006 then ret_code (flush_cached_dram_regions s)
      else if n = 2007 then ret_code_option (create_metadata_region arg0 s)
      else if n = 2008 then Some (metadata_region_pages s, s)
      else if n = 2009 then Some (metadata_region_start s, s)
      else if n = 2010 then Some (thread_metadata_pages, s)
      else if n = 2011 then Some (enclave_metadata_pages s arg0, s)
      else if n = 2012 then ret_code_option (create_enclave h u1 arg0 arg1 arg2 arg3 (arg4 \<noteq> 0) s)
      else if n = 2013 then ret_code (load_page_table arg0 arg1 arg2 arg3 arg4 s)
      else if n = 2014 then ret_code (load_page arg0 arg1 arg2 arg3 arg4 s)
      else if n = 2015 then ret_code (load_thread h u1 u2 arg0 arg1 arg2 arg3 arg4 arg5 s)
      else if n = 2016 then ret_code (assign_thread u1 u2 arg0 arg1 s)
      else if n = 2017 then ret_code (init_enclave h arg0 s)
      else if n = 2018 then ret_code (enter_enclave arg0 arg1 s)
      else if n = 2019 then ret_code (delete_thread arg0 s)
      else if n = 2020 then ret_code_option (delete_enclave arg0 s)
      else if n = 2021 then ret_code_option (copy_debug_enclave_page arg0 arg1 arg2 (arg3 \<noteq> 0) s)
      else if n = 1 then Some (mcall_console_putchar env (ucast arg0) s)
      else if n = 2 then Some (mcall_console_getchar env s)
      else if n = 4 then map_option (Pair 0) (send_ipi_many env arg0 IPI_SOFT s)
      else if n = 6 \<or> n = 7 then map_option (Pair 0) (send_ipi_many env arg0 IPI_SFENCE_VMA s)
      else if n = 5 then map_option (Pair 0) (send_ipi_many env arg0 IPI_FENCE_I s)
      else if n = 3 then Some (mcall_clear_ipi s)
      else if n = 8 then mcall_shutdown s
      else if n = 0 then Some (mcall_set_timer env arg0 s)
      else Some (- ENOSYS env, s))"

definition ecall_from_s_trap ::
    "trap_env \<Rightarrow> uregs \<Rightarrow> u64 \<Rightarrow> u64 \<Rightarrow> mstate \<Rightarrow> (uregs \<times> mstate) option" where
  "ecall_from_s_trap env regs mcause mepc s =
     (let s = write_csr CSR_mepc (mepc + 4) s
      in map_option (\<lambda>(retval, s). (regs(10 := retval), s)) (os_call env regs s))"

section \<open>Calls from an enclave (enclave\_trap.c)\<close>

definition enclave_call :: "trap_env \<Rightarrow> uregs \<Rightarrow> mstate \<Rightarrow> (u64 \<times> mstate) option" where
  "enclave_call env regs s =
     (let n = regs 17; arg0 = regs 10; arg1 = regs 11; arg2 = regs 12 in
      if n = 1000 then ret_code (block_dram_region arg0 s)
      else if n = 1001 then ret_code (dram_region_check_ownership arg0 s)
      else if n = 1002 then ret_code (accept_thread arg0 arg1 s)
      else if n = 1003 then ret_code (exit_enclave s)
      else if n = 1004 then Some (get_attestation_key env arg0 s)
      else if n = 1005 then Some (accept_message env arg0 arg1 s)
      else if n = 1006 then Some (read_message env arg0 arg1 s)
      else if n = 1007 then Some (send_message env arg0 arg1 arg2 s)
      else Some (- ENOSYS env, s))"

definition ecall_from_enclave_trap ::
    "trap_env \<Rightarrow> uregs \<Rightarrow> u64 \<Rightarrow> u64 \<Rightarrow> mstate \<Rightarrow> (uregs \<times> mstate) option" where
  "ecall_from_enclave_trap env regs mcause mepc s =
     (let s = write_csr CSR_mepc (mepc + 4) s
      in map_option (\<lambda>(retval, s). (regs(10 := retval), s)) (enclave_call env regs s))"

section \<open>Redirection of traps to supervisor mode (os\_trap.c)\<close>

definition bad_trap :: "mstate \<Rightarrow> 'a option" where
  "bad_trap s = None"

definition redirect_trap_to_s :: "u64 \<Rightarrow> u64 \<Rightarrow> u64 \<Rightarrow> mstate \<Rightarrow> mstate" where
  "redirect_trap_to_s epc mstatus mbadaddr s =
     (let s = write_csr CSR_sbadaddr mbadaddr s;
          s = write_csr CSR_sepc epc s;
          s = write_csr CSR_scause (csr s CSR_mcause) s;
          s = write_csr CSR_mepc (csr s CSR_stvec) s;
          new_mstatus = mstatus AND NOT (MSTATUS_SPP OR MSTATUS_SPIE OR MSTATUS_SIE);
          mpp_s = MSTATUS_MPP AND (drop_bit 1 MSTATUS_MPP);
          new_mstatus = new_mstatus OR ((mstatus * (MSTATUS_SPIE div MSTATUS_SIE)) AND MSTATUS_SPIE);
          new_mstatus = new_mstatus OR ((mstatus div (mpp_s div MSTATUS_SPP)) AND MSTATUS_SPP)
      in write_csr CSR_mstatus new_mstatus s)"

definition pmp_trap :: "uregs \<Rightarrow> u64 \<Rightarrow> u64 \<Rightarrow> mstate \<Rightarrow> mstate" where
  "pmp_trap regs mcause mepc s =
     redirect_trap_to_s mepc (csr s CSR_mstatus) (csr s CSR_mbadaddr) s"

definition machine_page_fault :: "uregs \<Rightarrow> u64 \<Rightarrow> u64 \<Rightarrow> mstate \<Rightarrow> mstate option" where
  "machine_page_fault regs dummy mepc s =
     (if csr s CSR_mstatus AND MSTATUS_MPRV \<noteq> 0
      then Some (redirect_trap_to_s (regs 12) (regs 13) (csr s CSR_mbadaddr) s)
      else bad_trap s)"

definition trap_from_machine_mode :: "uregs \<Rightarrow> u64 \<Rightarrow> u64 \<Rightarrow> mstate \<Rightarrow> mstate option" where
  "trap_from_machine_mode regs dummy mepc s =
     (let mcause = csr s CSR_mcause in
      if mcause \<in> {13, 15, 1, 5, 7} then machine_page_fault regs dummy mepc s
      else bad_trap s)"

definition delegate_trap :: "uregs \<Rightarrow> u64 \<Rightarrow> u64 \<Rightarrow> mstate \<Rightarrow> mstate" where
  "delegate_trap regs dummy mepc s =
     redirect_trap_to_s mepc (csr s CSR_mstatus) (csr s CSR_mbadaddr) s"

section \<open>The calls of the OS keep the regions with the OS\<close>

text \<open>What a call from the OS is to the rest of the machine: the result in register 10.\<close>

definition os_ecall :: "trap_env \<Rightarrow> uregs \<times> u64 \<Rightarrow> mstate \<Rightarrow> (u64 \<times> mstate) option" where
  "os_ecall env c s =
     map_option (\<lambda>(regs, t). (regs 10, t)) (ecall_from_s_trap env (fst c) 9 (snd c) s)"

lemma os_ecall_eq: "os_ecall env c s = os_call env (fst c) (write_csr CSR_mepc (snd c + 4) s)"
  by (auto simp: os_ecall_def ecall_from_s_trap_def Let_def option.map_comp comp_def split_beta
      intro: option.map_ident_strong)

definition os_holds_all :: "mstate \<Rightarrow> bool" where
  "os_holds_all s \<longleftrightarrow> os_state s \<and> (\<forall>r<g_dram_region_count s. region_owner s r = null_enclave_id)"

lemma same_tables_csr: "n \<noteq> 0xF14 \<Longrightarrow> same_tables s (write_csr n v s)"
  by (simp add: same_tables_def write_csr_def current_core_def)

lemma os_holds_all_csr:
  assumes "os_holds_all s" "n \<noteq> 0xF14"
  shows "os_holds_all (write_csr n v s)"
proof -
  have st: "os_state s" and o: "\<And>r. r < g_dram_region_count s \<Longrightarrow> region_owner s r = 0"
    using assms(1) by (simp_all add: os_holds_all_def)
  have "region_owner (write_csr n v s) r = region_owner s r" for r by (simp add: write_csr_def)
  then have "os_state (write_csr n v s)"
    using os_stateD(3,4) [OF st] by (intro os_state_step [OF st same_tables_csr [OF assms(2)]]) simp_all
  then show ?thesis using o by (simp add: os_holds_all_def write_csr_def)
qed

text \<open>A region call other than \<open>block\_dram\_region\<close> finds no region to take or to give back.\<close>

lemma region_call_os_holds_all:
  assumes "os_holds_all s" "perform c s = Some (code, t)" "\<And>r. c \<noteq> Block r"
  shows "os_holds_all t"
proof -
  have o: "region_owner s r = 0" if "r < g_dram_region_count s" for r
    using assms(1) that by (simp add: os_holds_all_def)
  have ref: "os_state t" "own_step (abs_owners s) c (abs_owners t)"
    using regions.step_sim [OF _ assms(2)] assms(1) by (simp_all add: os_holds_all_def)
  have z: "abs_owners s r = Some w \<Longrightarrow> w = 0" for r w
    using o by (auto simp: abs_owners_def split: if_splits)
  have same: "abs_owners t = abs_owners s"
    using ref(2) by (rule own_stepE) (use assms(3) in \<open>auto dest!: z\<close>)
  have "region_owner t r = 0" if "r < g_dram_region_count t" for r
    using z [of r "region_owner t r"] that by (simp add: same [symmetric] abs_owners_Some)
  then show ?thesis using ref(1) by (simp add: os_holds_all_def)
qed

lemma create_enclave_refused:
  assumes "os_holds_all s" "create_enclave h u e b k n d s = Some (code, t)"
  shows "t = s"
proof -
  have "region_owner s (dram_region_for s e) = 0"
    using assms(1) dram_region_for_lt [OF wf_monitorD(2) [OF os_stateD(1)]] by (simp add: os_holds_all_def)
  then have "fst (lock_metadata_region_for e s) \<noteq> monitor_ok"
    by (simp add: lock_metadata_region_for_def Let_def)
  moreover obtain c u where l: "lock_metadata_region_for e s = (c, u)" by fastforce
  ultimately show ?thesis using assms(2) lock_metadata_outcome [OF l]
    by (auto simp: create_enclave_def Let_def split: if_splits)
qed


text \<open>Every call the OS can make on the monitor, the page copy apart, keeps all regions the OS's.\<close>

lemma ret_code_SomeE:
  "ret_code p = Some (code, t) \<Longrightarrow> code = api_code (fst p) \<and> t = snd p"
  by (auto simp: ret_code_def)

lemma perform_calls:
  "ret_code_option (set_dma_range a b s) = perform (Set_dma a b) s"
  "Some (map_prod dram_region_state_code id (dram_region_state a s)) = perform (Region_state a) s"
  "Some (dram_region_owner a s) = perform (Region_owner_of a) s"
  "ret_code (assign_dram_region a b s) = perform (Assign a b) s"
  "ret_code (free_dram_region a s) = perform (Free a) s"
  "ret_code (flush_cached_dram_regions s) = perform Flush s"
  "ret_code_option (create_metadata_region a s) = perform (Create_metadata a) s"
  by (simp_all add: ret_code_def ret_code_option_def Let_def split_beta map_prod_def)

lemma os_call_keeps:
  assumes "os_holds_all s" "os_call env regs s = Some (code, t)"
    and "2000 \<le> regs 17" "regs 17 \<le> 2020"
  shows "os_holds_all t"
proof -
  have st: "os_state s" using assms(1) by (simp add: os_holds_all_def)
  have n': "regs 17 \<noteq> 2021" using assms(4) by auto
  have m: "regs 17 \<noteq> 0" "regs 17 \<noteq> 1" "regs 17 \<noteq> 2" "regs 17 \<noteq> 3" "regs 17 \<noteq> 4" "regs 17 \<noteq> 5"
    "regs 17 \<noteq> 6" "regs 17 \<noteq> 7" "regs 17 \<noteq> 8"
    using assms(3) by (auto simp: word_le_nat_alt)
  have lc: "snd (load_page_table e p va lvl acl s) = s" "snd (load_page e p va os acl s) = s"
    "snd (init_enclave h e s) = s" "snd (enter_enclave e tid s) = s" "snd (delete_thread tid s) = s"
    for e p va lvl acl os h tid
    using lifecycle_refused [OF os_state_no_enclave [OF st]] by (simp_all add: delete_thread_def Let_def)
  have de: "u = s" if "delete_enclave e s = Some (c, u)" for e c u
    using lifecycle_refused [OF os_state_no_enclave [OF st], of e] that by auto
  have th: "snd (assign_thread g1 g2 e tid s) = s"
    "snd (load_thread h g1 g2 e tid pc stk fpc fstk s) = s" for g1 g2 e tid h pc stk fpc fstk
    using threads_refused by blast+
  have nb: "os_holds_all t" if "perform c s = Some (code, t)" "\<forall>r. c \<noteq> Block r" for c
    using region_call_os_holds_all [OF assms(1) that(1)] that(2) by blast
  have "t = s \<or> (\<exists>c. perform c s = Some (code, t) \<and> (\<forall>r. c \<noteq> Block r))"
    using assms(2) m n' unfolding os_call_def Let_def perform_calls
    by (auto simp: lc th ret_code_option_def simp del: perform.simps
        dest!: de ret_code_SomeE create_enclave_refused [OF assms(1)] split: if_splits)
  then show ?thesis using nb assms(1) by blast
qed

definition monitor_ecall :: "trap_env \<Rightarrow> uregs \<times> u64 \<Rightarrow> mstate \<Rightarrow> (u64 \<times> mstate) option" where
  "monitor_ecall env c s =
     (if 2000 \<le> fst c 17 \<and> fst c 17 \<le> 2020 then os_ecall env c s else None)"

interpretation monitor_calls: simulation "monitor_ecall env" os_holds_all abs_owners
    "\<lambda>a c b. ran b \<subseteq> {null_enclave_id}" for env
proof unfold_locales
  fix s c r t
  assume "os_holds_all s" "monitor_ecall env c s = Some (r, t)"
  then have "os_holds_all t"
    using os_call_keeps [OF os_holds_all_csr [of s CSR_mepc], of env "fst c" "snd c + 4" r t]
    by (simp add: monitor_ecall_def os_ecall_eq split: if_splits)
  then show "os_holds_all t \<and> ran (abs_owners t) \<subseteq> {null_enclave_id}"
    by (auto simp: os_holds_all_def abs_owners_def ran_def split: if_splits)
qed

lemma run_monitor_ecalls:
  "\<forall>c\<in>set cs. 2000 \<le> fst c 17 \<and> fst c 17 \<le> 2020 \<Longrightarrow>
   run_calls (os_ecall env) cs s = run_calls (monitor_ecall env) cs s"
  by (induction cs arbitrary: s) (auto simp: monitor_ecall_def split: option.splits)

section \<open>The status word\<close>

lemma csr_write_csr: "csr (write_csr n v s) n = v"
  by (simp add: write_csr_def)

lemma status_bits_general:
  fixes ms :: "u64"
  assumes "p < 64" "q < 64" "r < 64"
  shows "bit (ms AND NOT (push_bit p 1 OR push_bit q 1 OR push_bit r 1) OR
        (push_bit 4 ms AND push_bit q 1) OR (drop_bit 3 ms AND push_bit p 1)) k =
      (bit ms k \<and> k \<noteq> p \<and> k \<noteq> q \<and> k \<noteq> r \<or> k = q \<and> 4 \<le> k \<and> bit ms (k - 4) \<or> k = p \<and> bit ms (3 + k))"
proof -
  have one: "bit (push_bit n 1 :: u64) j \<longleftrightarrow> j = n" if "n < 64" for n j
    using that by (auto simp: bit_simps)
  have big: "\<not> bit ms j" if "64 \<le> j" for j using bit_imp_le_length [of ms j] that by auto
  show ?thesis
  proof (cases "k < 64")
    case True
    have n: "bit (NOT x) k \<longleftrightarrow> \<not> bit x k" for x :: "u64" using True by (simp add: bit_simps)
    have sh: "bit (push_bit 4 ms) k \<longleftrightarrow> 4 \<le> k \<and> bit ms (k - 4)" "bit (drop_bit 3 ms) k \<longleftrightarrow> bit ms (3 + k)"
      using True by (simp_all add: bit_simps)
    show ?thesis
      unfolding bit_or_iff bit_and_iff n sh one [OF assms(1)] one [OF assms(2)] one [OF assms(3)] by argo
  next
    case False
    then have "\<not> bit x k" for x :: "u64" using bit_imp_le_length [of x k] by auto
    moreover have "k \<noteq> p" "k \<noteq> q" using assms False by auto
    ultimately show ?thesis by blast
  qed
qed

lemma status_bits:
  fixes ms :: "u64"
  assumes "p = 8" "q = 5" "r = 1"
  shows "bit (ms AND NOT (push_bit p 1 OR push_bit q 1 OR push_bit r 1) OR
        (push_bit 4 ms AND push_bit q 1) OR (drop_bit 3 ms AND push_bit p 1)) k =
      (if k = 1 then False else if k = 5 then bit ms 1 else if k = 8 then bit ms 11 else bit ms k)"
  by (subst status_bits_general) (use assms in auto)

section \<open>Properties\<close>

text \<open>Redirecting a trap to supervisor mode saves the trap's address, cause and faulting address in
  the supervisor registers, continues at \<open>stvec\<close>, and turns the status word bit by bit into the
  one of a trap taken in supervisor mode: SPIE takes SIE, SPP takes the low bit of MPP, SIE is
  cleared, every other bit and the memory stay.\<close>

theorem redirect_trap_to_s_effect:
  "csr (redirect_trap_to_s epc ms bad s) CSR_sepc = epc \<and>
   csr (redirect_trap_to_s epc ms bad s) CSR_sbadaddr = bad \<and>
   csr (redirect_trap_to_s epc ms bad s) CSR_scause = csr s CSR_mcause \<and>
   csr (redirect_trap_to_s epc ms bad s) CSR_mepc = csr s CSR_stvec \<and>
   bit (csr (redirect_trap_to_s epc ms bad s) CSR_mstatus) k =
     (if k = 1 then False else if k = 5 then bit ms 1 else if k = 8 then bit ms 11 else bit ms k) \<and>
   mem (redirect_trap_to_s epc ms bad s) = mem s"
proof -
  have mul: "ms * (MSTATUS_SPIE div MSTATUS_SIE) = push_bit 4 ms" by (simp add: push_bit_eq_mult)
  have dv: "ms div ((MSTATUS_MPP AND drop_bit 1 MSTATUS_MPP) div MSTATUS_SPP) = drop_bit 3 ms"
    by (simp add: drop_bit_eq_div)
  have masks: "MSTATUS_SPIE = push_bit 5 1" "MSTATUS_SPP = push_bit 8 1" "MSTATUS_SIE = push_bit 1 1"
    by (simp_all add: push_bit_eq_mult)
  have m: "csr (redirect_trap_to_s epc ms bad s) CSR_mstatus =
      ms AND NOT (push_bit 8 1 OR push_bit 5 1 OR push_bit 1 1) OR
        (push_bit 4 ms AND push_bit 5 1) OR (drop_bit 3 ms AND push_bit 8 1)"
    unfolding redirect_trap_to_s_def Let_def mul dv unfolding masks by (simp only: csr_write_csr or.assoc)
  have "bit (csr (redirect_trap_to_s epc ms bad s) CSR_mstatus) k =
      (if k = 1 then False else if k = 5 then bit ms 1 else if k = 8 then bit ms 11 else bit ms k)"
    unfolding m by (rule status_bits [OF refl refl refl])
  then show ?thesis by (simp add: redirect_trap_to_s_def Let_def write_csr_def)
qed

text \<open>C2: Whatever calls the OS makes on the monitor, in whatever order and with whatever arguments, the
  page copy for debugging apart, every region stays the OS's: from a state in which the OS holds
  every region, as after boot, no region is ever blocked, freed, assigned or made a metadata
  region, because the dispatcher has no case for the call that blocks one.\<close>

theorem os_ecalls_release_no_region:
  assumes "os_state s" "\<forall>r<g_dram_region_count s. region_owner s r = null_enclave_id"
    and "\<forall>(regs, pc)\<in>set cs. 2000 \<le> regs 17 \<and> regs 17 \<le> 2020"
    and "run_calls (os_ecall env) cs s = Some t"
  shows "\<forall>r<g_dram_region_count t. region_owner t r = null_enclave_id"
proof -
  have "run_calls (monitor_ecall env) cs s = Some t"
    using assms(3,4) run_monitor_ecalls [of cs env s] by (simp add: split_beta)
  with monitor_calls.run_inv [of s env cs t] assms(1,2) show ?thesis by (simp add: os_holds_all_def)
qed

text \<open>An environment with trivial devices, and the registers of a call.\<close>

definition demo_env :: trap_env where
  "demo_env =
     \<lparr>hashing = sum_hash, uart = 0, use_htif = False, uart_putchar = \<lambda>_ s. s,
      htif_console_putchar = \<lambda>_ s. s, uart_getchar = Pair 0, htif_console_getchar = Pair 0,
      load_uintptr = \<lambda>_ _ _. 0, machine_stack_top = 0x10000, hart_mask = 1, disabled_hart_mask = 0,
      ENOSYS = 88, get_attestation_key = \<lambda>_. Pair 0, accept_message = \<lambda>_ _. Pair 0,
      read_message = \<lambda>_ _. Pair 0, send_message = \<lambda>_ _ _. Pair 0, unset1 = 0, unset2 = 0\<rparr>"

definition call_regs :: "u64 \<Rightarrow> u64 \<Rightarrow> u64 \<Rightarrow> u64 \<Rightarrow> u64 \<Rightarrow> uregs" where
  "call_regs n a0 a1 a2 a3 = (\<lambda>_. 0)(17 := n, 10 := a0, 11 := a1, 12 := a2, 13 := a3)"

lemma os_block_not_dispatched:
  "regs 17 = 2000 \<Longrightarrow> os_call env regs s = Some (- ENOSYS env, s)"
  by (simp add: os_call_def Let_def)

theorem os_ecalls_release_no_region_witness:
  "\<exists>t. run_calls (os_ecall demo_env) [(call_regs 2000 5 0 0 0, 0), (call_regs 2005 5 0 0 0, 4)] (demo []) = Some t \<and>
     (\<forall>r<g_dram_region_count t. region_owner t r = null_enclave_id)"
proof -
  let ?cs = "[(call_regs 2000 5 0 0 0, 0), (call_regs 2005 5 0 0 0, 4)]"
  have os: "os_state (demo [])" by (intro demo_os_state) (simp add: region_cell_list_def)
  have own: "\<forall>r<g_dram_region_count (demo []). region_owner (demo []) r = null_enclave_id"
    by (auto simp: demo_cell)
  have rng: "\<forall>(regs, pc)\<in>set ?cs. 2000 \<le> regs 17 \<and> regs 17 \<le> 2020"
    by (simp add: call_regs_def word_le_nat_alt)
  obtain t where t: "run_calls (os_ecall demo_env) ?cs (demo []) = Some t"
    by (auto simp: os_ecall_eq os_block_not_dispatched call_regs_def)
      (simp add: os_call_def ret_code_def)
  show ?thesis using os_ecalls_release_no_region [OF os own rng t] t by blast
qed

end
