(* ===== verification/Emulation.thy ===== *)
theory Emulation
  imports Traps
begin

text \<open>
  Emulation of instructions that trap (\<open>sm/machine/emulation.c\<close>, \<open>sm/machine/misaligned_ldst.c\<close>): reads
  of the timer and integer loads and stores at misaligned addresses. The build is for rv64g, so the
  branches for compressed instructions, for a missing multiplier and for a missing floating point unit are not
  compiled.

  An access with the privilege of the interrupted program (\<open>unprivileged_memory.h\<close>) is assembly: the
  translation it goes through is the parameter \<open>translate\<close>, \<open>fetch\<close> when executable pages are readable as
  well. An access that faults leaves the handler; such a run is \<open>Inl\<close> of the address and the
  state at that point. The saved registers are a function from their index, \<open>timer\<close> reads the device
  register \<open>*mtime\<close>.
\<close>

record emu_env =
  translate :: "mstate \<Rightarrow> u64 \<Rightarrow> u64 option"
  fetch :: "mstate \<Rightarrow> u64 \<Rightarrow> u64 option"
  timer :: "mstate \<Rightarrow> u64"

type_synonym 'a emu = "(u64 \<times> mstate) + 'a"

section \<open>Instruction fields (emulation.h, encoding.h)\<close>

abbreviation "CSR_scounteren \<equiv> 0x106 :: u64"
abbreviation "CSR_CYCLE \<equiv> 0xC00 :: u64"
abbreviation "CSR_TIME \<equiv> 0xC01 :: u64"

definition EXTRACT_FIELD :: "u64 \<Rightarrow> u64 \<Rightarrow> u64" where
  "EXTRACT_FIELD val which = (val AND which) div (which AND NOT (which - 1))"

text \<open>\<open>GET_REG\<close> computes an offset of 8 bytes per register: \<open>(insn >> (pos - 3)) & 0xf8\<close>.\<close>

definition GET_REG :: "u64 \<Rightarrow> nat \<Rightarrow> nat" where
  "GET_REG insn pos = unat (drop_bit (pos - 3) insn AND 0xF8) div 8"

definition GET_RS1 :: "u64 \<Rightarrow> uregs \<Rightarrow> u64" where "GET_RS1 insn regs = regs (GET_REG insn 15)"
definition GET_RS2 :: "u64 \<Rightarrow> uregs \<Rightarrow> u64" where "GET_RS2 insn regs = regs (GET_REG insn 20)"
definition SET_RD :: "u64 \<Rightarrow> u64 \<Rightarrow> uregs \<Rightarrow> uregs" where
  "SET_RD insn val regs = regs(GET_REG insn 7 := val)"
definition GET_RM :: "u64 \<Rightarrow> u64" where "GET_RM insn = drop_bit 12 insn AND 7"

definition insn_len :: "u64 \<Rightarrow> u64" where
  "insn_len insn = (if insn AND 3 < 3 then 2 else 4)"

abbreviation "MASK_LDST \<equiv> 0x707f :: u64"
abbreviation "MATCH_LH \<equiv> 0x1003 :: u64"
abbreviation "MATCH_LW \<equiv> 0x2003 :: u64"
abbreviation "MATCH_LD \<equiv> 0x3003 :: u64"
abbreviation "MATCH_LHU \<equiv> 0x5003 :: u64"
abbreviation "MATCH_LWU \<equiv> 0x6003 :: u64"
abbreviation "MATCH_SH \<equiv> 0x1023 :: u64"
abbreviation "MATCH_SW \<equiv> 0x2023 :: u64"
abbreviation "MATCH_SD \<equiv> 0x3023 :: u64"

section \<open>Unprivileged accesses\<close>

definition load_uint8_t :: "emu_env \<Rightarrow> u64 \<Rightarrow> mstate \<Rightarrow> u8 emu" where
  "load_uint8_t env addr s =
     (case translate env s addr of None \<Rightarrow> Inl (addr, s) | Some pa \<Rightarrow> Inr (mem s pa))"

definition store_uint8_t :: "emu_env \<Rightarrow> u64 \<Rightarrow> u8 \<Rightarrow> mstate \<Rightarrow> mstate emu" where
  "store_uint8_t env addr val s =
     (case translate env s addr of None \<Rightarrow> Inl (addr, s) | Some pa \<Rightarrow> Inr (s\<lparr>mem := (mem s)(pa := val)\<rparr>))"

text \<open>The instruction word, zero-extended, and \<open>mstatus\<close> as it was before the access.\<close>

definition get_insn :: "emu_env \<Rightarrow> u64 \<Rightarrow> mstate \<Rightarrow> (u64 \<times> u64) emu" where
  "get_insn env mepc s =
     (case fetch env s mepc of None \<Rightarrow> Inl (mepc, s)
      | Some pa \<Rightarrow> Inr (ucast (ld32 (mem s) pa), csr s CSR_mstatus))"

section \<open>Illegal instructions (emulation.c)\<close>

definition truly_illegal_insn :: "uregs \<Rightarrow> u64 \<Rightarrow> u64 \<Rightarrow> u64 \<Rightarrow> mstate \<Rightarrow> (uregs \<times> mstate) emu" where
  "truly_illegal_insn regs mepc mstatus insn s = Inr (regs, redirect_trap_to_s mepc mstatus insn s)"

definition emulate_rvc :: "uregs \<Rightarrow> u64 \<Rightarrow> u64 \<Rightarrow> u64 \<Rightarrow> mstate \<Rightarrow> (uregs \<times> mstate) emu" where
  "emulate_rvc regs mepc mstatus insn s = truly_illegal_insn regs mepc mstatus insn s"

definition emulate_read_csr :: "emu_env \<Rightarrow> u64 \<Rightarrow> u64 \<Rightarrow> mstate \<Rightarrow> u64 option" where
  "emulate_read_csr env num mstatus s =
     (let counteren = - 1;
          counteren = (if EXTRACT_FIELD mstatus MSTATUS_MPP = 0 then csr s CSR_scounteren else counteren)
      in if num = CSR_TIME then
           if \<not> srl64 counteren (CSR_TIME - CSR_CYCLE) AND 1 \<noteq> 0 then None else Some (timer env s)
         else None)"

definition emulate_write_csr :: "u64 \<Rightarrow> u64 \<Rightarrow> u64 \<Rightarrow> mstate \<Rightarrow> mstate option" where
  "emulate_write_csr num value mstatus s = None"

definition emulate_system_opcode ::
    "emu_env \<Rightarrow> uregs \<Rightarrow> u64 \<Rightarrow> u64 \<Rightarrow> u64 \<Rightarrow> mstate \<Rightarrow> (uregs \<times> mstate) emu" where
  "emulate_system_opcode env regs mepc mstatus insn s =
     (let rs1_num = drop_bit 15 insn AND 0x1f;
          rs1_val = GET_RS1 insn regs;
          csr_num = ucast (drop_bit 20 (ucast insn :: u32));
          illegal = truly_illegal_insn regs mepc mstatus insn s
      in case emulate_read_csr env csr_num mstatus s of
           None \<Rightarrow> illegal
         | Some csr_val \<Rightarrow>
            (let finish = (\<lambda>do_write new_csr_val.
                   case (if do_write then emulate_write_csr csr_num new_csr_val mstatus s else Some s) of
                     None \<Rightarrow> illegal
                   | Some s \<Rightarrow> Inr (SET_RD insn csr_val regs, s));
                 do_write = (rs1_num \<noteq> 0);
                 rm = GET_RM insn
             in if rm = 0 then illegal
                else if rm = 1 then finish True rs1_val
                else if rm = 2 then finish do_write (csr_val OR rs1_val)
                else if rm = 3 then finish do_write (csr_val AND NOT rs1_val)
                else if rm = 4 then illegal
                else if rm = 5 then finish True rs1_num
                else if rm = 6 then finish do_write (csr_val OR rs1_num)
                else finish do_write (csr_val AND NOT rs1_num)))"

text \<open>\<open>illegal_insn_trap_table\<close> has 32 entries, indexed by the opcode; all but entry 28 are illegal.\<close>

datatype emulation_func = Truly_illegal | System_opcode

definition illegal_insn_trap_table :: "emulation_func list" where
  "illegal_insn_trap_table = replicate 28 Truly_illegal @ [System_opcode] @ replicate 3 Truly_illegal"

definition illegal_insn_trap :: "emu_env \<Rightarrow> uregs \<Rightarrow> u64 \<Rightarrow> mstate \<Rightarrow> (uregs \<times> mstate) emu" where
  "illegal_insn_trap env regs mepc s =
     (let mstatus = csr s CSR_mstatus;
          insn = csr s CSR_mbadaddr;
          dispatch = (\<lambda>mstatus insn.
            let s = write_csr CSR_mepc (mepc + 4) s
            in case illegal_insn_trap_table ! unat ((insn AND 0x7c) div 4) of
                 Truly_illegal \<Rightarrow> truly_illegal_insn regs mepc mstatus insn s
               | System_opcode \<Rightarrow> emulate_system_opcode env regs mepc mstatus insn s)
      in if insn AND 3 \<noteq> 3 then
           (case (if insn = 0 then get_insn env mepc s else Inr (insn, mstatus)) of
              Inl e \<Rightarrow> Inl e
            | Inr (insn, mstatus) \<Rightarrow>
                if insn AND 3 \<noteq> 3 then emulate_rvc regs mepc mstatus insn s else dispatch mstatus insn)
         else dispatch mstatus insn)"

section \<open>Misaligned loads and stores (misaligned\_ldst.c)\<close>

text \<open>The width of a load and the shift that sign-extends it; nothing when the instruction is none of these.\<close>

definition load_kind :: "u64 \<Rightarrow> (nat \<times> nat) option" where
  "load_kind insn =
     (if insn AND MASK_LDST = MATCH_LW then Some (4, 8 * (8 - 4))
      else if insn AND MASK_LDST = MATCH_LD then Some (8, 8 * (8 - 8))
      else if insn AND MASK_LDST = MATCH_LWU then Some (4, 0)
      else if insn AND MASK_LDST = MATCH_LH then Some (2, 8 * (8 - 2))
      else if insn AND MASK_LDST = MATCH_LHU then Some (2, 0)
      else None)"

text \<open>The union of a double word and its bytes, the missing bytes zero.\<close>

definition union_word :: "u8 list \<Rightarrow> u64" where
  "union_word bs = word_of_nat (foldr (\<lambda>b n. unat b + 256 * n) bs 0)"

definition union_byte :: "u64 \<Rightarrow> nat \<Rightarrow> u8" where "union_byte w i = ucast (drop_bit (8 * i) w)"

text \<open>The bytes of the union from index \<open>i\<close> on.\<close>

fun load_loop :: "emu_env \<Rightarrow> u64 \<Rightarrow> nat \<Rightarrow> nat \<Rightarrow> mstate \<Rightarrow> u8 list emu" where
  "load_loop env addr i 0 s = Inr []"
| "load_loop env addr i (Suc n) s =
     (case load_uint8_t env (addr + word_of_nat i) s of
        Inl e \<Rightarrow> Inl e
      | Inr b \<Rightarrow> (case load_loop env addr (Suc i) n s of Inl e \<Rightarrow> Inl e | Inr bs \<Rightarrow> Inr (b # bs)))"

definition misaligned_load_trap :: "emu_env \<Rightarrow> uregs \<Rightarrow> u64 \<Rightarrow> mstate \<Rightarrow> (uregs \<times> mstate) emu" where
  "misaligned_load_trap env regs mepc s =
     (case get_insn env mepc s of
        Inl e \<Rightarrow> Inl e
      | Inr (insn, mstatus) \<Rightarrow>
         (let npc = mepc + insn_len insn; addr = csr s CSR_mbadaddr
          in case load_kind insn of
               None \<Rightarrow> truly_illegal_insn regs mepc mstatus insn s
             | Some (len, shift) \<Rightarrow>
                (case load_loop env addr 0 len s of
                   Inl e \<Rightarrow> Inl e
                 | Inr bs \<Rightarrow>
                    (let intx = union_word bs
                     in Inr (SET_RD insn (signed_drop_bit shift (push_bit shift intx)) regs, write_csr CSR_mepc npc s)))))"


definition store_kind :: "u64 \<Rightarrow> nat option" where
  "store_kind insn =
     (if insn AND MASK_LDST = MATCH_SW then Some 4
      else if insn AND MASK_LDST = MATCH_SD then Some 8
      else if insn AND MASK_LDST = MATCH_SH then Some 2
      else None)"

fun store_loop :: "emu_env \<Rightarrow> u64 \<Rightarrow> u64 \<Rightarrow> nat \<Rightarrow> nat \<Rightarrow> mstate \<Rightarrow> mstate emu" where
  "store_loop env addr val i 0 s = Inr s"
| "store_loop env addr val i (Suc n) s =
     (case store_uint8_t env (addr + word_of_nat i) (union_byte val i) s of
        Inl e \<Rightarrow> Inl e
      | Inr s \<Rightarrow> store_loop env addr val (Suc i) n s)"

definition misaligned_store_trap :: "emu_env \<Rightarrow> uregs \<Rightarrow> u64 \<Rightarrow> mstate \<Rightarrow> (uregs \<times> mstate) emu" where
  "misaligned_store_trap env regs mepc s =
     (case get_insn env mepc s of
        Inl e \<Rightarrow> Inl e
      | Inr (insn, mstatus) \<Rightarrow>
         (let npc = mepc + insn_len insn; intx = GET_RS2 insn regs
          in case store_kind insn of
               None \<Rightarrow> truly_illegal_insn regs mepc mstatus insn s
             | Some len \<Rightarrow>
                (case store_loop env (csr s CSR_mbadaddr) intx 0 len s of
                   Inl e \<Rightarrow> Inl e
                 | Inr s \<Rightarrow> Inr (regs, write_csr CSR_mepc npc s))))"

section \<open>Instruction formats of the architecture\<close>

definition opcode :: "u64 \<Rightarrow> u64" where "opcode insn = take_bit 7 insn"
definition funct3 :: "u64 \<Rightarrow> u64" where "funct3 insn = take_bit 3 (drop_bit 12 insn)"
definition reg_field :: "nat \<Rightarrow> u64 \<Rightarrow> nat" where "reg_field pos insn = unat (take_bit 5 (drop_bit pos insn))"
definition csr_field :: "u64 \<Rightarrow> u64" where "csr_field insn = take_bit 12 (drop_bit 20 insn)"

text \<open>The width in bytes of the integer loads and stores; for loads also whether they extend the sign.\<close>

definition load_format :: "u64 \<Rightarrow> (nat \<times> bool) option" where
  "load_format insn =
     (if opcode insn \<noteq> 0x03 then None
      else map_of [(1, (2, True)), (2, (4, True)), (3, (8, True)), (5, (2, False)), (6, (4, False))] (funct3 insn))"

definition store_format :: "u64 \<Rightarrow> nat option" where
  "store_format insn =
     (if opcode insn \<noteq> 0x23 then None else map_of [(1, 2), (2, 4), (3, 8)] (funct3 insn))"

definition extend :: "nat \<times> bool \<Rightarrow> u64 \<Rightarrow> u64" where
  "extend f v = (if snd f then signed_take_bit (8 * fst f - 1) v else v)"

text \<open>A read of the time register that writes nothing: \<open>csrrs\<close>, \<open>csrrc\<close> and their immediate forms with a zero.\<close>

definition reads_time :: "u64 \<Rightarrow> bool" where
  "reads_time insn \<longleftrightarrow>
     opcode insn = 0x73 \<and> csr_field insn = 0xC01 \<and> reg_field 15 insn = 0 \<and> funct3 insn \<in> {2, 3, 6, 7}"

text \<open>User programs need the permission of the supervisor's counter register.\<close>

definition time_enabled :: "u64 \<Rightarrow> mstate \<Rightarrow> bool" where
  "time_enabled mstatus s \<longleftrightarrow> mstatus AND MSTATUS_MPP \<noteq> 0 \<or> bit (csr s CSR_scounteren) 1"

section \<open>Decoding\<close>

lemma and_mask_lit: "(x :: u64) AND 0x7f = take_bit 7 x" "x AND 7 = take_bit 3 x" "x AND 0x1f = take_bit 5 x"
    "x AND 3 = take_bit 2 x"
  by (simp_all add: take_bit_eq_mask mask_eq_exp_minus_1)

lemma GET_REG_field: "3 \<le> pos \<Longrightarrow> GET_REG insn pos = reg_field pos insn"
proof -
  assume pos: "3 \<le> pos"
  have f: "(0xF8 :: u64) = push_bit 3 (mask 5)" by (simp add: mask_eq_exp_minus_1 push_bit_eq_mult)
  have "drop_bit (pos - 3) insn AND 0xF8 = push_bit 3 (take_bit 5 (drop_bit pos insn))"
    unfolding f by (rule bit_word_eqI)
      (use pos in \<open>auto simp: bit_and_iff bit_push_bit_iff bit_mask_iff bit_take_bit_iff bit_drop_bit_eq\<close>)
  moreover have "unat (push_bit 3 (take_bit 5 x)) = 8 * unat (take_bit 5 x)" for x :: u64
  proof -
    have "unat (take_bit 5 x) < 32" by (simp add: unsigned_take_bit_eq take_bit_nat_less_exp [of 5, simplified])
    then show ?thesis by (simp add: push_bit_eq_mult unat_word_ariths)
  qed
  ultimately show ?thesis by (simp add: GET_REG_def reg_field_def)
qed

lemma ldst_match: "insn AND MASK_LDST = (push_bit 12 f OR opc) \<longleftrightarrow> opcode insn = opc \<and> funct3 insn = f"
  if "take_bit 7 opc = opc" "take_bit 3 f = f" for opc f :: u64
proof -
  have m: "MASK_LDST = mask 7 OR push_bit 12 (mask 3)" by (simp add: mask_eq_exp_minus_1 push_bit_eq_mult)
  have split: "insn AND MASK_LDST = push_bit 12 (funct3 insn) OR opcode insn"
    unfolding m by (rule bit_word_eqI)
      (auto simp: bit_and_iff bit_or_iff bit_push_bit_iff bit_mask_iff funct3_def opcode_def bit_take_bit_iff bit_drop_bit_eq)
  have parts: "take_bit 7 (push_bit 12 g OR o') = o' \<and> take_bit 3 (drop_bit 12 (push_bit 12 g OR o')) = g"
    if "take_bit 7 o' = o'" "take_bit 3 g = g" for g o' :: u64
  proof -
    have o: "\<not> bit o' n" if "7 \<le> n" for n
      using \<open>take_bit 7 o' = o'\<close> that bit_take_bit_iff [of 7 o' n] by auto
    have "take_bit 7 (push_bit 12 g OR o') = take_bit 7 o'"
      by (rule bit_word_eqI) (auto simp: bit_take_bit_iff bit_or_iff bit_push_bit_iff)
    moreover have "take_bit 3 (drop_bit 12 (push_bit 12 g OR o')) = take_bit 3 g"
      by (rule bit_word_eqI) (auto simp: bit_take_bit_iff bit_drop_bit_eq bit_or_iff bit_push_bit_iff o)
    ultimately show ?thesis using that by simp
  qed
  have "take_bit 7 (opcode insn) = opcode insn" "take_bit 3 (funct3 insn) = funct3 insn"
    by (simp_all add: opcode_def funct3_def)
  from parts [OF this] parts [OF that] split show ?thesis by metis
qed


lemma ldst_codes:
  "insn AND MASK_LDST = MATCH_LW \<longleftrightarrow> opcode insn = 0x03 \<and> funct3 insn = 2"
  "insn AND MASK_LDST = MATCH_LD \<longleftrightarrow> opcode insn = 0x03 \<and> funct3 insn = 3"
  "insn AND MASK_LDST = MATCH_LWU \<longleftrightarrow> opcode insn = 0x03 \<and> funct3 insn = 6"
  "insn AND MASK_LDST = MATCH_LH \<longleftrightarrow> opcode insn = 0x03 \<and> funct3 insn = 1"
  "insn AND MASK_LDST = MATCH_LHU \<longleftrightarrow> opcode insn = 0x03 \<and> funct3 insn = 5"
  "insn AND MASK_LDST = MATCH_SW \<longleftrightarrow> opcode insn = 0x23 \<and> funct3 insn = 2"
  "insn AND MASK_LDST = MATCH_SD \<longleftrightarrow> opcode insn = 0x23 \<and> funct3 insn = 3"
  "insn AND MASK_LDST = MATCH_SH \<longleftrightarrow> opcode insn = 0x23 \<and> funct3 insn = 1"
  using ldst_match [where opc = "0x03" and f = 2 and insn = insn] ldst_match [where opc = "0x03" and f = 3 and insn = insn] ldst_match [where opc = "0x03" and f = 6 and insn = insn]
    ldst_match [where opc = "0x03" and f = 1 and insn = insn] ldst_match [where opc = "0x03" and f = 5 and insn = insn] ldst_match [where opc = "0x23" and f = 2 and insn = insn]
    ldst_match [where opc = "0x23" and f = 3 and insn = insn] ldst_match [where opc = "0x23" and f = 1 and insn = insn]
  by (simp_all add: push_bit_eq_mult take_bit_eq_mask mask_eq_exp_minus_1)

lemma load_kind_format:
  "load_kind insn = map_option (\<lambda>(n, sx). (n, if sx then 64 - 8 * n else 0)) (load_format insn)"
  by (auto simp: load_kind_def load_format_def ldst_codes)

lemma store_kind_format: "store_kind insn = store_format insn"
  by (auto simp: store_kind_def store_format_def ldst_codes)

lemma insn_len_word: "insn_len insn = 4" if "take_bit 2 (opcode insn) = 3"
proof -
  have "insn AND 3 = 3" using that by (simp add: and_mask_lit opcode_def)
  then show ?thesis by (simp add: insn_len_def)
qed

lemma extend_shift:
  assumes "0 < n" "n \<le> 8"
  shows "signed_drop_bit (64 - 8 * n) (push_bit (64 - 8 * n) w) = signed_take_bit (8 * n - 1) (w :: u64)"
proof (rule bit_word_eqI)
  fix k assume k: "k < LENGTH(64)"
  have "k = 8 * n - 1" if "\<not> 8 * n \<le> k" "8 * n \<le> Suc k" using that by linarith
  then show "bit (signed_drop_bit (64 - 8 * n) (push_bit (64 - 8 * n) w)) k = bit (signed_take_bit (8 * n - 1) w) k"
    using assms k by (auto simp: bit_signed_drop_bit_iff bit_signed_take_bit_iff bit_push_bit_iff min_def le_diff_conv)
qed

lemma load_formats: "load_format insn = Some (n, sx) \<Longrightarrow> opcode insn = 0x03 \<and> n \<in> {2, 4, 8}"
  by (auto simp: load_format_def dest!: map_of_SomeD split: if_splits)

lemma store_formats: "store_format insn = Some n \<Longrightarrow> opcode insn = 0x23 \<and> n \<in> {2, 4, 8}"
  by (auto simp: store_format_def dest!: map_of_SomeD split: if_splits)

text \<open>A load as the architecture defines it, through the format of the instruction.\<close>

lemma misaligned_load_format:
  "misaligned_load_trap env regs mepc s =
     (case get_insn env mepc s of
        Inl e \<Rightarrow> Inl e
      | Inr (insn, mstatus) \<Rightarrow>
         (case load_format insn of
            None \<Rightarrow> Inr (regs, redirect_trap_to_s mepc mstatus insn s)
          | Some f \<Rightarrow>
             map_sum id (\<lambda>bs. (regs(reg_field 7 insn := extend f (union_word bs)), write_csr CSR_mepc (mepc + 4) s))
               (load_loop env (csr s CSR_mbadaddr) 0 (fst f) s)))"
proof -
  have done': "SET_RD insn (signed_drop_bit (if sx then 64 - 8 * n else 0) (push_bit (if sx then 64 - 8 * n else 0) w)) regs =
      regs(reg_field 7 insn := extend (n, sx) w) \<and> insn_len insn = 4"
    if "load_format insn = Some (n, sx)" for insn n sx w
  proof -
    have "opcode insn = 0x03" "0 < n" "n \<le> 8" using load_formats [OF that] by auto
    moreover from this have "insn_len insn = 4"
      by (intro insn_len_word) (simp add: take_bit_eq_mask mask_eq_exp_minus_1)
    ultimately show ?thesis by (simp add: SET_RD_def GET_REG_field extend_def extend_shift)
  qed
  show ?thesis
  proof (cases "get_insn env mepc s")
    case (Inr r)
    obtain insn mstatus where r: "r = (insn, mstatus)" by fastforce
    show ?thesis
    proof (cases "load_format insn")
      case None
      then show ?thesis by (simp add: misaligned_load_trap_def Inr r load_kind_format truly_illegal_insn_def)
    next
      case (Some f)
      obtain n sx where f: "f = (n, sx)" by fastforce
      from done' [OF Some [unfolded f]] show ?thesis
        by (cases "load_loop env (csr s CSR_mbadaddr) 0 n s")
          (simp_all add: misaligned_load_trap_def Inr r load_kind_format Some f)
    qed
  qed (simp add: misaligned_load_trap_def)
qed


section \<open>Accesses byte by byte\<close>

text \<open>The first byte of an access whose address has no translation.\<close>

definition faulting :: "emu_env \<Rightarrow> u64 \<Rightarrow> nat \<Rightarrow> mstate \<Rightarrow> nat option" where
  "faulting env addr n s = find (\<lambda>j. translate env s (addr + word_of_nat j) = None) [0..<n]"

definition bytes_at :: "emu_env \<Rightarrow> u64 \<Rightarrow> nat \<Rightarrow> mstate \<Rightarrow> u8 list" where
  "bytes_at env addr n s = map (\<lambda>j. mem s (the (translate env s (addr + word_of_nat j)))) [0..<n]"

lemma load_loop_from:
  "load_loop env addr i n s =
     (case find (\<lambda>j. translate env s (addr + word_of_nat j) = None) [i..<i + n] of
        Some j \<Rightarrow> Inl (addr + word_of_nat j, s)
      | None \<Rightarrow> Inr (map (\<lambda>j. mem s (the (translate env s (addr + word_of_nat j)))) [i..<i + n]))"
proof (induction n arbitrary: i)
  case (Suc n)
  have "[i..<i + Suc n] = i # [Suc i..<Suc i + n]" by (simp add: upt_conv_Cons)
  then show ?case using Suc.IH [of "Suc i"]
    by (auto simp: load_uint8_t_def simp del: upt_Suc split: option.splits)
qed simp

lemma load_loop_eq:
  "load_loop env addr 0 n s =
     (case faulting env addr n s of
        Some j \<Rightarrow> Inl (addr + word_of_nat j, s) | None \<Rightarrow> Inr (bytes_at env addr n s))"
  using load_loop_from [of env addr 0 n s] by (simp only: faulting_def bytes_at_def add_0)

lemma faulting_None:
  "(\<And>j. j < n \<Longrightarrow> translate env s (addr + word_of_nat j) = Some (pa + word_of_nat j)) \<Longrightarrow> faulting env addr n s = None"
  by (auto simp: faulting_def find_None_iff)

lemma bytes_at_contiguous:
  "(\<And>j. j < n \<Longrightarrow> translate env s (addr + word_of_nat j) = Some (pa + word_of_nat j)) \<Longrightarrow>
   bytes_at env addr n s = ld_bytes (mem s) pa n"
  by (rule nth_equalityI) (simp_all add: bytes_at_def)

lemma store_loop_contiguous:
  assumes "\<And>s j. j < k \<Longrightarrow> translate env s (addr + word_of_nat j) = Some (pa + word_of_nat j)" "i + n \<le> k"
  shows "store_loop env addr v i n s =
    Inr (s\<lparr>mem := st_bytes (mem s) (pa + word_of_nat i) (map (union_byte v) [i..<i + n])\<rparr>)"
  using assms(2)
proof (induction n arbitrary: i s)
  case (Suc n)
  have "[i..<i + Suc n] = i # [Suc i..<Suc i + n]" by (simp add: upt_conv_Cons)
  then show ?case using Suc.IH [of "Suc i"] Suc.prems assms(1) [of i]
    by (simp add: store_uint8_t_def add.assoc add.commute [of 1] del: upt_Suc fun_upd_apply)
qed simp

lemma union_word_from:
  "foldr (\<lambda>b n. unat b + 256 * n) (map (union_byte v) [i..<i + n]) 0 = unat v div 2 ^ (8 * i) mod 2 ^ (8 * n)"
proof (induction n arbitrary: i)
  case (Suc n)
  have b: "unat (union_byte v i) = unat v div 2 ^ (8 * i) mod 2 ^ 8"
    by (simp add: union_byte_def unsigned_ucast_eq unat_drop_bit_eq drop_bit_eq_div [where 'a = nat] take_bit_eq_mod [where 'a = nat])
  have d: "unat v div 2 ^ (8 + 8 * i) = unat v div 2 ^ (8 * i) div 2 ^ 8"
  proof -
    have "8 + 8 * i = 8 * i + 8" by simp
    then show ?thesis by (simp only: power_add div_mult2_eq)
  qed
  have "[i..<i + Suc n] = i # [Suc i..<Suc i + n]" by (simp add: upt_conv_Cons)
  then have "foldr (\<lambda>b n. unat b + 256 * n) (map (union_byte v) [i..<i + Suc n]) 0 =
      unat v div 2 ^ (8 * i) mod 2 ^ 8 + 2 ^ 8 * (unat v div 2 ^ (8 * i) div 2 ^ 8 mod 2 ^ (8 * n))"
    using Suc.IH [of "Suc i"] by (simp add: b d del: upt_Suc)
  also have "\<dots> = unat v div 2 ^ (8 * i) mod (2 ^ 8 * 2 ^ (8 * n))" by (simp add: mod_mult2_eq)
  finally show ?case by (simp add: power_add)
qed simp

lemma union_word_bytes: "union_word (map (union_byte v) [0..<n]) = take_bit (8 * n) v"
proof -
  have "union_word (map (union_byte v) [0..<n]) = word_of_nat (unat v mod 2 ^ (8 * n))"
    using union_word_from [of v 0 n] by (simp add: union_word_def)
  also have "\<dots> = word_of_nat (unat (take_bit (8 * n) v))" by (simp add: unsigned_take_bit_eq take_bit_eq_mod [where 'a = nat])
  finally show ?thesis by simp
qed


section \<open>Properties\<close>

text \<open>C26: The load handler does what the architecture defines for a load: by the format of the instruction
  it reads the bytes of the access, extends them with the sign or with zeros, writes the destination
  register and continues after the instruction. An access that faults leaves the handler at its first
  untranslated byte with nothing changed; any other instruction is handed to the supervisor.\<close>

theorem misaligned_load_is_load:
  "misaligned_load_trap env regs mepc s =
     (case get_insn env mepc s of
        Inl e \<Rightarrow> Inl e
      | Inr (insn, mstatus) \<Rightarrow>
         (case load_format insn of
            None \<Rightarrow> Inr (regs, redirect_trap_to_s mepc mstatus insn s)
          | Some f \<Rightarrow>
             (let addr = csr s CSR_mbadaddr
              in case faulting env addr (fst f) s of
                   Some j \<Rightarrow> Inl (addr + word_of_nat j, s)
                 | None \<Rightarrow>
                     Inr (regs(reg_field 7 insn := extend f (union_word (bytes_at env addr (fst f) s))),
                          write_csr CSR_mepc (mepc + 4) s))))"
  by (simp add: misaligned_load_format load_loop_eq Let_def split: sum.split option.split prod.split)

lemma misaligned_store_effect:
  assumes "get_insn env mepc s = Inr (insn, mstatus)" "store_format insn = Some n"
    and "\<And>s j. j < n \<Longrightarrow> translate env s (csr s0 CSR_mbadaddr + word_of_nat j) = Some (pa + word_of_nat j)"
    and "s0 = s"
  shows "misaligned_store_trap env regs mepc s =
    Inr (regs, write_csr CSR_mepc (mepc + 4)
      (s\<lparr>mem := st_bytes (mem s) pa (map (union_byte (regs (reg_field 20 insn))) [0..<n])\<rparr>))"
proof -
  have "insn_len insn = 4"
    using store_formats [OF assms(2)] by (intro insn_len_word) (simp add: take_bit_eq_mask mask_eq_exp_minus_1)
  then show ?thesis
    using assms(1,2,4) store_loop_contiguous [OF assms(3), of n 0 n]
    by (simp add: misaligned_store_trap_def store_kind_format GET_RS2_def GET_REG_field Let_def)
qed

text \<open>C27: What a misaligned store writes, a misaligned load of the same width at the same address reads back:
  the low bytes of the source register, extended as the load asks for. The addresses of the access are
  translated, the same in every state and to consecutive bytes.\<close>

theorem misaligned_store_then_load:
  assumes "get_insn env mepc s = Inr (si, ms)" "store_format si = Some n"
    and "\<forall>s j. j < n \<longrightarrow> translate env s (addr + word_of_nat j) = Some (pa + word_of_nat j)"
    and "csr s CSR_mbadaddr = addr"
    and "get_insn env mepc' t = Inr (li, mt)" "load_format li = Some (n, sx)" "csr t CSR_mbadaddr = addr"
    and "\<exists>u. misaligned_store_trap env regs mepc s = Inr (regs, u) \<and> mem t = mem u"
  shows "misaligned_load_trap env regs' mepc' t =
    Inr (regs'(reg_field 7 li := extend (n, sx) (take_bit (8 * n) (regs (reg_field 20 si)))),
         write_csr CSR_mepc (mepc' + 4) t)"
proof -
  let ?v = "regs (reg_field 20 si)"
  have tr: "j < n \<Longrightarrow> translate env s (addr + word_of_nat j) = Some (pa + word_of_nat j)" for s j
    using assms(3) by blast
  have "mem t = st_bytes (mem s) pa (map (union_byte ?v) [0..<n])"
    using misaligned_store_effect [OF assms(1,2), of s pa regs] tr assms(4,8) by (auto simp: write_csr_def)
  moreover have "n \<le> 2 ^ 64" using store_formats [OF assms(2)] by auto
  ultimately have "ld_bytes (mem t) pa n = map (union_byte ?v) [0..<n]"
    using ld_bytes_st_bytes [of "map (union_byte ?v) [0..<n]" "mem s" pa] by simp
  then show ?thesis
    using assms(5-7) faulting_None [OF tr, of n t] bytes_at_contiguous [OF tr, of n t]
    by (simp add: misaligned_load_format load_loop_eq union_word_bytes)
qed

text \<open>\<open>sw a1, 0(a0)\<close> and \<open>lw a2, 0(a0)\<close> at address \<open>0x2001\<close>, with the identity translation.\<close>

lemma misaligned_store_then_load_witness:
  "\<forall>s0. let env = \<lparr>translate = \<lambda>_. Some, fetch = \<lambda>_. Some, timer = \<lambda>_. 0\<rparr>;
      s = s0\<lparr>mem := st32 (st32 (\<lambda>_. 0) 0x1000 0xB52023) 0x1004 0x52603, csr := (\<lambda>_. 0)(CSR_mbadaddr := 0x2001)\<rparr>
    in \<exists>u. misaligned_store_trap env (\<lambda>_. 0x0123456789ABCDEF) 0x1000 s = Inr (\<lambda>_. 0x0123456789ABCDEF, u) \<and>
       misaligned_load_trap env (\<lambda>_. 0) 0x1004 u =
         Inr ((\<lambda>_. 0)(12 := 0xFFFFFFFF89ABCDEF), write_csr CSR_mepc 0x1008 u)"
proof -
  define env where "env = \<lparr>translate = \<lambda>_ :: mstate. Some, fetch = \<lambda>_ :: mstate. Some, timer = \<lambda>_ :: mstate. 0 :: u64\<rparr>"
  define m where "m = st32 (st32 (\<lambda>_. 0) 0x1000 0xB52023) 0x1004 0x52603"
  define regs where "regs = (\<lambda>_ :: nat. 0x0123456789ABCDEF :: u64)"
  have "\<exists>u. misaligned_store_trap env regs 0x1000 s = Inr (regs, u) \<and>
      misaligned_load_trap env (\<lambda>_. 0) 0x1004 u = Inr ((\<lambda>_. 0)(12 := 0xFFFFFFFF89ABCDEF), write_csr CSR_mepc 0x1008 u)"
    if s: "mem s = m" "csr s = (\<lambda>_. 0)(CSR_mbadaddr := 0x2001)" for s
  proof -
    define bs where "bs = map (union_byte (regs (reg_field 20 0xB52023))) [0..<4]"
    define u where "u = write_csr CSR_mepc (0x1000 + 4) (s\<lparr>mem := st_bytes (mem s) 0x2001 bs\<rparr>)"
    have si: "get_insn env 0x1000 s = Inr (0xB52023, 0)" "store_format 0xB52023 = Some 4"
      by (simp_all add: get_insn_def env_def s m_def ld32_st32_sep sep_def store_format_def opcode_def funct3_def
          take_bit_eq_mask mask_eq_exp_minus_1 drop_bit_eq_div)
    have tr: "translate env s a = Some a" for s a by (simp add: env_def)
    have store: "misaligned_store_trap env regs 0x1000 s = Inr (regs, u)"
      using misaligned_store_effect [OF si, of s "0x2001" regs] s(2) by (simp add: tr u_def bs_def)
    have "ld32 (st_bytes m 0x2001 bs) 0x1004 = ld32 m 0x1004"
    proof (rule ld32_cong)
      fix b :: u64 assume b: "unat (b - 0x1004) < 4"
      define j where "j = unat (b - 0x1004)"
      have "b = 0x1004 + word_of_nat j" by (simp add: j_def)
      moreover have "j \<in> {0, 1, 2, 3}" using b unfolding j_def [symmetric] by auto
      ultimately show "st_bytes m 0x2001 bs b = m b"
        by (intro st_bytes_outside) (auto simp: bs_def)
    qed
    then have li: "get_insn env 0x1004 u = Inr (0x52603, 0)" "load_format 0x52603 = Some (4, True)"
      by (simp_all add: get_insn_def env_def u_def write_csr_def s m_def load_format_def opcode_def funct3_def
          take_bit_eq_mask mask_eq_exp_minus_1 drop_bit_eq_div)
    have "csr s CSR_mbadaddr = 0x2001" "csr u CSR_mbadaddr = 0x2001" by (simp_all add: s u_def write_csr_def)
    with misaligned_store_then_load [OF si _ _ li, where addr = "0x2001" and pa = "0x2001"]
    have "misaligned_load_trap env (\<lambda>_. 0) 0x1004 u =
      Inr ((\<lambda>_. 0)(reg_field 7 0x52603 := extend (4, True) (take_bit 32 (regs (reg_field 20 0xB52023)))),
           write_csr CSR_mepc (0x1004 + 4) u)"
      using store tr by simp
    moreover have "reg_field 7 0x52603 = 12"
      by (simp add: reg_field_def take_bit_eq_mask mask_eq_exp_minus_1 drop_bit_eq_div)
    moreover have "extend (4, True) (take_bit 32 (regs (reg_field 20 0xB52023))) = 0xFFFFFFFF89ABCDEF"
      by (simp add: extend_def regs_def take_bit_eq_mask mask_eq_exp_minus_1)
    ultimately show ?thesis using store by simp
  qed
  then show ?thesis unfolding Let_def env_def m_def regs_def by simp
qed

section \<open>The emulated system instruction\<close>

lemma system_entry: "illegal_insn_trap_table ! unat ((insn AND 0x7c) div 4) =
    (if opcode insn = 0x73 then System_opcode else Truly_illegal)" if "insn AND 3 = 3"
proof -
  define k where "k = unat (take_bit 5 (drop_bit 2 insn))"
  have k: "k < 32" by (simp add: k_def unsigned_take_bit_eq take_bit_nat_less_exp [of 5, simplified])
  have f: "(0x7c :: u64) = push_bit 2 (mask 5)" by (simp add: mask_eq_exp_minus_1 push_bit_eq_mult)
  have "drop_bit 2 (insn AND 0x7c) = take_bit 5 (drop_bit 2 insn)"
    unfolding f by (rule bit_word_eqI)
      (auto simp: bit_and_iff bit_push_bit_iff bit_mask_iff bit_take_bit_iff bit_drop_bit_eq)
  then have e: "unat ((insn AND 0x7c) div 4) = k" by (simp add: k_def drop_bit_eq_div)
  have "illegal_insn_trap_table ! k = (if k = 28 then System_opcode else Truly_illegal)"
    using k by (auto simp: illegal_insn_trap_table_def nth_append nth_Cons')
  moreover have "k = 28 \<longleftrightarrow> opcode insn = 0x73"
  proof -
    have ss: "Suc (Suc (n - 2)) = n" if "2 \<le> n" for n using that by simp
    have "opcode insn = push_bit 2 (take_bit 5 (drop_bit 2 insn)) OR take_bit 2 insn"
      unfolding opcode_def by (rule bit_word_eqI)
        (auto simp: bit_or_iff bit_push_bit_iff bit_take_bit_iff bit_drop_bit_eq ss not_less)
    also have "take_bit 2 insn = 3" using that by (simp add: and_mask_lit)
    finally have o: "opcode insn = push_bit 2 (word_of_nat k) OR 3" by (simp add: k_def)
    have "\<forall>k\<in>set [0..<32]. (push_bit 2 (word_of_nat k) OR 3 :: u64) = 0x73 \<longleftrightarrow> k = 28"
      by (simp add: upt_rec push_bit_eq_mult)
    with k show ?thesis by (simp add: o)
  qed
  ultimately show ?thesis using e by simp
qed


lemma system_fields:
  "ucast (drop_bit 20 (ucast insn :: u32)) = csr_field insn" "GET_RM insn = funct3 insn"
  "drop_bit 15 insn AND 0x1f = 0 \<longleftrightarrow> reg_field 15 insn = 0"
proof -
  show "ucast (drop_bit 20 (ucast insn :: u32)) = csr_field insn"
    by (rule bit_word_eqI) (auto simp: bit_ucast_iff bit_drop_bit_eq csr_field_def bit_take_bit_iff)
  show "GET_RM insn = funct3 insn" by (simp add: GET_RM_def funct3_def and_mask_lit)
  show "drop_bit 15 insn AND 0x1f = 0 \<longleftrightarrow> reg_field 15 insn = 0"
    by (simp add: and_mask_lit reg_field_def unat_eq_0)
qed

lemma funct3_cases: "funct3 insn \<in> {0, 1, 2, 3, 4, 5, 6, 7}"
proof -
  define k where "k = unat (funct3 insn)"
  have "k < 8" by (simp add: k_def funct3_def unsigned_take_bit_eq take_bit_nat_less_exp [of 3, simplified])
  then have "k \<in> {0, 1, 2, 3, 4, 5, 6, 7}" by auto
  moreover have "funct3 insn = word_of_nat k" by (simp add: k_def)
  ultimately show ?thesis by auto
qed

lemma emulate_read_time:
  "emulate_read_csr env num mstatus s = (if num = CSR_TIME \<and> time_enabled mstatus s then Some (timer env s) else None)"
proof -
  have low: "MSTATUS_MPP AND NOT (MSTATUS_MPP - 1) = 0x800" by simp
  have mpp: "EXTRACT_FIELD mstatus MSTATUS_MPP = 0 \<longleftrightarrow> mstatus AND MSTATUS_MPP = 0"
  proof -
    define f where "f = mstatus AND MSTATUS_MPP"
    have m: "MSTATUS_MPP = push_bit 11 (mask 2)" by (simp add: mask_eq_exp_minus_1 push_bit_eq_mult)
    have "EXTRACT_FIELD mstatus MSTATUS_MPP = drop_bit 11 f"
      by (simp add: EXTRACT_FIELD_def low f_def drop_bit_eq_div)
    moreover have "f = push_bit 11 (drop_bit 11 f)"
      unfolding f_def m by (rule bit_word_eqI)
        (auto simp: bit_push_bit_iff bit_drop_bit_eq bit_and_iff bit_mask_iff)
    ultimately show ?thesis by (metis f_def drop_bit_of_0 push_bit_of_0)
  qed
  have one: "srl64 x 1 AND 1 = 0 \<longleftrightarrow> \<not> bit x (Suc 0)" for x
    by (simp add: srl64_def and_one_eq bit_iff_odd_drop_bit flip: even_iff_mod_2_eq_zero)
  show ?thesis by (auto simp: emulate_read_csr_def Let_def mpp one time_enabled_def)
qed

lemma redirect_forgets_mepc: "redirect_trap_to_s epc mstatus b (write_csr CSR_mepc v s) = redirect_trap_to_s epc mstatus b s"
  by (simp add: redirect_trap_to_s_def write_csr_def Let_def fun_upd_twist)

text \<open>The instruction an illegal instruction trap is about: the hardware reports it, or it is fetched.\<close>

definition trapped_insn :: "emu_env \<Rightarrow> u64 \<Rightarrow> mstate \<Rightarrow> (u64 \<times> u64) emu" where
  "trapped_insn env mepc s =
     (if csr s CSR_mbadaddr = 0 then get_insn env mepc s else Inr (csr s CSR_mbadaddr, csr s CSR_mstatus))"

text \<open>C28: The handler of illegal instructions emulates exactly the reads of the timer that the supervisor
  permits: they write the timer to the destination register and continue after the instruction.
  Every other instruction is handed to the supervisor with its address and its word.\<close>

theorem illegal_insn_emulates_time:
  "illegal_insn_trap env regs mepc s =
     (case trapped_insn env mepc s of
        Inl e \<Rightarrow> Inl e
      | Inr (insn, mstatus) \<Rightarrow>
          if reads_time insn \<and> time_enabled mstatus s
          then (let s = write_csr CSR_mepc (mepc + 4) s in Inr (regs(reg_field 7 insn := timer env s), s))
          else Inr (regs, redirect_trap_to_s mepc mstatus insn s))"
  (is "_ = (case _ of Inl e \<Rightarrow> Inl e | Inr (insn, mstatus) \<Rightarrow> ?res insn mstatus)")
proof -
  have op3: "insn AND 3 = 3" if "opcode insn = 0x73" for insn
  proof -
    have "take_bit 2 (opcode insn) = 3" using that by (simp add: take_bit_eq_mask mask_eq_exp_minus_1)
    then show ?thesis by (simp add: and_mask_lit opcode_def)
  qed
  have en: "time_enabled mstatus (write_csr CSR_mepc v s) = time_enabled mstatus s" for mstatus v
    by (simp add: time_enabled_def write_csr_def)
  have sys: "emulate_system_opcode env regs mepc mstatus insn (write_csr CSR_mepc (mepc + 4) s) = ?res insn mstatus"
    if "opcode insn = 0x73" for insn mstatus
    using funct3_cases [of insn] that
    by (auto simp: emulate_system_opcode_def Let_def system_fields emulate_read_time en truly_illegal_insn_def
        redirect_forgets_mepc reads_time_def emulate_write_csr_def SET_RD_def GET_REG_field)
  have word: "(case illegal_insn_trap_table ! unat ((insn AND 0x7c) div 4) of
      Truly_illegal \<Rightarrow> truly_illegal_insn regs mepc mstatus insn (write_csr CSR_mepc (mepc + 4) s)
    | System_opcode \<Rightarrow> emulate_system_opcode env regs mepc mstatus insn (write_csr CSR_mepc (mepc + 4) s)) =
      ?res insn mstatus" if "insn AND 3 = 3" for insn mstatus
    using sys [of insn mstatus] that
    by (auto simp: system_entry truly_illegal_insn_def redirect_forgets_mepc reads_time_def)
  have half: "emulate_rvc regs mepc mstatus insn s = ?res insn mstatus" if "insn AND 3 \<noteq> 3" for insn mstatus
    using that op3 [of insn] by (auto simp: emulate_rvc_def truly_illegal_insn_def reads_time_def)
  show ?thesis
    by (auto simp: illegal_insn_trap_def trapped_insn_def Let_def word half split: sum.split)
qed

end
