(* ===== verification/Muldiv.thy ===== *)
theory Muldiv
  imports Emulation "HOL-Library.Signed_Division"
begin

text \<open>
  Multiplication and division for a machine without the M extension (\<open>sm/machine/muldiv_emulation.c\<close>). The build is
  for rv64g, whose compiler defines \<open>__riscv_muldiv\<close>, so the file is empty there; the handlers would be entries 12 and
  14 of the table in \<open>Emulation\<close>. \<open>double_int\<close> is a 128-bit word. A quotient that C leaves undefined (by zero, or the
  least number by -1) is \<open>None\<close>: the compiler's run-time library, which is outside the repository, computes it.
\<close>

abbreviation "MASK_MULDIV \<equiv> 0xfe00707f :: u64"

type_synonym double_int = "128 word"

definition signed_div :: "'a :: len word \<Rightarrow> 'a word \<Rightarrow> 'a word option" where
  "signed_div a b =
     (if b = 0 \<or> sint a = - (2 ^ (LENGTH('a) - 1)) \<and> b = - 1 then None else Some (word_of_int (sint a sdiv sint b)))"

definition signed_rem :: "'a :: len word \<Rightarrow> 'a word \<Rightarrow> 'a word option" where
  "signed_rem a b =
     (if b = 0 \<or> sint a = - (2 ^ (LENGTH('a) - 1)) \<and> b = - 1 then None else Some (word_of_int (sint a smod sint b)))"

definition unsigned_div :: "'a :: len word \<Rightarrow> 'a word \<Rightarrow> 'a word option" where
  "unsigned_div a b = (if b = 0 then None else Some (a div b))"

definition unsigned_rem :: "'a :: len word \<Rightarrow> 'a word \<Rightarrow> 'a word option" where
  "unsigned_rem a b = (if b = 0 then None else Some (a mod b))"

definition emulate_mul_div :: "uregs \<Rightarrow> u64 \<Rightarrow> u64 \<Rightarrow> u64 \<Rightarrow> mstate \<Rightarrow> (uregs \<times> mstate) emu option" where
  "emulate_mul_div regs mepc mstatus insn s =
     (let rs1 = GET_RS1 insn regs;
          rs2 = GET_RS2 insn regs;
          finish = map_option (\<lambda>val. Inr (SET_RD insn val regs, s));
          op = insn AND MASK_MULDIV
      in if op = 0x2000033 then finish (Some (rs1 * rs2))
         else if op = 0x2004033 then finish (signed_div rs1 rs2)
         else if op = 0x2005033 then finish (unsigned_div rs1 rs2)
         else if op = 0x2006033 then finish (signed_rem rs1 rs2)
         else if op = 0x2007033 then finish (unsigned_rem rs1 rs2)
         else if op = 0x2001033 then
           finish (Some (ucast (signed_drop_bit 64 ((scast rs1 :: double_int) * scast rs2))))
         else if op = 0x2003033 then
           finish (Some (ucast (signed_drop_bit 64 ((ucast rs1 :: double_int) * ucast rs2))))
         else if op = 0x2002033 then
           finish (Some (ucast (signed_drop_bit 64 ((scast rs1 :: double_int) * ucast rs2))))
         else Some (truly_illegal_insn regs mepc mstatus insn s))"

definition emulate_mul_div32 :: "uregs \<Rightarrow> u64 \<Rightarrow> u64 \<Rightarrow> u64 \<Rightarrow> mstate \<Rightarrow> (uregs \<times> mstate) emu option" where
  "emulate_mul_div32 regs mepc mstatus insn s =
     (let rs1 = ucast (GET_RS1 insn regs) :: u32;
          rs2 = ucast (GET_RS2 insn regs) :: u32;
          finish = map_option (\<lambda>val. Inr (SET_RD insn (scast val) regs, s));
          op = insn AND MASK_MULDIV
      in if op = 0x200003b then finish (Some (rs1 * rs2))
         else if op = 0x200403b then finish (signed_div rs1 rs2)
         else if op = 0x200503b then finish (unsigned_div rs1 rs2)
         else if op = 0x200603b then finish (signed_rem rs1 rs2)
         else if op = 0x200703b then finish (unsigned_rem rs1 rs2)
         else Some (truly_illegal_insn regs mepc mstatus insn s))"

section \<open>The instructions of the architecture\<close>

definition funct7 :: "u64 \<Rightarrow> u64" where "funct7 insn = take_bit 7 (drop_bit 25 insn)"

text \<open>The results of the M extension by \<open>funct3\<close>, for operands of any width (the multiplications of the upper half
  exist at the full width only), with those it defines for a division by zero and for the least number divided by -1;
  \<open>c_defined\<close> leaves out these two cases.\<close>

definition overflows :: "'a :: len word \<Rightarrow> 'a word \<Rightarrow> bool" where
  "overflows a b \<longleftrightarrow> sint a = - (2 ^ (LENGTH('a) - 1)) \<and> b = - 1"

definition m_result :: "u64 \<Rightarrow> 'a :: len word \<Rightarrow> 'a word \<Rightarrow> 'a word" where
  "m_result f a b =
     (if f = 0 then word_of_int (sint a * sint b)
      else if f = 1 then word_of_int (sint a * sint b div 2 ^ LENGTH('a))
      else if f = 2 then word_of_int (sint a * uint b div 2 ^ LENGTH('a))
      else if f = 3 then word_of_int (uint a * uint b div 2 ^ LENGTH('a))
      else if f = 4 then
        if b = 0 then - 1 else if overflows a b then a else word_of_int (sint a sdiv sint b)
      else if f = 5 then
        if b = 0 then - 1 else word_of_int (uint a div uint b)
      else if f = 6 then
        if b = 0 then a else if overflows a b then 0 else word_of_int (sint a smod sint b)
      else
        if b = 0 then a else word_of_int (uint a mod uint b))"

definition c_defined :: "u64 \<Rightarrow> 'a :: len word \<Rightarrow> 'a word \<Rightarrow> bool" where
  "c_defined f a b \<longleftrightarrow> f \<in> {0, 1, 2, 3} \<or> b \<noteq> 0 \<and> (f \<in> {4, 6} \<longrightarrow> \<not> overflows a b)"

definition m_insn :: "u64 \<Rightarrow> bool" where
  "m_insn insn \<longleftrightarrow> opcode insn = 0x33 \<and> funct7 insn = 1"

definition m_insn_w :: "u64 \<Rightarrow> bool" where
  "m_insn_w insn \<longleftrightarrow> opcode insn = 0x3b \<and> funct7 insn = 1 \<and> funct3 insn \<in> {0, 4, 5, 6, 7}"

lemma and_field: "(w :: u64) AND push_bit k (mask n) = push_bit k (take_bit n (drop_bit k w))"
  by (rule bit_word_eqI) (auto simp: bit_and_iff bit_push_bit_iff bit_mask_iff bit_take_bit_iff bit_drop_bit_eq)

lemma muldiv_fields: "insn AND MASK_MULDIV = push_bit 25 (funct7 insn) OR push_bit 12 (funct3 insn) OR opcode insn"
proof -
  have m: "MASK_MULDIV = push_bit 25 (mask 7) OR push_bit 12 (mask 3) OR push_bit 0 (mask 7)"
    by (simp add: mask_eq_exp_minus_1 push_bit_eq_mult)
  have dist: "w AND (x OR y) = (w AND x) OR (w AND y)" for w x y :: u64
    by (rule bit_word_eqI) (auto simp: bit_and_iff bit_or_iff)
  show ?thesis unfolding m dist and_field by (simp add: funct7_def funct3_def opcode_def)
qed

lemma muldiv_match:
  assumes "take_bit 7 o' = o'" "take_bit 3 f = f" "take_bit 7 g = g"
  shows "insn AND MASK_MULDIV = push_bit 25 g OR push_bit 12 f OR o' \<longleftrightarrow>
    opcode insn = o' \<and> funct3 insn = f \<and> funct7 insn = g"
proof
  have fields: "opcode w = take_bit 7 w" "funct3 w = take_bit 3 (drop_bit 12 w)" "funct7 w = take_bit 7 (drop_bit 25 w)" for w
    by (simp_all add: opcode_def funct3_def funct7_def)
  have parts: "take_bit 7 (push_bit 25 c OR push_bit 12 b OR a) = a \<and> take_bit 3 (drop_bit 12 (push_bit 25 c OR push_bit 12 b OR a)) = b \<and>
      take_bit 7 (drop_bit 25 (push_bit 25 c OR push_bit 12 b OR a)) = c"
    if "take_bit 7 a = a" "take_bit 3 b = b" "take_bit 7 c = c" for a b c :: u64
  proof -
    have a: "\<not> bit a n" if "7 \<le> n" for n
      using \<open>take_bit 7 a = a\<close> that bit_take_bit_iff [of 7 a n] by auto
    have b: "\<not> bit b n" if "3 \<le> n" for n
      using \<open>take_bit 3 b = b\<close> that bit_take_bit_iff [of 3 b n] by auto
    have "take_bit 7 (push_bit 25 c OR push_bit 12 b OR a) = take_bit 7 a"
      by (rule bit_word_eqI) (auto simp: bit_take_bit_iff bit_or_iff bit_push_bit_iff)
    moreover have "take_bit 3 (drop_bit 12 (push_bit 25 c OR push_bit 12 b OR a)) = take_bit 3 b"
      by (rule bit_word_eqI) (auto simp: bit_take_bit_iff bit_or_iff bit_push_bit_iff bit_drop_bit_eq a)
    moreover have "take_bit 7 (drop_bit 25 (push_bit 25 c OR push_bit 12 b OR a)) = take_bit 7 c"
      by (rule bit_word_eqI) (auto simp: bit_take_bit_iff bit_or_iff bit_push_bit_iff bit_drop_bit_eq a b)
    ultimately show ?thesis using that by simp
  qed
  have "take_bit 7 (opcode insn) = opcode insn" "take_bit 3 (funct3 insn) = funct3 insn" "take_bit 7 (funct7 insn) = funct7 insn"
    by (simp_all add: fields)
  from parts [OF this] have insn: "opcode insn = take_bit 7 (insn AND MASK_MULDIV)"
      "funct3 insn = take_bit 3 (drop_bit 12 (insn AND MASK_MULDIV))" "funct7 insn = take_bit 7 (drop_bit 25 (insn AND MASK_MULDIV))"
    unfolding muldiv_fields by simp_all
  { assume "insn AND MASK_MULDIV = push_bit 25 g OR push_bit 12 f OR o'"
    with insn parts [OF assms] show "opcode insn = o' \<and> funct3 insn = f \<and> funct7 insn = g" by metis }
  { assume "opcode insn = o' \<and> funct3 insn = f \<and> funct7 insn = g"
    then show "insn AND MASK_MULDIV = push_bit 25 g OR push_bit 12 f OR o'" unfolding muldiv_fields by simp }
qed

lemma muldiv_codes:
  "insn AND MASK_MULDIV = 0x2000033 \<longleftrightarrow> m_insn insn \<and> funct3 insn = 0"
  "insn AND MASK_MULDIV = 0x2001033 \<longleftrightarrow> m_insn insn \<and> funct3 insn = 1"
  "insn AND MASK_MULDIV = 0x2002033 \<longleftrightarrow> m_insn insn \<and> funct3 insn = 2"
  "insn AND MASK_MULDIV = 0x2003033 \<longleftrightarrow> m_insn insn \<and> funct3 insn = 3"
  "insn AND MASK_MULDIV = 0x2004033 \<longleftrightarrow> m_insn insn \<and> funct3 insn = 4"
  "insn AND MASK_MULDIV = 0x2005033 \<longleftrightarrow> m_insn insn \<and> funct3 insn = 5"
  "insn AND MASK_MULDIV = 0x2006033 \<longleftrightarrow> m_insn insn \<and> funct3 insn = 6"
  "insn AND MASK_MULDIV = 0x2007033 \<longleftrightarrow> m_insn insn \<and> funct3 insn = 7"
  "insn AND MASK_MULDIV = 0x200003b \<longleftrightarrow> m_insn_w insn \<and> funct3 insn = 0"
  "insn AND MASK_MULDIV = 0x200403b \<longleftrightarrow> m_insn_w insn \<and> funct3 insn = 4"
  "insn AND MASK_MULDIV = 0x200503b \<longleftrightarrow> m_insn_w insn \<and> funct3 insn = 5"
  "insn AND MASK_MULDIV = 0x200603b \<longleftrightarrow> m_insn_w insn \<and> funct3 insn = 6"
  "insn AND MASK_MULDIV = 0x200703b \<longleftrightarrow> m_insn_w insn \<and> funct3 insn = 7"
proof -
  have op33: "insn AND MASK_MULDIV = push_bit 25 1 OR push_bit 12 f OR 0x33 \<longleftrightarrow> m_insn insn \<and> funct3 insn = f"
    if "take_bit 3 f = f" for f
    using muldiv_match [of "0x33" f 1 insn] that by (auto simp: m_insn_def take_bit_eq_mask mask_eq_exp_minus_1)
  have op3b: "insn AND MASK_MULDIV = push_bit 25 1 OR push_bit 12 f OR 0x3b \<longleftrightarrow> m_insn_w insn \<and> funct3 insn = f"
    if "take_bit 3 f = f" "f \<in> {0, 4, 5, 6, 7}" for f
    using muldiv_match [of "0x3b" f 1 insn] that by (auto simp: m_insn_w_def take_bit_eq_mask mask_eq_exp_minus_1)
  note e = push_bit_eq_mult take_bit_eq_mask mask_eq_exp_minus_1
  show "insn AND MASK_MULDIV = 0x2000033 \<longleftrightarrow> m_insn insn \<and> funct3 insn = 0"
    "insn AND MASK_MULDIV = 0x2001033 \<longleftrightarrow> m_insn insn \<and> funct3 insn = 1"
    "insn AND MASK_MULDIV = 0x2002033 \<longleftrightarrow> m_insn insn \<and> funct3 insn = 2"
    "insn AND MASK_MULDIV = 0x2003033 \<longleftrightarrow> m_insn insn \<and> funct3 insn = 3"
    "insn AND MASK_MULDIV = 0x2004033 \<longleftrightarrow> m_insn insn \<and> funct3 insn = 4"
    "insn AND MASK_MULDIV = 0x2005033 \<longleftrightarrow> m_insn insn \<and> funct3 insn = 5"
    "insn AND MASK_MULDIV = 0x2006033 \<longleftrightarrow> m_insn insn \<and> funct3 insn = 6"
    "insn AND MASK_MULDIV = 0x2007033 \<longleftrightarrow> m_insn insn \<and> funct3 insn = 7"
    using op33 [of 0] op33 [of 1] op33 [of 2] op33 [of 3] op33 [of 4] op33 [of 5] op33 [of 6] op33 [of 7] by (simp_all add: e)
  show "insn AND MASK_MULDIV = 0x200003b \<longleftrightarrow> m_insn_w insn \<and> funct3 insn = 0"
    "insn AND MASK_MULDIV = 0x200403b \<longleftrightarrow> m_insn_w insn \<and> funct3 insn = 4"
    "insn AND MASK_MULDIV = 0x200503b \<longleftrightarrow> m_insn_w insn \<and> funct3 insn = 5"
    "insn AND MASK_MULDIV = 0x200603b \<longleftrightarrow> m_insn_w insn \<and> funct3 insn = 6"
    "insn AND MASK_MULDIV = 0x200703b \<longleftrightarrow> m_insn_w insn \<and> funct3 insn = 7"
    using op3b [of 0] op3b [of 4] op3b [of 5] op3b [of 6] op3b [of 7] by (simp_all add: e)
qed

lemma high_half: "ucast (signed_drop_bit 64 (word_of_int z :: double_int)) = (word_of_int (z div 2 ^ 64) :: u64)"
proof -
  have "z div 2 ^ 64 = drop_bit 64 z" by (simp only: drop_bit_eq_div)
  then show ?thesis
    by (simp only:) (rule bit_word_eqI; simp add: bit_ucast_iff bit_signed_drop_bit_iff bit_of_int_iff bit_drop_bit_eq min_def add.commute)
qed

lemma products:
  "(scast (a :: u64) :: double_int) * scast b = word_of_int (sint a * sint b)"
  "(scast a :: double_int) * ucast b = word_of_int (sint a * uint b)"
  "(ucast a :: double_int) * ucast b = word_of_int (uint a * uint b)"
  by simp_all

section \<open>Properties\<close>

text \<open>C35: The emulated instructions are those of the M extension, wherever C defines the division. An instruction of the
  extension writes the result the extension defines, the upper half of the signed, mixed or unsigned product, the quotient
  or the remainder included, to its target register, the 32-bit forms with the sign extended. For a divisor of zero
  and for the least number divided by -1 the C expression has no value and the result is what the compiler's run-time
  library returns, which is not modelled. Any other instruction is redirected as illegal.\<close>

theorem muldiv_is_m_extension:
  "emulate_mul_div regs mepc mstatus insn s =
     (if m_insn insn
      then let a = regs (reg_field 15 insn); b = regs (reg_field 20 insn)
           in if c_defined (funct3 insn) a b
              then Some (Inr (regs(reg_field 7 insn := m_result (funct3 insn) a b), s)) else None
      else Some (Inr (regs, redirect_trap_to_s mepc mstatus insn s))) \<and>
   emulate_mul_div32 regs mepc mstatus insn s =
     (if m_insn_w insn
      then let a = ucast (regs (reg_field 15 insn)) :: u32; b = ucast (regs (reg_field 20 insn))
           in if c_defined (funct3 insn) a b
              then Some (Inr (regs(reg_field 7 insn := scast (m_result (funct3 insn) a b)), s)) else None
      else Some (Inr (regs, redirect_trap_to_s mepc mstatus insn s)))"
proof
  have reg: "GET_RS1 insn regs = regs (reg_field 15 insn)" "GET_RS2 insn regs = regs (reg_field 20 insn)"
    "SET_RD insn v regs = regs(reg_field 7 insn := v)" for v
    by (simp_all add: GET_RS1_def GET_RS2_def SET_RD_def GET_REG_field)
  have udiv: "a div b = word_of_int (uint a div uint b)" "a mod b = word_of_int (uint a mod uint b)" for a b :: "'b :: len word"
    by (simp_all add: word_div_def word_mod_def)
  have f: "funct3 insn \<in> {0, 1, 2, 3, 4, 5, 6, 7}" by (rule funct3_cases)
  have w: "funct3 insn \<in> {0, 4, 5, 6, 7}" if "m_insn_w insn" using that by (simp add: m_insn_w_def)
  have signed_ops: "signed_div a b = (if b = 0 \<or> overflows a b then None else Some (word_of_int (sint a sdiv sint b)))"
    "signed_rem a b = (if b = 0 \<or> overflows a b then None else Some (word_of_int (sint a smod sint b)))"
    for a b :: "'a :: len word"
    by (simp_all add: signed_div_def signed_rem_def overflows_def)
  note defs = m_result_def c_defined_def signed_ops unsigned_div_def unsigned_rem_def
  show "emulate_mul_div regs mepc mstatus insn s =
     (if m_insn insn
      then let a = regs (reg_field 15 insn); b = regs (reg_field 20 insn)
           in if c_defined (funct3 insn) a b
              then Some (Inr (regs(reg_field 7 insn := m_result (funct3 insn) a b), s)) else None
      else Some (Inr (regs, redirect_trap_to_s mepc mstatus insn s)))"
    unfolding emulate_mul_div_def Let_def muldiv_codes reg products high_half truly_illegal_insn_def
    using f by (cases "m_insn insn") (auto simp: defs udiv)
  show "emulate_mul_div32 regs mepc mstatus insn s =
     (if m_insn_w insn
      then let a = ucast (regs (reg_field 15 insn)) :: u32; b = ucast (regs (reg_field 20 insn))
           in if c_defined (funct3 insn) a b
              then Some (Inr (regs(reg_field 7 insn := scast (m_result (funct3 insn) a b)), s)) else None
      else Some (Inr (regs, redirect_trap_to_s mepc mstatus insn s)))"
    unfolding emulate_mul_div32_def Let_def muldiv_codes reg truly_illegal_insn_def
    using w by (cases "m_insn_w insn") (auto simp: defs udiv)
qed

end
