(* ===== verification/Float_Emulation.thy ===== *)
theory Float_Emulation
  imports Muldiv
begin

text \<open>
  Floating point for a machine without a floating point unit (\<open>sm/machine/fp_emulation.c\<close>, \<open>fp_emulation.h\<close>,
  \<open>fp_ldst.c\<close>; the branch of the header for a target without \<open>__riscv_flen\<close>). The build does not enable it. The 32 floating point registers follow
  the integer registers in the saved frame, so register \<open>i\<close> is slot \<open>32 + i\<close>; a single is the low half of its slot. The
  register \<open>tp\<close> holds \<open>fcsr\<close> and, during an instruction, the rounding mode.

  The arithmetic is that of the SoftFloat library, which is not in the repository: the record \<open>softfloat\<close> has its
  functions, each from its operands and \<open>tp\<close> to its result and \<open>tp\<close>, since they read the rounding mode there and
  raise flags there.
\<close>

record softfloat =
  f32_add :: "u32 \<Rightarrow> u32 \<Rightarrow> u32 \<Rightarrow> u32 \<times> u32"
  f32_mul :: "u32 \<Rightarrow> u32 \<Rightarrow> u32 \<Rightarrow> u32 \<times> u32"
  f32_div :: "u32 \<Rightarrow> u32 \<Rightarrow> u32 \<Rightarrow> u32 \<times> u32"
  f32_sqrt :: "u32 \<Rightarrow> u32 \<Rightarrow> u32 \<times> u32"
  f32_lt_quiet :: "u32 \<Rightarrow> u32 \<Rightarrow> u32 \<Rightarrow> bool \<times> u32"
  f32_lt :: "u32 \<Rightarrow> u32 \<Rightarrow> u32 \<Rightarrow> bool \<times> u32"
  f32_eq :: "u32 \<Rightarrow> u32 \<Rightarrow> u32 \<Rightarrow> bool \<times> u32"
  f32_classify :: "u64 \<Rightarrow> u64"
  isNaNF32UI :: "u32 \<Rightarrow> bool"
  mulAddF32 :: "u64 \<Rightarrow> u32 \<Rightarrow> u32 \<Rightarrow> u32 \<Rightarrow> u32 \<Rightarrow> u32 \<times> u32"
  f64_add :: "u64 \<Rightarrow> u64 \<Rightarrow> u32 \<Rightarrow> u64 \<times> u32"
  f64_mul :: "u64 \<Rightarrow> u64 \<Rightarrow> u32 \<Rightarrow> u64 \<times> u32"
  f64_div :: "u64 \<Rightarrow> u64 \<Rightarrow> u32 \<Rightarrow> u64 \<times> u32"
  f64_sqrt :: "u64 \<Rightarrow> u32 \<Rightarrow> u64 \<times> u32"
  f64_lt_quiet :: "u64 \<Rightarrow> u64 \<Rightarrow> u32 \<Rightarrow> bool \<times> u32"
  f64_lt :: "u64 \<Rightarrow> u64 \<Rightarrow> u32 \<Rightarrow> bool \<times> u32"
  f64_eq :: "u64 \<Rightarrow> u64 \<Rightarrow> u32 \<Rightarrow> bool \<times> u32"
  f64_classify :: "u64 \<Rightarrow> u64"
  isNaNF64UI :: "u64 \<Rightarrow> bool"
  mulAddF64 :: "u64 \<Rightarrow> u64 \<Rightarrow> u64 \<Rightarrow> u64 \<Rightarrow> u32 \<Rightarrow> u64 \<times> u32"
  f64_to_f32 :: "u64 \<Rightarrow> u32 \<Rightarrow> u32 \<times> u32"
  f32_to_f64 :: "u32 \<Rightarrow> u32 \<Rightarrow> u64 \<times> u32"
  ui64_to_f64 :: "u64 \<Rightarrow> u32 \<Rightarrow> u64 \<times> u32"
  f64_to_ui64 :: "u64 \<Rightarrow> u32 \<Rightarrow> bool \<Rightarrow> u32 \<Rightarrow> u64 \<times> u32"
  flag_invalid :: u32

text \<open>The saved registers, \<open>tp\<close>, and the machine.\<close>

type_synonym fstate = "uregs \<times> u32 \<times> mstate"

section \<open>Registers and rounding mode (fp\_emulation.h)\<close>

abbreviation (input) PRECISION_S :: u64 where "PRECISION_S \<equiv> 0"
abbreviation (input) PRECISION_D :: u64 where "PRECISION_D \<equiv> 1"

definition GET_PRECISION :: "u64 \<Rightarrow> u64" where "GET_PRECISION insn = drop_bit 25 insn AND 3"

definition GET_F64_REG :: "u64 \<Rightarrow> nat \<Rightarrow> uregs \<Rightarrow> u64" where
  "GET_F64_REG insn pos regs = regs (32 + GET_REG insn pos)"
definition SET_F64_REG :: "u64 \<Rightarrow> nat \<Rightarrow> u64 \<Rightarrow> uregs \<Rightarrow> uregs" where
  "SET_F64_REG insn pos val regs = regs(32 + GET_REG insn pos := val)"
definition GET_F32_REG :: "u64 \<Rightarrow> nat \<Rightarrow> uregs \<Rightarrow> u32" where
  "GET_F32_REG insn pos regs = ucast (GET_F64_REG insn pos regs)"
definition SET_F32_REG :: "u64 \<Rightarrow> nat \<Rightarrow> u32 \<Rightarrow> uregs \<Rightarrow> uregs" where
  "SET_F32_REG insn pos val regs =
     SET_F64_REG insn pos (push_bit 32 (drop_bit 32 (GET_F64_REG insn pos regs)) OR ucast val) regs"

definition SET_FS_DIRTY :: "mstate \<Rightarrow> mstate" where
  "SET_FS_DIRTY s = write_csr CSR_mstatus (csr s CSR_mstatus OR 0x6000) s"

definition SETUP_STATIC_ROUNDING :: "u64 \<Rightarrow> u32 \<Rightarrow> u32 option" where
  "SETUP_STATIC_ROUNDING insn tp =
     (let tp = tp AND 0xFF
      in if insn AND 0x7000 = 0x7000 then Some (tp OR push_bit 8 tp)
         else if 4 < GET_RM insn then None
         else Some (tp OR ucast (push_bit 13 (GET_RM insn))))"

definition softfloat_raiseFlags :: "u32 \<Rightarrow> u32 \<Rightarrow> u32" where
  "softfloat_raiseFlags which tp = tp OR which"
definition softfloat_roundingMode :: "u32 \<Rightarrow> u32" where
  "softfloat_roundingMode tp = signed_drop_bit 13 tp"

definition GET_F32_RS1 :: "u64 \<Rightarrow> uregs \<Rightarrow> u32" where "GET_F32_RS1 insn regs = GET_F32_REG insn 15 regs"
definition GET_F32_RS2 :: "u64 \<Rightarrow> uregs \<Rightarrow> u32" where "GET_F32_RS2 insn regs = GET_F32_REG insn 20 regs"
definition GET_F32_RS3 :: "u64 \<Rightarrow> uregs \<Rightarrow> u32" where "GET_F32_RS3 insn regs = GET_F32_REG insn 27 regs"
definition GET_F64_RS1 :: "u64 \<Rightarrow> uregs \<Rightarrow> u64" where "GET_F64_RS1 insn regs = GET_F64_REG insn 15 regs"
definition GET_F64_RS2 :: "u64 \<Rightarrow> uregs \<Rightarrow> u64" where "GET_F64_RS2 insn regs = GET_F64_REG insn 20 regs"
definition GET_F64_RS3 :: "u64 \<Rightarrow> uregs \<Rightarrow> u64" where "GET_F64_RS3 insn regs = GET_F64_REG insn 27 regs"

text \<open>Writing a result returns the state with the registers marked as changed; the pair is the result and \<open>tp\<close>.\<close>

definition SET_F32_RD :: "u64 \<Rightarrow> u32 \<times> u32 \<Rightarrow> uregs \<Rightarrow> mstate \<Rightarrow> fstate" where
  "SET_F32_RD insn r regs s = (SET_F32_REG insn 7 (fst r) regs, snd r, SET_FS_DIRTY s)"
definition SET_F64_RD :: "u64 \<Rightarrow> u64 \<times> u32 \<Rightarrow> uregs \<Rightarrow> mstate \<Rightarrow> fstate" where
  "SET_F64_RD insn r regs s = (SET_F64_REG insn 7 (fst r) regs, snd r, SET_FS_DIRTY s)"

section \<open>The handlers (fp\_emulation.c)\<close>

text \<open>A handler takes the state at the trap, \<open>mstatus\<close> and the instruction. \<open>illegal_fp\<close> is the call of
  \<open>truly_illegal_insn\<close>.\<close>

definition illegal_fp :: "u64 \<Rightarrow> u64 \<Rightarrow> u64 \<Rightarrow> fstate \<Rightarrow> fstate" where
  "illegal_fp mepc mstatus insn st = (case st of (regs, tp, s) \<Rightarrow> (regs, tp, redirect_trap_to_s mepc mstatus insn s))"

type_synonym fp_handler = "u64 \<Rightarrow> u64 \<Rightarrow> u64 \<Rightarrow> fstate \<Rightarrow> fstate"

definition emulate_any_fadd :: "softfloat \<Rightarrow> u32 \<Rightarrow> fp_handler" where
  "emulate_any_fadd sf neg_b mepc mstatus insn st =
     (case st of (regs, tp, s) \<Rightarrow>
       if GET_PRECISION insn = PRECISION_S then
         let rs1 = GET_F32_RS1 insn regs; rs2 = GET_F32_RS2 insn regs XOR neg_b
         in SET_F32_RD insn (f32_add sf rs1 rs2 tp) regs s
       else if GET_PRECISION insn = PRECISION_D then
         let rs1 = GET_F64_RS1 insn regs; rs2 = GET_F64_RS2 insn regs XOR push_bit 32 (scast neg_b)
         in SET_F64_RD insn (f64_add sf rs1 rs2 tp) regs s
       else illegal_fp mepc mstatus insn st)"

definition emulate_fadd :: "softfloat \<Rightarrow> fp_handler" where
  "emulate_fadd sf = emulate_any_fadd sf 0"

definition emulate_fsub :: "softfloat \<Rightarrow> fp_handler" where
  "emulate_fsub sf = emulate_any_fadd sf 0x80000000"

definition emulate_fmul :: "softfloat \<Rightarrow> fp_handler" where
  "emulate_fmul sf mepc mstatus insn st =
     (case st of (regs, tp, s) \<Rightarrow>
       if GET_PRECISION insn = PRECISION_S then
         SET_F32_RD insn (f32_mul sf (GET_F32_RS1 insn regs) (GET_F32_RS2 insn regs) tp) regs s
       else if GET_PRECISION insn = PRECISION_D then
         SET_F64_RD insn (f64_mul sf (GET_F64_RS1 insn regs) (GET_F64_RS2 insn regs) tp) regs s
       else illegal_fp mepc mstatus insn st)"

definition emulate_fdiv :: "softfloat \<Rightarrow> fp_handler" where
  "emulate_fdiv sf mepc mstatus insn st =
     (case st of (regs, tp, s) \<Rightarrow>
       if GET_PRECISION insn = PRECISION_S then
         SET_F32_RD insn (f32_div sf (GET_F32_RS1 insn regs) (GET_F32_RS2 insn regs) tp) regs s
       else if GET_PRECISION insn = PRECISION_D then
         SET_F64_RD insn (f64_div sf (GET_F64_RS1 insn regs) (GET_F64_RS2 insn regs) tp) regs s
       else illegal_fp mepc mstatus insn st)"

definition rs2_field :: "u64 \<Rightarrow> u64" where "rs2_field insn = drop_bit 20 insn AND 0x1f"

definition emulate_fsqrt :: "softfloat \<Rightarrow> fp_handler" where
  "emulate_fsqrt sf mepc mstatus insn st =
     (case st of (regs, tp, s) \<Rightarrow>
       if rs2_field insn \<noteq> 0 then illegal_fp mepc mstatus insn st
       else if GET_PRECISION insn = PRECISION_S then
         SET_F32_RD insn (f32_sqrt sf (GET_F32_RS1 insn regs) tp) regs s
       else if GET_PRECISION insn = PRECISION_D then
         SET_F64_RD insn (f64_sqrt sf (GET_F64_RS1 insn regs) tp) regs s
       else illegal_fp mepc mstatus insn st)"

text \<open>The macro \<open>DO_FSGNJ\<close> at either width; \<open>rm\<close> is an \<open>int\<close> below 3, so it converts without a change.\<close>

definition DO_FSGNJ :: "'a :: len word \<Rightarrow> 'a word \<Rightarrow> 'a word \<Rightarrow> 'a word" where
  "DO_FSGNJ rs1 rs2 rm =
     (let rs1_sign = drop_bit (LENGTH('a) - 1) rs1;
          rs2_sign = drop_bit (LENGTH('a) - 1) rs2;
          rs1_sign = rs1_sign AND drop_bit 1 rm;
          rs1_sign = rs1_sign XOR (rm XOR rs2_sign)
      in drop_bit 1 (push_bit 1 rs1) OR push_bit (LENGTH('a) - 1) rs1_sign)"

definition emulate_fsgnj :: "softfloat \<Rightarrow> fp_handler" where
  "emulate_fsgnj sf mepc mstatus insn st =
     (case st of (regs, tp, s) \<Rightarrow>
       let rm = GET_RM insn in
       if 3 \<le> rm then illegal_fp mepc mstatus insn st
       else if GET_PRECISION insn = PRECISION_S then
         SET_F32_RD insn (DO_FSGNJ (GET_F32_RS1 insn regs) (GET_F32_RS2 insn regs) (ucast rm), tp) regs s
       else if GET_PRECISION insn = PRECISION_D then
         SET_F64_RD insn (DO_FSGNJ (GET_F64_RS1 insn regs) (GET_F64_RS2 insn regs) rm, tp) regs s
       else illegal_fp mepc mstatus insn st)"

definition emulate_fmin :: "softfloat \<Rightarrow> fp_handler" where
  "emulate_fmin sf mepc mstatus insn st =
     (case st of (regs, tp, s) \<Rightarrow>
       let rm = GET_RM insn in
       if 2 \<le> rm then illegal_fp mepc mstatus insn st
       else if GET_PRECISION insn = PRECISION_S then
         let rs1 = GET_F32_RS1 insn regs; rs2 = GET_F32_RS2 insn regs;
             arg1 = (if rm \<noteq> 0 then rs2 else rs1); arg2 = (if rm \<noteq> 0 then rs1 else rs2);
             (lt, tp) = f32_lt_quiet sf arg1 arg2 tp;
             use_rs1 = lt \<or> isNaNF32UI sf rs2
         in SET_F32_RD insn (if use_rs1 then rs1 else rs2, tp) regs s
       else if GET_PRECISION insn = PRECISION_D then
         let rs1 = GET_F64_RS1 insn regs; rs2 = GET_F64_RS2 insn regs;
             arg1 = (if rm \<noteq> 0 then rs2 else rs1); arg2 = (if rm \<noteq> 0 then rs1 else rs2);
             (lt, tp) = f64_lt_quiet sf arg1 arg2 tp;
             use_rs1 = lt \<or> isNaNF64UI sf rs2
         in SET_F64_RD insn (if use_rs1 then rs1 else rs2, tp) regs s
       else illegal_fp mepc mstatus insn st)"

definition emulate_fcvt_ff :: "softfloat \<Rightarrow> fp_handler" where
  "emulate_fcvt_ff sf mepc mstatus insn st =
     (case st of (regs, tp, s) \<Rightarrow>
       if GET_PRECISION insn = PRECISION_S then
         if rs2_field insn \<noteq> 1 then illegal_fp mepc mstatus insn st
         else SET_F32_RD insn (f64_to_f32 sf (GET_F64_RS1 insn regs) tp) regs s
       else if GET_PRECISION insn = PRECISION_D then
         if rs2_field insn \<noteq> 0 then illegal_fp mepc mstatus insn st
         else SET_F64_RD insn (f32_to_f64 sf (GET_F32_RS1 insn regs) tp) regs s
       else illegal_fp mepc mstatus insn st)"

text \<open>From an integer: the magnitude is converted, then the sign is set. The negation of the least \<open>int\<close> wraps.\<close>

definition int_magnitude :: "u64 \<Rightarrow> u64 \<Rightarrow> (bool \<times> u64) option" where
  "int_magnitude kind uint_val =
     (if kind = 0 then
        let x = ucast uint_val :: u32; negative = (sint x < 0)
        in Some (negative, scast (if negative then - x else x))
      else if kind = 1 then Some (False, ucast (ucast uint_val :: u32))
      else if kind = 2 then
        let negative = (sint uint_val < 0) in Some (negative, if negative then - uint_val else uint_val)
      else if kind = 3 then Some (False, uint_val)
      else None)"

definition emulate_fcvt_fi :: "softfloat \<Rightarrow> fp_handler" where
  "emulate_fcvt_fi sf mepc mstatus insn st =
     (case st of (regs, tp, s) \<Rightarrow>
       if GET_PRECISION insn \<noteq> PRECISION_S \<and> GET_PRECISION insn \<noteq> PRECISION_D
       then illegal_fp mepc mstatus insn st
       else
         case int_magnitude (rs2_field insn) (GET_RS1 insn regs) of
           None \<Rightarrow> illegal_fp mepc mstatus insn st
         | Some (negative, uint_val) \<Rightarrow>
             (let (float64, tp) = ui64_to_f64 sf uint_val tp;
                  float64 = (if negative then float64 XOR 0x8000000000000000 else float64)
              in if GET_PRECISION insn = PRECISION_S then SET_F32_RD insn (f64_to_f32 sf float64 tp) regs s
                 else SET_F64_RD insn (float64, tp) regs s))"

text \<open>To an integer: the result, the largest magnitude that converts, and what larger ones yield.\<close>

definition int_result :: "u64 \<Rightarrow> bool \<Rightarrow> u64 \<Rightarrow> u64 \<times> u64 \<times> u64" where
  "int_result kind negative uint_val =
     (if kind = 0 then
        if negative then (scast (ucast (- uint_val) :: u32), 0x80000000, 0x80000000)
        else (scast (ucast uint_val :: u32), 0x7FFFFFFF, 0x7FFFFFFF)
      else if kind = 1 then
        if negative then (0, 0, 0xFFFFFFFF) else (ucast (ucast uint_val :: u32), 0xFFFFFFFF, 0xFFFFFFFF)
      else if kind = 2 then
        if negative then (- uint_val, 0x8000000000000000, 0x8000000000000000)
        else (uint_val, 0x7FFFFFFFFFFFFFFF, 0x7FFFFFFFFFFFFFFF)
      else
        if negative then (0, 0, - 1) else (uint_val, - 1, - 1))"

definition emulate_fcvt_if :: "softfloat \<Rightarrow> fp_handler" where
  "emulate_fcvt_if sf mepc mstatus insn st =
     (case st of (regs, tp, s) \<Rightarrow>
       let rs2_num = rs2_field insn;
           convert = (\<lambda>(float64, tp).
             let negative = (sint float64 < 0);
                 float64 = (if negative then float64 XOR 0x8000000000000000 else float64);
                 (uint_val, tp) = f64_to_ui64 sf float64 (softfloat_roundingMode tp) True tp;
                 (result, limit, limit_result) = int_result rs2_num negative uint_val;
                 (result, tp) = (if limit < uint_val then (limit_result, softfloat_raiseFlags (flag_invalid sf) tp)
                                 else (result, tp))
             in (SET_RD insn result regs, tp, SET_FS_DIRTY s))
       in if 4 \<le> rs2_num then illegal_fp mepc mstatus insn st
          else if GET_PRECISION insn = PRECISION_S then convert (f32_to_f64 sf (GET_F32_RS1 insn regs) tp)
          else if GET_PRECISION insn = PRECISION_D then convert (GET_F64_RS1 insn regs, tp)
          else illegal_fp mepc mstatus insn st)"

text \<open>\<open>rm\<close> is 0 for less or equal, 1 for less, 2 for equal.\<close>

definition fcmp_result :: "u64 \<Rightarrow> (u32 \<Rightarrow> bool \<times> u32) \<Rightarrow> (u32 \<Rightarrow> bool \<times> u32) \<Rightarrow> u32 \<Rightarrow> bool \<times> u32" where
  "fcmp_result rm eq lt tp =
     (let (result, tp) = (if rm \<noteq> 1 then eq tp else (False, tp))
      in if rm = 1 \<or> rm = 0 \<and> \<not> result then lt tp else (result, tp))"

definition emulate_fcmp :: "softfloat \<Rightarrow> fp_handler" where
  "emulate_fcmp sf mepc mstatus insn st =
     (case st of (regs, tp, s) \<Rightarrow>
       let rm = GET_RM insn;
           success = (\<lambda>(result, tp). (SET_RD insn (of_bool result) regs, tp, SET_FS_DIRTY s))
       in if 3 \<le> rm then illegal_fp mepc mstatus insn st
          else if GET_PRECISION insn = PRECISION_S then
            let rs1 = GET_F32_RS1 insn regs; rs2 = GET_F32_RS2 insn regs
            in success (fcmp_result rm (f32_eq sf rs1 rs2) (f32_lt sf rs1 rs2) tp)
          else if GET_PRECISION insn = PRECISION_D then
            let rs1 = GET_F64_RS1 insn regs; rs2 = GET_F64_RS2 insn regs
            in success (fcmp_result rm (f64_eq sf rs1 rs2) (f64_lt sf rs1 rs2) tp)
          else illegal_fp mepc mstatus insn st)"

definition emulate_fmv_if :: "softfloat \<Rightarrow> fp_handler" where
  "emulate_fmv_if sf mepc mstatus insn st =
     (case st of (regs, tp, s) \<Rightarrow>
       let finish = (\<lambda>result. (SET_RD insn result regs, tp, SET_FS_DIRTY s));
           rm = GET_RM insn
       in if rs2_field insn \<noteq> 0 then illegal_fp mepc mstatus insn st
          else if GET_PRECISION insn = PRECISION_S then
            let result = scast (GET_F32_RS1 insn regs)
            in if rm = 0 then finish result
               else if rm = 1 then finish (f32_classify sf result)
               else illegal_fp mepc mstatus insn st
          else if GET_PRECISION insn = PRECISION_D then
            let result = GET_F64_RS1 insn regs
            in if rm = 0 then finish result
               else if rm = 1 then finish (f64_classify sf result)
               else illegal_fp mepc mstatus insn st
          else illegal_fp mepc mstatus insn st)"

definition emulate_fmv_fi :: "softfloat \<Rightarrow> fp_handler" where
  "emulate_fmv_fi sf mepc mstatus insn st =
     (case st of (regs, tp, s) \<Rightarrow>
       let rs1 = GET_RS1 insn regs
       in if insn AND 0xfff0707f = 0xf0000053 then SET_F32_RD insn (ucast rs1, tp) regs s
          else if insn AND 0xfff0707f = 0xf2000053 then SET_F64_RD insn (rs1, tp) regs s
          else illegal_fp mepc mstatus insn st)"

text \<open>\<open>truly_illegal_insn\<close> for an unusable rounding mode runs with \<open>tp\<close> cut to its low byte.\<close>

definition emulate_fmadd :: "softfloat \<Rightarrow> fp_handler" where
  "emulate_fmadd sf mepc mstatus insn st =
     (case st of (regs, tp, s) \<Rightarrow>
       if mstatus AND 0x6000 = 0 then illegal_fp mepc mstatus insn st
       else
         let op' = drop_bit 2 insn AND 3
         in case SETUP_STATIC_ROUNDING insn tp of
              None \<Rightarrow> illegal_fp mepc mstatus insn (regs, tp AND 0xFF, s)
            | Some tp \<Rightarrow>
                if GET_PRECISION insn = PRECISION_S then
                  SET_F32_RD insn (mulAddF32 sf op' (GET_F32_RS1 insn regs) (GET_F32_RS2 insn regs) (GET_F32_RS3 insn regs) tp) regs s
                else if GET_PRECISION insn = PRECISION_D then
                  SET_F64_RD insn (mulAddF64 sf op' (GET_F64_RS1 insn regs) (GET_F64_RS2 insn regs) (GET_F64_RS3 insn regs) tp) regs s
                else illegal_fp mepc mstatus insn (regs, tp, s))"

text \<open>\<open>fp_emulation_table\<close>, indexed by the upper five bits of the instruction.\<close>

definition fp_emulation_table :: "softfloat \<Rightarrow> fp_handler list" where
  "fp_emulation_table sf =
     [emulate_fadd sf, emulate_fsub sf, emulate_fmul sf, emulate_fdiv sf, emulate_fsgnj sf, emulate_fmin sf, illegal_fp,
      illegal_fp, emulate_fcvt_ff sf, illegal_fp, illegal_fp, emulate_fsqrt sf, illegal_fp, illegal_fp, illegal_fp,
      illegal_fp, illegal_fp, illegal_fp, illegal_fp, illegal_fp, emulate_fcmp sf, illegal_fp, illegal_fp, illegal_fp,
      emulate_fcvt_if sf, illegal_fp, emulate_fcvt_fi sf, illegal_fp, emulate_fmv_if sf, illegal_fp, emulate_fmv_fi sf,
      illegal_fp]"

definition emulate_fp :: "softfloat \<Rightarrow> fp_handler" where
  "emulate_fp sf mepc mstatus insn st =
     (case st of (regs, tp, s) \<Rightarrow>
       if mstatus AND 0x6000 = 0 then illegal_fp mepc mstatus insn st
       else
         let f = fp_emulation_table sf ! unat ((drop_bit 25 insn AND 0x7c) div 4)
         in case SETUP_STATIC_ROUNDING insn tp of
              None \<Rightarrow> illegal_fp mepc mstatus insn (regs, tp AND 0xFF, s)
            | Some tp \<Rightarrow> f mepc mstatus insn (regs, tp, s))"

section \<open>Loads and stores (fp\_ldst.c)\<close>

definition IMM_I :: "u64 \<Rightarrow> u64" where
  "IMM_I insn = scast (signed_drop_bit 20 (ucast insn :: u32))"
definition IMM_S :: "u64 \<Rightarrow> u64" where
  "IMM_S insn = scast (push_bit 5 (signed_drop_bit 25 (ucast insn :: u32)) OR ucast (drop_bit 7 insn AND 0x1f))"

definition load_uint64_t :: "emu_env \<Rightarrow> u64 \<Rightarrow> mstate \<Rightarrow> u64 emu" where
  "load_uint64_t env addr s = (case translate env s addr of None \<Rightarrow> Inl (addr, s) | Some pa \<Rightarrow> Inr (ld64 (mem s) pa))"
definition load_int32_t :: "emu_env \<Rightarrow> u64 \<Rightarrow> mstate \<Rightarrow> u32 emu" where
  "load_int32_t env addr s = (case translate env s addr of None \<Rightarrow> Inl (addr, s) | Some pa \<Rightarrow> Inr (ld32 (mem s) pa))"
definition store_uint64_t :: "emu_env \<Rightarrow> u64 \<Rightarrow> u64 \<Rightarrow> mstate \<Rightarrow> mstate emu" where
  "store_uint64_t env addr val s =
     (case translate env s addr of None \<Rightarrow> Inl (addr, s) | Some pa \<Rightarrow> Inr (s\<lparr>mem := st64 (mem s) pa val\<rparr>))"
definition store_uint32_t :: "emu_env \<Rightarrow> u64 \<Rightarrow> u32 \<Rightarrow> mstate \<Rightarrow> mstate emu" where
  "store_uint32_t env addr val s =
     (case translate env s addr of None \<Rightarrow> Inl (addr, s) | Some pa \<Rightarrow> Inr (s\<lparr>mem := st32 (mem s) pa val\<rparr>))"

definition with_tp :: "u32 \<Rightarrow> (uregs \<times> mstate) emu \<Rightarrow> fstate emu" where
  "with_tp tp r = map_sum id (\<lambda>(regs, s). (regs, tp, s)) r"

definition emulate_float_load :: "emu_env \<Rightarrow> u64 \<Rightarrow> u64 \<Rightarrow> u64 \<Rightarrow> fstate \<Rightarrow> fstate emu" where
  "emulate_float_load env mepc mstatus insn st =
     (case st of (regs, tp, s) \<Rightarrow>
       let addr = GET_RS1 insn regs + IMM_I insn
       in if mstatus AND 0x6000 = 0 then Inr (illegal_fp mepc mstatus insn st)
          else if insn AND 0x7000 = 0x2000 then
            if addr mod 4 \<noteq> 0 then with_tp tp (misaligned_load_trap env regs mepc (write_csr CSR_mbadaddr addr s))
            else map_sum id (\<lambda>v. SET_F32_RD insn (v, tp) regs s) (load_int32_t env addr s)
          else if insn AND 0x7000 = 0x3000 then
            if addr mod 8 \<noteq> 0 then with_tp tp (misaligned_load_trap env regs mepc (write_csr CSR_mbadaddr addr s))
            else map_sum id (\<lambda>v. SET_F64_RD insn (v, tp) regs s) (load_uint64_t env addr s)
          else Inr (illegal_fp mepc mstatus insn st))"

definition emulate_float_store :: "emu_env \<Rightarrow> u64 \<Rightarrow> u64 \<Rightarrow> u64 \<Rightarrow> fstate \<Rightarrow> fstate emu" where
  "emulate_float_store env mepc mstatus insn st =
     (case st of (regs, tp, s) \<Rightarrow>
       let addr = GET_RS1 insn regs + IMM_S insn
       in if mstatus AND 0x6000 = 0 then Inr (illegal_fp mepc mstatus insn st)
          else if insn AND 0x7000 = 0x2000 then
            if addr mod 4 \<noteq> 0 then with_tp tp (misaligned_store_trap env regs mepc (write_csr CSR_mbadaddr addr s))
            else map_sum id (\<lambda>s. (regs, tp, s)) (store_uint32_t env addr (GET_F32_RS2 insn regs) s)
          else if insn AND 0x7000 = 0x3000 then
            if addr mod 8 \<noteq> 0 then with_tp tp (misaligned_store_trap env regs mepc (write_csr CSR_mbadaddr addr s))
            else map_sum id (\<lambda>s. (regs, tp, s)) (store_uint64_t env addr (GET_F64_RS2 insn regs) s)
          else Inr (illegal_fp mepc mstatus insn st))"

section \<open>The rounding mode\<close>

text \<open>An instruction runs with its own rounding mode, or with the mode of \<open>fcsr\<close> when its field is 7; the flags and
  the mode in the low byte of \<open>tp\<close> are kept. A reserved mode in the instruction is refused, one in \<open>fcsr\<close> is not.\<close>

lemma rounding_mode_selected:
  "map_option softfloat_roundingMode (SETUP_STATIC_ROUNDING insn tp) =
     (if GET_RM insn = 7 then Some (take_bit 3 (drop_bit 5 tp))
      else if 4 < GET_RM insn then None
      else Some (ucast (GET_RM insn)))"
proof -
  have rm: "GET_RM insn = take_bit 3 (drop_bit 12 insn)"
    by (simp add: GET_RM_def take_bit_eq_mask mask_eq_exp_minus_1)
  have "insn AND 0x7000 = push_bit 12 (GET_RM insn)"
  proof -
    have "(0x7000 :: u64) = push_bit 12 (mask 3)" by (simp add: mask_eq_exp_minus_1 push_bit_eq_mult)
    then show ?thesis unfolding rm by (simp only: and_field)
  qed
  moreover have "push_bit 12 (GET_RM insn) = 0x7000 \<longleftrightarrow> GET_RM insn = 7"
  proof
    assume "push_bit 12 (GET_RM insn) = 0x7000"
    then have "drop_bit 12 (push_bit 12 (GET_RM insn)) = drop_bit 12 0x7000" by simp
    moreover have "drop_bit 12 (push_bit 12 (GET_RM insn)) = GET_RM insn" unfolding rm
      by (rule bit_word_eqI) (auto simp: bit_push_bit_iff bit_take_bit_iff bit_drop_bit_eq)
    ultimately show "GET_RM insn = 7" by (simp add: drop_bit_eq_div)
  qed (simp add: push_bit_eq_mult)
  ultimately have dyn: "insn AND 0x7000 = 0x7000 \<longleftrightarrow> GET_RM insn = 7" by simp
  have low: "tp AND 0xFF = take_bit 8 tp" by (simp add: take_bit_eq_mask mask_eq_exp_minus_1)
  have "softfloat_roundingMode (take_bit 8 tp OR push_bit 8 (take_bit 8 tp)) = take_bit 3 (drop_bit 5 tp)"
    unfolding softfloat_roundingMode_def
    by (rule bit_word_eqI)
       (auto simp: bit_signed_drop_bit_iff bit_or_iff bit_push_bit_iff bit_take_bit_iff bit_drop_bit_eq add.commute)
  moreover have "softfloat_roundingMode (take_bit 8 tp OR ucast (push_bit 13 (GET_RM insn))) = ucast (GET_RM insn)"
    unfolding softfloat_roundingMode_def rm
    by (rule bit_word_eqI)
       (auto simp: bit_signed_drop_bit_iff bit_or_iff bit_push_bit_iff bit_take_bit_iff bit_drop_bit_eq bit_ucast_iff add.commute)
  ultimately show ?thesis
    by (simp add: SETUP_STATIC_ROUNDING_def Let_def dyn low)
qed

lemma rounding_keeps_fcsr: "SETUP_STATIC_ROUNDING insn tp = Some tp' \<Longrightarrow> take_bit 8 tp' = take_bit 8 tp"
proof -
  assume a: "SETUP_STATIC_ROUNDING insn tp = Some tp'"
  have low: "tp AND 0xFF = take_bit 8 tp" by (simp add: take_bit_eq_mask mask_eq_exp_minus_1)
  have "tp' = take_bit 8 tp OR push_bit 8 (take_bit 8 tp) \<or> tp' = take_bit 8 tp OR ucast (push_bit 13 (GET_RM insn))"
    using a by (auto simp: SETUP_STATIC_ROUNDING_def Let_def low split: if_splits)
  then show ?thesis
    by (elim disjE) (simp_all, auto intro!: bit_word_eqI simp: bit_or_iff bit_push_bit_iff bit_take_bit_iff bit_ucast_iff)
qed

section \<open>Signs, conversions and comparisons\<close>

text \<open>The sign of the result is that of the second operand, its opposite, or the product of both signs; the other bits are
  those of the first operand.\<close>

lemma DO_FSGNJ_bits:
  fixes a b :: "'a :: len word"
  assumes "rm < 3" and "n < LENGTH('a)" and len: "1 < LENGTH('a)"
  shows "bit (DO_FSGNJ a b (word_of_nat rm)) n =
    (if n < LENGTH('a) - 1 then bit a n
     else if rm = 0 then bit b n else if rm = 1 then \<not> bit b n else bit a n \<noteq> bit b n)"
proof -
  define l where "l = LENGTH('a) - 1"
  have l: "LENGTH('a) = Suc l" "0 < l" using len by (simp_all add: l_def)
  define x y where "x = drop_bit l a" and "y = drop_bit l b"
  have x: "bit x k \<longleftrightarrow> k = 0 \<and> bit a l" and y: "bit y k \<longleftrightarrow> k = 0 \<and> bit b l" for k
    using bit_imp_le_length [of a "l + k"] bit_imp_le_length [of b "l + k"] l
    by (auto simp: x_def y_def bit_drop_bit_eq)
  have body: "bit (drop_bit 1 (push_bit 1 a)) n \<longleftrightarrow> n < l \<and> bit a n"
    using assms(2) l by (auto simp only: bit_drop_bit_eq o_apply bit_push_bit_iff possible_bit_word add_diff_cancel_left' le_add1)
  define r where "r = (x AND drop_bit 1 (word_of_nat rm)) XOR (word_of_nat rm XOR y)"
  have "bit (DO_FSGNJ a b (word_of_nat rm)) n \<longleftrightarrow> n < l \<and> bit a n \<or> l \<le> n \<and> bit r (n - l)"
    unfolding DO_FSGNJ_def Let_def
    unfolding l_def [symmetric] x_def [symmetric] y_def [symmetric] r_def [symmetric]
    using assms(2) by (auto simp only: bit_or_iff body bit_push_bit_iff possible_bit_word)
  moreover have "bit r 0 \<longleftrightarrow> (if rm = 0 then bit b l else if rm = 1 then \<not> bit b l else bit a l \<noteq> bit b l)"
  proof -
    consider "rm = 0" | "rm = 1" | "rm = 2" using assms by arith
    moreover have "\<not> bit (2 :: 'a word) 0" "drop_bit 1 (2 :: 'a word) = 1"
      using l by (simp_all add: drop_bit_eq_div word_div_def)
    ultimately show ?thesis
      by cases (auto simp: r_def bit_xor_iff bit_and_iff x y)
  qed
  moreover have "n < l \<or> n = l" using assms(2) l by arith
  ultimately show ?thesis by (auto simp: l_def)
qed

text \<open>An integer of 64 bits is its sign and its magnitude.\<close>

lemma magnitude_of_int64:
  "int_magnitude 2 v = Some (sint v < 0, word_of_int \<bar>sint v\<bar>)"
  "int_magnitude 3 v = Some (False, v)"
  by (auto simp: int_magnitude_def Let_def)

text \<open>For 32 bits the least integer is an exception: its magnitude is \<open>2^64 - 2^31\<close>, since the negated \<open>int\<close> is widened
  with its sign.\<close>

lemma magnitude_of_int32:
  assumes "x = (ucast v :: u32)"
  shows "int_magnitude 0 v =
    (if x = 0x80000000 then Some (True, - 0x80000000) else Some (sint x < 0, word_of_int \<bar>sint x\<bar>))"
proof (cases "x = 0x80000000")
  case True
  then show ?thesis using assms by (simp add: int_magnitude_def Let_def)
next
  case False
  have "sint (- x) = - sint x"
  proof -
    have "sint x \<noteq> - (2 ^ 31)"
    proof
      assume "sint x = - (2 ^ 31)"
      then have "(word_of_int (sint x) :: u32) = word_of_int (- (2 ^ 31))" by simp
      with False show False by simp
    qed
    moreover have "- (2 ^ 31) \<le> sint x" "sint x < 2 ^ 31" using sint_ge [of x] sint_lt [of x] by simp_all
    ultimately have "signed_take_bit 31 (- sint x) = - sint x" by (intro signed_take_bit_int_eq_self) simp_all
    moreover have "sint (- x) = signed_take_bit 31 (- sint x)"
    proof -
      have "- x = word_of_int (- sint x)" by simp
      then have "sint (- x) = sint (word_of_int (- sint x) :: u32)" by (rule arg_cong)
      also have "\<dots> = signed_take_bit 31 (- sint x)" unfolding sint_sbintrunc' by simp
      finally show ?thesis .
    qed
    ultimately show ?thesis by simp
  qed
  then have "(word_of_int (- sint x) :: u64) = scast (- x)" by (simp only: scast_eq)
  moreover have "(word_of_int (sint x) :: u64) = scast x" by (simp only: scast_eq)
  ultimately have "(word_of_int \<bar>sint x\<bar> :: u64) = scast (if sint x < 0 then - x else x)"
    by (simp only: abs_if split: if_split) blast
  with False show ?thesis unfolding assms by (simp only: int_magnitude_def Let_def if_True if_False refl)
qed

text \<open>The conversion to a signed integer of 64 bits saturates.\<close>

definition converted :: "u64 \<Rightarrow> bool \<Rightarrow> u64 \<Rightarrow> u64" where
  "converted kind negative v =
     (let (result, limit, limit_result) = int_result kind negative v in if limit < v then limit_result else result)"

lemma fcvt_if_writes_converted:
  assumes "GET_PRECISION insn = PRECISION_D" and "rs2_field insn < 4"
  shows "fst (emulate_fcvt_if sf mepc mstatus insn (regs, tp, s)) =
    (let f = GET_F64_RS1 insn regs; negative = (sint f < 0);
         m = (if negative then f XOR 0x8000000000000000 else f)
     in SET_RD insn (converted (rs2_field insn) negative (fst (f64_to_ui64 sf m (softfloat_roundingMode tp) True tp))) regs)"
proof -
  have "\<not> 4 \<le> rs2_field insn" using assms(2) by (simp add: not_le)
  with assms(1) show ?thesis by (simp add: emulate_fcvt_if_def converted_def Let_def split: prod.split)
qed

lemma sint_split: "sint (w :: u64) = (if uint w < 2 ^ 63 then uint w else uint w - 2 ^ 64)"
proof -
  have "sint w = (uint w + 2 ^ 63) mod 2 ^ 64 - 2 ^ 63"
    by (simp add: sint_uint signed_take_bit_eq_take_bit_shift take_bit_eq_mod)
  moreover have "0 \<le> uint w" "uint w < 2 ^ 64" using uint_lt2p [of w] by simp_all
  moreover have "(z + 2 ^ 63) mod 2 ^ 64 = z - 2 ^ 63" if "2 ^ 63 \<le> z" "z < 2 ^ 64" for z :: int
  proof -
    have "(z + 2 ^ 63) mod 2 ^ 64 = (z - 2 ^ 63 + 2 ^ 64) mod 2 ^ 64" by (rule arg_cong [where f = "\<lambda>x. x mod 2 ^ 64"]) simp
    also have "\<dots> = z - 2 ^ 63" unfolding mod_add_self2 using that by (intro mod_pos_pos_trivial) simp_all
    finally show ?thesis .
  qed
  moreover have "(z + 2 ^ 63) mod 2 ^ 64 = z + 2 ^ 63" if "0 \<le> z" "z < 2 ^ 63" for z :: int
    using that by (intro mod_pos_pos_trivial) simp_all
  ultimately show ?thesis by (cases "uint w < 2 ^ 63") auto
qed

lemma converted_signed_saturates:
  "sint (converted 2 negative v) = max (- (2 ^ 63)) (min (2 ^ 63 - 1) (if negative then - uint v else uint v))"
proof -
  have v: "0 \<le> uint v" "uint v < 2 ^ 64" using uint_lt2p [of v] by simp_all
  have minus: "uint (- v) = (if v = 0 then 0 else 2 ^ 64 - uint v)"
    using v by (simp add: uint_word_ariths zmod_zminus1_eq_if mod_pos_pos_trivial uint_0_iff)
  show ?thesis
  proof (cases negative)
    case True
    have c: "converted 2 True v = (if 0x8000000000000000 < v then 0x8000000000000000 else - v)"
      by (simp add: converted_def int_result_def Let_def)
    have m: "min (2 ^ 63 - 1) (- uint v) = - uint v" by (rule min_absorb2) (rule order.trans [of _ 0]; simp)
    have "v = 0 \<longleftrightarrow> uint v = 0" by (simp add: uint_0_iff)
    with True show ?thesis unfolding if_P [OF True] m using v by (auto simp: c sint_split minus word_less_def)
  next
    case False
    have c: "converted 2 False v = (if 0x7FFFFFFFFFFFFFFF < v then 0x7FFFFFFFFFFFFFFF else v)"
      by (simp add: converted_def int_result_def Let_def)
    have m: "max (- (2 ^ 63)) (min (2 ^ 63 - 1) (uint v)) = min (2 ^ 63 - 1) (uint v)"
      by (rule max_absorb2) (rule order.trans [of _ 0]; simp)
    have "\<not> negative" by (rule False)
    then show ?thesis unfolding if_not_P [OF False] m using v by (auto simp: c sint_split word_less_def)
  qed
qed

text \<open>The conversion to an unsigned integer yields the greatest one for any negative operand that does not round to
  zero, where the architecture asks for 0.\<close>

lemma converted_unsigned:
  "converted 3 negative v = (if negative \<and> v \<noteq> 0 then - 1 else v)"
  "converted 1 True v = (if v = 0 then 0 else 0xFFFFFFFF)"
  by (auto simp: converted_def int_result_def Let_def word_gt_0)

text \<open>Without a floating point unit in use, or with a reserved rounding mode, the instruction is redirected and the
  registers are as they were.\<close>

lemma emulate_fp_refuses:
  assumes "mstatus AND 0x6000 = 0 \<or> GET_RM insn = 5 \<or> GET_RM insn = 6"
  obtains tp' where "emulate_fp sf mepc mstatus insn (regs, tp, s) = (regs, tp', redirect_trap_to_s mepc mstatus insn s)"
    and "take_bit 8 tp' = take_bit 8 tp"
proof (cases "mstatus AND 0x6000 = 0")
  case True
  then show ?thesis by (intro that [of tp]) (simp_all add: emulate_fp_def illegal_fp_def)
next
  case False
  with assms have "SETUP_STATIC_ROUNDING insn tp = None"
    using rounding_mode_selected [of insn tp] by auto
  with False show ?thesis
    by (intro that [of "tp AND 0xFF"])
       (simp_all add: emulate_fp_def illegal_fp_def Let_def take_bit_eq_mask mask_eq_exp_minus_1 and.assoc)
qed

text \<open>A double moved to a register and back is unchanged.\<close>

lemma fmv_round_trip:
  assumes "GET_REG i 15 = GET_REG j 7" "i AND 0xfff0707f = 0xf2000053" "GET_PRECISION j = PRECISION_D"
    and "rs2_field j = 0" "GET_RM j = 0" "GET_REG i 7 = GET_REG j 15" "GET_REG j 7 < 32"
    and "emulate_fmv_if sf mepc mstatus j (regs, tp, s) = (regs1, tp1, s1)"
    and "emulate_fmv_fi sf mepc' mstatus' i (regs1, tp1, s1) = (regs2, tp2, s2)"
  shows "regs2 = regs1 \<and> regs2 (GET_REG j 7) = regs (32 + GET_REG j 15)"
proof -
  have "regs1 = regs(GET_REG j 7 := regs (32 + GET_REG j 15))" "regs2 = regs1(32 + GET_REG j 15 := regs1 (GET_REG j 7))"
    using assms
    by (simp_all add: emulate_fmv_if_def emulate_fmv_fi_def Let_def SET_F64_RD_def SET_F64_REG_def GET_F64_RS1_def GET_F64_REG_def
        SET_RD_def GET_RS1_def)
  then show ?thesis using assms(7) by auto
qed

end
