(* ===== verification/Printf.thy ===== *)
theory Printf
  imports Traps Fdt
begin

text \<open>
  Formatted printing (\<open>common/util/snprintf.c\<close>, and \<open>putstring\<close>, \<open>vprintm\<close>, \<open>printm\<close> of \<open>sm/os_trap.c\<close>). The
  format is the list of its bytes without the terminator, an argument list one 64-bit slot per argument, the
  output buffer a list of bytes that no string argument overlaps. A missing argument, a write outside the
  buffer and a string without end are \<open>None\<close>. \<open>text_of\<close> is what a format and its arguments mean;
  \<open>vsnprintf\<close> writes as much of it as fits.
\<close>

section \<open>snprintf.c\<close>

abbreviation ch :: "char \<Rightarrow> u8" where "ch c \<equiv> of_char c"

text \<open>\<open>if (++pos < n) out[pos-1] = c\<close>, and the store of a digit at an offset from \<open>pos\<close>.\<close>

definition store :: "nat \<Rightarrow> u8 \<Rightarrow> u8 list \<Rightarrow> u8 list option" where
  "store i c out = (if i < length out then Some (out[i := c]) else None)"

definition put :: "u64 \<Rightarrow> u8 \<Rightarrow> u64 \<times> u8 list \<Rightarrow> (u64 \<times> u8 list) option" where
  "put n c st =
     (case st of (pos, out) \<Rightarrow>
       let pos = pos + 1 in
       if pos < n then map_option (Pair pos) (store (unat (pos - 1)) c out) else Some (pos, out))"

definition hex_char :: "u64 \<Rightarrow> u8" where
  "hex_char d = ucast (if d < 10 then 0x30 + d else 0x61 + d - 10)"

text \<open>The loop over \<open>i\<close> from the top nibble down to 0.\<close>

fun put_hex :: "u64 \<Rightarrow> u64 \<Rightarrow> nat \<Rightarrow> u64 \<times> u8 list \<Rightarrow> (u64 \<times> u8 list) option" where
  "put_hex n num 0 st = Some st"
| "put_hex n num (Suc i) st =
     (let d = drop_bit (4 * i) num AND 0xF in Option.bind (put n (hex_char d) st) (put_hex n num i))"

text \<open>\<open>for (long nn = num; nn /= 10; digits++)\<close>\<close>

function count_digits :: "int \<Rightarrow> nat \<Rightarrow> nat" where
  "count_digits nn digits = (let nn = nn sdiv 10 in if nn \<noteq> 0 then count_digits nn (digits + 1) else digits)"
  by pat_completeness auto

termination
proof (relation "Wellfounded.measure (\<lambda>(nn, digits). nat \<bar>nn\<bar>)", simp)
  fix nn digits :: int and d :: nat and x
  assume x: "x = nn sdiv 10" "x \<noteq> 0"
  have "\<bar>x\<bar> = \<bar>nn\<bar> div 10" unfolding x(1)
    by (cases "nn = 0") (simp_all add: signed_divide_int_def abs_mult abs_sgn_eq)
  then show "((x, d + 1), nn, d) \<in> Wellfounded.measure (\<lambda>(nn, digits). nat \<bar>nn\<bar>)"
    using x(2) by (auto simp: abs_if split: if_splits)
qed

declare count_digits.simps [simp del]

text \<open>The digits from the last one backwards: \<open>k\<close> is \<open>i + 1\<close> of the loop.\<close>

fun put_digits :: "u64 \<Rightarrow> u64 \<Rightarrow> nat \<Rightarrow> int \<Rightarrow> u8 list \<Rightarrow> u8 list option" where
  "put_digits n pos 0 num out = Some out"
| "put_digits n pos (Suc i) num out =
     Option.bind (if pos + word_of_nat i + 1 < n
                  then store (unat (pos + word_of_nat i)) (word_of_int (0x30 + num smod 10)) out else Some out)
       (put_digits n pos i (num sdiv 10))"

definition put_decimal :: "u64 \<Rightarrow> u64 \<Rightarrow> u64 \<times> u8 list \<Rightarrow> (u64 \<times> u8 list) option" where
  "put_decimal n num st =
     Option.bind (if sint num < 0 then map_option (Pair (- num)) (put n (ch CHR ''-'') st) else Some (num, st))
       (\<lambda>(num, pos, out).
         let digits = count_digits (sint num) 1
         in map_option (Pair (pos + word_of_nat digits)) (put_digits n pos digits (sint num) out))"

partial_function (option) put_string :: "mem \<Rightarrow> u64 \<Rightarrow> u64 \<Rightarrow> u64 \<times> u8 list \<Rightarrow> (u64 \<times> u8 list) option" where
  "put_string m n s2 st =
     (if m s2 \<noteq> 0 then Option.bind (put n (m s2) st) (put_string m n (s2 + 1)) else Some st)"

definition next_arg :: "u64 list \<Rightarrow> (u64 \<times> u64 list) option" where
  "next_arg vl = (case vl of [] \<Rightarrow> None | a # vl \<Rightarrow> Some (a, vl))"

text \<open>\<open>longarg ? va_arg(vl, long) : va_arg(vl, int)\<close>, converted to \<open>long\<close>.\<close>

definition long_arg :: "bool \<Rightarrow> u64 \<Rightarrow> u64" where
  "long_arg longarg a = (if longarg then a else scast (ucast a :: u32))"

fun vsn_loop :: "mem \<Rightarrow> u64 \<Rightarrow> u8 list \<Rightarrow> bool \<Rightarrow> bool \<Rightarrow> u64 list \<Rightarrow> u64 \<times> u8 list \<Rightarrow> (u64 \<times> u8 list) option" where
  "vsn_loop m n [] fmt longarg vl st = Some st"
| "vsn_loop m n (c # s) fmt longarg vl st =
     (if fmt then
        if c = ch CHR ''l'' then vsn_loop m n s fmt True vl st
        else if c = ch CHR ''p'' then
          Option.bind (put n (ch CHR ''0'') st) (\<lambda>st.
          Option.bind (put n (ch CHR ''x'') st) (\<lambda>st.
          Option.bind (next_arg vl) (\<lambda>(a, vl).
          Option.bind (put_hex n a 16 st) (vsn_loop m n s False False vl))))
        else if c = ch CHR ''x'' then
          Option.bind (next_arg vl) (\<lambda>(a, vl).
          Option.bind (put_hex n (long_arg longarg a) (if longarg then 16 else 8) st) (vsn_loop m n s False False vl))
        else if c = ch CHR ''d'' then
          Option.bind (next_arg vl) (\<lambda>(a, vl).
          Option.bind (put_decimal n (long_arg longarg a) st) (vsn_loop m n s False False vl))
        else if c = ch CHR ''s'' then
          Option.bind (next_arg vl) (\<lambda>(a, vl).
          Option.bind (put_string m n a st) (vsn_loop m n s False False vl))
        else if c = ch CHR ''c'' then
          Option.bind (next_arg vl) (\<lambda>(a, vl).
          Option.bind (put n (ucast a) st) (vsn_loop m n s False False vl))
        else vsn_loop m n s fmt longarg vl st
      else if c = ch CHR ''%'' then vsn_loop m n s True longarg vl st
      else Option.bind (put n c st) (vsn_loop m n s fmt longarg vl))"

definition vsnprintf :: "mem \<Rightarrow> u8 list \<Rightarrow> u64 \<Rightarrow> u8 list \<Rightarrow> u64 list \<Rightarrow> (u32 \<times> u8 list) option" where
  "vsnprintf m out n s vl =
     Option.bind (vsn_loop m n s False False vl (0, out)) (\<lambda>(pos, out).
     Option.bind (if pos < n then store (unat pos) 0 out
                  else if n \<noteq> 0 then store (unat (n - 1)) 0 out else Some out)
       (\<lambda>out. Some (ucast pos, out)))"

definition snprintf :: "mem \<Rightarrow> u8 list \<Rightarrow> u64 \<Rightarrow> u8 list \<Rightarrow> u64 list \<Rightarrow> (u32 \<times> u8 list) option" where
  "snprintf m out n s args = vsnprintf m out n s args"

section \<open>The console (os\_trap.c)\<close>

text \<open>\<open>putstring\<close> of a buffer: the bytes up to the terminator, which the buffer must contain.\<close>

fun putstring :: "trap_env \<Rightarrow> u8 list \<Rightarrow> mstate \<Rightarrow> mstate option" where
  "putstring env [] s = None"
| "putstring env (c # cs) s = (if c \<noteq> 0 then putstring env cs (snd (mcall_console_putchar env c s)) else Some s)"

definition vprintm :: "trap_env \<Rightarrow> u8 list \<Rightarrow> u8 list \<Rightarrow> u64 list \<Rightarrow> mstate \<Rightarrow> mstate option" where
  "vprintm env buf s vl st =
     Option.bind (vsnprintf (mem st) buf 256 s vl) (\<lambda>(_, buf). putstring env buf st)"

definition printm :: "trap_env \<Rightarrow> u8 list \<Rightarrow> u8 list \<Rightarrow> u64 list \<Rightarrow> mstate \<Rightarrow> mstate option" where
  "printm env buf s args st = vprintm env buf s args st"


section \<open>What a format means\<close>

definition hex_text :: "nat \<Rightarrow> u64 \<Rightarrow> u8 list" where
  "hex_text k num = map (\<lambda>i. hex_char (take_bit 4 (drop_bit (4 * i) num))) (rev [0..<k])"

fun decimal :: "nat \<Rightarrow> u8 list" where
  "decimal n = (if n < 10 then [word_of_nat (0x30 + n)] else decimal (n div 10) @ [word_of_nat (0x30 + n mod 10)])"

declare decimal.simps [simp del]

definition signed_decimal :: "int \<Rightarrow> u8 list" where
  "signed_decimal z = (if z < 0 then ch CHR ''-'' # decimal (nat (- z)) else decimal (nat z))"

text \<open>
  The text of a format: a conversion is a percent sign, any characters that are no conversion letter, and
  one of the letters; \<open>l\<close> among them makes the number a long one. The most negative long number has no text.
\<close>

fun text_of :: "mem \<Rightarrow> u8 list \<Rightarrow> bool \<Rightarrow> bool \<Rightarrow> u64 list \<Rightarrow> u8 list option" where
  "text_of m [] conv longarg vl = Some []"
| "text_of m (c # s) conv longarg vl =
     (if \<not> conv then
        if c = ch CHR ''%'' then text_of m s True longarg vl else map_option ((#) c) (text_of m s False longarg vl)
      else if c = ch CHR ''l'' then text_of m s True True vl
      else if c \<notin> {ch CHR ''p'', ch CHR ''x'', ch CHR ''d'', ch CHR ''s'', ch CHR ''c''}
      then text_of m s True longarg vl
      else
       (case vl of
          [] \<Rightarrow> None
        | a # vl \<Rightarrow>
           (let rest = text_of m s False False vl;
                num = long_arg longarg a
            in if c = ch CHR ''p'' then map_option ((@) (ch CHR ''0'' # ch CHR ''x'' # hex_text 16 a)) rest
               else if c = ch CHR ''x'' then map_option ((@) (hex_text (if longarg then 16 else 8) num)) rest
               else if c = ch CHR ''d'' then
                 if num = push_bit 63 1 then None else map_option ((@) (signed_decimal (sint num))) rest
               else if c = ch CHR ''s'' then
                 Option.bind (strlen m a) (\<lambda>k. map_option ((@) (ld_bytes m a (unat k))) rest)
               else map_option ((#) (ucast a)) rest)))"

section \<open>The buffer\<close>

text \<open>The buffer of \<open>n\<close> bytes after a text: all but the last byte can hold it.\<close>

definition written :: "u8 list \<Rightarrow> u8 list \<Rightarrow> u8 list" where
  "written out t = take (length out - 1) t @ drop (min (length t) (length out - 1)) out"

lemma length_written [simp]: "length (written out t) = length out"
  by (simp add: written_def)

lemma nth_written:
  "i < length out \<Longrightarrow> written out t ! i = (if i < length t \<and> i + 1 < length out then t ! i else out ! i)"
  by (auto simp: written_def nth_append min_def)

lemma written_Nil [simp]: "written out [] = out"
  by (simp add: written_def)

definition state_of :: "u8 list \<Rightarrow> u8 list \<Rightarrow> u64 \<times> u8 list" where
  "state_of out t = (word_of_nat (length t), written out t)"

lemma put_written:
  assumes "length out < 2 ^ 64" "length t + 1 < 2 ^ 64"
  shows "put (word_of_nat (length out)) c (state_of out t) = Some (state_of out (t @ [c]))"
proof -
  let ?n = "word_of_nat (length out) :: u64" and ?p = "word_of_nat (length t) :: u64"
  have u: "unat ?n = length out" "unat (1 + ?p) = length t + 1" "unat ?p = length t"
    using assms unat_of_nat64 [of "length t + 1"] by (simp_all add: unat_of_nat64 add.commute)
  have lt: "1 + ?p < ?n \<longleftrightarrow> length t + 1 < length out" unfolding word_less_nat_alt u ..
  show ?thesis
  proof (cases "length t + 1 < length out")
    case True
    have "(written out t)[length t := c] = written out (t @ [c])"
      by (rule nth_equalityI) (use True in \<open>auto simp: nth_written nth_list_update nth_append\<close>)
    then show ?thesis using True by (simp add: put_def state_of_def Let_def lt store_def u add.commute)
  next
    case False
    then have "written out (t @ [c]) = written out t"
      by (intro nth_equalityI) (auto simp: nth_written nth_append)
    then show ?thesis using False by (simp add: put_def state_of_def Let_def lt add.commute)
  qed
qed


lemma put_hex_written:
  assumes "length out < 2 ^ 64" "length t + k < 2 ^ 64"
  shows "put_hex (word_of_nat (length out)) num k (state_of out t) = Some (state_of out (t @ hex_text k num))"
  using assms(2)
proof (induction k arbitrary: t)
  case (Suc k)
  have "(0xF :: u64) = mask 4" by (simp add: mask_eq_exp_minus_1)
  then have d: "drop_bit (4 * k) num AND 0xF = take_bit 4 (drop_bit (4 * k) num)" by (simp only: take_bit_eq_mask)
  have "length t + 1 < 2 ^ 64" using Suc.prems by simp
  then show ?case
    using put_written [OF assms(1)] Suc.IH Suc.prems by (simp add: d Let_def hex_text_def)
qed (simp add: hex_text_def)

lemma put_string_written:
  assumes "length out < 2 ^ 64" "cstr m a cs" "length t + length cs < 2 ^ 64"
  shows "put_string m (word_of_nat (length out)) a (state_of out t) = Some (state_of out (t @ cs))"
  using assms(2,3)
proof (induction cs arbitrary: a t)
  case Nil
  then show ?case by (subst put_string.simps) simp
next
  case (Cons c cs)
  have "length t + 1 < 2 ^ 64" using Cons.prems by simp
  then show ?case using put_written [OF assms(1)] Cons by (subst put_string.simps) auto
qed

section \<open>Decimal digits\<close>

lemma length_decimal_pos: "0 < length (decimal k)"
  by (subst decimal.simps) simp

lemma count_digits_decimal: "count_digits (int k) d + 1 = length (decimal k) + d"
proof (induction k arbitrary: d rule: decimal.induct)
  case (1 k)
  have q: "int k sdiv 10 = int (k div 10)" by (cases "k = 0") (simp_all add: signed_divide_int_def zdiv_int)
  show ?case
  proof (cases "k < 10")
    case True
    then show ?thesis by (subst count_digits.simps, subst decimal.simps) (simp add: q)
  next
    case False
    then have "count_digits (int (k div 10)) (d + 1) + 1 = length (decimal (k div 10)) + (d + 1)" by (rule "1.IH")
    then show ?thesis using False div_greater_zero_iff [of k 10]
      by (subst count_digits.simps, subst decimal.simps) (simp add: q Let_def)
  qed
qed

lemma decimal_split: "10 \<le> k \<Longrightarrow> decimal k = decimal (k div 10) @ [word_of_nat (0x30 + k mod 10)]"
  by (subst decimal.simps) simp

text \<open>The digits are stored from the last one to the first, each at its place if the buffer has one.\<close>

lemma store_digit:
  assumes "length buf < 2 ^ 64" "p + i + 1 < 2 ^ 64"
  shows "(if word_of_nat p + word_of_nat i + 1 < (word_of_nat (length buf) :: u64)
      then store (unat (word_of_nat p + word_of_nat i :: u64)) c buf else Some buf) =
    Some (if p + i + 1 < length buf then buf[p + i := c] else buf)"
proof -
  have u: "unat (word_of_nat p + word_of_nat i + 1 :: u64) = p + i + 1" "unat (word_of_nat p + word_of_nat i :: u64) = p + i"
    "unat (word_of_nat (length buf) :: u64) = length buf"
    using assms unat_of_nat64 [of "p + i + 1"] unat_of_nat64 [of "p + i"]
    by (simp_all add: unat_of_nat64 add.commute add.left_commute)
  then have "word_of_nat p + word_of_nat i + 1 < (word_of_nat (length buf) :: u64) \<longleftrightarrow> p + i + 1 < length buf"
    unfolding word_less_nat_alt by simp
  then show ?thesis unfolding u by (simp add: store_def)
qed

lemma put_digits_decimal:
  assumes "length buf < 2 ^ 64" "p + length (decimal k) < 2 ^ 64"
  shows "\<exists>buf'. put_digits (word_of_nat (length buf)) (word_of_nat p) (length (decimal k)) (int k) buf = Some buf' \<and>
    length buf' = length buf \<and>
    (\<forall>i<length buf. buf' ! i =
      (if p \<le> i \<and> i < p + length (decimal k) \<and> i + 1 < length buf then decimal k ! (i - p) else buf ! i))"
  using assms
proof (induction k arbitrary: buf rule: decimal.induct)
  case (1 k)
  have q: "int k sdiv 10 = int (k div 10)" "int k smod 10 = int (k mod 10)"
    by (cases "k = 0"; simp add: signed_divide_int_def signed_modulo_int_def zdiv_int zmod_int minus_div_mult_eq_mod)+
  have c: "word_of_int (48 + int k smod 10) = (word_of_nat (0x30 + k mod 10) :: u8)" unfolding q by simp
  show ?case
  proof (cases "k < 10")
    case True
    then have "decimal k = [word_of_nat (0x30 + k)]" by (subst decimal.simps) simp
    let ?b = "if p + 1 < length buf then buf[p := word_of_nat (0x30 + k)] else buf"
    have "put_digits (word_of_nat (length buf)) (word_of_nat p) (Suc 0) (int k) buf = Some ?b"
      using store_digit [of buf p 0] "1.prems" True \<open>decimal k = _\<close> by (simp add: q)
    then show ?thesis using \<open>decimal k = _\<close> by (intro exI [of _ ?b]) (auto simp: nth_list_update)
  next
    case False
    let ?ds = "decimal (k div 10)" and ?c = "word_of_nat (0x30 + k mod 10)"
    have dec: "decimal k = ?ds @ [?c]" using False by (intro decimal_split) simp
    define b where "b = (if p + length ?ds + 1 < length buf then buf[p + length ?ds := ?c] else buf)"
    have len: "length b = length buf" by (simp add: b_def)
    have "length b < 2 ^ 64" "p + length ?ds < 2 ^ 64" using "1.prems" dec len by simp_all
    from "1.IH" [OF False this, unfolded len] obtain buf' where b: "length buf' = length buf"
      "put_digits (word_of_nat (length buf)) (word_of_nat p) (length ?ds) (int (k div 10)) b = Some buf'"
      "\<forall>i<length buf. buf' ! i = (if p \<le> i \<and> i < p + length ?ds \<and> i + 1 < length buf then ?ds ! (i - p) else b ! i)"
      by blast
    have "put_digits (word_of_nat (length buf)) (word_of_nat p) (length (decimal k)) (int k) buf = Some buf'"
      using store_digit [of buf p "length ?ds"] "1.prems" b(2)
      by (cases "p + length ?ds + 1 < length buf") (simp_all add: dec q b_def)
    moreover have "\<forall>i<length buf. buf' ! i =
        (if p \<le> i \<and> i < p + length (decimal k) \<and> i + 1 < length buf then decimal k ! (i - p) else buf ! i)"
      using b(3) by (auto simp: dec nth_append nth_list_update b_def)
    ultimately show ?thesis using b(1) by blast
  qed
qed


lemma put_digits_written:
  assumes "length out < 2 ^ 64" "length t + length (decimal k) < 2 ^ 64"
  shows "put_digits (word_of_nat (length out)) (word_of_nat (length t)) (length (decimal k)) (int k) (written out t) =
    Some (written out (t @ decimal k))"
proof -
  have "length (written out t) < 2 ^ 64" using assms(1) by simp
  from put_digits_decimal [OF this assms(2)] obtain b where b: "length b = length out"
      "put_digits (word_of_nat (length out)) (word_of_nat (length t)) (length (decimal k)) (int k) (written out t) = Some b"
      "\<forall>i<length out. b ! i = (if length t \<le> i \<and> i < length t + length (decimal k) \<and> i + 1 < length out
        then decimal k ! (i - length t) else written out t ! i)"
    by auto
  have "b = written out (t @ decimal k)"
    by (rule nth_equalityI) (use b(1,3) in \<open>auto simp: nth_written nth_append\<close>)
  with b(2) show ?thesis by simp
qed

lemma put_decimal_written:
  assumes "length out < 2 ^ 64" "num \<noteq> push_bit 63 1" "length t + length (signed_decimal (sint num)) < 2 ^ 64"
  shows "put_decimal (word_of_nat (length out)) num (state_of out t) =
    Some (state_of out (t @ signed_decimal (sint num)))"
proof -
  have digits: "map_option (Pair (word_of_nat (length t) + word_of_nat (count_digits (int k) 1)))
      (put_digits (word_of_nat (length out)) (word_of_nat (length t)) (count_digits (int k) 1) (int k) (written out t)) =
      Some (state_of out (t @ decimal k))"
    if "length t + length (decimal k) < 2 ^ 64" for k t
  proof -
    have "count_digits (int k) 1 = length (decimal k)" using count_digits_decimal [of k 1] by simp
    then show ?thesis using put_digits_written [OF assms(1) that] by (simp add: state_of_def)
  qed
  show ?thesis
  proof (cases "sint num < 0")
    case False
    then show ?thesis
      using digits [of t "nat (sint num)"] assms(3)
      by (simp add: put_decimal_def signed_decimal_def state_of_def Let_def)
  next
    case True
    have neg: "sint (- num) = - sint num"
    proof -
      have "sint num \<noteq> - (2 ^ 63)"
      proof
        assume "sint num = - (2 ^ 63)"
        then have "word_of_int (sint num) = (word_of_int (- (2 ^ 63)) :: u64)" by simp
        then show False using assms(2) by (simp add: push_bit_eq_mult)
      qed
      moreover have "- (2 ^ 63) \<le> sint num" using sint_greater_eq [of num] by simp
      moreover have "sint (- num) = signed_take_bit 63 (- sint num)"
        by (simp add: signed_take_bit_minus sint_word_ariths)
      ultimately show ?thesis using True by (simp add: signed_take_bit_int_eq_self)
    qed
    have t1: "length t + 1 < 2 ^ 64" "length (t @ [ch CHR ''-'']) + length (decimal (nat (- sint num))) < 2 ^ 64"
      using True assms(3) by (simp_all add: signed_decimal_def)
    show ?thesis
      using True digits [OF t1(2)] put_written [OF assms(1) t1(1), of "ch CHR ''-''"]
      by (simp add: put_decimal_def signed_decimal_def neg Let_def) (simp add: state_of_def)
  qed
qed

section \<open>String arguments\<close>

lemma cstr_short: "cstr m p cs \<Longrightarrow> length cs < 2 ^ 64"
proof (rule ccontr)
  assume c: "cstr m p cs" and "\<not> length cs < 2 ^ 64"
  define j where "j = length cs mod 2 ^ 64"
  have j: "j < length cs" using \<open>\<not> length cs < 2 ^ 64\<close> mod_less_divisor [of "2 ^ 64" "length cs"] by (simp add: j_def)
  have b: "ld_bytes m p (Suc (length cs)) = cs @ [0]" "0 \<notin> set cs" using c [unfolded cstr_iff_bytes] by blast+
  have at: "m (p + word_of_nat i) = (cs @ [0]) ! i" if "i \<le> length cs" for i
    unfolding b(1) [symmetric] using that by (simp del: ld_bytes.simps)
  have "(word_of_nat (length cs) :: u64) = word_of_nat j"
    by (simp add: j_def word_of_nat_eq_iff take_bit_eq_mod)
  then have "cs ! j = 0" using at [of j] at [of "length cs"] j by (simp add: nth_append)
  then show False using b(2) nth_mem [OF j] by simp
qed

lemma strlen_loop_Some: "strlen_loop m a = Some q \<Longrightarrow> \<exists>cs. cstr m a cs \<and> q = a + word_of_nat (length cs)"
proof (erule strlen_loop.raw_induct [rotated])
  fix loop m p q
  assume ih: "\<And>m p q. loop m p = Some q \<Longrightarrow> \<exists>cs. cstr m p cs \<and> q = p + word_of_nat (length cs)"
    and s: "(if m p \<noteq> 0 then loop m (p + 1) else Some p) = Some q"
  show "\<exists>cs. cstr m p cs \<and> q = p + word_of_nat (length cs)"
  proof (cases "m p = 0")
    case True
    then show ?thesis using s by (intro exI [of _ "[]"]) simp
  next
    case False
    then have "loop m (p + 1) = Some q" using s by simp
    from ih [OF this] obtain cs where "cstr m (p + 1) cs" "q = p + 1 + word_of_nat (length cs)" by blast
    then show ?thesis using False by (intro exI [of _ "m p # cs"]) simp
  qed
qed

lemma strlen_Some:
  assumes "strlen m a = Some k"
  shows "cstr m a (ld_bytes m a (unat k))"
proof -
  obtain q where q: "strlen_loop m a = Some q" "k = q - a" using assms by (auto simp: strlen_def)
  from strlen_loop_Some [OF q(1)] obtain cs where cs: "cstr m a cs" "k = word_of_nat (length cs)" using q(2) by auto
  have "unat k = length cs" using cs(2) cstr_short [OF cs(1)] by (simp add: unat_of_nat64)
  moreover have "ld_bytes m a (Suc (length cs)) = cs @ [0]" using cs(1) by (simp only: cstr_iff_bytes)
  then have "ld_bytes m a (length cs) = cs"
    using ld_bytes_append [of m a "length cs" 1] by simp
  ultimately show ?thesis using cs(1) by simp
qed

section \<open>The loop over the format\<close>

definition is_letter :: "u8 \<Rightarrow> bool" where
  "is_letter c \<longleftrightarrow> c \<in> {ch CHR ''p'', ch CHR ''x'', ch CHR ''d'', ch CHR ''s'', ch CHR ''c''}"

definition is_percent :: "u8 \<Rightarrow> bool" where "is_percent c \<longleftrightarrow> c = ch CHR ''%''"

lemma vsn_loop_writes:
  assumes "length out < 2 ^ 64"
  shows "text_of m s conv longarg vl = Some w \<Longrightarrow> length t + length w < 2 ^ 64 \<Longrightarrow>
    vsn_loop m (word_of_nat (length out)) s conv longarg vl (state_of out t) = Some (state_of out (t @ w))"
proof (induction s arbitrary: conv longarg vl w t)
  case (Cons c s)
  show ?case
  proof (cases "conv \<and> is_letter c")
    case False
    show ?thesis
    proof (cases "\<not> conv \<and> \<not> is_percent c")
      case True
      then obtain r where r: "text_of m s False longarg vl = Some r" "w = c # r"
        using Cons.prems(1) by (auto simp: is_percent_def)
      have "length t + 1 < 2 ^ 64" "length (t @ [c]) + length r < 2 ^ 64" using Cons.prems(2) r(2) by simp_all
      then show ?thesis
        using True Cons.IH [OF r(1), of "t @ [c]"] put_written [OF assms] r(2) by (simp add: is_percent_def)
    next
      case silent: False
      then show ?thesis using False Cons.prems Cons.IH
        by (auto simp: is_letter_def is_percent_def split: if_splits)
    qed
  next
    case letter: True
    then obtain a vl' where vl: "vl = a # vl'" using Cons.prems(1) by (cases vl) (auto simp: is_letter_def)
    let ?num = "long_arg longarg a"
    obtain x r where x: "w = x @ r" "text_of m s False False vl' = Some r"
      and step: "vsn_loop m (word_of_nat (length out)) (c # s) conv longarg vl (state_of out t) =
        vsn_loop m (word_of_nat (length out)) s False False vl' (state_of out (t @ x))"
    proof -
      consider (p) "c = ch CHR ''p''" | (x) "c = ch CHR ''x''" | (d) "c = ch CHR ''d''" | (s) "c = ch CHR ''s''"
        | (c) "c = ch CHR ''c''" using letter by (auto simp: is_letter_def)
      then show thesis
      proof cases
        case p
        then obtain r where r: "w = ch CHR ''0'' # ch CHR ''x'' # hex_text 16 a @ r" "text_of m s False False vl' = Some r"
          using Cons.prems(1) letter vl by (auto simp: Let_def)
        have l: "length t + 1 < 2 ^ 64" "length (t @ [ch CHR ''0'']) + 1 < 2 ^ 64"
          "length (t @ [ch CHR ''0'', ch CHR ''x'']) + 16 < 2 ^ 64"
          using Cons.prems(2) r(1) by (simp_all add: hex_text_def)
        have "vsn_loop m (word_of_nat (length out)) (c # s) conv longarg vl (state_of out t) =
            vsn_loop m (word_of_nat (length out)) s False False vl'
              (state_of out (t @ ch CHR ''0'' # ch CHR ''x'' # hex_text 16 a))"
          using p letter vl put_written [OF assms l(1)] put_written [OF assms l(2)] put_hex_written [OF assms l(3)]
          by (simp add: next_arg_def)
        then show thesis using r by (intro that [of "ch CHR ''0'' # ch CHR ''x'' # hex_text 16 a" r]) simp_all
      next
        case x
        let ?k = "if longarg then 16 else 8"
        obtain r where r: "w = hex_text ?k ?num @ r" "text_of m s False False vl' = Some r"
          using Cons.prems(1) letter vl x by (auto simp: Let_def)
        have "length t + ?k < 2 ^ 64" using Cons.prems(2) r(1) by (simp add: hex_text_def)
        then show thesis
          using x letter vl r put_hex_written [OF assms, of t ?k ?num]
          by (intro that [of "hex_text ?k ?num" r]) (simp_all add: next_arg_def)
      next
        case d
        obtain r where r: "w = signed_decimal (sint ?num) @ r" "text_of m s False False vl' = Some r" "?num \<noteq> push_bit 63 1"
          using Cons.prems(1) letter vl d by (auto simp: Let_def split: if_splits)
        then show thesis
          using d letter vl put_decimal_written [OF assms r(3), of t] Cons.prems(2)
          by (intro that [of "signed_decimal (sint ?num)" r]) (simp_all add: next_arg_def)
      next
        case s
        obtain r k where r: "strlen m a = Some k" "w = ld_bytes m a (unat k) @ r" "text_of m s False False vl' = Some r"
          using Cons.prems(1) letter vl s by (auto simp: Let_def bind_eq_Some_conv)
        then show thesis
          using s letter vl put_string_written [OF assms strlen_Some [OF r(1)], of t] Cons.prems(2)
          by (intro that [of "ld_bytes m a (unat k)" r]) (simp_all add: next_arg_def)
      next
        case c
        obtain r where r: "w = ucast a # r" "text_of m s False False vl' = Some r"
          using Cons.prems(1) letter vl c by (auto simp: Let_def)
        then show thesis
          using c letter vl put_written [OF assms, of t] Cons.prems(2)
          by (intro that [of "[ucast a]" r]) (simp_all add: next_arg_def)
      qed
    qed
    have "length (t @ x) + length r < 2 ^ 64" using Cons.prems(2) x(1) by simp
    then show ?thesis using Cons.IH [OF x(2)] step x(1) by simp
  qed
qed simp


text \<open>What is in the buffer in the end: as much of the text as fits before the terminator.\<close>

definition printed :: "u8 list \<Rightarrow> u8 list \<Rightarrow> u8 list" where
  "printed out w = (if out = [] then [] else
     take (length out - 1) w @ [0] @ drop (Suc (min (length w) (length out - 1))) out)"

lemma length_printed [simp]: "length (printed out w) = length out"
  by (cases out) (simp_all add: printed_def)

lemma vsnprintf_prints:
  assumes "text_of m s False False vl = Some w" "length out < 2 ^ 64" "length w < 2 ^ 64"
  shows "vsnprintf m out (word_of_nat (length out)) s vl = Some (word_of_nat (length w), printed out w)"
proof -
  let ?n = "word_of_nat (length out) :: u64" and ?p = "word_of_nat (length w) :: u64"
  have loop: "vsn_loop m ?n s False False vl (0, out) = Some (?p, written out w)"
    using vsn_loop_writes [OF assms(2,1), of "[]"] assms(3) by (simp add: state_of_def)
  have u: "unat ?n = length out" "unat ?p = length w" using assms by (simp_all add: unat_of_nat64)
  have lt: "?p < ?n \<longleftrightarrow> length w < length out" unfolding word_less_nat_alt u ..
  have cast: "ucast ?p = (word_of_nat (length w) :: u32)"
  proof -
    have "(word_of_nat (unat ?p) :: u32) = ucast ?p" by simp
    then show ?thesis unfolding u by simp
  qed
  show ?thesis
  proof (cases "length w < length out")
    case True
    have "(written out w)[length w := 0] = printed out w"
      by (rule nth_equalityI)
        (use True in \<open>auto simp: nth_written nth_list_update printed_def nth_append nth_Cons' min_def\<close>)
    then show ?thesis using True by (simp add: vsnprintf_def loop lt u store_def cast)
  next
    case False
    show ?thesis
    proof (cases "out = []")
      case True
      then show ?thesis using loop by (simp add: vsnprintf_def printed_def written_def cast)
    next
      case out: False
      then have "0 < length out" by simp
      then have n: "?n \<noteq> 0" "unat (?n - 1) = length out - 1"
        using u(1) unat_pred [of ?n] unfolding word_neq_0_conv word_less_nat_alt by simp_all
      have "(written out w)[length out - 1 := 0] = printed out w"
      proof (rule nth_equalityI)
        fix i assume i: "i < length ((written out w)[length out - 1 := 0])"
        have m: "min (length w) (length out - 1) = length out - 1" using False by simp
        show "(written out w)[length out - 1 := 0] ! i = printed out w ! i"
          using i False out by (auto simp: nth_written nth_list_update printed_def m nth_append nth_Cons')
      qed simp
      then show ?thesis using False out n by (simp add: vsnprintf_def loop lt store_def cast)
    qed
  qed
qed

lemma putstring_sends:
  "0 \<in> set cs \<Longrightarrow> putstring env cs s =
     Some (fold (\<lambda>c s. snd (mcall_console_putchar env c s)) (takeWhile (\<lambda>c. c \<noteq> 0) cs) s)"
  by (induction cs arbitrary: s) auto

section \<open>Properties\<close>

text \<open>C31: Whenever the format and its arguments have a text, \<open>snprintf\<close> returns, writes only into its buffer, leaves
  there as much of the text as fits with a terminator behind it, and reports the length of the whole text;
  the console printer \<open>printm\<close> sends the first 255 characters of the text.\<close>

theorem snprintf_prints_text:
  assumes "text_of (mem st) s False False vl = Some w" "length out < 2 ^ 64" "length w < 2 ^ 31" "length buf = 256"
  shows "snprintf (mem st) out (word_of_nat (length out)) s vl = Some (word_of_nat (length w), printed out w) \<and>
    printm env buf s vl st =
      Some (fold (\<lambda>c st. snd (mcall_console_putchar env c st)) (takeWhile (\<lambda>c. c \<noteq> 0) (take 255 w)) st)"
proof
  have w: "length w < 2 ^ 64" using assms(3) by simp
  show "snprintf (mem st) out (word_of_nat (length out)) s vl = Some (word_of_nat (length w), printed out w)"
    using vsnprintf_prints [OF assms(1,2) w] by (simp add: snprintf_def)
  have "length buf < 2 ^ 64" using assms(4) by simp
  from vsnprintf_prints [OF assms(1) this w]
  have "vsnprintf (mem st) buf 256 s vl = Some (word_of_nat (length w), printed buf w)" using assms(4) by simp
  moreover have p: "printed buf w = take 255 w @ 0 # drop (Suc (min (length w) 255)) buf"
    using assms(4) by (auto simp: printed_def)
  moreover have "takeWhile (\<lambda>c. c \<noteq> 0) (xs @ 0 # r) = takeWhile (\<lambda>c. c \<noteq> 0) xs" for xs r :: "u8 list"
    by (induction xs) auto
  ultimately show "printm env buf s vl st =
      Some (fold (\<lambda>c st. snd (mcall_console_putchar env c st)) (takeWhile (\<lambda>c. c \<noteq> 0) (take 255 w)) st)"
    by (simp add: printm_def vprintm_def putstring_sends)
qed

text \<open>\<open>"(%d MB)"\<close> and \<open>0x%lx\<close> in a buffer that is too short by two.\<close>

lemma snprintf_prints_text_witness:
  "\<forall>st :: mstate. snprintf (mem st) (replicate 12 7) 12 (lit ''(%d MB) 0x%lx'') [- 45, 0xabc] =
     Some (27, lit ''(-45 MB) 0x'' @ [0])"
proof
  fix st :: mstate
  have "text_of (mem st) (lit ''(%d MB) 0x%lx'') False False [- 45, 0xabc] = Some (lit ''(-45 MB) 0x0000000000000abc'')"
    by (simp add: lit_def long_arg_def signed_decimal_def decimal.simps hex_text_def hex_char_def upt_rec Let_def
        drop_bit_eq_div take_bit_eq_mod push_bit_eq_mult)
  from snprintf_prints_text [OF this, of "replicate 12 7" "replicate 256 0"]
  show "snprintf (mem st) (replicate 12 7) 12 (lit ''(%d MB) 0x%lx'') [- 45, 0xabc] = Some (27, lit ''(-45 MB) 0x'' @ [0])"
    by (simp add: lit_def printed_def)
qed

end
