(* ===== verification/Devices.thy ===== *)
theory Devices
  imports Fdt
begin

text \<open>
  The consoles (\<open>sm/devices/uart.c\<close>, \<open>sm/devices/htif.c\<close>). A device is a parameter: \<open>rx k\<close>, \<open>tx k\<close>,
  \<open>to_reads k\<close> and \<open>from_reads k\<close> are the values that the \<open>k\<close>-th read of a register returns; what the code
  writes to the registers is recorded in order. A wait that never ends and a failed \<open>assert\<close> are
  \<open>None\<close>; so is taking a lock that is held, since the machine has one hart. \<open>query_uart\<close> is one more
  client of the device tree scanner.
\<close>

section \<open>The serial port (uart.c)\<close>

record uart_dev =
  reads :: nat
  sent_words :: "u32 list"

text \<open>\<open>amoor.w\<close> reads the register and writes it with the character or-ed in, until the value read is
  not negative.\<close>

partial_function (option) uart_putchar :: "(nat \<Rightarrow> u32) \<Rightarrow> u8 \<Rightarrow> uart_dev \<Rightarrow> uart_dev option" where
  "uart_putchar tx ch d =
     (let r = tx (reads d);
          d = d\<lparr>reads := reads d + 1, sent_words := sent_words d @ [r OR ucast ch]\<rparr>
      in if sint r < 0 then uart_putchar tx ch d else Some d)"

definition uart_getchar :: "(nat \<Rightarrow> u32) \<Rightarrow> uart_dev \<Rightarrow> u32 \<times> uart_dev" where
  "uart_getchar rx d =
     (let c = rx (reads d); d = d\<lparr>reads := reads d + 1\<rparr> in if sint c < 0 then (- 1, d) else (c, d))"

record uart_scan =
  us_compat :: bool
  us_reg :: u64

definition uart_open :: "scan_node \<Rightarrow> mem \<times> uart_scan \<times> u64 \<Rightarrow> (mem \<times> uart_scan \<times> u64) option" where
  "uart_open node st = (case st of (m, scan, uart) \<Rightarrow> Some (m, \<lparr>us_compat = False, us_reg = 0\<rparr>, uart))"

definition uart_prop :: "scan_prop \<Rightarrow> mem \<times> uart_scan \<times> u64 \<Rightarrow> (mem \<times> uart_scan \<times> u64) option" where
  "uart_prop prop st =
     (case st of (m, scan, uart) \<Rightarrow>
       if name_is m prop ''compatible'' \<and> value_is m prop ''sifive,uart0''
       then Some (m, scan\<lparr>us_compat := True\<rparr>, uart)
       else if name_is m prop ''reg'' then
         map_option (\<lambda>reg. (m, scan\<lparr>us_reg := reg\<rparr>, uart)) (parent_address m prop)
       else Some st)"

definition uart_done :: "scan_node \<Rightarrow> mem \<times> uart_scan \<times> u64 \<Rightarrow> (mem \<times> uart_scan \<times> u64) option" where
  "uart_done node st =
     (case st of (m, scan, uart) \<Rightarrow>
       if \<not> us_compat scan \<or> us_reg scan = 0 \<or> uart \<noteq> 0 then Some st
       else
        (let uart = us_reg scan;
             m = st32 m (uart + 4 * 2) 1;
             m = st32 m (uart + 4 * 3) 1
         in Some (m, scan, uart)))"

definition query_uart :: "uart_scan \<Rightarrow> u64 \<Rightarrow> mem \<times> u64 \<Rightarrow> (mem \<times> u64) option" where
  "query_uart unset fdt st =
     (case st of (m, uart) \<Rightarrow>
       let cb = \<lparr>cb_open = Some uart_open, cb_prop = uart_prop, cb_done = Some uart_done, cb_close = None\<rparr>
       in map_option (\<lambda>(m, scan, uart). (m, uart)) (fdt_scan fdt cb (m, unset, uart)))"

section \<open>The host interface (htif.c)\<close>

datatype htif_write = Tohost u64 | Fromhost u64

record htif =
  to_ticks :: nat
  from_ticks :: nat
  writes :: "htif_write list"
  htif_console_buf :: u32
  htif_lock :: u32

record host =
  to_reads :: "nat \<Rightarrow> u64"
  from_reads :: "nat \<Rightarrow> u64"

definition HTIF_CMD :: "u64 \<Rightarrow> u64 \<Rightarrow> u64 \<Rightarrow> u64" where
  "HTIF_CMD dev cmd payload = push_bit 56 dev OR push_bit 48 cmd OR payload"
definition FROMHOST_DEV :: "u64 \<Rightarrow> u64" where "FROMHOST_DEV v = drop_bit 56 v"
definition FROMHOST_CMD :: "u64 \<Rightarrow> u64" where "FROMHOST_CMD v = drop_bit 56 (push_bit 8 v)"
definition FROMHOST_DATA :: "u64 \<Rightarrow> u64" where "FROMHOST_DATA v = drop_bit 16 (push_bit 16 v)"

definition read_tohost :: "host \<Rightarrow> htif \<Rightarrow> u64 \<times> htif" where
  "read_tohost env h = (to_reads env (to_ticks h), h\<lparr>to_ticks := to_ticks h + 1\<rparr>)"

definition read_fromhost :: "host \<Rightarrow> htif \<Rightarrow> u64 \<times> htif" where
  "read_fromhost env h = (from_reads env (from_ticks h), h\<lparr>from_ticks := from_ticks h + 1\<rparr>)"

definition write_host :: "htif_write \<Rightarrow> htif \<Rightarrow> htif" where
  "write_host w h = h\<lparr>writes := writes h @ [w]\<rparr>"

definition spinlock_lock :: "htif \<Rightarrow> htif option" where
  "spinlock_lock h = (if htif_lock h \<noteq> 0 then None else Some (h\<lparr>htif_lock := - 1\<rparr>))"

definition spinlock_unlock :: "htif \<Rightarrow> htif" where
  "spinlock_unlock h = h\<lparr>htif_lock := 0\<rparr>"

definition check_fromhost :: "host \<Rightarrow> htif \<Rightarrow> htif option" where
  "check_fromhost env h =
     (let (fh, h) = read_fromhost env h in
      if fh = 0 then Some h
      else
        let h = write_host (Fromhost 0) h in
        if FROMHOST_DEV fh \<noteq> 1 then None
        else if FROMHOST_CMD fh = 0 then Some (h\<lparr>htif_console_buf := 1 + ucast (ucast (FROMHOST_DATA fh) :: u8)\<rparr>)
        else if FROMHOST_CMD fh = 1 then Some h
        else None)"

partial_function (option) set_tohost :: "host \<Rightarrow> u64 \<Rightarrow> u64 \<Rightarrow> u64 \<Rightarrow> htif \<Rightarrow> htif option" where
  "set_tohost env dev cmd data h =
     (let (v, h) = read_tohost env h in
      if v \<noteq> 0 then Option.bind (check_fromhost env h) (set_tohost env dev cmd data)
      else Some (write_host (Tohost (HTIF_CMD dev cmd data)) h))"

definition htif_console_getchar :: "host \<Rightarrow> htif \<Rightarrow> (u32 \<times> htif) option" where
  "htif_console_getchar env h =
     Option.bind (spinlock_lock h) (\<lambda>h.
     Option.bind (check_fromhost env h) (\<lambda>h.
       let c = htif_console_buf h in
       map_option (\<lambda>h. (c - 1, spinlock_unlock h))
         (if 0 \<le> sint c then set_tohost env 1 0 0 (h\<lparr>htif_console_buf := - 1\<rparr>) else Some h)))"

partial_function (option) await_fromhost :: "host \<Rightarrow> u64 \<Rightarrow> u64 \<Rightarrow> htif \<Rightarrow> htif option" where
  "await_fromhost env dev cmd h =
     (let (fh, h) = read_fromhost env h in
      if fh \<noteq> 0 then
        if FROMHOST_DEV fh = dev \<and> FROMHOST_CMD fh = cmd then Some (write_host (Fromhost 0) h)
        else Option.bind (check_fromhost env h) (await_fromhost env dev cmd)
      else await_fromhost env dev cmd h)"

definition do_tohost_fromhost :: "host \<Rightarrow> u64 \<Rightarrow> u64 \<Rightarrow> u64 \<Rightarrow> htif \<Rightarrow> htif option" where
  "do_tohost_fromhost env dev cmd data h =
     Option.bind (spinlock_lock h) (\<lambda>h.
     Option.bind (set_tohost env dev cmd data h) (\<lambda>h.
     map_option spinlock_unlock (await_fromhost env dev cmd h)))"

definition htif_syscall :: "host \<Rightarrow> u64 \<Rightarrow> htif \<Rightarrow> htif option" where
  "htif_syscall env arg h = do_tohost_fromhost env 0 0 arg h"

definition htif_console_putchar :: "host \<Rightarrow> u8 \<Rightarrow> htif \<Rightarrow> htif option" where
  "htif_console_putchar env c h =
     Option.bind (spinlock_lock h) (\<lambda>h.
     map_option spinlock_unlock (set_tohost env 1 1 (ucast c) h))"

text \<open>\<open>while (1) { fromhost = 0; tohost = 1; }\<close>\<close>

definition htif_poweroff :: "htif \<Rightarrow> htif option" where
  "htif_poweroff h = None"

section \<open>The console buffer\<close>

text \<open>
  The buffer is -1 while a request for a character is open, 0 before the first request, and otherwise one
  more than the character received. \<open>console_typed\<close> is that and the lock being free between calls.
\<close>

definition buf_typed :: "htif \<Rightarrow> bool" where
  "buf_typed h \<longleftrightarrow> sint (htif_console_buf h) \<in> {- 1..256}"

definition console_typed :: "htif \<Rightarrow> bool" where
  "console_typed h \<longleftrightarrow> buf_typed h \<and> htif_lock h = 0"

lemma sint_char: "sint (1 + ucast (c :: u8) :: u32) = 1 + uint c" "uint (c :: u8) \<in> {0..255}"
proof -
  have c: "0 \<le> uint c" "uint c < 256" using unsigned_less [of c, where 'a = int] by simp_all
  then show "uint c \<in> {0..255}" by simp
  have self: "signed_take_bit 31 k = k" if "0 \<le> k" "k < 2 ^ 31" for k :: int
    by (rule signed_take_bit_int_eq_self) (use that in simp_all)
  have "uint (ucast c :: u32) = uint c" using c by (simp add: unsigned_ucast_eq take_bit_int_eq_self)
  then have "sint (ucast c :: u32) = uint c" using c self [of "uint c"] by (simp add: sint_uint)
  then have "sint (1 + ucast c :: u32) = signed_take_bit 31 (1 + uint c)"
    by (simp add: sint_word_ariths)
  then show "sint (1 + ucast c :: u32) = 1 + uint c" using c self [of "1 + uint c"] by simp
qed

lemma check_fromhost_typed:
  "check_fromhost env h = Some h' \<Longrightarrow> buf_typed h \<Longrightarrow> buf_typed h' \<and> htif_lock h' = htif_lock h"
proof -
  assume a: "check_fromhost env h = Some h'" "buf_typed h"
  have "sint (1 + ucast (c :: u8) :: u32) \<in> {- 1..256}" for c
    unfolding sint_char(1) using sint_char(2) [of c] by simp
  then show ?thesis using a
    by (auto simp: check_fromhost_def read_fromhost_def write_host_def buf_typed_def Let_def split: if_splits)
qed

lemma set_tohost_keeps:
  assumes step: "\<And>h h'. P h \<Longrightarrow> check_fromhost env h = Some h' \<Longrightarrow> P h'"
    and tick: "\<And>h k. P h \<Longrightarrow> P (h\<lparr>to_ticks := k\<rparr>)"
    and wr: "\<And>h. P h \<Longrightarrow> Q (write_host (Tohost (HTIF_CMD dev cmd data)) h)"
  shows "set_tohost env dev cmd data h = Some h' \<Longrightarrow> P h \<Longrightarrow> Q h'"
proof (rule set_tohost.raw_induct [where P = "\<lambda>env' dev' cmd' data' h h'. env' = env \<and> dev' = dev \<and> cmd' = cmd \<and> data' = data \<longrightarrow> P h \<longrightarrow> Q h'", rule_format])
  fix loop :: "host \<Rightarrow> u64 \<Rightarrow> u64 \<Rightarrow> u64 \<Rightarrow> htif \<Rightarrow> htif option" and env' dev' cmd' data' h h'
  assume ih: "\<And>env' dev' cmd' data' h h'. loop env' dev' cmd' data' h = Some h' \<Longrightarrow>
      env' = env \<and> dev' = dev \<and> cmd' = cmd \<and> data' = data \<Longrightarrow> P h \<Longrightarrow> Q h'"
    and eq: "(let (v, h) = read_tohost env' h
       in if v \<noteq> 0 then Option.bind (check_fromhost env' h) (loop env' dev' cmd' data')
          else Some (write_host (Tohost (HTIF_CMD dev' cmd' data')) h)) = Some h'"
    and same: "env' = env \<and> dev' = dev \<and> cmd' = cmd \<and> data' = data" and P: "P h"
  let ?h = "h\<lparr>to_ticks := to_ticks h + 1\<rparr>"
  have Ph: "P ?h" using P by (rule tick)
  show "Q h'"
  proof (cases "to_reads env (to_ticks h) = 0")
    case True
    then show ?thesis using eq same wr [OF Ph] by (simp add: read_tohost_def)
  next
    case False
    then obtain h1 where h1: "check_fromhost env ?h = Some h1" "loop env dev cmd data h1 = Some h'"
      using eq same by (auto simp: read_tohost_def bind_eq_Some_conv)
    show ?thesis using ih [OF h1(2)] step [OF Ph h1(1)] by simp
  qed
qed simp_all


lemma set_tohost_typed:
  "set_tohost env dev cmd data h = Some h' \<Longrightarrow> buf_typed h \<Longrightarrow> buf_typed h' \<and> htif_lock h' = htif_lock h"
  by (rule set_tohost_keeps [where P = "\<lambda>k. buf_typed k \<and> htif_lock k = htif_lock h" and
        Q = "\<lambda>k. buf_typed k \<and> htif_lock k = htif_lock h"])
    (auto simp: buf_typed_def write_host_def dest: check_fromhost_typed)


lemma await_fromhost_typed:
  assumes "await_fromhost env dev cmd h = Some h'" "buf_typed h"
  shows "buf_typed h' \<and> htif_lock h' = htif_lock h"
proof -
  have "buf_typed h \<longrightarrow> buf_typed h' \<and> htif_lock h' = htif_lock h"
  proof (rule await_fromhost.raw_induct [where P = "\<lambda>env dev cmd h h'. buf_typed h \<longrightarrow> buf_typed h' \<and> htif_lock h' = htif_lock h", OF _ assms(1)])
    fix loop :: "host \<Rightarrow> u64 \<Rightarrow> u64 \<Rightarrow> htif \<Rightarrow> htif option" and env dev cmd h h'
    assume ih: "\<And>env dev cmd h h'. loop env dev cmd h = Some h' \<Longrightarrow> buf_typed h \<longrightarrow> buf_typed h' \<and> htif_lock h' = htif_lock h"
      and eq: "(let (fh, h) = read_fromhost env h in
        if fh \<noteq> 0 then
          if FROMHOST_DEV fh = dev \<and> FROMHOST_CMD fh = cmd then Some (write_host (Fromhost 0) h)
          else Option.bind (check_fromhost env h) (loop env dev cmd)
        else loop env dev cmd h) = Some h'"
    let ?h = "h\<lparr>from_ticks := from_ticks h + 1\<rparr>" and ?fh = "from_reads env (from_ticks h)"
    have same: "buf_typed ?h \<longleftrightarrow> buf_typed h" "htif_lock ?h = htif_lock h" by (simp_all add: buf_typed_def)
    consider "?fh = 0" "loop env dev cmd ?h = Some h'"
      | "h' = write_host (Fromhost 0) ?h"
      | k where "check_fromhost env ?h = Some k" "loop env dev cmd k = Some h'"
      using eq by (auto simp: read_fromhost_def Let_def bind_eq_Some_conv split: if_splits)
    then show "buf_typed h \<longrightarrow> buf_typed h' \<and> htif_lock h' = htif_lock h"
    proof cases
      case 1
      then show ?thesis using ih [OF 1(2)] same by simp
    next
      case 2
      then show ?thesis by (simp add: write_host_def buf_typed_def)
    next
      case 3
      then show ?thesis using ih [OF 3(2)] check_fromhost_typed [OF 3(1)] same by auto
    qed
  qed
  with assms(2) show ?thesis by simp
qed

text \<open>The calls of the console and of the system call interface; only a read has a result.\<close>

datatype htif_call = Getchar | Putchar u8 | Syscall u64

fun htif_step :: "host \<Rightarrow> htif_call \<Rightarrow> htif \<Rightarrow> (u32 option \<times> htif) option" where
  "htif_step env Getchar h = map_option (map_prod Some id) (htif_console_getchar env h)"
| "htif_step env (Putchar c) h = map_option (Pair None) (htif_console_putchar env c h)"
| "htif_step env (Syscall a) h = map_option (Pair None) (htif_syscall env a h)"

fun htif_run :: "host \<Rightarrow> htif_call list \<Rightarrow> htif \<Rightarrow> (u32 option list \<times> htif) option" where
  "htif_run env [] h = Some ([], h)"
| "htif_run env (c # cs) h =
     Option.bind (htif_step env c h) (\<lambda>(r, h). map_option (map_prod ((#) r) id) (htif_run env cs h))"

lemma getchar_typed:
  assumes "htif_console_getchar env h = Some (r, h')" "console_typed h"
  shows "console_typed h' \<and> sint r \<in> {- 2..255}"
proof -
  have P: "buf_typed (h\<lparr>htif_lock := - 1\<rparr>)" using assms(2) by (simp add: console_typed_def buf_typed_def)
  obtain h1 where h1: "check_fromhost env (h\<lparr>htif_lock := - 1\<rparr>) = Some h1"
    and r: "r = htif_console_buf h1 - 1"
    and h': "if 0 \<le> sint (htif_console_buf h1)
      then \<exists>h2. set_tohost env 1 0 0 (h1\<lparr>htif_console_buf := - 1\<rparr>) = Some h2 \<and> h' = spinlock_unlock h2
      else h' = spinlock_unlock h1"
    using assms by (auto simp: htif_console_getchar_def spinlock_lock_def Let_def bind_eq_Some_conv console_typed_def split: if_splits)
  have t1: "buf_typed h1" using check_fromhost_typed [OF h1 P] by simp
  have "sint (htif_console_buf h1 - 1) = sint (htif_console_buf h1) - 1"
  proof -
    have "sint (htif_console_buf h1 - 1) = signed_take_bit 31 (sint (htif_console_buf h1) - 1)"
      by (simp add: sint_word_ariths)
    also have "\<dots> = sint (htif_console_buf h1) - 1"
      by (rule signed_take_bit_int_eq_self) (use t1 in \<open>simp_all add: buf_typed_def\<close>)
    finally show ?thesis .
  qed
  then have "sint r \<in> {- 2..255}" using t1 r by (auto simp: buf_typed_def)
  moreover have "console_typed h'"
  proof (cases "0 \<le> sint (htif_console_buf h1)")
    case True
    then obtain h2 where "set_tohost env 1 0 0 (h1\<lparr>htif_console_buf := - 1\<rparr>) = Some h2" "h' = spinlock_unlock h2"
      using h' by auto
    moreover have "buf_typed (h1\<lparr>htif_console_buf := - 1\<rparr>)" by (simp add: buf_typed_def)
    ultimately show ?thesis using set_tohost_typed by (fastforce simp: console_typed_def spinlock_unlock_def buf_typed_def)
  next
    case False
    then show ?thesis using h' t1 by (simp add: console_typed_def spinlock_unlock_def buf_typed_def)
  qed
  ultimately show ?thesis by simp
qed

lemma locked_typed: "console_typed h \<Longrightarrow> spinlock_lock h = Some (h\<lparr>htif_lock := - 1\<rparr>) \<and> buf_typed (h\<lparr>htif_lock := - 1\<rparr>)"
  by (simp add: spinlock_lock_def console_typed_def buf_typed_def)

lemma unlock_typed: "buf_typed h \<Longrightarrow> console_typed (spinlock_unlock h)"
  by (simp add: spinlock_unlock_def console_typed_def buf_typed_def)

lemma htif_step_typed:
  assumes "htif_step env c h = Some (r, h')" "console_typed h"
  shows "console_typed h' \<and> (\<forall>v. r = Some v \<longrightarrow> sint v \<in> {- 2..255})"
proof (cases c)
  case Getchar
  then show ?thesis using assms getchar_typed by fastforce
next
  case (Putchar ch)
  then show ?thesis
    using assms locked_typed [OF assms(2)] unlock_typed set_tohost_typed
    by (fastforce simp: htif_console_putchar_def)
next
  case (Syscall a)
  then obtain h1 h2 where "set_tohost env 0 0 a (h\<lparr>htif_lock := - 1\<rparr>) = Some h1" "await_fromhost env 0 0 h1 = Some h2"
      "h' = spinlock_unlock h2" "r = None"
    using assms locked_typed [OF assms(2)] by (auto simp: htif_syscall_def do_tohost_fromhost_def bind_eq_Some_conv)
  then show ?thesis
    using locked_typed [OF assms(2)] unlock_typed set_tohost_typed await_fromhost_typed by blast
qed

section \<open>Properties\<close>

text \<open>C32: The host console is well typed over every sequence of calls, whatever the host does: between calls the
  lock is free and the buffer is -1, 0 or one more than a byte, so a read returns a byte, -1 before anything
  was asked for, or -2 while a request is open.\<close>

theorem htif_console_stays_typed:
  assumes "console_typed h" "htif_run env cs h = Some (rs, h')"
  shows "console_typed h' \<and> (\<forall>v. Some v \<in> set rs \<longrightarrow> sint v \<in> {- 2..255})"
  using assms
proof (induction cs arbitrary: h rs)
  case (Cons c cs)
  then obtain r h1 rs1 where step: "htif_step env c h = Some (r, h1)" "htif_run env cs h1 = Some (rs1, h')" "rs = r # rs1"
    by (auto simp: bind_eq_Some_conv)
  note t = htif_step_typed [OF step(1) Cons.prems(1)]
  have "console_typed h' \<and> (\<forall>v. Some v \<in> set rs1 \<longrightarrow> sint v \<in> {- 2..255})"
    by (rule Cons.IH [OF _ step(2)]) (use t in simp)
  then show ?case using t step(3) by auto
qed simp

lemma set_tohost_ready:
  "to_reads env (to_ticks h) = 0 \<Longrightarrow> set_tohost env dev cmd data h =
    Some (h\<lparr>to_ticks := to_ticks h + 1, writes := writes h @ [Tohost (HTIF_CMD dev cmd data)]\<rparr>)"
  by (subst set_tohost.simps) (simp add: read_tohost_def write_host_def)

text \<open>A host that is silent, and one that answers with the letter A.\<close>

lemma htif_console_stays_typed_witness:
  "htif_run \<lparr>to_reads = \<lambda>_. 0, from_reads = \<lambda>k. if k = 2 then HTIF_CMD 1 0 65 else 0\<rparr> [Getchar, Getchar, Getchar, Putchar 66]
     \<lparr>to_ticks = 0, from_ticks = 0, writes = [], htif_console_buf = 0, htif_lock = 0\<rparr> =
   Some ([Some (- 1), Some (- 2), Some 65, None],
     \<lparr>to_ticks = 3, from_ticks = 3,
      writes = [Tohost (HTIF_CMD 1 0 0), Fromhost 0, Tohost (HTIF_CMD 1 0 0), Tohost (HTIF_CMD 1 1 66)],
      htif_console_buf = - 1, htif_lock = 0\<rparr>) \<and>
   sint (- 2 :: u32) \<in> {- 2..255}"
proof -
  let ?h = "\<lparr>to_ticks = 0, from_ticks = 0, writes = [], htif_console_buf = 0, htif_lock = 0\<rparr>"
  let ?env = "\<lparr>to_reads = \<lambda>_. 0, from_reads = \<lambda>k. if k = 2 then HTIF_CMD 1 0 65 else 0\<rparr>"
  have letter: "HTIF_CMD 1 0 65 \<noteq> 0" "FROMHOST_DEV (HTIF_CMD 1 0 65) = 1" "FROMHOST_CMD (HTIF_CMD 1 0 65) = 0"
    "FROMHOST_DATA (HTIF_CMD 1 0 65) = 65"
    by (simp_all add: HTIF_CMD_def FROMHOST_DEV_def FROMHOST_CMD_def FROMHOST_DATA_def push_bit_eq_mult drop_bit_eq_div)
  note defs = htif_console_getchar_def htif_console_putchar_def spinlock_lock_def spinlock_unlock_def check_fromhost_def
    read_fromhost_def read_tohost_def write_host_def set_tohost_ready
  have one: "htif_console_getchar ?env ?h =
      Some (- 1, ?h\<lparr>to_ticks := 1, from_ticks := 1, writes := [Tohost (HTIF_CMD 1 0 0)], htif_console_buf := - 1\<rparr>)"
    by (simp add: defs)
  have two: "htif_console_getchar ?env (?h\<lparr>to_ticks := 1, from_ticks := 1, writes := [w], htif_console_buf := - 1\<rparr>) =
      Some (- 2, ?h\<lparr>to_ticks := 1, from_ticks := 2, writes := [w], htif_console_buf := - 1\<rparr>)" for w
    by (simp add: defs)
  have three: "htif_console_getchar ?env (?h\<lparr>to_ticks := 1, from_ticks := 2, writes := [w], htif_console_buf := - 1\<rparr>) =
      Some (65, ?h\<lparr>to_ticks := 2, from_ticks := 3, writes := [w, Fromhost 0, Tohost (HTIF_CMD 1 0 0)], htif_console_buf := - 1\<rparr>)" for w
    by (simp add: defs letter)
  have four: "htif_console_putchar ?env 66 (?h\<lparr>to_ticks := 2, from_ticks := 3, writes := w, htif_console_buf := - 1\<rparr>) =
      Some (?h\<lparr>to_ticks := 3, from_ticks := 3, writes := w @ [Tohost (HTIF_CMD 1 1 66)], htif_console_buf := - 1\<rparr>)" for w
    by (simp add: defs)
  have run: "htif_run ?env [Getchar, Getchar, Getchar, Putchar 66] ?h =
    Some ([Some (- 1), Some (- 2), Some 65, None],
      \<lparr>to_ticks = 3, from_ticks = 3,
       writes = [Tohost (HTIF_CMD 1 0 0), Fromhost 0, Tohost (HTIF_CMD 1 0 0), Tohost (HTIF_CMD 1 1 66)],
       htif_console_buf = - 1, htif_lock = 0\<rparr>)"
    using one two three four by simp
  have "console_typed ?h" by (simp add: console_typed_def buf_typed_def)
  from htif_console_stays_typed [OF this run, THEN conjunct2, rule_format, of "- 2"] run show ?thesis by simp
qed

end
