(* ===== verification/Startup.thy ===== *)
theory Startup
  imports Printf Devices Randomart
begin

text \<open>
  The start of the monitor on a hart (\<open>sm/init.c\<close>, \<open>sm/logo.c\<close>, the platform \<open>common/platform/riscy.c\<close>): control
  registers, the device tree that is handed on, interrupt controllers, and the switch to supervisor mode.
  The state is the monitor's memory and control registers, the machine set up from the device tree
  (\<open>machine\<close> of \<open>Fdt\<close>, whose \<open>hls\<close> are the harts' local storage) and the pointer \<open>uart\<close>. Device registers
  are locations of the memory. A hart that leaves for supervisor mode is its entry point, two arguments and
  the state; a failed \<open>assert\<close> and an endless wait are \<open>None\<close>.
\<close>

section \<open>Constants\<close>

definition MEGAPAGE_SIZE :: u64 where "MEGAPAGE_SIZE = push_bit 9 4096"
definition platform__disabled_hart_mask :: u64 where "platform__disabled_hart_mask = 0"
definition MENTRY_FRAME_SIZE :: u64 where "MENTRY_FRAME_SIZE = 32 * 8 + 0 + 64"

definition INSERT_FIELD :: "u64 \<Rightarrow> u64 \<Rightarrow> u64 \<Rightarrow> u64" where
  "INSERT_FIELD val which fieldval = (val AND NOT which) OR (fieldval * (which AND NOT (which - 1)))"

abbreviation "CSR_medeleg \<equiv> 0x302 :: u64"
abbreviation "CSR_mideleg \<equiv> 0x303 :: u64"
abbreviation "CSR_mcounteren \<equiv> 0x306 :: u64"
abbreviation "CSR_scounteren \<equiv> 0x106 :: u64"
abbreviation "CSR_mscratch \<equiv> 0x340 :: u64"
abbreviation "CSR_pmpcfg0 \<equiv> 0x3a0 :: u64"
abbreviation "CSR_pmpaddr0 \<equiv> 0x3b0 :: u64"
abbreviation "CSR_sptbr \<equiv> 0x180 :: u64"
abbreviation "CSR_mhartid \<equiv> 0xF14 :: u64"
abbreviation "MSTATUS_FS \<equiv> 0x6000 :: u64"
abbreviation "MSTATUS_MPIE \<equiv> 0x80 :: u64"
abbreviation "MIP_MSIP \<equiv> 0x8 :: u64"
abbreviation "MIP_SEIP \<equiv> 0x200 :: u64"
abbreviation "PRV_S \<equiv> 1 :: u64"

section \<open>A hart's control registers\<close>

definition mstatus_init :: "mstate \<Rightarrow> mstate" where
  "mstatus_init s =
     (let s = write_csr CSR_mstatus MSTATUS_FS s;
          s = write_csr CSR_scounteren (- 1) s;
          s = write_csr CSR_mcounteren (- 1) s;
          s = write_csr CSR_mie MIP_MSIP s
      in write_csr CSR_sptbr 0 s)"

definition delegate_traps :: "mstate \<Rightarrow> mstate option" where
  "delegate_traps s =
     (let interrupts = MIP_SSIP OR MIP_STIP OR MIP_SEIP; exceptions = 0;
          s = write_csr CSR_mideleg interrupts s;
          s = write_csr CSR_medeleg exceptions s
      in if csr s CSR_mideleg \<noteq> interrupts then None
         else if csr s CSR_medeleg \<noteq> exceptions then None
         else Some s)"

definition hart_init :: "mstate \<Rightarrow> mstate option" where
  "hart_init s = delegate_traps (mstatus_init s)"

definition memory_init :: "machine \<Rightarrow> machine" where
  "memory_init g = g\<lparr>mem_size := mem_size g div MEGAPAGE_SIZE * MEGAPAGE_SIZE\<rparr>"

section \<open>Interrupt controllers\<close>

text \<open>The loops \<open>for (i = i0; i <= n; i++)\<close> over 32-bit and \<open>for (i = 0; i < n; i++)\<close> over 64-bit registers.\<close>

partial_function (option) priorities_loop :: "u64 \<Rightarrow> u64 \<Rightarrow> u64 \<Rightarrow> mem \<Rightarrow> mem option" where
  "priorities_loop base n i m = (if i \<le> n then priorities_loop base n (i + 1) (st32 m (base + 4 * i) 1) else Some m)"

definition plic_init :: "machine \<Rightarrow> mem \<Rightarrow> mem option" where
  "plic_init g m = priorities_loop (plic_priorities g) (plic_ndevs g) 1 m"

partial_function (option) enable_loop :: "u64 \<Rightarrow> u64 \<Rightarrow> u64 \<Rightarrow> mem \<Rightarrow> mem option" where
  "enable_loop base n i m = (if i < n then enable_loop base n (i + 1) (st64 m (base + 8 * i) (- 1)) else Some m)"

definition local_storage :: "machine \<Rightarrow> u64 \<Rightarrow> hls_t option" where
  "local_storage g i = (if unat i < length (hls g) then Some (hls g ! unat i) else None)"

definition hart_plic_init :: "machine \<Rightarrow> mstate \<Rightarrow> mstate option" where
  "hart_plic_init g s =
     Option.bind (local_storage g (csr s CSR_mhartid)) (\<lambda>h.
       let s = s\<lparr>mem := st32 (mem s) (ipi h) 0\<rparr>;
           s = s\<lparr>mem := st64 (mem s) (timecmp h) (- 1)\<rparr>;
           s = write_csr CSR_mip 0 s
       in if plic_ndevs g = 0 then Some s
          else
           (let ie_words = plic_ndevs g div 8 + 1
            in map_option (\<lambda>m. s\<lparr>mem := st32 (st32 m (plic_m_thresh h) 1) (plic_s_thresh h) 0\<rparr>)
                 (enable_loop (plic_s_ie h) ie_words 0 (mem s))))"

definition wake_hart :: "machine \<Rightarrow> nat \<Rightarrow> mem \<Rightarrow> mem option" where
  "wake_hart g i m =
     (if srl64 (NOT platform__disabled_hart_mask AND Fdt.hart_mask g) (word_of_nat i) AND 1 \<noteq> 0
      then map_option (\<lambda>h. st32 m (ipi h) 1) (local_storage g (word_of_nat i))
      else Some m)"

definition wake_harts :: "machine \<Rightarrow> mem \<Rightarrow> mem option" where
  "wake_harts g m = fold (\<lambda>i m. Option.bind m (wake_hart g i)) [0..<NUM_HARTS] (Some m)"

section \<open>The device tree of the payload\<close>

definition dtb_output :: "u64 \<Rightarrow> u64" where
  "dtb_output payload_end = (payload_end + MEGAPAGE_SIZE - 1) div MEGAPAGE_SIZE * MEGAPAGE_SIZE"

definition filter_dtb :: "hart_filter \<Rightarrow> plic_scan \<Rightarrow> u64 \<Rightarrow> u64 \<Rightarrow> mem \<Rightarrow> mem option" where
  "filter_dtb uh up payload_end source m =
     (let dest = dtb_output payload_end; size' = fdt_size m source
      in Option.bind (memcpy m dest source (ucast size')) (\<lambda>m.
         Option.bind (filter_harts uh dest platform__disabled_hart_mask m) (\<lambda>m.
         Option.bind (filter_plic up dest m) (\<lambda>m.
         Option.bind (filter_compat dest (lit ''riscv,clint0'') m) (\<lambda>m.
         filter_compat dest (lit ''riscv,debug-013'') m)))))"

section \<open>The banner (logo.c)\<close>

text \<open>The buffer \<open>str\<close> goes through the calls; a literal is passed with its terminator.\<close>

definition say :: "trap_env \<Rightarrow> string \<Rightarrow> u8 list \<times> mstate \<Rightarrow> (u8 list \<times> mstate) option" where
  "say env t st = (case st of (str, s) \<Rightarrow> map_option (Pair str) (putstring env (lit t @ [0]) s))"

definition say_format :: "trap_env \<Rightarrow> string \<Rightarrow> u64 list \<Rightarrow> u8 list \<times> mstate \<Rightarrow> (u8 list \<times> mstate) option" where
  "say_format env t args st =
     (case st of (str, s) \<Rightarrow>
       Option.bind (snprintf (mem s) str 256 (lit t) args) (\<lambda>(_, str).
         map_option (Pair str) (putstring env str s)))"

definition say_randomart :: "trap_env \<Rightarrow> u8 list \<Rightarrow> string \<Rightarrow> u8 list \<times> mstate \<Rightarrow> (u8 list \<times> mstate) option" where
  "say_randomart env input t st =
     (case st of (str, s) \<Rightarrow>
       Option.bind (randomart input) (\<lambda>art.
         if length str < length art then None
         else
           let str = lit art @ drop (length art) str
           in Option.bind (say env t (str, s)) (\<lambda>(str, s). map_option (Pair str) (putstring env str s))))"

definition newline :: string where "newline = [CHR 0x0A]"

definition say_csr :: "trap_env \<Rightarrow> string \<Rightarrow> u64 \<Rightarrow> u8 list \<times> mstate \<Rightarrow> (u8 list \<times> mstate) option" where
  "say_csr env t r st = say_format env (t @ newline) [csr (snd st) r] st"

definition print_logo :: "trap_env \<Rightarrow> u8 list \<Rightarrow> u8 list \<Rightarrow> u8 list \<Rightarrow> mstate \<Rightarrow> mstate option" where
  "print_logo env str sm_h pk_sm s =
     map_option snd
      (fold (\<lambda>f st. Option.bind st f)
        [say env (''MIT SANCTUM SECURITY MONITOR'' @ newline),
         say env (''============================'' @ newline),
         say_format env (''  A Sanctum processor with up to %d harts and 0x%x Bytes of DRAM (%d MB).'' @ newline)
           [1, 0xFFFFFFFF80000000, 2048],
         say_format env
           (''  This processor implements %d protection domains, each of size 0x%x Bytes. (%d MB)'' @ newline)
           [64, 0x2000000, 32],
         say env (''  This security monitor's hash is '' @ newline @ newline),
         say_randomart env sm_h (''+--[ SHA3  512 ]--+'' @ newline),
         say env newline,
         say env (''  This security monitor's public key (PK_SM) is: '' @ newline @ newline),
         say_randomart env pk_sm (''+--[ED25519 256]--+'' @ newline),
         say env (newline @ ''Sanctum CSRs at boot:'' @ newline),
         say env (''====================='' @ newline),
         say_csr env ''  CSR MEVBASE:   0x%lx'' 0x7c0, say_csr env ''  CSR MEVMASK:   0x%lx'' 0x7c1,
         say_csr env ''  CSR MEATP:     0x%lx'' 0x7c2, say_csr env ''  CSR MMRBM:     0x%lx'' 0x7c3,
         say_csr env ''  CSR MEMRBM:    0x%lx'' 0x7c4, say_csr env ''  CSR MPARBASE:  0x%lx'' 0x7c5,
         say_csr env ''  CSR MPARMASK:  0x%lx'' 0x7c6, say_csr env ''  CSR MEPARBASE: 0x%lx'' 0x7c7,
         say_csr env ''  CSR MEPARMASK: 0x%lx'' 0x7c8,
         say env (newline @ ''Have a nice day!'' @ newline),
         say env (''============================'' @ newline)]
        (Some (str, s)))"

section \<open>Leaving for supervisor mode\<close>

record entry_state =
  entry_pc :: u64
  entry_a0 :: u64
  entry_a1 :: u64
  entry_machine :: mstate

definition enter_supervisor_mode :: "u64 \<Rightarrow> u64 \<Rightarrow> u64 \<Rightarrow> u64 \<Rightarrow> mstate \<Rightarrow> entry_state" where
  "enter_supervisor_mode stack_top fn arg0 arg1 s =
     (let s = write_csr CSR_pmpaddr0 (- 1) s;
          s = write_csr CSR_pmpcfg0 (0x18 OR 0x01 OR 0x02 OR 0x04) s;
          mstatus = csr s CSR_mstatus;
          mstatus = INSERT_FIELD mstatus MSTATUS_MPP PRV_S;
          mstatus = INSERT_FIELD mstatus MSTATUS_MPIE 0;
          s = write_csr CSR_mstatus mstatus s;
          s = write_csr CSR_mscratch (stack_top - MENTRY_FRAME_SIZE) s;
          s = write_csr CSR_mepc fn s
      in \<lparr>entry_pc = fn, entry_a0 = arg0, entry_a1 = arg1, entry_machine = s\<rparr>)"

text \<open>\<open>entry k\<close> is what the \<open>k\<close>-th read of \<open>entry_point\<close> returns.\<close>

partial_function (option) await_entry :: "(nat \<Rightarrow> u64) \<Rightarrow> nat \<Rightarrow> u64 option" where
  "await_entry entry k = (if entry k = 0 then await_entry entry (k + 1) else Some (entry k))"

definition boot_other_hart :: "(nat \<Rightarrow> u64) \<Rightarrow> u64 \<Rightarrow> u64 \<Rightarrow> mstate \<Rightarrow> entry_state option" where
  "boot_other_hart entry stack_top payload_end s =
     map_option (\<lambda>e. enter_supervisor_mode stack_top e (csr s CSR_mhartid) (dtb_output payload_end) s)
       (await_entry entry 0)"

definition init_other_hart :: "(nat \<Rightarrow> u64) \<Rightarrow> u64 \<Rightarrow> u64 \<Rightarrow> machine \<Rightarrow> mstate \<Rightarrow> entry_state option" where
  "init_other_hart entry stack_top payload_end g s =
     Option.bind (hart_init s) (\<lambda>s.
     Option.bind (hart_plic_init g s) (boot_other_hart entry stack_top payload_end))"

text \<open>What \<open>boot_loader\<close> and \<open>init_first_hart\<close> take from outside: the console, the symbols of the linker script,
  the objects filled by the boot loader, and the contents of local variables before they are set.\<close>

record boot_env =
  console_env :: trap_env
  payload_start :: u64
  payload_end :: u64
  self :: u64
  sm_hash :: "u8 list"
  sm_key :: "u8 list"
  unset_str :: "u8 list"
  unset_mem :: mem_scan
  unset_clint :: clint_scan
  unset_plic :: plic_scan
  unset_uart :: uart_scan
  unset_harts :: hart_filter
  unset_filter_plic :: plic_scan

text \<open>\<open>entry_point\<close> is set before it is awaited.\<close>

definition boot_loader :: "boot_env \<Rightarrow> u64 \<Rightarrow> mstate \<Rightarrow> entry_state option" where
  "boot_loader env dtb s =
     Option.bind (filter_dtb (unset_harts env) (unset_filter_plic env) (payload_end env) dtb (mem s)) (\<lambda>m.
     Option.bind (print_logo (console_env env) (unset_str env) (sm_hash env) (sm_key env) (s\<lparr>mem := m\<rparr>)) (\<lambda>s.
     boot_other_hart (\<lambda>_. payload_start env) (machine_stack_top (console_env env)) (payload_end env) s))"

definition on_mem :: "(mem \<Rightarrow> mem option) \<Rightarrow> mstate \<Rightarrow> mstate option" where
  "on_mem f s = map_option (\<lambda>m. s\<lparr>mem := m\<rparr>) (f (mem s))"

definition init_first_hart :: "boot_env \<Rightarrow> u64 \<Rightarrow> u64 \<times> machine \<times> mstate \<Rightarrow> entry_state option" where
  "init_first_hart env dtb st =
     (case st of (u, g, s) \<Rightarrow>
       Option.bind (hart_init s) (\<lambda>s.
       let g = hls_init 0 g in
       Option.bind (query_uart (unset_uart env) dtb (mem s, u)) (\<lambda>(m, u).
       Option.bind (query_mem (self env) (unset_mem env) dtb (m, g)) (\<lambda>(m, g).
       Option.bind (query_harts (csr s CSR_mhartid) dtb (m, g)) (\<lambda>(m, g).
       Option.bind (query_clint (unset_clint env) dtb (m, g)) (\<lambda>(m, g).
       Option.bind (query_plic (unset_plic env) dtb (m, g)) (\<lambda>(m, g).
       Option.bind (on_mem (wake_harts g) (s\<lparr>mem := m\<rparr>)) (\<lambda>s.
       Option.bind (on_mem (plic_init g) s) (\<lambda>s.
       Option.bind (hart_plic_init g s) (\<lambda>s.
       let g = memory_init g in
       boot_loader (env\<lparr>console_env := (console_env env)\<lparr>uart := u\<rparr>\<rparr>) dtb s))))))))))"

section \<open>The loops end\<close>

lemma fill_word: "st64 m a (- 1) = fill m a 8 0xFF"
proof -
  have "word_bytes (- 1) = replicate 8 0xFF"
  proof (rule nth_equalityI)
    fix i assume "i < length (word_bytes (- 1))"
    then have i: "i < 8" by (simp add: word_bytes_def)
    have "ucast (drop_bit (8 * i) (- 1 :: u64)) = (- 1 :: u8)"
      by (rule bit_word_eqI) (use i in \<open>auto simp: bit_ucast_iff bit_drop_bit_eq bit_mask_iff\<close>)
    then show "word_bytes (- 1) ! i = replicate 8 0xFF ! i" using i by (simp add: word_bytes_def)
  qed (simp add: word_bytes_def)
  then show ?thesis by (simp only: st64_eq_st_bytes fill_def)
qed

lemma enable_loop_fill:
  assumes "i \<le> n" "n \<le> 2 ^ 61"
  shows "enable_loop base (word_of_nat n) (word_of_nat i) m = Some (fill m (base + 8 * word_of_nat i) (8 * (n - i)) 0xFF)"
  using assms(1)
proof (induction "n - i" arbitrary: i m)
  case 0
  then show ?case by (subst enable_loop.simps) (simp add: fill_def)
next
  case (Suc k)
  then have i: "i < n" "Suc i \<le> n" "k = n - Suc i" by simp_all
  have "unat (word_of_nat i :: u64) = i" "unat (word_of_nat n :: u64) = n"
    using i(1) assms(2) by (simp_all add: unat_of_nat64)
  then have lt: "word_of_nat i < (word_of_nat n :: u64)" unfolding word_less_nat_alt using i(1) by simp
  have "fill m (base + 8 * word_of_nat i) (8 * (n - i)) 0xFF =
      fill (st64 m (base + 8 * word_of_nat i) (- 1)) (base + 8 * word_of_nat (Suc i)) (8 * (n - Suc i)) 0xFF"
  proof -
    have "8 * (n - i) = 8 + 8 * (n - Suc i)" using i(1) by simp
    moreover have "base + 8 * word_of_nat i + word_of_nat 8 = base + 8 * word_of_nat (Suc i)" by simp
    ultimately show ?thesis by (simp only: fill_word fill_add)
  qed
  moreover have "word_of_nat i + 1 = (word_of_nat (Suc i) :: u64)" by simp
  moreover have "enable_loop base (word_of_nat n) (word_of_nat i) m =
      enable_loop base (word_of_nat n) (word_of_nat i + 1) (st64 m (base + 8 * word_of_nat i) (- 1))"
    using lt by (subst enable_loop.simps) (simp only: if_True)
  ultimately show ?case using Suc.hyps(1) [OF i(3,2)] by (simp only:)
qed

lemma hart_plic_init_result:
  assumes "local_storage g (csr s CSR_mhartid) = Some h"
  defines "m0 \<equiv> st64 (st32 (mem s) (ipi h) 0) (timecmp h) (- 1)"
  shows "hart_plic_init g s =
    Some (write_csr CSR_mip 0 (s\<lparr>mem := if plic_ndevs g = 0 then m0
      else st32 (st32 (fill m0 (plic_s_ie h) (8 * (unat (plic_ndevs g) div 8 + 1)) 0xFF) (plic_m_thresh h) 1)
             (plic_s_thresh h) 0\<rparr>))"
proof -
  have le: "unat (plic_ndevs g) div 8 + 1 \<le> 2 ^ 61" using unat_less64 [of "plic_ndevs g"] by simp
  have "plic_ndevs g div 8 + 1 = word_of_nat (unat (plic_ndevs g) div 8 + 1)"
    by (simp add: word_arith_nat_div)
  then have "enable_loop (plic_s_ie h) (plic_ndevs g div 8 + 1) 0 m =
      Some (fill m (plic_s_ie h) (8 * (unat (plic_ndevs g) div 8 + 1)) 0xFF)" for m
    using enable_loop_fill [of 0 "unat (plic_ndevs g) div 8 + 1" "plic_s_ie h" m] le by (simp add: add.commute)
  then show ?thesis using assms(1) by (simp add: hart_plic_init_def m0_def write_csr_def Let_def)
qed

section \<open>Properties\<close>

text \<open>C34: The interrupt enables of a hart are initialised by 64-bit words, eight bytes for every eight devices, where
  one bit per device is meant: with 128 devices or more the loop sets enables of the next context, which
  begins 128 bytes further.\<close>

theorem hart_plic_init_overruns_context:
  assumes "local_storage g (csr s CSR_mhartid) = Some h" "128 \<le> unat (plic_ndevs g)"
    and "unat (a - (plic_s_ie h + 0x80)) < 8" "\<not> unat (a - plic_m_thresh h) < 4" "\<not> unat (a - plic_s_thresh h) < 4"
  shows "\<exists>t. hart_plic_init g s = Some t \<and> mem t a = 0xFF"
proof -
  let ?n = "8 * (unat (plic_ndevs g) div 8 + 1)"
  have n: "?n \<le> 2 ^ 64" "0x88 \<le> ?n"
    using unat_less64 [of "plic_ndevs g"] assms(2) by simp_all
  have "unat (a - plic_s_ie h) < 0x88"
    using assms(3) offset_iff [where k = "0x80" and n = 8 and b = a and a = "plic_s_ie h"] by simp
  then have "fill m (plic_s_ie h) ?n 0xFF a = 0xFF" for m using n by (simp add: fill_apply)
  moreover have "st32 m b v a = m a" if "\<not> unat (a - b) < 4" for m b v
    using that by (simp add: st32_def stn_apply)
  ultimately show ?thesis
    using hart_plic_init_result [OF assms(1)] assms(2,4,5) by (auto simp: write_csr_def)
qed


lemma hart_plic_init_overruns_context_witness:
  "\<forall>s :: mstate. \<exists>t. hart_plic_init
      \<lparr>mem_size = 0, mtime = 0, plic_priorities = 0xC000000, plic_ndevs = 128, hart_phandles = [1], hart_mask = 1,
       hls = [hls_zero\<lparr>plic_s_ie := 0xC002080, plic_m_thresh := 0xC200000, plic_s_thresh := 0xC201000\<rparr>]\<rparr>
      (s\<lparr>csr := \<lambda>_. 0\<rparr>) = Some t \<and> mem t 0xC002100 = 0xFF"
proof
  fix s :: mstate
  let ?g = "\<lparr>mem_size = 0, mtime = 0, plic_priorities = 0xC000000, plic_ndevs = 128, hart_phandles = [1], hart_mask = 1,
       hls = [hls_zero\<lparr>plic_s_ie := 0xC002080, plic_m_thresh := 0xC200000, plic_s_thresh := 0xC201000\<rparr>]\<rparr>"
  let ?h = "hls_zero\<lparr>plic_s_ie := 0xC002080, plic_m_thresh := 0xC200000, plic_s_thresh := 0xC201000\<rparr>"
  have "local_storage ?g (csr (s\<lparr>csr := \<lambda>_. 0\<rparr>) CSR_mhartid) = Some ?h" by (simp add: local_storage_def)
  from hart_plic_init_overruns_context [OF this, of "0xC002100"]
  show "\<exists>t. hart_plic_init ?g (s\<lparr>csr := \<lambda>_. 0\<rparr>) = Some t \<and> mem t 0xC002100 = 0xFF" by simp
qed

text \<open>C33: A hart that waits for the first one leaves for supervisor mode as soon as the entry point is
  set: at that point, with its number and the payload's device tree as arguments, previous privilege supervisor with
  interrupts off, no exception delegated and the supervisor's interrupts delegated, paging off. Without an
  entry point it waits for ever.\<close>

theorem waiting_hart_enters_payload:
  assumes "local_storage g (csr s CSR_mhartid) = Some h"
  shows "(\<forall>k. entry k \<noteq> 0 \<and> (\<forall>j<k. entry j = 0) \<longrightarrow>
      (\<exists>t. init_other_hart entry top' pend g s = Some t \<and>
        entry_pc t = entry k \<and> entry_a0 t = csr s CSR_mhartid \<and> entry_a1 t = dtb_output pend \<and>
        csr (entry_machine t) CSR_mepc = entry k \<and> csr (entry_machine t) CSR_mstatus = 0x6800 \<and>
        csr (entry_machine t) CSR_medeleg = 0 \<and> csr (entry_machine t) CSR_mideleg = 0x222 \<and>
        csr (entry_machine t) CSR_sptbr = 0)) \<and>
    ((\<forall>k. entry k = 0) \<longrightarrow> init_other_hart entry top' pend g s = None)"
proof -
  obtain s1 where s1: "hart_init s = Some s1" "csr s1 = (csr s)(CSR_mstatus := MSTATUS_FS, CSR_scounteren := - 1,
      CSR_mcounteren := - 1, CSR_mie := MIP_MSIP, CSR_sptbr := 0, CSR_mideleg := 0x222, CSR_medeleg := 0)"
    by (simp add: hart_init_def delegate_traps_def mstatus_init_def write_csr_def Let_def)
  have "local_storage g (csr s1 CSR_mhartid) = Some h" using assms s1(2) by simp
  from hart_plic_init_result [OF this] obtain s2 where s2: "hart_plic_init g s1 = Some s2" "csr s2 = (csr s1)(CSR_mip := 0)"
    by (auto simp: write_csr_def)
  have found: "await_entry entry 0 = Some (entry k)" if "entry k \<noteq> 0" "\<forall>j<k. entry j = 0" for k
  proof -
    have "j \<le> k \<Longrightarrow> await_entry entry (k - j) = Some (entry k)" for j
    proof (induction j)
      case 0
      then show ?case using that(1) by (subst await_entry.simps) simp
    next
      case (Suc j)
      then have "entry (k - Suc j) = 0" "k - Suc j + 1 = k - j" using that(2) by simp_all
      then show ?case using Suc by (subst await_entry.simps) simp
    qed
    from this [of k] show ?thesis by simp
  qed
  have lost: "await_entry entry 0 = None" if "\<forall>k. entry k = 0"
  proof -
    have "await_entry entry n = Some v \<Longrightarrow> False" for n v
    proof (rule await_entry.raw_induct [where P = "\<lambda>entry' n v. entry' = entry \<longrightarrow> False", rule_format])
      fix loop entry' n v
      assume ih: "\<And>entry' n v. loop entry' n = Some v \<Longrightarrow> entry' = entry \<Longrightarrow> False"
        and "(if entry' n = 0 then loop entry' (n + 1) else Some (entry' n)) = Some v" "entry' = entry"
      then show False using that by auto
    qed simp_all
    then show ?thesis by (cases "await_entry entry 0") auto
  qed
  have run: "init_other_hart entry top' pend g s =
      map_option (\<lambda>e. enter_supervisor_mode top' e (csr s2 CSR_mhartid) (dtb_output pend) s2) (await_entry entry 0)"
    by (simp add: init_other_hart_def s1(1) s2(1) boot_other_hart_def)
  have "csr s2 CSR_mhartid = csr s CSR_mhartid" by (simp add: s1(2) s2(2))
  then show ?thesis
    using found lost
    by (auto simp: run enter_supervisor_mode_def Let_def write_csr_def INSERT_FIELD_def s1(2) s2(2))
qed

lemma waiting_hart_enters_payload_witness:
  "\<forall>s :: mstate. \<exists>t. init_other_hart (\<lambda>k. if k < 3 then 0 else 0x80200000) 0 0x80400001
      \<lparr>mem_size = 0, mtime = 0, plic_priorities = 0, plic_ndevs = 0, hart_phandles = [1], hart_mask = 1, hls = [hls_zero]\<rparr>
      (s\<lparr>csr := \<lambda>_. 0\<rparr>) = Some t \<and> entry_pc t = 0x80200000 \<and> entry_a1 t = 0x80600000"
proof
  fix s :: mstate
  let ?g = "\<lparr>mem_size = 0, mtime = 0, plic_priorities = 0, plic_ndevs = 0, hart_phandles = [1], hart_mask = 1, hls = [hls_zero]\<rparr>"
  have "local_storage ?g (csr (s\<lparr>csr := \<lambda>_. 0\<rparr>) CSR_mhartid) = Some hls_zero" by (simp add: local_storage_def)
  from waiting_hart_enters_payload [OF this, of "\<lambda>k. if k < 3 then 0 else 0x80200000" 0 "0x80400001", THEN conjunct1, rule_format, of 3]
  show "\<exists>t. init_other_hart (\<lambda>k. if k < 3 then 0 else 0x80200000) 0 0x80400001 ?g (s\<lparr>csr := \<lambda>_. 0\<rparr>) = Some t \<and>
      entry_pc t = 0x80200000 \<and> entry_a1 t = 0x80600000"
    by (auto simp: dtb_output_def MEGAPAGE_SIZE_def)
qed

end
