(* ===== verification/Spec2Isabelle.thy ===== *)
theory Spec2Isabelle
  imports Aes Bootloader Fdt_Filter Vm Float_Emulation Startup
begin

text \<open>
  Verification development for the Sanctum security monitor and its bootloader.

  \<^bold>\<open>The program.\<close> A processor with isolated DRAM regions starts in a root of trust (\<open>src/root_of_trust\<close>),
  which checks a hash and enters the bootloader (\<open>src/bootloader\<close>). The bootloader hashes the security
  monitor, derives an attestation key pair from a device secret and the hash, certifies it
  with the device key, and starts the monitor. The monitor (\<open>src/sm\<close>) runs in machine mode: it initialises
  the hart from the device tree (\<open>init.c\<close>, \<open>machine/fdt.c\<close>, \<open>devices\<close>), leaves for the operating system
  in supervisor mode, and from then on is entered by traps (\<open>os_trap.c\<close>, \<open>enclave_trap.c\<close>). A trap is a call
  of the monitor's interface (\<open>public/api.h\<close>, \<open>monitor\<close>), an SBI service, an instruction to emulate
  (\<open>machine/emulation.c\<close>, \<open>machine/misaligned_ldst.c\<close>) or an event to redirect to the operating system. The
  calls move DRAM regions between owners, and create, measure, enter and delete enclaves, whose state lies in
  metadata regions. \<open>src/common\<close> has the cryptography (AES, SHA-3, Ed25519), the picture of a key,
  the C library and the formatter; both programs link it.

  \<^bold>\<open>Conventions.\<close> Integers have the width of the C type (\<open>u8\<close>, \<open>u32\<close>, \<open>u64\<close>, \<open>i32\<close>, \<open>i64\<close>: words whose
  arithmetic wraps). The target is RV64G, compiled as the repository's Makefile says, with one hart: shift
  amounts are reduced as the hardware does (\<open>sll64\<close>, \<open>srl64\<close>), memory is little-endian, an address is 64 bits
  wide and wraps. What the C code reaches through pointers lies in one byte memory (\<open>mem\<close>), so
  objects may overlap as they may in C; only the buffers of the cryptographic functions and of the
  formatter are lists, and their theories say which overlaps that excludes. Globals are fields of a record
  that an operation takes and returns. \<open>None\<close> is a call that does not return: a failed assertion, a panic, a
  loop that never ends, an access the C standard does not define. A result code is a value of the result
  type. A local that is read before it is set is an argument of the definition (\<open>unset\<close>, \<open>dram_region\<close>), so
  a theorem holds for all values it could have. Code outside the repository is an argument as well: the
  block hash of \<open>crypto/hash.h\<close> and the mailbox calls (prototypes without bodies), device registers,
  the host, the random number generator, the address translation behind an unprivileged access.

  \<^bold>\<open>Loops.\<close> A loop with a bound in its text is a recursion on that bound or on a list. A loop without one
  is a \<^theory_text>\<open>partial_function (option)\<close>, for which not returning is a value; no definition has fuel. That such a
  loop returns is then part of what is proved: the scanner of the device tree on every well-formed tree
  (\<open>filter_compat_prunes\<close>), the console wait when the host answers (\<open>console_liveness\<close>), the wait of a
  hart for its entry point (\<open>waiting_hart_enters_payload\<close>), the formatter (\<open>snprintf_prints_text\<close>), the
  interrupt controller loops (\<open>enable_loop_fill\<close>).

  \<^bold>\<open>Theories.\<close>

  \<^item> \<open>SM_Prelude\<close>: the integer types and shifts, word and list lemmas, the collections \<open>mem_simps\<close>,
    \<open>sm_defs\<close>, \<open>call_defs\<close>, and two interfaces. \<open>keyed_store\<close> is reading back what was written under a key,
    interpreted on bitmaps, the monitor's tables, the measurement block, enclave and thread structures.
    \<open>simulation\<close> is a step function with an abstraction into a step relation, with
    its lemmas on sequences of calls and invariants; it is interpreted on the region calls and on the dispatcher.
  \<^item> \<open>SM_Memory\<close>, \<open>CLib\<close>: the memory with its loads and stores, the C library of \<open>common/util\<close> on it
    (\<open>memcpy.c\<close>, \<open>memset.c\<close>, \<open>strlen.c\<close>, \<open>strcmp.c\<close> and \<open>string.c\<close>, which repeats them).
  \<^item> \<open>SM_Arch\<close>: \<open>sm/arch/*.h\<close>, range and bitmap arithmetic, the lock flag, control registers.
  \<^item> \<open>Monitor_State\<close>, \<open>Boot_Init\<close>, \<open>Dram_Region_Ops\<close>, \<open>Dram_Regions\<close>: the record \<open>mstate\<close> (memory, globals,
    control registers, flush count), \<open>monitor/boot_init.c\<close>, \<open>dram_regions_inl.h\<close>, \<open>dram_regions.c\<close>, \<open>cpu_core.c\<close>. The
    abstract specification of the region calls is the relation \<open>own_step\<close> on the map from regions to
    owners; \<open>region_calls_refine_protocol\<close> is the refinement, and the later properties (a blocked
    region stays blocked, the bitmap of the operating system follows the owners) are invariants over it.
  \<^item> \<open>Measure\<close>, \<open>Metadata\<close>, \<open>Page_Tables\<close>, \<open>Enclave_Calls\<close>: \<open>measure_inl.h\<close>, \<open>metadata.c\<close> and
    \<open>metadata_inl.h\<close>, \<open>page_tables.h\<close> and the walk of \<open>enclave_inl.h\<close>, \<open>enclave.c\<close> and \<open>enclave_init.c\<close>.
    The measurement is specified by a transcript of blocks, which the calls
    produce and which determines the enclave's initial contents; the walk by the direct reading of the three
    indices of an address.
  \<^item> \<open>Traps\<close>, \<open>Emulation\<close>: \<open>os_trap.c\<close>, \<open>enclave_trap.c\<close>, \<open>emulation.c\<close>, \<open>misaligned_ldst.c\<close>. The saved
    registers are a function from the index; emulated accesses are compared with the loads and stores
    of the memory.
  \<^item> \<open>Muldiv\<close>, \<open>Float_Emulation\<close>: \<open>muldiv_emulation.c\<close> against the M extension; \<open>fp_emulation.c\<close>, \<open>fp_emulation.h\<close> and
    \<open>fp_ldst.c\<close> with the SoftFloat library as the record \<open>softfloat\<close>: the choice of the rounding mode, signs, and what
    the conversions to integers yield. The build for rv64g leaves these files out; the interrupt and illegal instruction
    handlers of \<open>Emulation\<close> are those of that build.
  \<^item> \<open>Vm\<close>: \<open>machine/vm.c\<close> against the translation algorithm of the privileged architecture.
  \<^item> \<open>Fdt\<close>, \<open>Fdt_Scan\<close>, \<open>Fdt_Filter\<close>: \<open>machine/fdt.c\<close>. \<open>Fdt\<close> has the scanner and all its clients,
    \<open>Fdt_Scan\<close> the tree as a list of items, its encoding in memory and the interface \<open>fdt_editor\<close>, under which a
    scan is a traversal of the tree; \<open>Fdt_Filter\<close> interprets it on \<open>filter_compat\<close>.
  \<^item> \<open>Printf\<close>, \<open>Devices\<close>, \<open>Startup\<close>: \<open>snprintf.c\<close> and the printers of \<open>os_trap.c\<close>, \<open>devices/uart.c\<close> and
    \<open>devices/htif.c\<close>, \<open>init.c\<close> and \<open>logo.c\<close>. \<open>init_first_hart\<close> composes the device tree, the devices, the
    banner and the switch to supervisor mode.
  \<^item> \<open>Aes\<close>, \<open>Sha3\<close>, \<open>Randomart\<close>: \<open>common/aes/aes.c\<close> with the interface \<open>block_cipher\<close> (a decryption that
    inverts an encryption, interpreted on the cipher), \<open>common/sha3/sha3.c\<close> against FIPS 202, \<open>common/randomart.c\<close>.
  \<^item> \<open>Field25519\<close>, \<open>Field25519_Mul\<close>, \<open>Field25519_Bytes\<close>: \<open>common/ed25519/fe.c\<close>. \<open>fe_val\<close> is the integer
    that ten limbs represent, \<open>fe_bound\<close> the bounds the source comments state, under which no intermediate value
    wraps.
  \<^item> \<open>Scalar25519\<close>, \<open>Scalar25519_Reduce\<close>: \<open>sc.c\<close>; the interface \<open>limb_pass\<close> is a pass over the limbs with
    an interval transfer function, interpreted on the fold and on both carries.
  \<^item> \<open>Group25519_Tables\<close>, \<open>Group25519\<close>: \<open>precomp_data.h\<close>, \<open>ge.c\<close>. \<open>Edwards25519\<close> has the point arithmetic of RFC 8032
    over the integers modulo the prime (the type \<open>gf\<close>, a ring of the library's class) and shows that the
    operations of the code compute it, within their limb bounds, and stay on the curve; \<open>Scalarmult25519\<close> follows the
    multiplication of the base point, \<open>Point_Bytes25519\<close> the encoding and decoding of points.
  \<^item> \<open>Ed25519\<close>: \<open>keypair.c\<close>, \<open>sign.c\<close>, down to the equation between the parts of a signature.
  \<^item> \<open>Bootloader\<close>: \<open>root_of_trust.c\<close> and \<open>bootloader.c\<close>; the measured boot over the host console.

  \<^bold>\<open>Assumptions on the state.\<close> The properties of sequences of region calls start from \<open>os_state\<close>: the tables are
  well formed and fit into one stripe, the core runs no enclave, no region's owner is an enclave identifier, and each core's
  \<open>flushed_at\<close> word, at whose value the flush writes, points above the tables. The booted monitor does not satisfy
  two of these (\<open>flushed_at\<close> is 0, where the core table lies, and \<open>boot_init_protection\<close> panics
  because the tables exceed a stripe); \<open>flush_overwrites_caller_identity\<close> is what a flush does there. The refusals of
  the enclave calls need only \<open>no_enclave_owner\<close>, which the booted monitor does satisfy. The debug copy is
  not a region call: \<open>debug_copy_rewrites_tables\<close> shows how it leaves all these states.

  \<^bold>\<open>What fails.\<close> Several properties state what the code does where that is not what it means to do: no
  enclave id is valid unless the tables are overwritten, so the life cycle of an enclave cannot be entered; the calls of
  the operating system cannot give up a region; the flush that would let a blocked region be freed is recorded in the
  wrong place; the boot sequence panics in its last step; page table entries of the monitor are not those of the
  hardware; interrupt enables are written past their end; a debug copy may target the monitor's tables. They point to the
  lines in the manifest. All other properties of those components are about the code as it is, and hold with these defects.

  \<^bold>\<open>Not proved.\<close> That the addition on the curve is a group, which needs the primality of \<open>2^255 - 19\<close>, and that the
  768 field elements of \<open>precomp_data.h\<close> are the multiples of the base point: a product of two of them takes the kernel
  about a second. The statements about points are therefore about the RFC's formulas and the table as
  it is. The sliding windows of \<open>ge_double_scalarmult_vartime\<close>, which only a verification would call, are modelled and not
  followed further.

  \<^bold>\<open>Not modelled.\<close> Assembly (\<open>init.S\<close>, \<open>trap_or_interrupt.S\<close>, the entry of the root of trust,
  \<open>machine/fp_asm.S\<close>): the saving of registers and the routing of events are assumptions on the
  arguments of the handlers. The arithmetic of the SoftFloat library and of the compiler's run-time library: neither is in the repository, so
  no theorem is about the value of an emulated floating point operation. The branch of \<open>fp_emulation.h\<close> for a target
  with floating point registers is register access in assembly. Code under \<open>PK_PRINT_DEVICE_TREE\<close>, for compressed instructions, for 32-bit or big-endian
  targets and for other AES key lengths is not compiled. \<open>encoding.h\<close> is a generated list of
  constants, of which the theories have those the code uses. \<open>spike.c\<close> and \<open>sifive-vc707-devkit.c\<close> are alternatives
  of \<open>riscy.c\<close>; \<open>stdio.c\<close> is a second copy of \<open>snprintf.c\<close>, \<open>mailbox.c\<close> is empty. More than one hart at a time is not modelled: the build has
  one, and every lock is taken and released by the same call.
\<close>

end
